(* ===== verification/Ptz_Prelude.thy ===== *)
theory Ptz_Prelude
  imports Main "HOL-Library.Word" "HOL-Library.Monad_Syntax"
begin

text \<open>
  Shared vocabulary of the development.

  \<^item> The C integer types of \<^verbatim>\<open>stdint.h\<close> as fixed-width words, so that wrap-around, masking and
    the usual arithmetic conversions are those of the machine.
  \<^item> A C object that is read or written through a pointer is a list of bytes. A pointer into it is
    the list that starts at the pointer. \<open>load8\<close>, \<open>loadn\<close> and \<open>storen\<close> return \<open>None\<close> for an
    access outside the object: \<open>None\<close> is undefined behaviour of the C program, never an error code.
  \<^item> Little-endian encoding of words (\<^verbatim>\<open>pragma pack(1)\<close> structs on a little-endian CPU) and its
    round trips.
  \<^item> The live objects of the program's memory, pointers into them, and dereferencing.
  \<^item> Singly linked lists whose nodes live in a store and are threaded by a \<^verbatim>\<open>psNext\<close> field: the
    append loop that \<^verbatim>\<open>alink_order.c\<close>, \<^verbatim>\<open>alink_package.c\<close> and \<^verbatim>\<open>alink_upload.c\<close> repeat, stated once
    for any node type by the locale \<open>linked_nodes\<close>.
\<close>

unbundle bit_operations_syntax

type_synonym u8 = "8 word"
type_synonym u16 = "16 word"
type_synonym u32 = "32 word"
type_synonym u64 = "64 word"
type_synonym i32 = int
type_synonym bytes = "u8 list"

named_theorems mem_simps \<open>accesses to C objects inside their bounds\<close>

subsection \<open>Bytes of C objects\<close>

definition load8 :: "bytes \<Rightarrow> nat \<Rightarrow> u8 option" where
  "load8 m i = (if i < length m then Some (m ! i) else None)"

definition loadn :: "bytes \<Rightarrow> nat \<Rightarrow> nat \<Rightarrow> bytes option" where
  "loadn m i n = (if i + n \<le> length m then Some (take n (drop i m)) else None)"

definition storen :: "bytes \<Rightarrow> nat \<Rightarrow> bytes \<Rightarrow> bytes option" where
  "storen m i bs =
     (if i + length bs \<le> length m then Some (take i m @ bs @ drop (i + length bs) m) else None)"

lemma load8_in [mem_simps]: "i < length m \<Longrightarrow> load8 m i = Some (m ! i)"
  by (simp add: load8_def)

lemma load8_eq_Some: "load8 m i = Some b \<longleftrightarrow> i < length m \<and> b = m ! i"
  by (auto simp: load8_def)

lemma load8_eq_None: "load8 m i = None \<longleftrightarrow> length m \<le> i"
  by (auto simp: load8_def)

lemma loadn_in [mem_simps]: "i + n \<le> length m \<Longrightarrow> loadn m i n = Some (take n (drop i m))"
  by (simp add: loadn_def)

lemma loadn_eq_Some: "loadn m i n = Some bs \<longleftrightarrow> i + n \<le> length m \<and> bs = take n (drop i m)"
  by (auto simp: loadn_def)

lemma storen_in [mem_simps]:
  "i + length bs \<le> length m \<Longrightarrow> storen m i bs = Some (take i m @ bs @ drop (i + length bs) m)"
  by (simp add: storen_def)

lemma storen_eq_None: "storen m i bs = None \<longleftrightarrow> length m < i + length bs"
  by (auto simp: storen_def)

lemma storen_length: "storen m i bs = Some m' \<Longrightarrow> length m' = length m"
  by (auto simp: storen_def split: if_splits)

lemma storen_loadn: "storen m i bs = Some m' \<Longrightarrow> loadn m' i (length bs) = Some bs"
  by (auto simp: storen_def loadn_def split: if_splits)

lemma storen_frame:
  "storen m i bs = Some m' \<Longrightarrow> j < i \<or> i + length bs \<le> j \<Longrightarrow> load8 m' j = load8 m j"
  by (auto simp: storen_def load8_def nth_append split: if_splits)

lemma sum_list_upd:
  fixes xs :: "'a::ab_group_add list"
  shows "i < length xs \<Longrightarrow> sum_list (xs[i := b]) = sum_list xs + b - xs ! i"
  by (induction xs arbitrary: i) (auto simp: nth_Cons split: nat.splits)

subsection \<open>Words and naturals\<close>

lemma unat_of_nat_small: "n < 2 ^ LENGTH('a) \<Longrightarrow> unat (of_nat n :: 'a::len word) = n"
  by (simp add: unat_of_nat)

lemma ucast_of_nat_small:
  "n < 2 ^ LENGTH('a) \<Longrightarrow> (ucast (of_nat n :: 'a::len word) :: 'b::len word) = of_nat n"
  by (metis of_nat_unat unat_of_nat_small)

lemma unat_u8_less: "unat (b :: u8) < 256"
  using unsigned_less [of b] by simp

lemma unat_u16_less: "unat (w :: u16) < 65536"
  using unsigned_less [of w] by simp

lemma sint_small:
  assumes "unat (w :: u32) < 2147483648"
  shows "sint w = int (unat w)"
proof -
  have eq: "int (unat w) = uint w" by simp
  have "uint w < 2147483648" unfolding eq [symmetric] using assms by linarith
  moreover have "- 2147483648 \<le> uint w" by (rule order_trans [of _ 0]) simp_all
  ultimately have "signed_take_bit 31 (uint w) = uint w"
    by (intro signed_take_bit_int_eq_self) simp_all
  moreover have "LENGTH(32) - Suc 0 = (31 :: nat)" by simp
  ultimately show ?thesis by (simp only: sint_uint eq)
qed

lemma unat_ucast_u16: "unat (ucast (x :: u16) :: u32) = unat x"
  by transfer (simp add: take_bit_take_bit min_def)

lemma unat_join_u8: "unat (push_bit 8 (ucast (hi::u8)) OR ucast (lo::u8) :: u16) = 256 * unat hi + unat lo"
proof -
  have "(push_bit 8 (ucast hi) OR ucast lo :: u16) = push_bit 8 (ucast hi) + ucast lo"
    by (rule disjunctive_add [symmetric]) (auto simp: bit_simps dest: bit_imp_le_length)
  also have "\<dots> = of_nat (256 * unat hi + unat lo)"
    by (simp add: push_bit_eq_mult mult.commute)
  also have "unat \<dots> = 256 * unat hi + unat lo"
    using unat_u8_less [of hi] unat_u8_less [of lo] by (intro unat_of_nat_small) simp
  finally show ?thesis .
qed

subsection \<open>Little-endian words\<close>

primrec le_bytes :: "nat \<Rightarrow> 'a::len word \<Rightarrow> bytes" where
  "le_bytes 0 w = []"
| "le_bytes (Suc n) w = ucast w # le_bytes n (drop_bit 8 w)"

primrec of_le :: "bytes \<Rightarrow> 'a::len word" where
  "of_le [] = 0"
| "of_le (b # bs) = (ucast b OR push_bit 8 (of_le bs))"

lemma length_le_bytes [simp]: "length (le_bytes n w) = n"
  by (induction n arbitrary: w) auto

lemma bit_of_le:
  "bit (of_le bs :: 'a::len word) k \<longleftrightarrow>
     k < LENGTH('a) \<and> k < 8 * length bs \<and> bit (bs ! (k div 8)) (k mod 8)"
proof (induction bs arbitrary: k)
  case (Cons b bs)
  show ?case
  proof (cases "k < 8")
    case True
    then show ?thesis
      by (auto simp: bit_simps)
  next
    case False
    then have "k div 8 = Suc ((k - 8) div 8)" "(k - 8) mod 8 = k mod 8"
      by (simp_all add: le_div_geq le_mod_geq)
    with False Cons.IH [of "k - 8"] show ?thesis
      by (auto simp: bit_simps bit_word_ucast_iff dest: bit_imp_le_length)
  qed
qed simp

lemma nth_le_bytes: "i < n \<Longrightarrow> le_bytes n w ! i = ucast (drop_bit (8 * i) w)"
  by (induction n arbitrary: w i) (auto simp: less_Suc_eq_0_disj nth_Cons' add.commute)

lemma of_le_le_bytes:
  assumes "LENGTH('a) \<le> 8 * n"
  shows "of_le (le_bytes n (w :: 'a::len word)) = w"
proof (rule bit_word_eqI)
  fix k assume k: "k < LENGTH('a)"
  with assms have "k div 8 < n" by auto
  with k show "bit (of_le (le_bytes n w) :: 'a word) k = bit w k"
    using assms by (auto simp: bit_of_le nth_le_bytes bit_simps)
qed

lemma le_bytes_of_le:
  assumes "8 * length bs \<le> LENGTH('a)"
  shows "le_bytes (length bs) (of_le bs :: 'a::len word) = bs"
proof (rule nth_equalityI)
  fix i assume "i < length (le_bytes (length bs) (of_le bs :: 'a word))"
  then have i: "i < length bs" by simp
  show "le_bytes (length bs) (of_le bs :: 'a word) ! i = bs ! i"
  proof (rule bit_word_eqI)
    fix k assume "k < LENGTH(8)"
    then have k: "k < 8" by simp
    from i k assms have "8 * i + k < LENGTH('a)" "8 * i + k < 8 * length bs" by auto
    with i k show "bit (le_bytes (length bs) (of_le bs :: 'a word) ! i) k = bit (bs ! i) k"
      by (auto simp: nth_le_bytes bit_simps bit_of_le)
  qed
qed simp

subsection \<open>Live objects and pointers\<close>

text \<open>
  The memory the receive path sees: each live object has a number and its bytes. A pointer is an
  object and an offset; it dangles once its object is no longer live (a stack buffer whose frame is
  gone, a freed allocation). \<open>deref\<close> is the memory a pointer may read: \<open>None\<close> if it dangles.
\<close>

type_synonym heap = "nat \<rightharpoonup> bytes"

record ptr =
  obj :: nat
  off :: nat

definition ptr_add :: "ptr \<Rightarrow> nat \<Rightarrow> ptr" where
  "ptr_add p n = p\<lparr>off := off p + n\<rparr>"

definition deref :: "heap \<Rightarrow> ptr \<Rightarrow> bytes option" where
  "deref h p = (case h (obj p) of
      None \<Rightarrow> None
    | Some bs \<Rightarrow> if off p \<le> length bs then Some (drop (off p) bs) else None)"

lemma ptr_add_simps [simp]:
  "obj (ptr_add p n) = obj p" "off (ptr_add p n) = off p + n"
  by (simp_all add: ptr_add_def)

lemma ptr_add_ptr_add [simp]: "ptr_add (ptr_add p m) n = ptr_add p (m + n)"
  by (simp add: ptr_add_def)

lemma ptr_add_0 [simp]: "ptr_add p 0 = p"
  by (simp add: ptr_add_def)

lemma deref_dangling: "h (obj p) = None \<Longrightarrow> deref h p = None"
  by (simp add: deref_def)

lemma deref_in [mem_simps]:
  "h (obj p) = Some bs \<Longrightarrow> off p \<le> length bs \<Longrightarrow> deref h p = Some (drop (off p) bs)"
  by (simp add: deref_def)

lemma deref_add:
  "deref h p = Some m \<Longrightarrow> k \<le> length m \<Longrightarrow> deref h (ptr_add p k) = Some (drop k m)"
  by (auto simp: deref_def add.commute split: option.splits if_splits)

subsection \<open>Linked lists threaded through a store\<close>

text \<open>
  A store maps node addresses to nodes. \<open>append_walk\<close> is the loop
  \<^verbatim>\<open>for( ; now != new; now = now->psNext ) if( NULL == now->psNext ) { now->psNext = new; break; }\<close>
  with \<open>nxt\<close> and \<open>set_nxt\<close> the access to the node's \<^verbatim>\<open>psNext\<close>. On a cyclic list that misses \<open>new\<close>
  it does not return, which is \<open>None\<close>.
\<close>

type_synonym 'n store = "nat \<Rightarrow> 'n"

partial_function (option) append_walk ::
  "('n \<Rightarrow> nat option) \<Rightarrow> (nat option \<Rightarrow> 'n \<Rightarrow> 'n) \<Rightarrow> 'n store \<Rightarrow> nat \<Rightarrow> nat \<Rightarrow> 'n store option" where
  "append_walk nxt set_nxt st now new =
     (if now = new then Some st
      else case nxt (st now) of
             None \<Rightarrow> Some (st(now := set_nxt (Some new) (st now)))
           | Some n \<Rightarrow> append_walk nxt set_nxt st n new)"

text \<open>\<open>hlist nxt st p xs\<close>: from \<open>p\<close>, following \<open>nxt\<close> to the end visits exactly the addresses \<open>xs\<close>.\<close>

fun hlist :: "('n \<Rightarrow> nat option) \<Rightarrow> 'n store \<Rightarrow> nat option \<Rightarrow> nat list \<Rightarrow> bool" where
  "hlist nxt st p [] \<longleftrightarrow> p = None"
| "hlist nxt st p (x # xs) \<longleftrightarrow> p = Some x \<and> hlist nxt st (nxt (st x)) xs"

lemma hlist_None [simp]: "hlist nxt st None xs \<longleftrightarrow> xs = []"
  by (cases xs) auto

lemma hlist_Some: "hlist nxt st (Some a) xs \<longleftrightarrow> (\<exists>ys. xs = a # ys \<and> hlist nxt st (nxt (st a)) ys)"
  by (cases xs) auto

lemma hlist_unique: "hlist nxt st p xs \<Longrightarrow> hlist nxt st p ys \<Longrightarrow> xs = ys"
  by (induction xs arbitrary: p ys) (auto simp: hlist_Some)

lemma hlist_suffix: "hlist nxt st p (xs @ y # ys) \<Longrightarrow> hlist nxt st (Some y) (y # ys)"
  by (induction xs arbitrary: p) auto

lemma hlist_distinct: "hlist nxt st p xs \<Longrightarrow> distinct xs"
proof (induction xs arbitrary: p)
  case (Cons x xs)
  have "x \<notin> set xs"
  proof
    assume "x \<in> set xs"
    then obtain us vs where xs: "xs = us @ x # vs" by (auto simp: in_set_conv_decomp)
    from Cons.prems xs have "hlist nxt st (Some x) (x # us @ x # vs)" by auto
    moreover from this have "hlist nxt st (Some x) (x # vs)"
      using hlist_suffix [of nxt st "Some x" "x # us" x vs] by simp
    ultimately show False using hlist_unique by fastforce
  qed
  with Cons show ?case by auto
qed simp

lemma hlist_cong:
  "hlist nxt st p xs \<Longrightarrow> (\<And>x. x \<in> set xs \<Longrightarrow> nxt (st' x) = nxt (st x)) \<Longrightarrow> hlist nxt st' p xs"
  by (induction xs arbitrary: p) auto

text \<open>
  The search \<^verbatim>\<open>for( now = list; now; now = now->psNext ) if( test ) ... break;\<close>: the first node that
  passes the test, \<open>Some None\<close> when there is none, \<open>None\<close> when a cycle keeps it from ending.
\<close>

partial_function (option) find_walk ::
  "('n \<Rightarrow> nat option) \<Rightarrow> (nat \<Rightarrow> 'n \<Rightarrow> bool) \<Rightarrow> 'n store \<Rightarrow> nat option \<Rightarrow> nat option option" where
  "find_walk nxt P st p =
     (case p of
        None \<Rightarrow> Some None
      | Some a \<Rightarrow> if P a (st a) then Some (Some a) else find_walk nxt P st (nxt (st a)))"

lemma find_walk_hlist:
  "hlist nxt st p xs \<Longrightarrow> find_walk nxt P st p = Some (List.find (\<lambda>a. P a (st a)) xs)"
  by (induction xs arbitrary: p) (auto simp: find_walk.simps)

locale linked_nodes =
  fixes nxt :: "'n \<Rightarrow> nat option" and set_nxt :: "nat option \<Rightarrow> 'n \<Rightarrow> 'n"
  assumes nxt_set [simp]: "nxt (set_nxt p n) = p"
begin

text \<open>The loop of a well-formed list always ends; a new node becomes the last one.\<close>

lemma append_walk_fresh:
  assumes "hlist nxt st (Some now) xs" "new \<notin> set xs" "nxt (st new) = None"
  shows "\<exists>st'. append_walk nxt set_nxt st now new = Some st' \<and>
               hlist nxt st' (Some now) (xs @ [new]) \<and>
               (\<exists>l \<in> set xs. st' = st(l := set_nxt (Some new) (st l)))"
  using assms
proof (induction xs arbitrary: now)
  case (Cons x xs)
  then have x: "x = now" and rest: "hlist nxt st (nxt (st now)) xs" and ne: "now \<noteq> new" by auto
  show ?case
  proof (cases "nxt (st now)")
    case None
    with rest have "xs = []" by simp
    with None x ne Cons.prems(3) show ?thesis
      by (auto simp: append_walk.simps [of _ _ _ now])
  next
    case (Some n)
    with rest have "hlist nxt st (Some n) xs" by simp
    moreover from Cons.prems(2) have "new \<notin> set xs" by simp
    ultimately obtain st' l where st':
      "append_walk nxt set_nxt st n new = Some st'" "hlist nxt st' (Some n) (xs @ [new])"
      "l \<in> set xs" "st' = st(l := set_nxt (Some new) (st l))"
      using Cons.IH [of n] Cons.prems(3) by blast
    from Cons.prems(1) have "now \<notin> set xs" using x hlist_distinct by fastforce
    with st'(3,4) have "st' now = st now" by auto
    with st' Some x ne have "append_walk nxt set_nxt st now new = Some st'"
      "hlist nxt st' (Some now) ((x # xs) @ [new])" "l \<in> set (x # xs)"
      by (simp_all add: append_walk.simps [of _ _ _ now])
    with st'(4) show ?thesis by blast
  qed
qed simp

text \<open>Whatever the new node's own link is, the walk hangs the node behind the last one.\<close>

lemma append_walk_last:
  assumes "hlist nxt st (Some now) xs" "new \<notin> set xs"
  shows "append_walk nxt set_nxt st now new = Some (st(last xs := set_nxt (Some new) (st (last xs))))"
  using assms
proof (induction xs arbitrary: now)
  case (Cons x xs)
  then have x: "x = now" "now \<noteq> new" by auto
  show ?case
  proof (cases "nxt (st now)")
    case None
    with Cons.prems x show ?thesis by (auto simp: append_walk.simps [of _ _ _ now])
  next
    case (Some n)
    with Cons.prems x have "hlist nxt st (Some n) xs" "new \<notin> set xs" by auto
    with Cons.IH [of n] Some x show ?thesis by (auto simp: append_walk.simps [of _ _ _ now])
  qed
qed simp

text \<open>A node that is already linked is left where it is, and nothing changes.\<close>

lemma append_walk_present:
  assumes "hlist nxt st (Some now) xs" "new \<in> set xs"
  shows "append_walk nxt set_nxt st now new = Some st"
  using assms
proof (induction xs arbitrary: now)
  case (Cons x xs)
  show ?case
  proof (cases "now = new")
    case True
    then show ?thesis by (simp add: append_walk.simps)
  next
    case False
    with Cons.prems obtain n where "nxt (st now) = Some n" "hlist nxt st (Some n) xs" "new \<in> set xs"
      by (cases "nxt (st now)") auto
    with Cons.IH False show ?thesis by (simp add: append_walk.simps [of _ _ _ now])
  qed
qed simp

end

end
