(* ===== verification/Crc_X25.thy ===== *)
theory Crc_X25
  imports Ptz_Prelude
begin

text \<open>
  \<^verbatim>\<open>srv/alink/check/checksum.c\<close>: the table-free X.25 (MAVLink) checksum. \<open>crc_accumulate\<close> keeps
  C's integer promotions: the operands are promoted to \<open>int\<close> (32 bits here), and the assignment to
  \<^verbatim>\<open>uint8_t\<close> or \<^verbatim>\<open>uint16_t\<close> truncates. The loops read the buffer through a pointer; running past
  the object is \<open>None\<close>.

  Reference definition: the bit-serial shift register with the reflected polynomial \<open>0x8408\<close>. The
  theory shows that \<open>crc_accumulate\<close> computes eight shifts of it, that it is a bijection of the
  register, and hence that any error confined to one byte is detected.
\<close>

subsection \<open>The C functions\<close>

definition X25_INIT_CRC :: u16 where
  "X25_INIT_CRC = 0xffff"

definition crc_accumulate :: "u8 \<Rightarrow> u16 \<Rightarrow> u16" where
  "crc_accumulate data crcAccum =
     (let tmp = data XOR ucast (crcAccum AND 0xff);
          tmp = tmp XOR (ucast (push_bit 4 (ucast tmp :: u32)) :: u8)
      in ucast (drop_bit 8 (ucast crcAccum :: u32) XOR push_bit 8 (ucast tmp :: u32)
                XOR push_bit 3 (ucast tmp :: u32) XOR drop_bit 4 (ucast tmp :: u32)))"

definition alink_crc_init :: u16 where
  "alink_crc_init = X25_INIT_CRC"

text \<open>The loop \<^verbatim>\<open>while (length--) crc_accumulate(*p++, &crc)\<close>.\<close>

fun crc_loop :: "bytes \<Rightarrow> nat \<Rightarrow> u16 \<Rightarrow> u16 option" where
  "crc_loop p 0 crc = Some crc"
| "crc_loop [] (Suc n) crc = None"
| "crc_loop (b # p) (Suc n) crc = crc_loop p n (crc_accumulate b crc)"

definition crc_calculate :: "bytes \<Rightarrow> u16 \<Rightarrow> u16 option" where
  "crc_calculate pBuffer len = crc_loop pBuffer (unat len) alink_crc_init"

definition crc_accumulate_buffer :: "u16 \<Rightarrow> bytes \<Rightarrow> u16 \<Rightarrow> u16 option" where
  "crc_accumulate_buffer crcAccum pBuffer len = crc_loop pBuffer (unat len) crcAccum"

subsection \<open>Reference definition\<close>

text \<open>One shift of the register, and the register after a whole list of bytes.\<close>

definition crc_shift :: "u16 \<Rightarrow> u16" where
  "crc_shift x = (if bit x 0 then drop_bit 1 x XOR 0x8408 else drop_bit 1 x)"

definition crc_byte :: "u8 \<Rightarrow> u16 \<Rightarrow> u16" where
  "crc_byte b crc = (crc_shift ^^ 8) (crc XOR ucast b)"

definition crc_of :: "bytes \<Rightarrow> u16 \<Rightarrow> u16" where
  "crc_of bs crc = fold crc_accumulate bs crc"

subsection \<open>The loops\<close>

lemma crc_loop_in: "n \<le> length p \<Longrightarrow> crc_loop p n crc = Some (crc_of (take n p) crc)"
  by (induction p n crc rule: crc_loop.induct) (auto simp: crc_of_def)

lemma crc_loop_None: "crc_loop p n crc = None \<longleftrightarrow> length p < n"
  by (induction p n crc rule: crc_loop.induct) auto

lemma crc_calculate_in [mem_simps]:
  "unat len \<le> length p \<Longrightarrow> crc_calculate p len = Some (crc_of (take (unat len) p) X25_INIT_CRC)"
  by (simp add: crc_calculate_def crc_loop_in alink_crc_init_def)

lemma crc_calculate_None: "crc_calculate p len = None \<longleftrightarrow> length p < unat len"
  by (simp add: crc_calculate_def crc_loop_None)

lemma crc_of_append: "crc_of (xs @ ys) crc = crc_of ys (crc_of xs crc)"
  by (simp add: crc_of_def)

subsection \<open>Agreement with the shift register\<close>

lemma bit_8408: "bit (0x8408 :: u16) n \<longleftrightarrow> n = 3 \<or> n = 10 \<or> n = 15"
proof (cases "n < 16")
  case True
  have "\<forall>k \<in> set [0..<16]. bit (0x8408 :: u16) k \<longleftrightarrow> k = 3 \<or> k = 10 \<or> k = 15"
    by code_simp
  with True show ?thesis by simp
next
  case False
  then show ?thesis using bit_imp_le_length [of "0x8408 :: u16" n] by auto
qed

lemma bit_crc_shift:
  "bit (crc_shift x) n \<longleftrightarrow> (bit x (Suc n) \<noteq> (bit x 0 \<and> (n = 3 \<or> n = 10 \<or> n = 15)))"
  by (auto simp: crc_shift_def bit_xor_iff bit_drop_bit_eq bit_8408 simp del: bit_numeral_word_iff)

lemma funpow_8: "(f ^^ 8) x = f (f (f (f (f (f (f (f x)))))))"
  by (simp add: numeral_eq_Suc)

text \<open>Both sides depend on the register and the byte only through their exclusive or.\<close>

definition crc_fold_nibble :: "(nat \<Rightarrow> bool) \<Rightarrow> nat \<Rightarrow> bool" where
  "crc_fold_nibble y k \<longleftrightarrow> k < 8 \<and> (y k \<noteq> (4 \<le> k \<and> y (k - 4)))"

lemma bit_crc_accumulate:
  fixes b :: u8 and c :: u16
  assumes "n < 16"
  shows "bit (crc_accumulate b c) n \<longleftrightarrow>
    (let t = crc_fold_nibble (bit (c XOR ucast b))
     in ((bit (c XOR ucast b) (n + 8) \<noteq> (8 \<le> n \<and> t (n - 8))) \<noteq> (3 \<le> n \<and> t (n - 3))) \<noteq> t (n + 4))"
proof -
  define y where "y = b XOR ucast (c AND 0xff)"
  define t where "t = y XOR (ucast (push_bit 4 (ucast y :: u32)) :: u8)"
  have ff: "(0xff :: u16) = mask 8" by (simp add: mask_eq_exp_minus_1)
  have y: "bit y k \<longleftrightarrow> k < 8 \<and> bit (c XOR ucast b) k" for k
    unfolding y_def ff using bit_imp_le_length [of b k] by (auto simp: bit_simps)
  have t: "bit t k \<longleftrightarrow> crc_fold_nibble (bit (c XOR ucast b)) k" for k
    unfolding t_def crc_fold_nibble_def by (auto simp: bit_simps y)
  have high: "bit (c XOR ucast b) (n + 8) \<longleftrightarrow> bit c (n + 8)"
    using bit_imp_le_length [of b "n + 8"] by (auto simp: bit_simps)
  have "crc_accumulate b c =
      ucast (drop_bit 8 (ucast c :: u32) XOR push_bit 8 (ucast t :: u32)
             XOR push_bit 3 (ucast t :: u32) XOR drop_bit 4 (ucast t :: u32))"
    by (simp add: crc_accumulate_def Let_def y_def t_def)
  then have "bit (crc_accumulate b c) n \<longleftrightarrow>
      ((bit c (n + 8) \<noteq> (8 \<le> n \<and> bit t (n - 8))) \<noteq> (3 \<le> n \<and> bit t (n - 3))) \<noteq> bit t (n + 4)"
    using assms by (simp add: bit_simps add.commute) auto
  then show ?thesis by (simp add: Let_def t high)
qed

lemma all_less_16:
  "(\<forall>n < (16::nat). P n) \<longleftrightarrow> P 0 \<and> P 1 \<and> P 2 \<and> P 3 \<and> P 4 \<and> P 5 \<and> P 6 \<and> P 7 \<and>
     P 8 \<and> P 9 \<and> P 10 \<and> P 11 \<and> P 12 \<and> P 13 \<and> P 14 \<and> P 15"
  by (simp add: numeral_eq_Suc All_less_Suc conj_ac)

lemma bit_crc_shift8:
  "\<forall>n < 16. bit ((crc_shift ^^ 8) x) n \<longleftrightarrow>
    (let t = crc_fold_nibble (bit x)
     in ((bit x (n + 8) \<noteq> (8 \<le> n \<and> t (n - 8))) \<noteq> (3 \<le> n \<and> t (n - 3))) \<noteq> t (n + 4))"
  unfolding all_less_16 funpow_8 Let_def crc_fold_nibble_def
  by (intro conjI; simp add: bit_crc_shift numeral_eq_Suc; blast)

lemma crc_accumulate_bitwise: "crc_accumulate b c = crc_byte b c"
proof (rule bit_word_eqI)
  fix n assume "n < LENGTH(16)"
  then have "n < 16" by simp
  then show "bit (crc_accumulate b c) n = bit (crc_byte b c) n"
    using bit_crc_shift8 [of "c XOR ucast b"] by (simp add: bit_crc_accumulate crc_byte_def)
qed

subsection \<open>The register step is a bijection\<close>

lemma crc_shift_inj: "crc_shift x = crc_shift y \<longleftrightarrow> x = y"
proof
  assume eq: "crc_shift x = crc_shift y"
  then have top: "bit (crc_shift x) 15 = bit (crc_shift y) 15" by simp
  have "\<not> bit x 16" "\<not> bit y 16"
    using bit_imp_le_length [of x 16] bit_imp_le_length [of y 16] by auto
  with top have b0: "bit x 0 = bit y 0" by (auto simp: bit_crc_shift)
  have "bit x (Suc n) = bit y (Suc n)" for n
    using eq b0 bit_crc_shift [of x n] bit_crc_shift [of y n] by auto
  with b0 show "x = y" by (intro bit_word_eqI) (metis not0_implies_Suc)
qed simp

lemma crc_shift8_inj: "(crc_shift ^^ 8) x = (crc_shift ^^ 8) y \<longleftrightarrow> x = y"
  by (simp add: funpow_8 crc_shift_inj)

lemma crc_accumulate_inj_state: "crc_accumulate b c = crc_accumulate b c' \<longleftrightarrow> c = c'"
proof -
  have "c XOR ucast b = c' XOR ucast b \<longleftrightarrow> c = c'" by (metis xor.assoc xor_self_eq xor.right_neutral)
  then show ?thesis by (simp add: crc_accumulate_bitwise crc_byte_def crc_shift8_inj)
qed

lemma crc_of_inj_state: "crc_of bs c = crc_of bs c' \<longleftrightarrow> c = c'"
  by (induction bs arbitrary: c c') (auto simp: crc_of_def crc_accumulate_inj_state)

text \<open>The upper half of the register after one byte determines that byte.\<close>

lemma crc_fold_nibble_inj:
  assumes "\<And>k. k < 8 \<Longrightarrow> crc_fold_nibble y k = crc_fold_nibble z k" "k < 8"
  shows "y k = z k"
proof (cases "k < 4")
  case True
  with assms(1) [of k] show ?thesis by (simp add: crc_fold_nibble_def)
next
  case False
  with assms(2) have "k - 4 < 4" "k - 4 < 8" "4 \<le> k" by auto
  with assms(1) [of "k - 4"] assms(1) [of k] assms(2) show ?thesis
    by (auto simp: crc_fold_nibble_def)
qed

lemma crc_accumulate_high_inj:
  assumes high: "\<And>n. 8 \<le> n \<Longrightarrow> n < 16 \<Longrightarrow> bit (crc_accumulate a c) n = bit (crc_accumulate b c) n"
  shows "a = b"
proof -
  let ?x = "c XOR ucast a :: u16" and ?y = "c XOR ucast b :: u16"
  have top: "\<not> bit ?x (n + 8)" "\<not> bit ?y (n + 8)" if "8 \<le> n" for n
    using that bit_imp_le_length [of ?x "n + 8"] bit_imp_le_length [of ?y "n + 8"] by auto
  have t: "((crc_fold_nibble (bit ?x) (n - 8) \<noteq> crc_fold_nibble (bit ?x) (n - 3)) \<longleftrightarrow>
            (crc_fold_nibble (bit ?y) (n - 8) \<noteq> crc_fold_nibble (bit ?y) (n - 3)))"
    if "8 \<le> n" "n < 16" for n
    using high [OF that] that top [of n]
    by (simp add: bit_crc_accumulate Let_def crc_fold_nibble_def [of _ "n + 4"])
  have lo: "crc_fold_nibble (bit ?x) k = crc_fold_nibble (bit ?y) k" if "3 \<le> k" "k < 8" for k
    using t [of "k + 8"] that by (simp add: crc_fold_nibble_def [of _ "5 + k"])
  have "crc_fold_nibble (bit ?x) k = crc_fold_nibble (bit ?y) k" if "k < 8" for k
  proof (cases "k < 3")
    case True
    with lo [of "k + 5"] t [of "k + 8"] show ?thesis by (auto simp: add.commute)
  next
    case False
    with lo that show ?thesis by simp
  qed
  then have "bit ?x k = bit ?y k" if "k < 8" for k
    using crc_fold_nibble_inj that by blast
  then have "bit a k = bit b k" if "k < 8" for k
    using that by (simp add: bit_xor_iff bit_ucast_iff) blast
  then show "a = b" by (intro bit_word_eqI) simp
qed

lemma crc_of_update_inj:
  assumes "i < length xs" "crc_of (xs[i := b]) c = crc_of xs c"
  shows "xs ! i = b"
proof -
  have "xs[i := b] = take i xs @ b # drop (Suc i) xs" "xs = take i xs @ xs ! i # drop (Suc i) xs"
    using assms(1) by (simp_all add: upd_conv_take_nth_drop id_take_nth_drop)
  then have "crc_of ([b] @ drop (Suc i) xs) (crc_of (take i xs) c) =
             crc_of ([xs ! i] @ drop (Suc i) xs) (crc_of (take i xs) c)"
    using assms(2) by (metis append_Cons append_Nil crc_of_append)
  then have "crc_of [b] (crc_of (take i xs) c) = crc_of [xs ! i] (crc_of (take i xs) c)"
    by (simp only: crc_of_append crc_of_inj_state)
  then show ?thesis
    by (intro crc_accumulate_high_inj [where c = "crc_of (take i xs) c"]) (simp add: crc_of_def)
qed

lemma crc_of_two_bytes_inj:
  assumes "crc_of [a1, a2] c = crc_of [b1, b2] c"
  shows "a1 = b1 \<and> a2 = b2"
proof -
  from assms have eq: "crc_accumulate a1 c XOR ucast a2 = crc_accumulate b1 c XOR ucast b2"
    by (simp add: crc_of_def crc_accumulate_bitwise [of a2] crc_accumulate_bitwise [of b2]
        crc_byte_def crc_shift8_inj)
  have "bit (crc_accumulate a1 c) n = bit (crc_accumulate b1 c) n" if "8 \<le> n" "n < 16" for n
  proof -
    have "\<not> bit a2 n" "\<not> bit b2 n"
      using that bit_imp_le_length [of a2 n] bit_imp_le_length [of b2 n] by auto
    then show ?thesis
      using arg_cong [OF eq, of "\<lambda>w. bit w n"] by (simp add: bit_xor_iff bit_ucast_iff)
  qed
  then have "a1 = b1" by (rule crc_accumulate_high_inj)
  moreover have "a2 = b2"
  proof (rule bit_word_eqI)
    fix k assume "k < LENGTH(8)"
    then have "k < 16" by simp
    then show "bit a2 k = bit b2 k"
      using arg_cong [OF eq, of "\<lambda>w. bit w k"] \<open>a1 = b1\<close> by (auto simp: bit_xor_iff bit_ucast_iff)
  qed
  ultimately show ?thesis by simp
qed

subsection \<open>Properties\<close>

text \<open>
  C8. The optimised byte step of \<^verbatim>\<open>crc_accumulate\<close> (two nibble folds, three shifts, C's promotions
  and truncations) equals eight shifts of the bit-serial X.25 register with polynomial \<open>0x8408\<close>, for
  every byte and every register value.
\<close>
theorem crc_accumulate_is_x25: "crc_accumulate data crc = (crc_shift ^^ 8) (crc XOR ucast data)"
  by (simp add: crc_accumulate_bitwise crc_byte_def)

text \<open>
  Error detection: two buffers of the same length that differ only within two adjacent bytes
  (any burst of at most sixteen bits on byte boundaries, every single corrupted byte included) have
  the same checksum only if they are equal, whatever precedes and follows the window.
\<close>
theorem crc_detects_two_byte_burst:
  "crc_of (pre @ [a1, a2] @ post) crc = crc_of (pre @ [b1, b2] @ post) crc \<longleftrightarrow> a1 = b1 \<and> a2 = b2"
  using crc_of_two_bytes_inj [of a1 a2 "crc_of pre crc" b1 b2]
  by (auto simp only: crc_of_append crc_of_inj_state)

text \<open>
  The buffer loop: \<^verbatim>\<open>crc_calculate\<close> reads exactly \<open>length\<close> bytes, is defined if and only if the
  object holds that many, and then returns the checksum of those bytes; bytes behind them do not
  matter.
\<close>
theorem crc_calculate_spec:
  "crc_calculate p n =
     (if unat n \<le> length p then Some (crc_of (take (unat n) p) X25_INIT_CRC) else None)"
  using crc_calculate_None [of p n] by (simp add: crc_calculate_in not_le)

end
