(* ===== verification/Alink_Check.thy ===== *)
theory Alink_Check
  imports Crc_X25
begin

text \<open>
  \<^verbatim>\<open>srv/alink/check/alink_check.c\<close> and the packed header of \<^verbatim>\<open>srv/alink/alink_defines.h\<close>: sizes,
  header checksum, package CRC, and the acceptance test for a whole package. A package pointer is the
  list of bytes that starts at it; every field access is a load at the field's offset in the packed
  struct. \<open>valid_package\<close> is the contract of an accepted package, and \<open>frame\<close> the package the senders
  build.
\<close>

subsection \<open>Header\<close>

record alink_msg_head =
  magic :: u8
  len_lo :: u8
  len_hi :: u8
  seq :: u8
  destid :: u8
  sourceid :: u8
  msgid :: u8
  ans :: u8
  checksum :: u8

definition head_bytes :: "alink_msg_head \<Rightarrow> bytes" where
  "head_bytes h = [magic h, len_lo h, len_hi h, seq h, destid h, sourceid h, msgid h, ans h, checksum h]"

definition head_of :: "bytes \<Rightarrow> alink_msg_head option" where
  "head_of p = do {
     b \<leftarrow> loadn p 0 9;
     Some \<lparr>magic = b ! 0, len_lo = b ! 1, len_hi = b ! 2, seq = b ! 3, destid = b ! 4,
           sourceid = b ! 5, msgid = b ! 6, ans = b ! 7, checksum = b ! 8\<rparr> }"

definition ALINK_MSG_MAGIC_VALUE :: u8 where
  "ALINK_MSG_MAGIC_VALUE = 0xFD"

definition alink_get_header_size :: u8 where
  "alink_get_header_size = 9"

definition alink_get_payload_size :: "bytes \<Rightarrow> u16 option" where
  "alink_get_payload_size psHeader = do {
     hi \<leftarrow> load8 psHeader 2;
     lo \<leftarrow> load8 psHeader 1;
     Some (push_bit 8 (ucast hi) OR ucast lo) }"

definition alink_get_package_size :: "bytes \<Rightarrow> u32 option" where
  "alink_get_package_size psHeader = do {
     wSize \<leftarrow> alink_get_payload_size psHeader;
     Some (ucast wSize + 11) }"

text \<open>The loop over the first \<^verbatim>\<open>ALINK_HEADER_CHECKSUM_LEN\<close> bytes, summed in a \<^verbatim>\<open>uint8_t\<close>.\<close>

fun sum_loop :: "bytes \<Rightarrow> nat \<Rightarrow> u8 \<Rightarrow> u8 option" where
  "sum_loop p 0 acc = Some acc"
| "sum_loop [] (Suc n) acc = None"
| "sum_loop (b # p) (Suc n) acc = sum_loop p n (acc + b)"

definition alink_get_header_checksum :: "bytes \<Rightarrow> u8 option" where
  "alink_get_header_checksum psHeader = sum_loop psHeader 8 0"

definition alink_get_package_crc :: "bytes \<Rightarrow> u16 \<Rightarrow> u16 option" where
  "alink_get_package_crc pbyPkg wPkgSize = crc_calculate (drop 1 pbyPkg) (wPkgSize - 3)"

definition alink_check_magic :: "u8 \<Rightarrow> bool" where
  "alink_check_magic x \<longleftrightarrow> ALINK_MSG_MAGIC_VALUE = x"

definition alink_check_header_checksum :: "bytes \<Rightarrow> bool option" where
  "alink_check_header_checksum psHeader = do {
     c \<leftarrow> alink_get_header_checksum psHeader;
     stored \<leftarrow> load8 psHeader 8;
     Some (stored = c) }"

text \<open>\<^verbatim>\<open>crc_calculate\<close> takes a \<^verbatim>\<open>uint16_t\<close> length: the 32-bit package length minus three is truncated.\<close>

definition alink_check_crc :: "bytes \<Rightarrow> u32 \<Rightarrow> bool option" where
  "alink_check_crc pbyPkg wLen = do {
     wPgkLen \<leftarrow> alink_get_package_size pbyPkg;
     if wPgkLen = wLen then do {
       wCrcCalc \<leftarrow> crc_calculate (drop 1 pbyPkg) (ucast (wPgkLen - 3));
       hi \<leftarrow> load8 pbyPkg (unat wPgkLen - 2 + 1);
       lo \<leftarrow> load8 pbyPkg (unat wPgkLen - 2);
       Some (push_bit 8 (ucast hi) OR ucast lo = wCrcCalc) }
     else Some False }"

definition alink_check_package :: "bytes \<Rightarrow> u16 \<Rightarrow> bool option" where
  "alink_check_package pbyPkg wLen = do {
     b \<leftarrow> load8 pbyPkg 0;
     if \<not> alink_check_magic b then Some False
     else if wLen < 11 then Some False
     else do {
       hd_ok \<leftarrow> alink_check_header_checksum pbyPkg;
       if \<not> hd_ok then Some False
       else alink_check_crc pbyPkg (ucast wLen) } }"

subsection \<open>Contract\<close>

definition payload_len :: "bytes \<Rightarrow> nat" where
  "payload_len p = 256 * unat (p ! 2) + unat (p ! 1)"

definition header_ok :: "bytes \<Rightarrow> bool" where
  "header_ok p \<longleftrightarrow> p ! 8 = sum_list (take 8 p)"

text \<open>How many bytes behind the magic byte the CRC of an \<open>n\<close>-byte package covers.\<close>

definition crc_span :: "nat \<Rightarrow> nat" where
  "crc_span n = (n - 3) mod 65536"

definition crc_ok :: "bytes \<Rightarrow> bool" where
  "crc_ok p \<longleftrightarrow>
     of_le (drop (length p - 2) p) = crc_of (take (crc_span (length p)) (drop 1 p)) X25_INIT_CRC"

definition valid_package :: "bytes \<Rightarrow> bool" where
  "valid_package p \<longleftrightarrow> 11 \<le> length p \<and> p ! 0 = ALINK_MSG_MAGIC_VALUE \<and>
     length p = payload_len p + 11 \<and> header_ok p \<and> crc_ok p"

subsection \<open>Sizes and checksums\<close>

lemma payload_len_less: "payload_len p < 65536"
  using unat_u8_less [of "p ! 2"] unat_u8_less [of "p ! 1"] by (simp add: payload_len_def)

lemma of_le_two: "(of_le [a, b] :: u16) = push_bit 8 (ucast b) OR ucast a"
  by (simp add: or.commute)

lemma alink_get_payload_size_in [mem_simps]:
  "3 \<le> length p \<Longrightarrow> alink_get_payload_size p = Some (of_nat (payload_len p))"
  by (simp add: alink_get_payload_size_def mem_simps payload_len_def flip: unat_join_u8)

lemma alink_get_package_size_in [mem_simps]:
  assumes "3 \<le> length p"
  shows "alink_get_package_size p = Some (of_nat (payload_len p + 11))"
proof -
  have "(ucast (of_nat (payload_len p) :: u16) :: u32) = of_nat (payload_len p)"
    using payload_len_less [of p] by (simp add: ucast_of_nat_small)
  then show ?thesis using assms by (simp add: alink_get_package_size_def mem_simps add.commute)
qed

lemma unat_package_size: "unat (of_nat (payload_len p + 11) :: u32) = payload_len p + 11"
  using payload_len_less [of p] by (subst unat_of_nat_small) auto

lemma sum_loop_in: "n \<le> length p \<Longrightarrow> sum_loop p n acc = Some (acc + sum_list (take n p))"
  by (induction p n acc rule: sum_loop.induct) (auto simp: add.assoc)

lemma sum_loop_None: "sum_loop p n acc = None \<longleftrightarrow> length p < n"
  by (induction p n acc rule: sum_loop.induct) auto

lemma alink_get_header_checksum_in [mem_simps]:
  "8 \<le> length p \<Longrightarrow> alink_get_header_checksum p = Some (sum_list (take 8 p))"
  by (simp add: alink_get_header_checksum_def sum_loop_in)

lemma alink_check_header_checksum_in [mem_simps]:
  "9 \<le> length p \<Longrightarrow> alink_check_header_checksum p = Some (header_ok p)"
  by (simp add: alink_check_header_checksum_def mem_simps header_ok_def)

lemma alink_check_crc_in [mem_simps]:
  assumes "payload_len p + 11 \<le> length p" "n = payload_len p + 11"
  shows "alink_check_crc p (of_nat n) = Some (crc_ok (take n p))"
proof -
  have n: "n < 2 ^ 32" "11 \<le> n" "n \<le> length p" using assms payload_len_less [of p] by auto
  have len: "(ucast (of_nat n - 3 :: u32) :: u16) = of_nat (n - 3)"
  proof -
    have "of_nat n - 3 = (of_nat (n - 3) :: u32)" using n by (simp add: of_nat_diff)
    moreover have "n - 3 < 2 ^ LENGTH(32)" using n by simp
    ultimately show ?thesis by (simp only: ucast_of_nat_small)
  qed
  have span: "unat (of_nat (n - 3) :: u16) = crc_span n"
    by (simp add: unat_of_nat crc_span_def)
  have crc: "crc_calculate (drop 1 p) (of_nat (n - 3)) =
      Some (crc_of (take (crc_span n) (drop 1 (take n p))) X25_INIT_CRC)"
  proof -
    have "crc_span n \<le> n - 3" by (simp add: crc_span_def)
    then have "crc_span n \<le> length (drop 1 p)"
      and "take (crc_span n) (drop 1 (take n p)) = take (crc_span n) (drop 1 p)"
      using n by (auto simp: drop_take min_def)
    then show ?thesis by (simp add: crc_calculate_in span)
  qed
  have field: "drop (n - 2) (take n p) = [p ! (n - 2), p ! (n - 2 + 1)]"
  proof (rule nth_equalityI)
    show "length (drop (n - 2) (take n p)) = length [p ! (n - 2), p ! (n - 2 + 1)]" using n by simp
    fix i assume "i < length (drop (n - 2) (take n p))"
    then have "i = 0 \<or> i = 1" using n by auto
    then show "drop (n - 2) (take n p) ! i = [p ! (n - 2), p ! (n - 2 + 1)] ! i"
      using n Suc_diff_le [of 2 n] by (auto simp: numeral_2_eq_2)
  qed
  have un: "unat (of_nat n :: u32) = n" using n by (intro unat_of_nat_small) simp
  have size: "alink_get_package_size p = Some (of_nat n)"
    using assms by (simp add: alink_get_package_size_in)
  have ld: "load8 p (n - 2 + 1) = Some (p ! (n - 2 + 1))" "load8 p (n - 2) = Some (p ! (n - 2))"
    using n by (auto intro!: load8_in)
  have ln: "length (take n p) = n" using n by simp
  show ?thesis
    unfolding alink_check_crc_def crc_ok_def ln field of_le_two
    by (simp only: size un len crc ld bind.bind_lunit if_True refl)
qed

lemma alink_check_crc_other:
  assumes "3 \<le> length p" "wLen \<noteq> of_nat (payload_len p + 11)"
  shows "alink_check_crc p wLen = Some False"
  using assms by (simp add: alink_check_crc_def mem_simps)

lemma payload_len_take: "3 \<le> n \<Longrightarrow> payload_len (take n p) = payload_len p"
  by (simp add: payload_len_def)

lemma header_ok_take: "9 \<le> n \<Longrightarrow> header_ok (take n p) = header_ok p"
  by (simp add: header_ok_def min_def)

lemma alink_check_package_in:
  assumes "unat wLen \<le> length p" "p \<noteq> []"
  shows "alink_check_package p wLen = Some (valid_package (take (unat wLen) p))"
proof (cases "wLen < 11 \<or> p ! 0 \<noteq> ALINK_MSG_MAGIC_VALUE")
  case True
  then have "\<not> valid_package (take (unat wLen) p)"
    by (auto simp: valid_package_def word_less_nat_alt)
  with True assms show ?thesis
    by (auto simp: alink_check_package_def mem_simps alink_check_magic_def)
next
  case False
  then have w: "11 \<le> unat wLen" "p ! 0 = ALINK_MSG_MAGIC_VALUE"
    by (auto simp: word_less_nat_alt not_less)
  let ?q = "take (unat wLen) p"
  have "unat (ucast wLen :: u32) = unat wLen"
    using unat_of_nat_small [of "unat wLen", where 'a = 32] unat_u16_less [of wLen] by simp
  then have "(ucast wLen :: u32) = of_nat (payload_len p + 11) \<longleftrightarrow> unat wLen = payload_len p + 11"
    using unat_package_size [of p] by (metis word_unat_eq_iff)
  then have "alink_check_crc p (ucast wLen) = Some (unat wLen = payload_len p + 11 \<and> crc_ok ?q)"
    using assms w alink_check_crc_in [of p "unat wLen"] alink_check_crc_other [of p "ucast wLen"]
    by (cases "unat wLen = payload_len p + 11") auto
  with assms w False show ?thesis
    by (simp add: alink_check_package_def mem_simps alink_check_magic_def valid_package_def
        payload_len_take header_ok_take)
qed

subsection \<open>Building a package\<close>

definition frame_head :: "u8 \<Rightarrow> u8 \<Rightarrow> u8 \<Rightarrow> u8 \<Rightarrow> u8 \<Rightarrow> nat \<Rightarrow> bytes" where
  "frame_head sq dst src mid an n =
     [ALINK_MSG_MAGIC_VALUE, of_nat n, of_nat (n div 256), sq, dst, src, mid, an]"

definition frame_body :: "u8 \<Rightarrow> u8 \<Rightarrow> u8 \<Rightarrow> u8 \<Rightarrow> u8 \<Rightarrow> bytes \<Rightarrow> bytes" where
  "frame_body sq dst src mid an payload =
     (let h = frame_head sq dst src mid an (length payload) in h @ [sum_list h] @ payload)"

definition frame :: "u8 \<Rightarrow> u8 \<Rightarrow> u8 \<Rightarrow> u8 \<Rightarrow> u8 \<Rightarrow> bytes \<Rightarrow> bytes" where
  "frame sq dst src mid an payload =
     (let b = frame_body sq dst src mid an payload
      in b @ le_bytes 2 (crc_of (drop 1 b) X25_INIT_CRC))"

lemma length_frame_head [simp]: "length (frame_head sq dst src mid an n) = 8"
  by (simp add: frame_head_def)

lemma length_frame_body [simp]: "length (frame_body sq dst src mid an payload) = length payload + 9"
  by (simp add: frame_body_def Let_def)

lemma length_frame [simp]: "length (frame sq dst src mid an payload) = length payload + 11"
  by (simp add: frame_def Let_def)

lemma frame_not_Nil: "frame sq dst src mid an payload \<noteq> []"
  by (simp flip: length_greater_0_conv)

lemma nth_frame_head:
  "frame sq dst src mid an payload ! 0 = ALINK_MSG_MAGIC_VALUE"
  "frame sq dst src mid an payload ! 1 = of_nat (length payload)"
  "frame sq dst src mid an payload ! 2 = of_nat (length payload div 256)"
  "frame sq dst src mid an payload ! 3 = sq"
  "frame sq dst src mid an payload ! 4 = dst"
  "frame sq dst src mid an payload ! 5 = src"
  "frame sq dst src mid an payload ! 6 = mid"
  "frame sq dst src mid an payload ! 7 = an"
  by (simp_all add: frame_def frame_body_def frame_head_def Let_def)

lemma payload_frame: "take (length payload) (drop 9 (frame sq dst src mid an payload)) = payload"
  by (simp add: frame_def frame_body_def Let_def)

lemma payload_len_frame:
  assumes "length payload < 65536"
  shows "payload_len (frame sq dst src mid an payload) = length payload"
  using assms by (simp add: payload_len_def nth_frame_head unat_of_nat del: One_nat_def)

text \<open>The same package with the CRC over the span that the receiver really checks.\<close>

definition frame_spanned :: "u8 \<Rightarrow> u8 \<Rightarrow> u8 \<Rightarrow> u8 \<Rightarrow> u8 \<Rightarrow> bytes \<Rightarrow> bytes" where
  "frame_spanned sq dst src mid an payload =
     (let b = frame_body sq dst src mid an payload
      in b @ le_bytes 2 (crc_of (take (crc_span (length b + 2)) (drop 1 b)) X25_INIT_CRC))"

lemma frame_eq_spanned:
  "length payload + 8 < 65536 \<Longrightarrow> frame sq dst src mid an payload = frame_spanned sq dst src mid an payload"
  by (simp add: frame_def frame_spanned_def Let_def crc_span_def)

lemma valid_frame_spanned:
  assumes "length payload < 65536"
  shows "valid_package (frame_spanned sq dst src mid an payload)"
proof -
  let ?p = "frame_spanned sq dst src mid an payload" and ?b = "frame_body sq dst src mid an payload"
  have hd: "?p ! 0 = ALINK_MSG_MAGIC_VALUE" "header_ok ?p"
    by (simp_all add: header_ok_def frame_spanned_def frame_body_def frame_head_def Let_def nth_append)
  have l: "length ?p = length payload + 11" by (simp add: frame_spanned_def Let_def)
  have len: "payload_len ?p = length payload"
    using assms by (simp add: payload_len_def frame_spanned_def frame_body_def frame_head_def Let_def unat_of_nat)
  have le: "crc_span (length payload + 11) \<le> length payload + 8" by (simp add: crc_span_def)
  have "drop (length ?p - 2) ?p =
      le_bytes 2 (crc_of (take (crc_span (length payload + 11)) (drop 1 ?b)) X25_INIT_CRC)"
    by (simp add: l) (simp add: frame_spanned_def Let_def add.commute)
  moreover have "take (crc_span (length payload + 11)) (drop 1 ?p) =
      take (crc_span (length payload + 11)) (drop 1 ?b)"
    using le by (simp add: frame_spanned_def Let_def)
  ultimately have "crc_ok ?p" by (simp only: crc_ok_def l) (simp add: of_le_le_bytes)
  with hd l len show ?thesis by (simp add: valid_package_def)
qed

lemma valid_frame:
  "length payload + 8 < 65536 \<Longrightarrow> valid_package (frame sq dst src mid an payload)"
  using valid_frame_spanned [of payload] by (simp add: frame_eq_spanned)

subsection \<open>Corruption\<close>

lemma header_ok_update:
  assumes "9 \<le> length p" "i < 9" "b \<noteq> p ! i" "header_ok p"
  shows "\<not> header_ok (p[i := b])"
proof (cases "i = 8")
  case True
  with assms show ?thesis by (simp add: header_ok_def)
next
  case False
  with assms have i: "i < 8" by simp
  then have "sum_list (take 8 (p[i := b])) = sum_list (take 8 p) + b - p ! i"
    using assms by (simp add: take_update_swap sum_list_upd)
  with i assms show ?thesis by (auto simp: header_ok_def)
qed

lemma of_le_last_two:
  assumes "2 \<le> length p" "length q = length p" "of_le (drop (length p - 2) p) = (of_le (drop (length p - 2) q) :: u16)"
  shows "drop (length p - 2) p = drop (length p - 2) q"
  using assms le_bytes_of_le [where 'a = 16, of "drop (length p - 2) p"]
    le_bytes_of_le [where 'a = 16, of "drop (length p - 2) q"]
  by simp

lemma crc_ok_update:
  assumes n: "length p = n" "11 \<le> n" "n \<le> 65538" and i: "9 \<le> i" "i < n" and b: "b \<noteq> p ! i"
    and ok: "crc_ok p"
  shows "\<not> crc_ok (p[i := b])"
proof
  assume ok': "crc_ok (p[i := b])"
  have span: "crc_span n = n - 3" using n by (simp add: crc_span_def)
  show False
  proof (cases "i < n - 2")
    case True
    then have "drop (n - 2) (p[i := b]) = drop (n - 2) p" by simp
    with ok ok' n span have eq: "crc_of (take (n - 3) (drop 1 (p[i := b]))) X25_INIT_CRC =
        crc_of (take (n - 3) (drop 1 p)) X25_INIT_CRC"
      by (simp add: crc_ok_def)
    have "take (n - 3) (drop 1 (p[i := b])) = (take (n - 3) (drop 1 p))[i - 1 := b]"
      using True i n by (simp add: drop_update_swap take_update_swap)
    with eq have "take (n - 3) (drop 1 p) ! (i - 1) = b"
      using True i n crc_of_update_inj [of "i - 1" "take (n - 3) (drop 1 p)" b] by simp
    with b True i n show False by simp
  next
    case False
    then have "take (n - 3) (drop 1 (p[i := b])) = take (n - 3) (drop 1 p)"
      using i n by (simp add: drop_update_swap)
    with ok ok' n span have "of_le (drop (n - 2) p) = (of_le (drop (n - 2) (p[i := b])) :: u16)"
      by (simp add: crc_ok_def)
    then have "drop (n - 2) p = drop (n - 2) (p[i := b])"
      using n of_le_last_two [of p "p[i := b]"] by simp
    then have "drop (n - 2) p ! (i - (n - 2)) = drop (n - 2) (p[i := b]) ! (i - (n - 2))" by simp
    moreover have "n - 2 + (i - (n - 2)) = i" using False by simp
    ultimately have "p ! i = p[i := b] ! i" using n by (simp only: nth_drop length_list_update)
    with b i n show False by simp
  qed
qed

lemma corrupted_invalid:
  assumes "valid_package p" "length p \<le> 65538" "i < length p" "b \<noteq> p ! i"
  shows "\<not> valid_package (p[i := b])"
proof (cases "i = 0")
  case True
  with assms show ?thesis by (auto simp: valid_package_def)
next
  case False
  from assms have p: "11 \<le> length p" "header_ok p" "crc_ok p" by (auto simp: valid_package_def)
  show ?thesis
  proof (cases "i < 9")
    case True
    with p assms header_ok_update [of p i b] show ?thesis by (auto simp: valid_package_def)
  next
    case False
    with p assms crc_ok_update [of p "length p" i b] show ?thesis by (auto simp: valid_package_def)
  qed
qed

subsection \<open>Properties\<close>

text \<open>
  C3. \<^verbatim>\<open>alink_check_package\<close> decides the package contract: given a buffer with at least \<open>wLen\<close> readable bytes, it
  returns true exactly if the first \<open>wLen\<close> of them are a package, that is, have a magic byte \<open>0xFD\<close>, at least
  eleven bytes, a length field that accounts for every byte, the right header checksum and the right
  CRC. It reads outside exactly when the buffer has no byte at all: the first byte is looked at before the length is, so a
  call with \<open>wLen = 0\<close> on an empty buffer is undefined.
\<close>
theorem alink_check_package_decides:
  assumes "unat wLen \<le> length p"
  shows "alink_check_package p wLen = (if p = [] then None else Some (valid_package (take (unat wLen) p)))"
proof (cases "p = []")
  case True
  then show ?thesis by (simp add: alink_check_package_def load8_def)
next
  case False
  with alink_check_package_in [OF assms] show ?thesis by simp
qed

theorem alink_check_package_decides_witness:
  "alink_check_package (frame 1 6 8 0xD0 0 [100, 0, 0] @ [7]) 14 = Some True \<and> alink_check_package [] 0 = None"
proof -
  have "valid_package (frame 1 6 8 0xD0 0 [100, 0, 0])" by (intro valid_frame) simp
  then show ?thesis
    using alink_check_package_decides [of 14 "frame 1 6 8 0xD0 0 [100, 0, 0] @ [7]"] alink_check_package_decides [of 0 "[]"]
    by (simp add: frame_not_Nil)
qed

text \<open>
  C11. \<^verbatim>\<open>alink_check_package\<close> detects the corruption of a single byte: if it accepts a package of \<open>wLen\<close> bytes, then it rejects
  the same bytes with any one of them changed to any other value, in the magic byte, the header, the payload or
  the CRC field. A \<^verbatim>\<open>uint16_t\<close> length cannot exceed the 65538 bytes the truncated CRC still covers.
\<close>
theorem single_byte_corruption_detected:
  assumes "alink_check_package p wLen = Some True" "unat wLen \<le> length p" "i < unat wLen" "b \<noteq> p ! i"
  shows "alink_check_package (p[i := b]) wLen = Some False"
proof -
  have p: "p \<noteq> []" "p[i := b] \<noteq> []" using assms(2,3) by auto
  have v: "valid_package (take (unat wLen) p)" using assms(1) alink_check_package_in [OF assms(2) p(1)] by simp
  have l: "length (take (unat wLen) p) \<le> 65538" using unat_u16_less [of wLen] by simp
  have "\<not> valid_package ((take (unat wLen) p)[i := b])" by (rule corrupted_invalid [OF v l]) (use assms(2-4) in auto)
  then show ?thesis using alink_check_package_in [of wLen "p[i := b]"] p(2) assms(2) by (simp add: take_update_swap)
qed

theorem single_byte_corruption_detected_witness:
  "alink_check_package ((frame 1 6 8 0xD0 0 [100, 0, 0])[9 := 99]) 14 = Some False"
proof -
  have "frame 1 6 8 0xD0 0 [100, 0, 0] ! 9 = 100"
    by (simp add: frame_def frame_body_def frame_head_def Let_def)
  moreover have "alink_check_package (frame 1 6 8 0xD0 0 [100, 0, 0]) 14 = Some True"
    using alink_check_package_in [of 14 "frame 1 6 8 0xD0 0 [100, 0, 0]"] valid_frame [of "[100, 0, 0]" 1 6 8 "0xD0" 0]
    by (simp add: frame_not_Nil)
  ultimately show ?thesis
    using single_byte_corruption_detected [of "frame 1 6 8 0xD0 0 [100, 0, 0]" 14 9 99] by simp
qed

text \<open>
  Above 65538 bytes the CRC protects none of the payload: the length handed to
  \<^verbatim>\<open>crc_calculate\<close> is truncated to sixteen bits, so any payload byte of such a package can be replaced
  by any value and the package stays valid.
\<close>
theorem oversize_payload_unprotected:
  assumes "valid_package p" "65538 < length p" "9 \<le> i" "i < length p - 2"
  shows "valid_package (p[i := b])"
proof -
  have n: "length p < 65536 + 11" using assms(1) payload_len_less [of p] by (auto simp: valid_package_def)
  then have "crc_span (length p) \<le> 7" using assms(2) by (simp add: crc_span_def le_mod_geq)
  then have crc: "take (crc_span (length p)) (drop 1 (p[i := b])) = take (crc_span (length p)) (drop 1 p)"
    using assms(3) by (simp add: drop_update_swap)
  have "crc_ok (p[i := b]) = crc_ok p"
    using assms(4) unfolding crc_ok_def by (simp only: length_list_update crc drop_update_cancel)
  moreover have "header_ok (p[i := b]) = header_ok p" "payload_len (p[i := b]) = payload_len p"
    using assms(3) by (simp_all add: header_ok_def payload_len_def)
  ultimately show ?thesis using assms(1,3) by (simp add: valid_package_def)
qed

theorem oversize_payload_unprotected_witness:
  "valid_package ((frame_spanned 0 6 8 0x12 0 (replicate 65530 0))[9 := 1])"
proof -
  have "length (frame_spanned 0 6 8 0x12 0 (replicate 65530 0)) = 65541"
    by (simp add: frame_spanned_def Let_def)
  then show ?thesis
    using oversize_payload_unprotected
      [OF valid_frame_spanned [of "replicate 65530 0" 0 6 8 "0x12" 0], where i = 9 and b = 1]
    by simp
qed

end
