(* ===== verification/Alink_Recv.thy ===== *)
theory Alink_Recv
  imports Alink_Check
begin

text \<open>
  \<^verbatim>\<open>srv/alink/analysis/alink_recv.c\<close> and \<^verbatim>\<open>alink_socket.c\<close>: the receive state machine that cuts packages
  out of a byte stream. It never copies: \<^verbatim>\<open>psRecv->pbyBuffer\<close> points into the buffer that was passed
  in when the magic byte was seen, so the model keeps pointers and reads them through the live memory
  (\<open>heap\<close>), where a pointer into a dead buffer has nothing to read.

  A function pointer is a value of a type of tags; \<open>run\<close> says what calling one does to the world \<open>'w\<close>.
  The three state functions, the driving loop and the helpers are followed by a reference machine that
  takes one byte at a time (\<open>recv_bytes\<close>) and by the list-level specification \<open>frames\<close>.
\<close>

subsection \<open>State\<close>

datatype recv_state = Check_magic | Check_head | Check_crc

record 's alink_recv_import =
  ri_ePortId :: u8
  ri_pbyData :: ptr
  ri_uLength :: u32
  ri_handle :: nat
  ri_pe_send :: "'s option"

record 's alink_order_import =
  oi_ePortId :: u8
  oi_pbyMsg :: ptr
  oi_handle :: nat
  oi_pe_send :: "'s option"

record ('h, 'c) alink_recv_cbk =
  psHandle :: "'h option"
  pe_cbk :: "'c option"

record ('h, 'c) alink_recv =
  wPkgSize :: u32
  wCount :: u32
  wBufferSize :: u32
  sRecvCbk :: "('h, 'c) alink_recv_cbk"
  pbyBuffer :: "ptr option"
  pu_state :: recv_state

type_synonym ('h, 'c, 's, 'w) run_cbk =
  "'c \<Rightarrow> 'h option \<Rightarrow> heap \<Rightarrow> 's alink_order_import \<Rightarrow> 'w \<Rightarrow> 'w option"

definition deref_opt :: "heap \<Rightarrow> ptr option \<Rightarrow> bytes option" where
  "deref_opt h p = (case p of None \<Rightarrow> None | Some q \<Rightarrow> deref h q)"

subsection \<open>State functions\<close>

text \<open>The scan loop: index reached and whether a magic byte stopped it.\<close>

fun magic_loop :: "bytes \<Rightarrow> nat \<Rightarrow> nat \<Rightarrow> (nat \<times> bool) option" where
  "magic_loop m 0 i = Some (i, False)"
| "magic_loop [] (Suc n) i = None"
| "magic_loop (b # m) (Suc n) i =
     (if alink_check_magic b then Some (i, True) else magic_loop m n (Suc i))"

definition alink_recv_state_check_magic ::
  "heap \<Rightarrow> ('h, 'c) alink_recv \<Rightarrow> 's alink_recv_import \<Rightarrow> (u32 \<times> ('h, 'c) alink_recv) option" where
  "alink_recv_state_check_magic h psRecv psImport = do {
     m \<leftarrow> deref h (ri_pbyData psImport);
     (uIndex, found) \<leftarrow> magic_loop m (unat (ri_uLength psImport)) 0;
     if found
     then Some (of_nat (Suc uIndex),
                psRecv\<lparr>pbyBuffer := Some (ptr_add (ri_pbyData psImport) uIndex), wCount := 1,
                       pu_state := Check_head\<rparr>)
     else Some (of_nat uIndex, psRecv) }"

text \<open>What the header state does once all nine header bytes have arrived.\<close>

definition recv_head_done :: "heap \<Rightarrow> ('h, 'c) alink_recv \<Rightarrow> ('h, 'c) alink_recv option" where
  "recv_head_done h psRecv = do {
     p \<leftarrow> deref_opt h (pbyBuffer psRecv);
     ok \<leftarrow> alink_check_header_checksum p;
     if ok then do {
       n \<leftarrow> alink_get_package_size p;
       Some (psRecv\<lparr>wPkgSize := n, pu_state := Check_crc\<rparr>) }
     else Some (psRecv\<lparr>pu_state := Check_magic\<rparr>) }"

text \<open>\<^verbatim>\<open>sizeof(alink_msg_head_t) - psRecv->wCount\<close> is computed in the 64-bit \<^verbatim>\<open>size_t\<close>.\<close>

definition alink_recv_state_check_head ::
  "heap \<Rightarrow> ('h, 'c) alink_recv \<Rightarrow> 's alink_recv_import \<Rightarrow> (u32 \<times> ('h, 'c) alink_recv) option" where
  "alink_recv_state_check_head h psRecv psImport =
     (if (9 :: u64) - ucast (wCount psRecv) > ucast (ri_uLength psImport)
      then Some (ri_uLength psImport, psRecv\<lparr>wCount := wCount psRecv + ri_uLength psImport\<rparr>)
      else do {
        let uIndex = ucast ((9 :: u64) - ucast (wCount psRecv));
        r \<leftarrow> recv_head_done h (psRecv\<lparr>wCount := wCount psRecv + uIndex\<rparr>);
        Some (uIndex, r) })"

text \<open>What the CRC state does once the whole package has arrived.\<close>

definition order_import_of :: "'s alink_recv_import \<Rightarrow> ptr \<Rightarrow> 's alink_order_import" where
  "order_import_of psImport q =
     \<lparr>oi_ePortId = ri_ePortId psImport, oi_pbyMsg = q,
      oi_handle = ri_handle psImport, oi_pe_send = ri_pe_send psImport\<rparr>"

definition recv_crc_done ::
  "('h, 'c, 's, 'w) run_cbk \<Rightarrow> heap \<Rightarrow> 's alink_recv_import \<Rightarrow> ('h, 'c) alink_recv \<Rightarrow> 'w \<Rightarrow>
   (('h, 'c) alink_recv \<times> 'w) option" where
  "recv_crc_done run h psImport psRecv w = do {
     q \<leftarrow> pbyBuffer psRecv;
     p \<leftarrow> deref h q;
     ok \<leftarrow> alink_check_crc p (wCount psRecv);
     w' \<leftarrow> (if ok then
              (case pe_cbk (sRecvCbk psRecv) of
                 None \<Rightarrow> Some w
               | Some c \<Rightarrow>
                   run c (psHandle (sRecvCbk psRecv)) h (order_import_of psImport q) w)
            else Some w);
     Some (psRecv\<lparr>pu_state := Check_magic\<rparr>, w') }"

definition alink_recv_state_check_crc ::
  "('h, 'c, 's, 'w) run_cbk \<Rightarrow> heap \<Rightarrow> ('h, 'c) alink_recv \<Rightarrow> 's alink_recv_import \<Rightarrow> 'w \<Rightarrow>
   (u32 \<times> ('h, 'c) alink_recv \<times> 'w) option" where
  "alink_recv_state_check_crc run h psRecv psImport w =
     (let uLen = ri_uLength psImport in
      if wPkgSize psRecv > wCount psRecv + uLen
      then Some (uLen, psRecv\<lparr>wCount := wCount psRecv + uLen\<rparr>, w)
      else do {
        let uIndex = wPkgSize psRecv - wCount psRecv;
        (r, w') \<leftarrow> recv_crc_done run h psImport (psRecv\<lparr>wCount := wCount psRecv + uIndex\<rparr>) w;
        Some (uIndex, r, w') })"

text \<open>The call through \<^verbatim>\<open>psRecv->pu_state\<close>.\<close>

definition recv_call_state ::
  "('h, 'c, 's, 'w) run_cbk \<Rightarrow> heap \<Rightarrow> ('h, 'c) alink_recv \<Rightarrow> 's alink_recv_import \<Rightarrow> 'w \<Rightarrow>
   (u32 \<times> ('h, 'c) alink_recv \<times> 'w) option" where
  "recv_call_state run h psRecv psImport w =
     (case pu_state psRecv of
        Check_magic \<Rightarrow> map_option (\<lambda>(k, r). (k, r, w)) (alink_recv_state_check_magic h psRecv psImport)
      | Check_head \<Rightarrow> map_option (\<lambda>(k, r). (k, r, w)) (alink_recv_state_check_head h psRecv psImport)
      | Check_crc \<Rightarrow> alink_recv_state_check_crc run h psRecv psImport w)"

definition recv_advance :: "'s alink_recv_import \<Rightarrow> u32 \<Rightarrow> 's alink_recv_import" where
  "recv_advance imp k =
     imp\<lparr>ri_pbyData := ptr_add (ri_pbyData imp) (unat k), ri_uLength := ri_uLength imp - k\<rparr>"

partial_function (option) alink_recv_task ::
  "('h, 'c, 's, 'w) run_cbk \<Rightarrow> heap \<Rightarrow> ('h, 'c) alink_recv \<Rightarrow> 's alink_recv_import \<Rightarrow> 'w \<Rightarrow>
   (('h, 'c) alink_recv \<times> 'w) option" where
  "alink_recv_task run h psRecv sImport w =
     (if ri_uLength sImport = 0 then Some (psRecv, w)
      else Option.bind (recv_call_state run h psRecv sImport w)
             (\<lambda>s. alink_recv_task run h (fst (snd s)) (recv_advance sImport (fst s)) (snd (snd s))))"

definition alink_recv_init :: "('h, 'c) alink_recv \<Rightarrow> ptr option \<Rightarrow> u16 \<Rightarrow> ('h, 'c) alink_recv \<times> i32" where
  "alink_recv_init psRecv buf bsize =
     (psRecv\<lparr>pbyBuffer := buf, wBufferSize := ucast bsize,
             sRecvCbk := \<lparr>psHandle = None, pe_cbk = None\<rparr>, pu_state := Check_magic\<rparr>, 0)"

definition alink_recv_register_cbk ::
  "('h, 'c) alink_recv \<Rightarrow> 'h option \<Rightarrow> 'c option \<Rightarrow> ('h, 'c) alink_recv \<times> i32" where
  "alink_recv_register_cbk psRecv hdl cbk = (psRecv\<lparr>sRecvCbk := \<lparr>psHandle = hdl, pe_cbk = cbk\<rparr>\<rparr>, 0)"

definition alink_package_valid_length :: "bytes \<Rightarrow> u32 \<Rightarrow> u32 option" where
  "alink_package_valid_length psRecvdat recvlen = do {
     (uIndex, found) \<leftarrow> magic_loop psRecvdat (unat recvlen) 0;
     if found then alink_get_package_size (drop uIndex psRecvdat) else Some 0 }"

definition alink_get_package_head_index :: "bytes \<Rightarrow> u32 \<Rightarrow> u32 option" where
  "alink_get_package_head_index psRecvdat recvlen = do {
     (uIndex, found) \<leftarrow> magic_loop psRecvdat (unat recvlen) 0;
     Some (of_nat uIndex) }"

subsection \<open>Reference machine: one byte at a time\<close>

definition recv_byte ::
  "('h, 'c, 's, 'w) run_cbk \<Rightarrow> heap \<Rightarrow> 's alink_recv_import \<Rightarrow> ptr \<Rightarrow> u8 \<Rightarrow>
   ('h, 'c) alink_recv \<times> 'w \<Rightarrow> (('h, 'c) alink_recv \<times> 'w) option" where
  "recv_byte run h imp q b s =
     (let r = fst s; w = snd s; r1 = r\<lparr>wCount := wCount r + 1\<rparr> in
      case pu_state r of
        Check_magic \<Rightarrow>
          Some (if alink_check_magic b
                then r\<lparr>pbyBuffer := Some q, wCount := 1, pu_state := Check_head\<rparr> else r, w)
      | Check_head \<Rightarrow>
          if wCount r1 < 9 then Some (r1, w) else map_option (\<lambda>r'. (r', w)) (recv_head_done h r1)
      | Check_crc \<Rightarrow>
          if wCount r1 < wPkgSize r then Some (r1, w) else recv_crc_done run h imp r1 w)"

fun recv_bytes ::
  "('h, 'c, 's, 'w) run_cbk \<Rightarrow> heap \<Rightarrow> 's alink_recv_import \<Rightarrow> ptr \<Rightarrow> bytes \<Rightarrow>
   ('h, 'c) alink_recv \<times> 'w \<Rightarrow> (('h, 'c) alink_recv \<times> 'w) option" where
  "recv_bytes run h imp q [] s = Some s"
| "recv_bytes run h imp q (b # bs) s =
     Option.bind (recv_byte run h imp q b s) (recv_bytes run h imp (ptr_add q 1) bs)"

definition recv_inv :: "('h, 'c) alink_recv \<Rightarrow> bool" where
  "recv_inv r \<longleftrightarrow>
     (case pu_state r of
        Check_magic \<Rightarrow> True
      | Check_head \<Rightarrow> 1 \<le> unat (wCount r) \<and> unat (wCount r) \<le> 8
      | Check_crc \<Rightarrow> 9 \<le> unat (wCount r) \<and> unat (wCount r) < unat (wPkgSize r) \<and>
                     unat (wPkgSize r) \<le> 65546)"

lemma recv_bytes_append:
  "recv_bytes run h imp q (xs @ ys) s =
     Option.bind (recv_bytes run h imp q xs s) (recv_bytes run h imp (ptr_add q (length xs)) ys)"
  by (induction xs arbitrary: q s) (simp_all split: Option.bind_split)

lemma order_import_of_advance [simp]: "order_import_of (recv_advance imp k) = order_import_of imp"
  by (simp add: order_import_of_def recv_advance_def fun_eq_iff)

lemma recv_byte_import:
  assumes "order_import_of imp' = order_import_of imp"
  shows "recv_byte run h imp' = recv_byte run h imp"
proof -
  have eq: "recv_crc_done run h imp' = recv_crc_done run h imp"
    by (intro ext) (unfold recv_crc_done_def assms, rule refl)
  show ?thesis by (intro ext) (unfold recv_byte_def eq, rule refl)
qed

lemma recv_bytes_import:
  assumes "order_import_of imp' = order_import_of imp"
  shows "recv_bytes run h imp' q bs s = recv_bytes run h imp q bs s"
proof -
  note eq = recv_byte_import [OF assms, of run h]
  show ?thesis by (induction bs arbitrary: q s) (simp_all add: eq split: Option.bind_split)
qed

lemma recv_bytes_advance [simp]:
  "recv_bytes run h (recv_advance imp k) q bs s = recv_bytes run h imp q bs s"
  by (intro recv_bytes_import) simp

lemma unat_suc: "unat (c :: u32) < 4294967295 \<Longrightarrow> unat (c + 1) = Suc (unat c)"
  by (simp add: unat_plus_if')

subsection \<open>Runs of bytes that only count\<close>

lemma recv_bytes_skip_magic:
  "pu_state r = Check_magic \<Longrightarrow> \<forall>b \<in> set bs. \<not> alink_check_magic b \<Longrightarrow>
   recv_bytes run h imp q bs (r, w) = Some (r, w)"
  by (induction bs arbitrary: q) (auto simp: recv_byte_def Let_def)

lemma recv_bytes_skip_head:
  assumes "pu_state r = Check_head" "unat (wCount r) + length bs < 9"
  shows "recv_bytes run h imp q bs (r, w) = Some (r\<lparr>wCount := wCount r + of_nat (length bs)\<rparr>, w)"
  using assms
proof (induction bs arbitrary: q r)
  case (Cons b bs)
  let ?r = "r\<lparr>wCount := wCount r + 1\<rparr>"
  have c: "unat (wCount r + 1) = Suc (unat (wCount r))" using Cons.prems by (intro unat_suc) simp
  then have "recv_byte run h imp q b (r, w) = Some (?r, w)"
    using Cons.prems by (simp add: recv_byte_def Let_def word_less_nat_alt)
  moreover have "recv_bytes run h imp (ptr_add q 1) bs (?r, w) =
      Some (?r\<lparr>wCount := wCount ?r + of_nat (length bs)\<rparr>, w)"
    using Cons.prems c by (intro Cons.IH) auto
  ultimately show ?case by (simp add: add.assoc)
qed simp

lemma recv_bytes_skip_crc:
  assumes "pu_state r = Check_crc" "unat (wCount r) + length bs < unat (wPkgSize r)"
  shows "recv_bytes run h imp q bs (r, w) = Some (r\<lparr>wCount := wCount r + of_nat (length bs)\<rparr>, w)"
  using assms
proof (induction bs arbitrary: q r)
  case (Cons b bs)
  let ?r = "r\<lparr>wCount := wCount r + 1\<rparr>"
  have c: "unat (wCount r + 1) = Suc (unat (wCount r))"
    using Cons.prems unsigned_less [of "wPkgSize r", where 'a = nat] by (intro unat_suc) simp
  then have "recv_byte run h imp q b (r, w) = Some (?r, w)"
    using Cons.prems by (simp add: recv_byte_def Let_def word_less_nat_alt)
  moreover have "recv_bytes run h imp (ptr_add q 1) bs (?r, w) =
      Some (?r\<lparr>wCount := wCount ?r + of_nat (length bs)\<rparr>, w)"
    using Cons.prems c by (intro Cons.IH) auto
  ultimately show ?case by (simp add: add.assoc)
qed simp

subsection \<open>Each state function is a run of byte steps\<close>

lemma magic_loop_in:
  "n \<le> length m \<Longrightarrow> magic_loop m n i =
     (let k = length (takeWhile (Not \<circ> alink_check_magic) (take n m)) in Some (i + k, k < n))"
  by (induction m n i rule: magic_loop.induct) (auto simp: Let_def)

lemma check_magic_run:
  assumes "pu_state r = Check_magic" "deref h (ri_pbyData imp) = Some m"
    "unat (ri_uLength imp) \<le> length m" "0 < unat (ri_uLength imp)"
  shows "\<exists>k. 0 < k \<and> k \<le> unat (ri_uLength imp) \<and> recv_call_state run h r imp w =
    map_option (\<lambda>(r', w'). (of_nat k, r', w')) (recv_bytes run h imp (ri_pbyData imp) (take k m) (r, w))"
proof -
  let ?n = "unat (ri_uLength imp)" and ?q = "ri_pbyData imp"
  let ?k = "length (takeWhile (Not \<circ> alink_check_magic) (take ?n m))"
  have pre: "\<forall>b \<in> set (take ?k (take ?n m)). \<not> alink_check_magic b"
    by (metis comp_apply set_takeWhileD takeWhile_eq_take)
  have call: "recv_call_state run h r imp w =
     Some (if ?k < ?n
           then (of_nat (Suc ?k), r\<lparr>pbyBuffer := Some (ptr_add ?q ?k), wCount := 1, pu_state := Check_head\<rparr>, w)
           else (of_nat ?k, r, w))"
    using assms by (simp add: recv_call_state_def alink_recv_state_check_magic_def magic_loop_in Let_def)
  have kn: "?k \<le> ?n" using length_takeWhile_le [of "Not \<circ> alink_check_magic" "take ?n m"] by simp
  show ?thesis
  proof (cases "?k < ?n")
    case True
    then have b: "alink_check_magic (m ! ?k)"
      using nth_length_takeWhile [of "Not \<circ> alink_check_magic" "take ?n m"] assms(3) by simp
    have "take (Suc ?k) m = take ?k (take ?n m) @ [m ! ?k]"
      using True assms(3) by (simp add: take_Suc_conv_app_nth min_def)
    then have "recv_bytes run h imp ?q (take (Suc ?k) m) (r, w) =
        Some (r\<lparr>pbyBuffer := Some (ptr_add ?q ?k), wCount := 1, pu_state := Check_head\<rparr>, w)"
      using True b assms(1,3) recv_bytes_skip_magic [OF assms(1) pre, of run h imp ?q w]
      by (simp add: recv_bytes_append recv_byte_def Let_def min_def)
    with call True show ?thesis by (intro exI [of _ "Suc ?k"]) simp
  next
    case False
    with kn have k: "?k = ?n" by simp
    then have "recv_bytes run h imp ?q (take ?n m) (r, w) = Some (r, w)"
      using pre assms(1) by (intro recv_bytes_skip_magic) simp_all
    with call k assms(4) show ?thesis by (intro exI [of _ ?n]) simp
  qed
qed

lemma recv_bytes_take_last:
  assumes "0 < k" "k \<le> length m"
  shows "recv_bytes run h imp q (take k m) s =
    Option.bind (recv_bytes run h imp q (take (k - 1) m) s)
      (recv_byte run h imp (ptr_add q (k - 1)) (m ! (k - 1)))"
proof -
  obtain j where j: "k = Suc j" using assms(1) by (cases k) auto
  with assms(2) have "take k m = take j m @ [m ! j]" by (simp add: take_Suc_conv_app_nth)
  with j assms(2) show ?thesis by (simp add: recv_bytes_append min_def split: Option.bind_split)
qed

lemma add_of_nat_pred: "0 < k \<Longrightarrow> x + of_nat (k - 1) + 1 = x + (of_nat k :: 'a::len word)"
  by (cases k) simp_all

lemma recv_byte_head_last:
  "pu_state r = Check_head \<Longrightarrow> wCount r + 1 = 9 \<Longrightarrow>
   recv_byte run h imp q b (r, w) = map_option (\<lambda>r'. (r', w)) (recv_head_done h (r\<lparr>wCount := 9\<rparr>))"
  by (simp add: recv_byte_def Let_def)

lemma recv_byte_crc_last:
  "pu_state r = Check_crc \<Longrightarrow> wCount r + 1 = wPkgSize r \<Longrightarrow>
   recv_byte run h imp q b (r, w) = recv_crc_done run h imp (r\<lparr>wCount := wPkgSize r\<rparr>) w"
  by (simp add: recv_byte_def Let_def)

lemma recv_bytes_head_full:
  assumes st: "pu_state r = Check_head" and c: "1 \<le> unat (wCount r)" "unat (wCount r) \<le> 8"
    and m: "9 - unat (wCount r) \<le> length m"
  shows "recv_bytes run h imp q (take (9 - unat (wCount r)) m) (r, w) =
    map_option (\<lambda>r'. (r', w)) (recv_head_done h (r\<lparr>wCount := 9\<rparr>))"
proof -
  let ?k = "9 - unat (wCount r)"
  let ?r8 = "r\<lparr>wCount := wCount r + of_nat (?k - 1)\<rparr>"
  have k: "0 < ?k" using c by simp
  have len: "length (take (?k - 1) m) = ?k - 1" using m by simp
  have skip: "recv_bytes run h imp q (take (?k - 1) m) (r, w) = Some (?r8, w)"
    using recv_bytes_skip_head [OF st, of "take (?k - 1) m"] c unfolding len by simp
  have "wCount r + of_nat ?k = (9 :: u32)" using c by (simp add: of_nat_diff)
  then have "wCount ?r8 + 1 = 9" using add_of_nat_pred [OF k, of "wCount r"] by simp
  then have "recv_byte run h imp (ptr_add q (?k - 1)) (m ! (?k - 1)) (?r8, w) =
      map_option (\<lambda>r'. (r', w)) (recv_head_done h (r\<lparr>wCount := 9\<rparr>))"
    using st by (subst recv_byte_head_last) simp_all
  then show ?thesis
    using recv_bytes_take_last [of ?k m run h imp q "(r, w)"] k m skip by simp
qed

lemma recv_bytes_crc_full:
  assumes st: "pu_state r = Check_crc" and c: "unat (wCount r) < unat (wPkgSize r)"
    and m: "unat (wPkgSize r) - unat (wCount r) \<le> length m"
  shows "recv_bytes run h imp q (take (unat (wPkgSize r) - unat (wCount r)) m) (r, w) =
    recv_crc_done run h imp (r\<lparr>wCount := wPkgSize r\<rparr>) w"
proof -
  let ?k = "unat (wPkgSize r) - unat (wCount r)"
  let ?r1 = "r\<lparr>wCount := wCount r + of_nat (?k - 1)\<rparr>"
  have k: "0 < ?k" using c by simp
  have wk: "(of_nat ?k :: u32) = wPkgSize r - wCount r" using c by (simp add: of_nat_diff)
  have len: "length (take (?k - 1) m) = ?k - 1" using m by simp
  have "unat (wCount r) + (?k - 1) < unat (wPkgSize r)" using c by simp
  then have skip: "recv_bytes run h imp q (take (?k - 1) m) (r, w) = Some (?r1, w)"
    using recv_bytes_skip_crc [OF st, of "take (?k - 1) m"] unfolding len by simp
  have "wCount ?r1 + 1 = wPkgSize ?r1" using add_of_nat_pred [OF k, of "wCount r"] wk by simp
  then have "recv_byte run h imp (ptr_add q (?k - 1)) (m ! (?k - 1)) (?r1, w) =
      recv_crc_done run h imp (r\<lparr>wCount := wPkgSize r\<rparr>) w"
    using st by (subst recv_byte_crc_last) simp_all
  then show ?thesis
    using recv_bytes_take_last [of ?k m run h imp q "(r, w)"] k m skip by simp
qed

lemma check_head_run:
  assumes st: "pu_state r = Check_head" and inv: "recv_inv r"
    and m: "unat (ri_uLength imp) \<le> length m" "0 < unat (ri_uLength imp)"
  shows "\<exists>k. 0 < k \<and> k \<le> unat (ri_uLength imp) \<and> recv_call_state run h r imp w =
    map_option (\<lambda>(r', w'). (of_nat k, r', w')) (recv_bytes run h imp q (take k m) (r, w))"
proof -
  let ?n = "unat (ri_uLength imp)" and ?c = "unat (wCount r)"
  from inv st have c: "1 \<le> ?c" "?c \<le> 8" by (auto simp: recv_inv_def)
  have d: "(9 :: u64) - ucast (wCount r) = of_nat (9 - ?c)" using c by (simp add: of_nat_diff)
  have ud: "unat (of_nat (9 - ?c) :: u64) = 9 - ?c" by (intro unat_of_nat_small) simp
  have un: "unat (ucast (ri_uLength imp) :: u64) = ?n"
    using unat_of_nat_small [of ?n, where 'a = 64] unsigned_less [of "ri_uLength imp", where 'a = nat] by simp
  have gt: "(9 :: u64) - ucast (wCount r) > ucast (ri_uLength imp) \<longleftrightarrow> ?n < 9 - ?c"
    unfolding d word_less_nat_alt ud un ..
  have uc: "(ucast (of_nat (9 - ?c) :: u64) :: u32) = of_nat (9 - ?c)" by (intro ucast_of_nat_small) simp
  show ?thesis
  proof (cases "?n < 9 - ?c")
    case True
    then have "recv_bytes run h imp q (take ?n m) (r, w) = Some (r\<lparr>wCount := wCount r + ri_uLength imp\<rparr>, w)"
      using m st recv_bytes_skip_head [of r "take ?n m" run h imp q w] by simp
    moreover have "recv_call_state run h r imp w =
        Some (ri_uLength imp, r\<lparr>wCount := wCount r + ri_uLength imp\<rparr>, w)"
      using True st by (simp add: recv_call_state_def alink_recv_state_check_head_def gt)
    ultimately show ?thesis using m by (intro exI [of _ ?n]) simp
  next
    case False
    let ?k = "9 - ?c"
    let ?r9 = "r\<lparr>wCount := wCount r + of_nat ?k\<rparr>"
    have k: "0 < ?k" "?k \<le> ?n" using c False by auto
    have c9: "wCount r + of_nat ?k = (9 :: u32)" using c by (simp add: of_nat_diff)
    have "recv_bytes run h imp q (take ?k m) (r, w) =
        map_option (\<lambda>r'. (r', w)) (recv_head_done h ?r9)"
      unfolding c9 using st c k m by (intro recv_bytes_head_full) auto
    moreover have "recv_call_state run h r imp w =
        map_option (\<lambda>r'. (of_nat ?k, r', w)) (recv_head_done h ?r9)"
      using False st unfolding recv_call_state_def alink_recv_state_check_head_def gt
      by (simp only: d uc Let_def recv_state.case if_False) (cases "recv_head_done h ?r9"; simp)
    ultimately show ?thesis
      using k by (intro exI [of _ ?k]) (cases "recv_head_done h ?r9"; simp)
  qed
qed

lemma check_crc_run:
  assumes st: "pu_state r = Check_crc" and inv: "recv_inv r"
    and m: "unat (ri_uLength imp) \<le> length m" "0 < unat (ri_uLength imp)"
    and big: "unat (ri_uLength imp) + 65546 < 2 ^ 32"
  shows "\<exists>k. 0 < k \<and> k \<le> unat (ri_uLength imp) \<and> recv_call_state run h r imp w =
    map_option (\<lambda>(r', w'). (of_nat k, r', w')) (recv_bytes run h imp q (take k m) (r, w))"
proof -
  let ?n = "unat (ri_uLength imp)" and ?c = "unat (wCount r)" and ?s = "unat (wPkgSize r)"
  from inv st have c: "9 \<le> ?c" "?c < ?s" "?s \<le> 65546" by (auto simp: recv_inv_def)
  have "unat (wCount r + ri_uLength imp) = ?c + ?n"
    using c big by (simp add: unat_plus_if')
  then have gt: "wPkgSize r > wCount r + ri_uLength imp \<longleftrightarrow> ?c + ?n < ?s"
    by (simp add: word_less_nat_alt)
  show ?thesis
  proof (cases "?c + ?n < ?s")
    case True
    then have "recv_bytes run h imp q (take ?n m) (r, w) = Some (r\<lparr>wCount := wCount r + ri_uLength imp\<rparr>, w)"
      using m st recv_bytes_skip_crc [of r "take ?n m" run h imp q w] by simp
    moreover have "recv_call_state run h r imp w =
        Some (ri_uLength imp, r\<lparr>wCount := wCount r + ri_uLength imp\<rparr>, w)"
      using True st by (simp add: recv_call_state_def alink_recv_state_check_crc_def Let_def gt)
    ultimately show ?thesis using m by (intro exI [of _ ?n]) simp
  next
    case False
    let ?k = "?s - ?c"
    let ?r2 = "r\<lparr>wCount := wPkgSize r\<rparr>"
    have k: "0 < ?k" "?k \<le> ?n" using c False by auto
    have wk: "(of_nat ?k :: u32) = wPkgSize r - wCount r" using c by (simp add: of_nat_diff)
    have "recv_bytes run h imp q (take ?k m) (r, w) = recv_crc_done run h imp ?r2 w"
      using st c k m by (intro recv_bytes_crc_full) auto
    moreover have "recv_call_state run h r imp w =
        map_option (\<lambda>(r', w'). (of_nat ?k, r', w')) (recv_crc_done run h imp ?r2 w)"
      using False st unfolding recv_call_state_def alink_recv_state_check_crc_def Let_def gt wk
      by (cases "recv_crc_done run h imp ?r2 w") auto
    ultimately show ?thesis using k by (intro exI [of _ ?k]) simp
  qed
qed

lemma recv_call_run:
  assumes "recv_inv r" "deref h (ri_pbyData imp) = Some m" "unat (ri_uLength imp) \<le> length m"
    "0 < unat (ri_uLength imp)" "unat (ri_uLength imp) + 65546 < 2 ^ 32"
  shows "\<exists>k. 0 < k \<and> k \<le> unat (ri_uLength imp) \<and> recv_call_state run h r imp w =
    map_option (\<lambda>(r', w'). (of_nat k, r', w')) (recv_bytes run h imp (ri_pbyData imp) (take k m) (r, w))"
proof (cases "pu_state r")
  case Check_magic
  then show ?thesis using assms by (intro check_magic_run)
next
  case Check_head
  then show ?thesis using assms by (intro check_head_run)
next
  case Check_crc
  then show ?thesis using assms by (intro check_crc_run)
qed

subsection \<open>The invariant\<close>

lemma recv_head_done_inv:
  assumes "recv_head_done h r = Some r'" "unat (wCount r) = 9"
  shows "recv_inv r'"
proof -
  from assms(1) obtain p where "alink_check_header_checksum p \<noteq> None" and r':
    "r' = r\<lparr>pu_state := Check_magic\<rparr> \<or>
     (\<exists>n. alink_get_package_size p = Some n \<and> r' = r\<lparr>wPkgSize := n, pu_state := Check_crc\<rparr>)"
    by (auto simp: recv_head_done_def Option.bind_eq_Some_conv split: if_splits)
  then have "3 \<le> length p"
    by (auto simp: alink_check_header_checksum_def load8_def split: option.splits if_splits
        Option.bind_splits)
  then have "alink_get_package_size p = Some (of_nat (payload_len p + 11))"
    by (rule alink_get_package_size_in)
  with r' assms(2) show ?thesis
    using unat_package_size [of p] payload_len_less [of p] by (auto simp: recv_inv_def)
qed

lemma recv_byte_inv:
  assumes "recv_inv (fst s)" "recv_byte run h imp q b s = Some s'"
  shows "recv_inv (fst s')"
proof (cases "pu_state (fst s)")
  case Check_magic
  with assms show ?thesis by (auto simp: recv_byte_def Let_def recv_inv_def)
next
  case Check_head
  let ?r = "(fst s)\<lparr>wCount := wCount (fst s) + 1\<rparr>"
  from Check_head assms(1) have c: "1 \<le> unat (wCount (fst s))" "unat (wCount (fst s)) \<le> 8"
    by (auto simp: recv_inv_def)
  then have u: "unat (wCount ?r) = Suc (unat (wCount (fst s)))" by (simp add: unat_suc)
  show ?thesis
  proof (cases "wCount ?r < 9")
    case True
    with Check_head assms(2) u c show ?thesis
      by (auto simp: recv_byte_def Let_def recv_inv_def word_less_nat_alt)
  next
    case False
    with u c have "unat (wCount ?r) = 9" by (simp add: word_less_nat_alt)
    moreover from False Check_head assms(2) have "recv_head_done h ?r = Some (fst s')"
      by (auto simp: recv_byte_def Let_def)
    ultimately show ?thesis by (intro recv_head_done_inv)
  qed
next
  case Check_crc
  let ?r = "(fst s)\<lparr>wCount := wCount (fst s) + 1\<rparr>"
  from Check_crc assms(1) have c: "9 \<le> unat (wCount (fst s))"
    "unat (wCount (fst s)) < unat (wPkgSize (fst s))" "unat (wPkgSize (fst s)) \<le> 65546"
    by (auto simp: recv_inv_def)
  then have u: "unat (wCount ?r) = Suc (unat (wCount (fst s)))" by (simp add: unat_suc)
  show ?thesis
  proof (cases "wCount ?r < wPkgSize (fst s)")
    case True
    with Check_crc assms(2) u c show ?thesis
      by (auto simp: recv_byte_def Let_def recv_inv_def word_less_nat_alt)
  next
    case False
    with Check_crc assms(2) have "recv_crc_done run h imp ?r (snd s) = Some s'"
      by (auto simp: recv_byte_def Let_def)
    then have "pu_state (fst s') = Check_magic"
      by (auto simp: recv_crc_done_def Option.bind_eq_Some_conv)
    then show ?thesis by (simp add: recv_inv_def)
  qed
qed

lemma recv_bytes_inv:
  "recv_inv (fst s) \<Longrightarrow> recv_bytes run h imp q bs s = Some s' \<Longrightarrow> recv_inv (fst s')"
  by (induction bs arbitrary: q s) (auto simp: Option.bind_eq_Some_conv dest: recv_byte_inv)

subsection \<open>The receive loop runs the byte machine\<close>

lemma alink_recv_task_bytes:
  assumes "recv_inv r" "deref h (ri_pbyData imp) = Some m" "unat (ri_uLength imp) \<le> length m"
    "unat (ri_uLength imp) + 65546 < 2 ^ 32"
  shows "alink_recv_task run h r imp w =
    recv_bytes run h imp (ri_pbyData imp) (take (unat (ri_uLength imp)) m) (r, w)"
  using assms
proof (induction "unat (ri_uLength imp)" arbitrary: r imp m w rule: less_induct)
  case less
  let ?n = "unat (ri_uLength imp)" and ?q = "ri_pbyData imp"
  show ?case
  proof (cases "?n = 0")
    case True
    then show ?thesis by (simp add: alink_recv_task.simps unat_eq_zero)
  next
    case False
    then have pos: "0 < ?n" by simp
    obtain k where k: "0 < k" "k \<le> ?n" and call: "recv_call_state run h r imp w =
        map_option (\<lambda>(r', w'). (of_nat k, r', w')) (recv_bytes run h imp ?q (take k m) (r, w))"
      using recv_call_run [OF less.prems(1-3) pos less.prems(4), of run w] by (elim exE conjE)
    let ?imp = "recv_advance imp (of_nat k)"
    have uk: "unat (of_nat k :: u32) = k"
      using k less.prems(4) by (intro unat_of_nat_small) simp
    have sub: "unat (ri_uLength ?imp) = ?n - k"
      using k uk by (simp add: recv_advance_def unat_sub word_le_nat_alt)
    have q: "ri_pbyData ?imp = ptr_add ?q k" by (simp add: recv_advance_def uk)
    have rest: "alink_recv_task run h r' ?imp w' =
        recv_bytes run h imp (ptr_add ?q k) (take (?n - k) (drop k m)) (r', w')"
      if "recv_inv r'" for r' w'
      using less.hyps [of ?imp r' "drop k m" w'] that k less.prems sub q
      by (simp add: deref_add)
    have split: "take ?n m = take k m @ take (?n - k) (drop k m)"
      using k by (metis le_add_diff_inverse take_add)
    have len: "length (take k m) = k" using k less.prems(3) by simp
    show ?thesis
    proof (cases "recv_bytes run h imp ?q (take k m) (r, w)")
      case None
      then show ?thesis
        using False call unfolding split recv_bytes_append
        by (simp add: alink_recv_task.simps [of run h r imp w] unat_eq_zero)
    next
      case (Some s)
      obtain r' w' where s: "s = (r', w')" by (cases s)
      with Some less.prems(1) have "recv_inv r'"
        using recv_bytes_inv [of "(r, w)" run h imp ?q "take k m" s] by simp
      from rest [OF this, of w'] show ?thesis
        using False call Some s unfolding split recv_bytes_append len
        by (simp add: alink_recv_task.simps [of run h r imp w] unat_eq_zero)
    qed
  qed
qed

subsection \<open>Specification: the packages of a buffer\<close>

text \<open>
  Offset and bytes of every package that a buffer holds, in order: skip to the next magic byte; a bad
  header checksum discards nine bytes; a bad CRC discards the package; an incomplete package at the
  end is not delivered.
\<close>

function frames :: "nat \<Rightarrow> bytes \<Rightarrow> (nat \<times> bytes) list" where
  "frames i [] = []"
| "frames i (b # bs) =
     (let p = b # bs; n = payload_len p + 11 in
      if \<not> alink_check_magic b then frames (Suc i) bs
      else if length p < 9 then []
      else if \<not> header_ok p then frames (i + 9) (drop 8 bs)
      else if length p < n then []
      else if crc_ok (take n p) then (i, take n p) # frames (i + n) (drop n p)
      else frames (i + n) (drop n p))"
  by pat_completeness auto
termination
  by (relation "measure (length \<circ> snd)") auto

declare frames.simps(2) [simp del]

fun deliver ::
  "('h, 'c, 's, 'w) run_cbk \<Rightarrow> 'c \<Rightarrow> 'h option \<Rightarrow> heap \<Rightarrow> 's alink_recv_import \<Rightarrow> nat \<Rightarrow>
   (nat \<times> bytes) list \<Rightarrow> 'w \<Rightarrow> 'w option" where
  "deliver run c hdl h imp ob [] w = Some w"
| "deliver run c hdl h imp ob (f # fs) w =
     Option.bind (run c hdl h (order_import_of imp \<lparr>obj = ob, off = fst f\<rparr>) w)
       (deliver run c hdl h imp ob fs)"

lemma recv_bytes_header:
  assumes st: "pu_state r = Check_magic" and p: "deref h q = Some p" "9 \<le> length p"
    and b: "alink_check_magic (p ! 0)"
  shows "recv_bytes run h imp q (take 9 p) (r, w) =
    Some (if header_ok p
          then r\<lparr>pbyBuffer := Some q, wCount := 9, wPkgSize := of_nat (payload_len p + 11),
                 pu_state := Check_crc\<rparr>
          else r\<lparr>pbyBuffer := Some q, wCount := 9, pu_state := Check_magic\<rparr>, w)"
proof -
  let ?r1 = "r\<lparr>pbyBuffer := Some q, wCount := 1, pu_state := Check_head\<rparr>"
  obtain x xs where px: "p = x # xs" using p(2) by (cases p) auto
  then have "take 9 p = [p ! 0] @ take (9 - unat (wCount ?r1)) (drop 1 p)"
    by (simp add: numeral_eq_Suc)
  moreover have "recv_bytes run h imp q [p ! 0] (r, w) = Some (?r1, w)"
    using st b by (simp add: recv_byte_def Let_def)
  moreover have "recv_bytes run h imp (ptr_add q 1) (take (9 - unat (wCount ?r1)) (drop 1 p)) (?r1, w) =
      map_option (\<lambda>r'. (r', w)) (recv_head_done h (?r1\<lparr>wCount := 9\<rparr>))"
    using p(2) by (intro recv_bytes_head_full) simp_all
  moreover have "recv_head_done h (?r1\<lparr>wCount := 9\<rparr>) =
    Some (if header_ok p
          then r\<lparr>pbyBuffer := Some q, wCount := 9, wPkgSize := of_nat (payload_len p + 11),
                 pu_state := Check_crc\<rparr>
          else r\<lparr>pbyBuffer := Some q, wCount := 9, pu_state := Check_magic\<rparr>)"
    using p by (simp add: recv_head_done_def deref_opt_def mem_simps)
  ultimately show ?thesis by (simp only: recv_bytes_append) simp
qed

lemma recv_bytes_package:
  assumes st: "pu_state r = Check_magic" and cbk: "sRecvCbk r = \<lparr>psHandle = hdl, pe_cbk = Some c\<rparr>"
    and p: "deref h q = Some p" "n = payload_len p + 11" "n \<le> length p"
    and b: "alink_check_magic (p ! 0)" "header_ok p"
  shows "\<exists>r'. pu_state r' = Check_magic \<and> sRecvCbk r' = sRecvCbk r \<and>
    (\<forall>w. recv_bytes run h imp q (take n p) (r, w) =
      map_option (Pair r') (if crc_ok (take n p) then run c hdl h (order_import_of imp q) w else Some w))"
proof -
  let ?r9 = "r\<lparr>pbyBuffer := Some q, wCount := 9, wPkgSize := of_nat n, pu_state := Check_crc\<rparr>"
  have un: "unat (of_nat n :: u32) = n" using p(2) unat_package_size [of p] by simp
  have n9: "take n p = take 9 p @ take (n - 9) (drop 9 p)"
    using take_add [of 9 "n - 9" p] p(2) by (simp add: add.commute)
  have hd: "recv_bytes run h imp q (take 9 p) (r, w) = Some (?r9, w)" for w
    using recv_bytes_header [OF st p(1) _ b(1), of run imp w] p(2,3) b(2) by simp
  have body: "recv_bytes run h imp (ptr_add q 9) (take (n - 9) (drop 9 p)) (?r9, w) =
      recv_crc_done run h imp (?r9\<lparr>wCount := of_nat n\<rparr>) w" for w
    using recv_bytes_crc_full [of ?r9 "drop 9 p" run h imp "ptr_add q 9" w] un p(2,3) by simp
  have crc: "alink_check_crc p (of_nat n) = Some (crc_ok (take n p))"
    using p by (intro alink_check_crc_in) simp_all
  have fin: "recv_crc_done run h imp (?r9\<lparr>wCount := of_nat n\<rparr>) w =
      map_option (Pair (?r9\<lparr>wCount := of_nat n, pu_state := Check_magic\<rparr>))
        (if crc_ok (take n p) then run c hdl h (order_import_of imp q) w else Some w)" for w
    by (simp add: recv_crc_done_def p(1) crc cbk map_conv_bind_option comp_def)
  have len9: "length (take 9 p) = 9" using p(2,3) by simp
  have "recv_bytes run h imp q (take n p) (r, w) =
      map_option (Pair (?r9\<lparr>wCount := of_nat n, pu_state := Check_magic\<rparr>))
        (if crc_ok (take n p) then run c hdl h (order_import_of imp q) w else Some w)" for w
    by (subst n9) (simp only: recv_bytes_append hd len9 bind.bind_lunit body fin)
  then show ?thesis
    by (intro exI [of _ "?r9\<lparr>wCount := of_nat n, pu_state := Check_magic\<rparr>"]) simp
qed

lemma header_append: "9 \<le> length p \<Longrightarrow> header_ok (p @ xs) = header_ok p"
  "9 \<le> length p \<Longrightarrow> payload_len (p @ xs) = payload_len p" "9 \<le> length p \<Longrightarrow> (p @ xs) ! 0 = p ! 0"
  by (auto simp: header_ok_def payload_len_def nth_append)

lemma recv_bytes_incomplete:
  assumes st: "pu_state r = Check_magic" and p: "deref h q = Some (p @ xs)" "p \<noteq> []"
    and b: "alink_check_magic (p ! 0)"
    and cut: "length p < 9 \<or> header_ok p \<and> length p < payload_len p + 11"
  shows "\<exists>r'. recv_bytes run h imp q p (r, w) = Some (r', w)"
proof (cases "length p < 9")
  case True
  let ?r1 = "r\<lparr>pbyBuffer := Some q, wCount := 1, pu_state := Check_head\<rparr>"
  obtain x ys where px: "p = x # ys" using p(2) by (cases p) auto
  then have "recv_byte run h imp q x (r, w) = Some (?r1, w)"
    using st b by (simp add: recv_byte_def Let_def)
  then show ?thesis
    using True recv_bytes_skip_head [of ?r1 ys run h imp "ptr_add q 1" w] px by simp
next
  case False
  then have l9: "9 \<le> length p" by simp
  let ?n = "payload_len p + 11"
  let ?r9 = "r\<lparr>pbyBuffer := Some q, wCount := 9, wPkgSize := of_nat ?n, pu_state := Check_crc\<rparr>"
  have hd: "recv_bytes run h imp q (take 9 p) (r, w) = Some (?r9, w)"
    using recv_bytes_header [OF st p(1), of run imp w] l9 b cut False by (simp add: header_append)
  have "unat (wCount ?r9) + length (drop 9 p) < unat (wPkgSize ?r9)"
    using cut l9 unat_package_size [of p] by simp
  then have "\<exists>r'. recv_bytes run h imp (ptr_add q 9) (drop 9 p) (?r9, w) = Some (r', w)"
    using recv_bytes_skip_crc [of ?r9 "drop 9 p" run h imp "ptr_add q 9" w] by simp
  then show ?thesis
    using hd l9 recv_bytes_append [of run h imp q "take 9 p" "drop 9 p" "(r, w)"]
    by (simp only: append_take_drop_id) simp
qed

lemma recv_frames:
  assumes "pu_state r = Check_magic" "sRecvCbk r = \<lparr>psHandle = hdl, pe_cbk = Some c\<rparr>"
    "h ob = Some buf" "i \<le> length buf" "drop i buf = bs @ xs"
  shows "map_option snd (recv_bytes run h imp \<lparr>obj = ob, off = i\<rparr> bs (r, w)) =
    deliver run c hdl h imp ob (frames i bs) w"
  using assms
proof (induction i bs arbitrary: r w rule: frames.induct)
  case (2 i b bs)
  let ?p = "b # bs" and ?q = "\<lparr>obj = ob, off = i\<rparr>"
  let ?n = "payload_len ?p + 11"
  note st = "2.prems"(1) and cbk = "2.prems"(2) and h = "2.prems"(3) and i = "2.prems"(4)
    and eq = "2.prems"(5)
  have p: "deref h ?q = Some (?p @ xs)" using h i eq by (simp add: deref_def)
  have l: "length ?p \<le> length buf - i" using eq by (metis length_append length_drop le_add1)
  have suf: "drop (i + k) buf = drop k ?p @ xs" if "k \<le> length ?p" for k
  proof -
    have "drop (i + k) buf = drop k (?p @ xs)" using arg_cong [OF eq, of "drop k"] by (simp add: add.commute)
    also have "\<dots> = drop k ?p @ xs" using that by (subst drop_append) simp
    finally show ?thesis .
  qed
  have le: "i + k \<le> length buf" if "k \<le> length ?p" for k using that l i by simp
  have app: "take k (?p @ xs) = take k ?p" if "k \<le> length ?p" for k using that by (subst take_append) simp
  have rest: "recv_bytes run h imp ?q ?p s =
      Option.bind (recv_bytes run h imp ?q (take k ?p) s)
        (recv_bytes run h imp \<lparr>obj = ob, off = i + k\<rparr> (drop k ?p))" if "k \<le> length ?p" for k s
    using that recv_bytes_append [of run h imp ?q "take k ?p" "drop k ?p" s]
    by (simp only: append_take_drop_id) (simp add: ptr_add_def)
  show ?case
  proof (cases "alink_check_magic b")
    case nomagic: False
    have "recv_byte run h imp ?q b (r, w) = Some (r, w)"
      using nomagic st by (simp add: recv_byte_def Let_def)
    moreover have "map_option snd (recv_bytes run h imp \<lparr>obj = ob, off = Suc i\<rparr> bs (r, w)) =
        deliver run c hdl h imp ob (frames (Suc i) bs) w"
      using "2.IH"(1) [OF refl refl nomagic st cbk h] le [of 1] suf [of 1] by simp
    ultimately show ?thesis using nomagic by (simp add: frames.simps ptr_add_def)
  next
    case magic: True
    then have b0: "alink_check_magic (?p ! 0)" by simp
    show ?thesis
    proof (cases "length ?p < 9 \<or> header_ok ?p \<and> length ?p < ?n")
      case True
      with recv_bytes_incomplete [OF st p _ b0 True, of run imp w] magic show ?thesis
        by (auto simp: frames.simps Let_def)
    next
      case False
      then have l9: "9 \<le> length ?p" and long: "\<not> length ?p < 9" by auto
      show ?thesis
      proof (cases "header_ok ?p")
        case bad: False
        let ?r9 = "r\<lparr>pbyBuffer := Some ?q, wCount := 9, pu_state := Check_magic\<rparr>"
        have "recv_bytes run h imp ?q (take 9 ?p) (r, w) = Some (?r9, w)"
          using recv_bytes_header [OF st p, of run imp w] bad magic app [OF l9] header_append [OF l9, of xs] l9 by simp
        moreover have "map_option snd (recv_bytes run h imp \<lparr>obj = ob, off = i + 9\<rparr> (drop 8 bs) (?r9, w)) =
            deliver run c hdl h imp ob (frames (i + 9) (drop 8 bs)) w"
          using "2.IH"(2) [OF refl refl _ long bad, of ?r9 w] magic cbk h le [OF l9] suf [OF l9] by simp
        ultimately show ?thesis
          using rest [OF l9, of "(r, w)"] magic long bad by (simp add: frames.simps)
      next
        case ok: True
        then have whole: "\<not> length ?p < ?n" and ln: "?n \<le> length ?p" using False by auto
        obtain r' where r': "pu_state r' = Check_magic" "sRecvCbk r' = sRecvCbk r"
          "\<And>w. recv_bytes run h imp ?q (take ?n ?p) (r, w) = map_option (Pair r')
             (if crc_ok (take ?n ?p) then run c hdl h (order_import_of imp ?q) w else Some w)"
          using recv_bytes_package [OF st cbk p refl, of run imp] magic ok ln app [OF ln] header_append [OF l9, of xs] by auto
        have IH: "map_option snd (recv_bytes run h imp \<lparr>obj = ob, off = i + ?n\<rparr> (drop ?n ?p) (r', w')) =
          deliver run c hdl h imp ob (frames (i + ?n) (drop ?n ?p)) w'" for w'
          using "2.IH"(3) [OF refl refl _ long _ whole, of r' w'] "2.IH"(4) [OF refl refl _ long _ whole, of r' w']
            magic ok r'(1,2) cbk h le [OF ln] suf [OF ln] by (cases "crc_ok (take ?n ?p)") auto
        show ?thesis
          using rest [OF ln, of "(r, w)"] r'(3) [of w] magic long ok whole IH
          by (cases "crc_ok (take ?n ?p)"; cases "run c hdl h (order_import_of imp ?q) w")
            (simp_all add: frames.simps Let_def)
      qed
    qed
  qed
qed simp

subsection \<open>Packages back to back\<close>

fun place :: "nat \<Rightarrow> bytes list \<Rightarrow> (nat \<times> bytes) list" where
  "place i [] = []"
| "place i (p # ps) = (i, p) # place (i + length p) ps"

lemma frames_noise:
  "\<forall>b \<in> set g. \<not> alink_check_magic b \<Longrightarrow> frames i (g @ rest) = frames (i + length g) rest"
  by (induction g arbitrary: i) (auto simp: frames.simps)

lemma valid_package_head:
  assumes "valid_package p"
  shows "payload_len (p @ rest) = payload_len p" "header_ok (p @ rest) = header_ok p"
    "length p = payload_len p + 11" "11 \<le> length p" "p ! 0 = ALINK_MSG_MAGIC_VALUE"
  using assms by (auto simp: valid_package_def payload_len_def header_ok_def nth_append)

lemma frames_valid:
  assumes v: "valid_package p"
  shows "frames i (p @ rest) = (i, p) # frames (i + length p) rest"
proof -
  note hd = valid_package_head [OF v]
  obtain b bs where p: "p = b # bs" using hd(4) by (cases p) auto
  have eq: "p @ rest = b # (bs @ rest)" using p by simp
  have "alink_check_magic b" using hd(5) p by (simp add: alink_check_magic_def)
  moreover have "header_ok (b # bs @ rest)" "payload_len (b # bs @ rest) + 11 = length p"
    using v hd(3) hd(1) [of rest] hd(2) [of rest] unfolding eq by (auto simp: valid_package_def)
  moreover have "crc_ok p" using v by (simp add: valid_package_def)
  moreover have "take (length p) (b # bs @ rest) = p" "drop (length p) (b # bs @ rest) = rest"
    unfolding eq [symmetric] by simp_all
  moreover have "9 \<le> length (b # bs @ rest)" "length p \<le> length (b # bs @ rest)"
    using hd(4) unfolding eq [symmetric] by simp_all
  ultimately show ?thesis unfolding eq by (subst frames.simps(2)) (simp add: Let_def not_less)
qed

lemma frames_concat:
  "\<forall>p \<in> set ps. valid_package p \<Longrightarrow> frames i (concat ps @ rest) = place i ps @ frames (i + length (concat ps)) rest"
  by (induction ps arbitrary: i) (auto simp: frames_valid add.assoc)

lemma deliver_total:
  assumes "\<And>x w. run c hdl h x w \<noteq> None"
  shows "deliver run c hdl h imp ob fs w \<noteq> None"
  using assms by (induction fs arbitrary: w) (auto split: Option.bind_splits)

subsection \<open>Sockets (\<^verbatim>\<open>alink_socket.c\<close>)\<close>

datatype recv_cbk_fn = Cbk_alink_order_task

record 's alink_socket =
  abyBuffer :: "ptr option"
  sRecv :: "(nat, recv_cbk_fn) alink_recv"
  sImport :: "'s alink_recv_import"
  psOrder :: "nat option"

record 's alink_port =
  byPortId :: u8
  pt_handle :: nat
  pt_pe_send :: "'s option"
  pv_register_cbk :: bool

definition alink_socket_init :: "'s alink_socket \<Rightarrow> nat \<Rightarrow> 's alink_socket \<times> i32" where
  "alink_socket_init psSocket order =
     (let (r1, _) = alink_recv_init (sRecv psSocket) (abyBuffer psSocket) 0;
          (r2, eRet) = alink_recv_register_cbk r1 (Some order) (Some Cbk_alink_order_task);
          s = psSocket\<lparr>sRecv := r2\<rparr>
      in if eRet = 0 then (s\<lparr>psOrder := Some order\<rparr>, eRet) else (s, -1))"

definition alink_socket_task ::
  "(nat, recv_cbk_fn, 's, 'w) run_cbk \<Rightarrow> heap \<Rightarrow> 's alink_socket \<Rightarrow> 's alink_recv_import \<Rightarrow> 'w \<Rightarrow>
   ('s alink_socket \<times> 'w) option" where
  "alink_socket_task run h psSocket psImport w = do {
     let s = psSocket\<lparr>sImport := psImport\<rparr>;
     (r, w') \<leftarrow> alink_recv_task run h (sRecv s) (sImport s) w;
     Some (s\<lparr>sRecv := r\<rparr>, w') }"

definition alink_socket_recv ::
  "(nat, recv_cbk_fn, 's, 'w) run_cbk \<Rightarrow> heap \<Rightarrow> 's alink_socket \<Rightarrow> ptr \<Rightarrow> u32 \<Rightarrow> 'w \<Rightarrow>
   ('s alink_socket \<times> 'w) option" where
  "alink_socket_recv run h psSocket dat uLen w = do {
     let s = psSocket\<lparr>sImport := (sImport psSocket)\<lparr>ri_pbyData := dat, ri_uLength := uLen\<rparr>\<rparr>;
     (r, w') \<leftarrow> alink_recv_task run h (sRecv s) (sImport s) w;
     Some (s\<lparr>sRecv := r\<rparr>, w') }"

text \<open>The flag says whether \<^verbatim>\<open>alink_socket_recv\<close> was handed to the port's registration hook.\<close>

definition alink_socket_connect :: "'s alink_socket \<Rightarrow> 's alink_port \<Rightarrow> 's alink_socket \<times> bool \<times> i32" where
  "alink_socket_connect psSocket psPort =
     (psSocket\<lparr>sImport := (sImport psSocket)\<lparr>ri_handle := pt_handle psPort,
         ri_pe_send := pt_pe_send psPort, ri_ePortId := byPortId psPort\<rparr>\<rparr>,
      pv_register_cbk psPort, 0)"

definition alink_get_header_index :: "bytes \<Rightarrow> u32 \<Rightarrow> u32 option" where
  "alink_get_header_index adat datlen = alink_get_package_head_index adat datlen"

definition alink_package_integrity_check :: "bytes \<Rightarrow> u32 \<Rightarrow> u32 option" where
  "alink_package_integrity_check adat datlen = alink_package_valid_length adat datlen"

lemma alink_socket_init_ready:
  assumes "alink_socket_init s ord = (s', e)"
  shows "e = 0" "psOrder s' = Some ord" "pu_state (sRecv s') = Check_magic"
    "sRecvCbk (sRecv s') = \<lparr>psHandle = Some ord, pe_cbk = Some Cbk_alink_order_task\<rparr>"
  using assms
  by (auto simp: alink_socket_init_def alink_recv_init_def alink_recv_register_cbk_def Let_def)

subsection \<open>A package split over two buffers\<close>

lemma first_part_pending:
  assumes v: "valid_package p" and k: "0 < k" "k < length p" and st: "pu_state r = Check_magic"
    and d: "deref h q = Some (take k p)"
  shows "\<exists>r'. recv_bytes run h imp q (take k p) (r, w) = Some (r', w) \<and> pbyBuffer r' = Some q \<and>
    unat (wCount r') = k \<and>
    (if k < 9 then pu_state r' = Check_head
     else pu_state r' = Check_crc \<and> unat (wPkgSize r') = length p)"
proof -
  note hd = valid_package_head [OF v]
  have b0: "alink_check_magic (take k p ! 0)" using hd(5) k by (simp add: alink_check_magic_def)
  show ?thesis
  proof (cases "k < 9")
    case True
    let ?r1 = "r\<lparr>pbyBuffer := Some q, wCount := 1, pu_state := Check_head\<rparr>"
    have tk: "length (take k p) = k" using k by simp
    then obtain x xs where xs: "take k p = x # xs" "length xs = k - 1" using k(1)
      by (cases "take k p") auto
    then have "recv_byte run h imp q x (r, w) = Some (?r1, w)"
      using b0 st by (simp add: recv_byte_def Let_def)
    moreover have "recv_bytes run h imp (ptr_add q 1) xs (?r1, w) =
        Some (?r1\<lparr>wCount := 1 + of_nat (k - 1)\<rparr>, w)"
      using recv_bytes_skip_head [of ?r1 xs run h imp "ptr_add q 1" w] xs True by simp
    moreover have "1 + of_nat (k - 1) = (of_nat k :: u32)" using k by (cases k) simp_all
    ultimately show ?thesis using True xs by (simp add: unat_of_nat_small)
  next
    case False
    let ?r9 = "r\<lparr>pbyBuffer := Some q, wCount := 9, wPkgSize := of_nat (length p), pu_state := Check_crc\<rparr>"
    have h9: "header_ok (take k p)" "payload_len (take k p) + 11 = length p"
      using False v hd(3) by (simp_all add: header_ok_take payload_len_take valid_package_def)
    have up: "unat (of_nat (length p) :: u32) = length p"
      using unat_package_size [of p] hd(3) by simp
    have "recv_bytes run h imp q (take 9 (take k p)) (r, w) = Some (?r9, w)"
      using recv_bytes_header [OF st d _ b0, of run imp w] False k h9 by simp
    moreover have "length (drop 9 (take k p)) = k - 9" using k by simp
    moreover have "recv_bytes run h imp (ptr_add q 9) (drop 9 (take k p)) (?r9, w) =
        Some (?r9\<lparr>wCount := 9 + of_nat (k - 9)\<rparr>, w)"
      using recv_bytes_skip_crc [of ?r9 "drop 9 (take k p)" run h imp "ptr_add q 9" w] False k up
      by simp
    moreover have "9 + of_nat (k - 9) = (of_nat k :: u32)" using False by (simp add: of_nat_diff)
    moreover have "unat (of_nat k :: u32) = k"
      using k up unat_of_nat_small [of k, where 'a = 32] unsigned_less [of "of_nat (length p) :: u32", where 'a = nat] by simp
    moreover have "length (take 9 (take k p)) = 9" using False k by simp
    ultimately have "recv_bytes run h imp q (take 9 (take k p) @ drop 9 (take k p)) (r, w) =
        Some (?r9\<lparr>wCount := of_nat k\<rparr>, w)" "unat (of_nat k :: u32) = k"
      unfolding recv_bytes_append by simp_all
    then show ?thesis using False up by (simp only: append_take_drop_id) simp
  qed
qed

lemma second_part_dangling:
  assumes "pbyBuffer r = Some q" "h (obj q) = None" "0 < k" "unat (wCount r) = k" "k < n"
    "if k < 9 then pu_state r = Check_head else pu_state r = Check_crc \<and> unat (wPkgSize r) = n"
    "n - k \<le> length m" "11 \<le> n"
  shows "recv_bytes run h imp q' m (r, w) = None"
proof -
  let ?j = "if k < 9 then 9 - k else n - k"
  have "recv_bytes run h imp q' (take ?j m) (r, w) = None"
  proof (cases "k < 9")
    case True
    moreover have "recv_head_done h (r\<lparr>wCount := 9\<rparr>) = None"
      using assms(1,2) by (simp add: recv_head_done_def deref_opt_def deref_dangling)
    ultimately show ?thesis
      using recv_bytes_head_full [of r m run h imp q' w] assms by simp
  next
    case False
    moreover have "recv_crc_done run h imp (r\<lparr>wCount := wPkgSize r\<rparr>) w = None"
      using assms(1,2) by (simp add: recv_crc_done_def deref_dangling)
    ultimately show ?thesis
      using recv_bytes_crc_full [of r m run h imp q' w] assms by simp
  qed
  then show ?thesis
    using recv_bytes_append [of run h imp q' "take ?j m" "drop ?j m" "(r, w)"] by simp
qed

lemma alink_recv_task_part:
  assumes "pu_state r = Check_magic" "sRecvCbk r = \<lparr>psHandle = hdl, pe_cbk = Some c\<rparr>"
    "h ob = Some (bs @ xs)" "length bs + 65546 < 2 ^ 32"
  shows "map_option snd (alink_recv_task run h r
      (imp\<lparr>ri_pbyData := \<lparr>obj = ob, off = 0\<rparr>, ri_uLength := of_nat (length bs)\<rparr>) w) =
    deliver run c hdl h imp ob (frames 0 bs) w"
proof -
  let ?q = "\<lparr>obj = ob, off = 0\<rparr>"
  let ?imp = "imp\<lparr>ri_pbyData := ?q, ri_uLength := of_nat (length bs)\<rparr>"
  have u: "unat (of_nat (length bs) :: u32) = length bs"
    using assms(4) by (intro unat_of_nat_small) simp
  have oi: "order_import_of ?imp = order_import_of imp"
    by (simp add: order_import_of_def fun_eq_iff)
  have d: "deref h ?q = Some (bs @ xs)" using assms(3) by (simp add: deref_def)
  have "alink_recv_task run h r ?imp w = recv_bytes run h imp ?q bs (r, w)"
    using alink_recv_task_bytes [of r h ?imp "bs @ xs" run w] assms(1,4) d u
    by (simp add: recv_inv_def recv_bytes_import [OF oi])
  moreover have "map_option snd (recv_bytes run h imp ?q bs (r, w)) =
      deliver run c hdl h imp ob (frames 0 bs) w"
    by (rule recv_frames [where buf = "bs @ xs" and xs = xs]) (use assms in simp_all)
  ultimately show ?thesis by simp
qed

lemma alink_recv_task_buffer:
  assumes "pu_state r = Check_magic" "sRecvCbk r = \<lparr>psHandle = hdl, pe_cbk = Some c\<rparr>"
    "h ob = Some bs" "length bs + 65546 < 2 ^ 32"
  shows "map_option snd (alink_recv_task run h r
      (imp\<lparr>ri_pbyData := \<lparr>obj = ob, off = 0\<rparr>, ri_uLength := of_nat (length bs)\<rparr>) w) =
    deliver run c hdl h imp ob (frames 0 bs) w"
  using alink_recv_task_part [OF assms(1,2), of h ob bs "[]"] assms(3,4) by simp

lemma frames_stream:
  assumes "\<forall>p \<in> set ps. valid_package p" "\<forall>b \<in> set g \<union> set g'. \<not> alink_check_magic b"
  shows "frames 0 (g @ concat ps @ g') = place (length g) ps"
proof -
  have "frames (length g + length (concat ps)) (g' @ []) = []"
    using assms(2) by (subst frames_noise) simp_all
  then show ?thesis
    using assms frames_noise [of g 0 "concat ps @ g'"] frames_concat [of ps "length g" g'] by simp
qed

subsection \<open>A concrete receiver\<close>

text \<open>
  Used to evaluate the properties: a receiver between packages whose callback logs the offset of each
  package it is given, and a well-formed package.
\<close>

definition log_cbk :: "(unit, unit, unit, nat list) run_cbk" where
  "log_cbk c hdl h x w = Some (w @ [off (oi_pbyMsg x)])"

definition ex_recv :: "(unit, unit) alink_recv" where
  "ex_recv = \<lparr>wPkgSize = 0, wCount = 0, wBufferSize = 0, sRecvCbk = \<lparr>psHandle = None, pe_cbk = Some ()\<rparr>,
     pbyBuffer = None, pu_state = Check_magic\<rparr>"

definition ex_import :: "nat \<Rightarrow> u32 \<Rightarrow> unit alink_recv_import" where
  "ex_import ob n = \<lparr>ri_ePortId = 1, ri_pbyData = \<lparr>obj = ob, off = 0\<rparr>, ri_uLength = n, ri_handle = 0,
     ri_pe_send = None\<rparr>"

definition ex_package :: bytes where
  "ex_package = frame 1 6 8 0xD0 0 [100, 0, 0]"

lemma valid_ex_package: "valid_package ex_package"
  unfolding ex_package_def by (intro valid_frame) simp

lemma length_ex_package [simp]: "length ex_package = 14"
  by (simp add: ex_package_def)

lemma ex_recv_simps [simp]:
  "recv_inv ex_recv" "pu_state ex_recv = Check_magic"
  "sRecvCbk ex_recv = \<lparr>psHandle = None, pe_cbk = Some ()\<rparr>"
  by (simp_all add: ex_recv_def recv_inv_def)

subsection \<open>Properties\<close>

text \<open>
  C7. Receiving is total and driven byte by byte: from every state the machine can be in, the loop of
  \<^verbatim>\<open>alink_recv_task\<close> over a readable buffer computes what the byte-at-a-time machine computes, whatever
  the state it starts in and however many packages the buffer holds.
\<close>
theorem alink_recv_task_is_byte_machine:
  assumes "recv_inv r" "deref h (ri_pbyData imp) = Some m" "unat (ri_uLength imp) \<le> length m"
    "unat (ri_uLength imp) + 65546 < 2 ^ 32"
  shows "alink_recv_task run h r imp w =
    recv_bytes run h imp (ri_pbyData imp) (take (unat (ri_uLength imp)) m) (r, w)"
  using assms by (rule alink_recv_task_bytes)

theorem alink_recv_task_is_byte_machine_witness:
  "alink_recv_task log_cbk [3 \<mapsto> ex_package] ex_recv (ex_import 3 14) [] =
     recv_bytes log_cbk [3 \<mapsto> ex_package] (ex_import 3 14) \<lparr>obj = 3, off = 0\<rparr> ex_package (ex_recv, [])"
  using alink_recv_task_is_byte_machine
    [of ex_recv "[3 \<mapsto> ex_package]" "ex_import 3 14" ex_package log_cbk "[]"]
  by (simp add: ex_import_def deref_def)

text \<open>
  C32. Every run of the receive loop over a readable buffer keeps the invariant of the machine: while a
  header is collected between one and eight bytes are counted, while a body is collected the count
  stays below the package size, which stays within the largest package.
\<close>
theorem alink_recv_task_keeps_inv:
  assumes "recv_inv r" "deref h (ri_pbyData imp) = Some m" "unat (ri_uLength imp) \<le> length m"
    "unat (ri_uLength imp) + 65546 < 2 ^ 32" "alink_recv_task run h r imp w = Some (r', w')"
  shows "recv_inv r'"
proof -
  have "recv_bytes run h imp (ri_pbyData imp) (take (unat (ri_uLength imp)) m) (r, w) = Some (r', w')"
    using alink_recv_task_bytes [OF assms(1-4), of run w] assms(5) by simp
  from recv_bytes_inv [OF _ this] assms(1) show ?thesis by simp
qed

theorem alink_recv_task_keeps_inv_witness:
  "recv_inv (ex_recv\<lparr>pbyBuffer := Some \<lparr>obj = 3, off = 1\<rparr>, wCount := 2, pu_state := Check_head\<rparr>)"
proof -
  let ?r = "ex_recv\<lparr>pbyBuffer := Some \<lparr>obj = 3, off = 1\<rparr>, wCount := 2, pu_state := Check_head\<rparr>"
  have "alink_recv_task log_cbk [3 \<mapsto> [7, 0xFD, 1]] ex_recv (ex_import 3 3) [] = Some (?r, [])"
    by (simp add: alink_recv_task_bytes ex_import_def deref_def recv_byte_def ptr_add_def Let_def
        alink_check_magic_def ALINK_MSG_MAGIC_VALUE_def)
  then show ?thesis
    using alink_recv_task_keeps_inv [of ex_recv "[3 \<mapsto> [7, 0xFD, 1]]" "ex_import 3 3" "[7, 0xFD, 1]"
        log_cbk "[]" ?r "[]"]
    by (simp add: ex_import_def deref_def)
qed

text \<open>
  How the bytes of one buffer are cut into calls does not matter: two calls on consecutive parts of
  a live buffer, the second continuing in the state the first left, do what one call on the whole does.
\<close>
theorem alink_recv_task_split:
  assumes "recv_inv r" "deref h q = Some m" "unat n + unat k \<le> length m"
    "unat n + unat k + 65546 < 2 ^ 32" "alink_recv_task run h r (imp\<lparr>ri_pbyData := q, ri_uLength := n\<rparr>) w = Some (r', w')"
  shows "alink_recv_task run h r (imp\<lparr>ri_pbyData := q, ri_uLength := n + k\<rparr>) w =
    alink_recv_task run h r' (imp\<lparr>ri_pbyData := ptr_add q (unat n), ri_uLength := k\<rparr>) w'"
proof -
  have oi: "order_import_of (imp\<lparr>ri_pbyData := a, ri_uLength := b\<rparr>) = order_import_of imp" for a b
    by (simp add: order_import_of_def fun_eq_iff)
  have nk: "unat (n + k) = unat n + unat k" using assms(4) by (simp add: unat_plus_if')
  have task: "alink_recv_task run h x (imp\<lparr>ri_pbyData := a, ri_uLength := b\<rparr>) v =
      recv_bytes run h imp a (take (unat b) y) (x, v)"
    if "recv_inv x" "deref h a = Some y" "unat b \<le> length y" "unat b + 65546 < 2 ^ 32" for x a b y v
    using alink_recv_task_bytes [of x h "imp\<lparr>ri_pbyData := a, ri_uLength := b\<rparr>" y run v] that
    by (simp add: recv_bytes_import [OF oi])
  have one: "recv_bytes run h imp q (take (unat n) m) (r, w) = Some (r', w')"
    using task [of r q m n w] assms by simp
  then have "recv_inv r'" using recv_bytes_inv [OF _ one] assms(1) by simp
  moreover have "deref h (ptr_add q (unat n)) = Some (drop (unat n) m)"
    using assms(2,3) by (intro deref_add) simp_all
  ultimately have two: "alink_recv_task run h r' (imp\<lparr>ri_pbyData := ptr_add q (unat n), ri_uLength := k\<rparr>) w' =
      recv_bytes run h imp (ptr_add q (unat n)) (take (unat k) (drop (unat n) m)) (r', w')"
    using assms(3,4) by (intro task) simp_all
  have "length (take (unat n) m) = unat n" using assms(3) by simp
  then show ?thesis
    using task [of r q m "n + k" w] assms(1-4) one two
    by (simp add: nk take_add recv_bytes_append)
qed

theorem alink_recv_task_split_witness:
  "alink_recv_task log_cbk [3 \<mapsto> 7 # ex_package] ex_recv ((ex_import 3 0)\<lparr>ri_pbyData := \<lparr>obj = 3, off = 0\<rparr>, ri_uLength := 15\<rparr>) [] =
   alink_recv_task log_cbk [3 \<mapsto> 7 # ex_package] ex_recv ((ex_import 3 0)\<lparr>ri_pbyData := \<lparr>obj = 3, off = 1\<rparr>, ri_uLength := 14\<rparr>) []"
proof -
  let ?h = "[3 \<mapsto> 7 # ex_package]" and ?q = "\<lparr>obj = 3, off = 0\<rparr>"
  have "alink_recv_task log_cbk ?h ex_recv ((ex_import 3 0)\<lparr>ri_pbyData := ?q, ri_uLength := 1\<rparr>) [] =
      Some (ex_recv, [])"
    by (simp add: alink_recv_task_bytes deref_def recv_byte_def alink_check_magic_def ALINK_MSG_MAGIC_VALUE_def)
  then show ?thesis
    using alink_recv_task_split [of ex_recv ?h ?q "7 # ex_package" 1 14 log_cbk "ex_import 3 0" "[]" ex_recv "[]"]
    by (simp add: deref_def ptr_add_def)
qed

text \<open>
  C1. Delivery: a buffer that holds noise without a magic byte, then any number of valid packages back
  to back, then noise, calls the registered callback exactly once per package, in order, each time with
  a pointer to the first byte of that package and the port's identity, and calls it for nothing else.
\<close>
theorem alink_recv_task_delivers:
  assumes "pu_state r = Check_magic" "sRecvCbk r = \<lparr>psHandle = hdl, pe_cbk = Some c\<rparr>"
    "h ob = Some (g @ concat ps @ g')" "\<forall>p \<in> set ps. valid_package p"
    "\<forall>b \<in> set g \<union> set g'. \<not> alink_check_magic b"
    "length (g @ concat ps @ g') + 65546 < 2 ^ 32"
  shows "map_option snd (alink_recv_task run h r
      (imp\<lparr>ri_pbyData := \<lparr>obj = ob, off = 0\<rparr>, ri_uLength := of_nat (length (g @ concat ps @ g'))\<rparr>) w) =
    deliver run c hdl h imp ob (place (length g) ps) w"
  using alink_recv_task_buffer [where h = h and ob = ob, OF assms(1-3,6), of run imp w] frames_stream [OF assms(4,5)]
  by (simp only:)

theorem alink_recv_task_delivers_witness:
  "map_option snd (alink_recv_task log_cbk [3 \<mapsto> [7] @ concat [ex_package, ex_package] @ [9]] ex_recv
      ((ex_import 3 0)\<lparr>ri_pbyData := \<lparr>obj = 3, off = 0\<rparr>, ri_uLength := 30\<rparr>) []) = Some [1, 15]"
  using alink_recv_task_delivers [of ex_recv None "()" "[3 \<mapsto> [7] @ concat [ex_package, ex_package] @ [9]]" 3
      "[7]" "[ex_package, ex_package]" "[9]" log_cbk "ex_import 3 0" "[]"]
  by (simp add: valid_ex_package alink_check_magic_def ALINK_MSG_MAGIC_VALUE_def log_cbk_def order_import_of_def)

text \<open>
  C10. The receive loop always returns: with a callback that returns, no buffer content whatever
  (truncated packages, corrupt headers, magic bytes in a payload) makes it loop or read outside
  live memory when the machine starts between packages.
\<close>
theorem alink_recv_task_returns:
  assumes "pu_state r = Check_magic" "sRecvCbk r = \<lparr>psHandle = hdl, pe_cbk = Some c\<rparr>"
    "h ob = Some bs" "length bs + 65546 < 2 ^ 32" "\<And>x v. run c hdl h x v \<noteq> None"
  shows "\<exists>r' w'. alink_recv_task run h r
      (imp\<lparr>ri_pbyData := \<lparr>obj = ob, off = 0\<rparr>, ri_uLength := of_nat (length bs)\<rparr>) w = Some (r', w')"
  using alink_recv_task_buffer [where h = h and ob = ob, OF assms(1-4), of run imp w]
    deliver_total [of run c hdl h imp ob "frames 0 bs" w, OF assms(5)]
  by auto

theorem alink_recv_task_returns_witness:
  "\<exists>r' w'. alink_recv_task log_cbk [3 \<mapsto> [7, 0xFD, 1]] ex_recv
      ((ex_import 3 0)\<lparr>ri_pbyData := \<lparr>obj = 3, off = 0\<rparr>, ri_uLength := 3\<rparr>) [] = Some (r', w')"
  using alink_recv_task_returns [of ex_recv None "()" "[3 \<mapsto> [7, 0xFD, 1]]" 3 "[7, 0xFD, 1]" log_cbk "ex_import 3 0" "[]"]
  by (simp add: log_cbk_def)

text \<open>
  C39. The receiver keeps a pointer, not a copy: a valid package that arrives in two buffers, the first
  of which is dead when the second arrives, is not reassembled. The second call dereferences the
  pointer it kept into the dead buffer.
\<close>
theorem fragmented_package_dangles:
  assumes "valid_package p" "0 < k" "k < length p" "pu_state r = Check_magic"
    "h1 a = Some (take k p)" "h2 a = None" "h2 b = Some (drop k p)"
  shows "\<exists>r'. alink_recv_task run h1 r
        (imp\<lparr>ri_pbyData := \<lparr>obj = a, off = 0\<rparr>, ri_uLength := of_nat k\<rparr>) w = Some (r', w) \<and>
      alink_recv_task run h2 r'
        (imp\<lparr>ri_pbyData := \<lparr>obj = b, off = 0\<rparr>, ri_uLength := of_nat (length p - k)\<rparr>) w = None"
proof -
  let ?qa = "\<lparr>obj = a, off = 0\<rparr>" and ?qb = "\<lparr>obj = b, off = 0\<rparr>"
  let ?ia = "imp\<lparr>ri_pbyData := ?qa, ri_uLength := of_nat k\<rparr>"
  let ?ib = "imp\<lparr>ri_pbyData := ?qb, ri_uLength := of_nat (length p - k)\<rparr>"
  have n: "length p < 65547" "11 \<le> length p"
    using assms(1) payload_len_less [of p] by (auto simp: valid_package_def)
  then have u: "unat (of_nat k :: u32) = k" "unat (of_nat (length p - k) :: u32) = length p - k"
    using assms(3) by (simp_all add: unat_of_nat_small del: of_nat_diff)
  have da: "deref h1 ?qa = Some (take k p)" using assms(5) by (simp add: deref_def)
  have db: "deref h2 ?qb = Some (drop k p)" using assms(7) by (simp add: deref_def)
  obtain r' where r': "recv_bytes run h1 ?ia ?qa (take k p) (r, w) = Some (r', w)"
    "pbyBuffer r' = Some ?qa" "unat (wCount r') = k"
    "if k < 9 then pu_state r' = Check_head
     else pu_state r' = Check_crc \<and> unat (wPkgSize r') = length p"
    using first_part_pending [OF assms(1-4) da, of run ?ia w] by (elim exE conjE)
  have ir: "recv_inv r" using assms(4) by (simp add: recv_inv_def)
  have "alink_recv_task run h1 r ?ia w = Some (r', w)"
    using alink_recv_task_bytes [of r h1 ?ia "take k p" run w] ir da u n assms(3) r'(1) by simp
  moreover have "recv_inv r'" using recv_bytes_inv [OF _ r'(1)] ir by simp
  then have "alink_recv_task run h2 r' ?ib w = recv_bytes run h2 ?ib ?qb (drop k p) (r', w)"
    using alink_recv_task_bytes [of r' h2 ?ib "drop k p" run w] db u(2) n by simp
  moreover have "recv_bytes run h2 ?ib ?qb (drop k p) (r', w) = None"
    using second_part_dangling [OF r'(2) _ assms(2) r'(3) assms(3) r'(4), of h2 "drop k p" run ?ib ?qb w]
      assms(6) n by simp
  ultimately show ?thesis by auto
qed

theorem fragmented_package_dangles_witness:
  "\<exists>r'. alink_recv_task log_cbk [3 \<mapsto> take 5 ex_package] ex_recv
        ((ex_import 3 0)\<lparr>ri_pbyData := \<lparr>obj = 3, off = 0\<rparr>, ri_uLength := 5\<rparr>) [] = Some (r', []) \<and>
      alink_recv_task log_cbk [4 \<mapsto> drop 5 ex_package] r'
        ((ex_import 3 0)\<lparr>ri_pbyData := \<lparr>obj = 4, off = 0\<rparr>, ri_uLength := 9\<rparr>) [] = None"
  using fragmented_package_dangles [OF valid_ex_package, of 5 ex_recv "[3 \<mapsto> take 5 ex_package]" 3
      "[4 \<mapsto> drop 5 ex_package]" 4 log_cbk "ex_import 3 0" "[]"]
  by simp

end
