(* ===== verification/Alink_Frame.thy ===== *)
theory Alink_Frame
  imports Alink_Check
begin

text \<open>
  The tail of every sender (\<^verbatim>\<open>alink_order_send\<close>, \<^verbatim>\<open>alink_upload_send_package\<close>): with the header fields and
  the payload in the send buffer, write the header checksum and the CRC in place. The lemma
  \<open>seal_frame\<close> says when that turns the buffer's first bytes into a \<open>frame\<close>.
\<close>

text \<open>
  \<^verbatim>\<open>pbyBuffer[wCount - 2]\<close> is computed in \<^verbatim>\<open>int\<close>: a \<^verbatim>\<open>uint16_t\<close> count that wrapped below two indexes in
  front of the buffer, which is \<open>None\<close>.
\<close>

definition seal_package :: "bytes \<Rightarrow> u16 \<Rightarrow> bytes option" where
  "seal_package buf wCount = do {
     c \<leftarrow> alink_get_header_checksum buf;
     b1 \<leftarrow> storen buf 8 [c];
     wCrc \<leftarrow> alink_get_package_crc b1 wCount;
     if unat wCount < 2 then None
     else do {
       b2 \<leftarrow> storen b1 (unat wCount - 2) [ucast (0xFF AND wCrc)];
       storen b2 (unat wCount - 1) [ucast (0xFF AND (drop_bit 8 wCrc))] } }"

lemma ucast_lo: "(ucast (0xFF AND (w :: u16)) :: u8) = ucast w"
  by (rule bit_word_eqI) (auto simp: bit_simps bit_numeral_word_iff less_Suc_eq numeral_eq_Suc)

lemma le_bytes_two:
  "le_bytes 2 (w :: u16) = [ucast (0xFF AND w), ucast (0xFF AND (drop_bit 8 w))]"
  by (simp add: ucast_lo numeral_2_eq_2)

lemma storen_two:
  assumes "i + 2 \<le> length m"
  shows "Option.bind (storen m i [a]) (\<lambda>m'. storen m' (Suc i) [b]) = Some (take i m @ [a, b] @ drop (i + 2) m)"
  using assms by (simp add: storen_def take_Suc_conv_app_nth Let_def min_def)

lemma seal_frame:
  assumes "buf = frame_head sq dst src mid an (length payload) @ x # payload @ rest"
    "2 \<le> length rest" "length payload + 11 < 65536"
  shows "seal_package buf (of_nat (length payload + 11)) =
    Some (frame sq dst src mid an payload @ drop 2 rest)"
proof -
  let ?h = "frame_head sq dst src mid an (length payload)"
  let ?b = "frame_body sq dst src mid an payload" and ?n = "length payload"
  have u: "unat (of_nat (?n + 11) :: u16) = ?n + 11"
    using assms(3) by (intro unat_of_nat_small) simp
  have "of_nat (?n + 11) - 3 = (of_nat (?n + 8) :: u16)" by simp
  then have u8: "unat (of_nat (?n + 11) - 3 :: u16) = ?n + 8"
    using assms(3) unat_of_nat_small [of "?n + 8", where 'a = 16] by (simp only:) simp
  have c: "alink_get_header_checksum buf = Some (sum_list ?h)"
    unfolding assms(1) by (simp add: mem_simps)
  have s: "storen buf 8 [sum_list ?h] = Some (?b @ rest)"
    unfolding assms(1) by (simp add: storen_def frame_body_def Let_def)
  have k: "alink_get_package_crc (?b @ rest) (of_nat (?n + 11)) = Some (crc_of (drop 1 ?b) X25_INIT_CRC)"
    using u8 by (simp add: alink_get_package_crc_def crc_calculate_in)
  show ?thesis
    unfolding seal_package_def c s k bind.bind_lunit u
    using storen_two [of "9 + ?n" "?b @ rest"] assms(2)
    by (simp add: frame_def Let_def le_bytes_two del: le_bytes.simps)
qed

end
