(* ===== verification/Alink_Order.thy ===== *)
theory Alink_Order
  imports Alink_Recv Alink_Frame
begin

text \<open>
  \<^verbatim>\<open>srv/alink/analysis/alink_order.c\<close> and the command half of \<^verbatim>\<open>srv/alink/alink.c\<close>: two registries of
  commands (one for the C2 side, one for the devices), linked lists of caller-owned nodes, and the
  dispatcher that hands the payload of a received package to the registered handler.

  The nodes live in a store; \<open>psNext\<close> threads them. The mutex of an order serialises its operations, so
  each operation is one step on the state. A handler is a tag; \<open>run\<close> says what calling it does to the
  response and to the rest of the program \<open>'w\<close>. The response buffer \<open>rs_buf\<close> is the order's send
  buffer; \<^verbatim>\<open>psResp->pbyBuffer\<close> points to its byte nine.
\<close>

subsection \<open>Data\<close>

definition ALINK_USER_TYPE_C2 :: u8 where "ALINK_USER_TYPE_C2 = 0"

definition ALINK_USER_TYPE_DEVICE :: u8 where "ALINK_USER_TYPE_DEVICE = 1"

definition RET_VALUE_INVALID_PARM :: i32 where "RET_VALUE_INVALID_PARM = -4"

record alink_payload =
  pl_ePortId :: u8
  eRemoteId :: u8
  wLength :: u32
  pbyData :: ptr

record 's alink_resp =
  rs_wCount :: u32
  rs_wSize :: u32
  rs_buf :: bytes
  psArg :: "'s alink_order_import"

record 't alink_cmd_list =
  byCmd :: u8
  wPayloadLen :: u16
  pv_cmd_task :: "'t option"
  psNext :: "nat option"
  cmd_type :: u8

record alink_order =
  od_wBufferSize :: u32
  od_pbyBuffer :: bytes
  psCmdList :: "nat option"

type_synonym 't cmd_store = "'t alink_cmd_list store"

type_synonym ('t, 's, 'w) run_cmd =
  "'t \<Rightarrow> heap \<Rightarrow> alink_payload \<Rightarrow> 's alink_resp \<Rightarrow> 'w \<Rightarrow> ('s alink_resp \<times> 'w) option"

type_synonym ('s, 'w) run_send = "'s \<Rightarrow> nat \<Rightarrow> bytes \<Rightarrow> u32 \<Rightarrow> 'w \<Rightarrow> ('w \<times> i32) option"

interpretation cmds: linked_nodes psNext "\<lambda>p. psNext_update (\<lambda>_. p)"
  by unfold_locales simp

subsection \<open>Operations\<close>

definition alink_order_send ::
  "('s, 'w) run_send \<Rightarrow> heap \<Rightarrow> 's alink_resp \<Rightarrow> 'w \<Rightarrow> ('s alink_resp \<times> 'w \<times> i32) option" where
  "alink_order_send send h psResp w = do {
     let psImport = psArg psResp;
     m \<leftarrow> deref h (oi_pbyMsg psImport);
     psHeader \<leftarrow> head_of m;
     (if ans psHeader \<noteq> 0 then
        (case oi_pe_send psImport of
           None \<Rightarrow> Some (psResp, w, 0)
         | Some s \<Rightarrow> do {
             b \<leftarrow> storen (rs_buf psResp) 0
                   [ALINK_MSG_MAGIC_VALUE,
                    ucast (0xFF AND rs_wCount psResp),
                    ucast (0xFF AND (drop_bit 8 (rs_wCount psResp))),
                    seq psHeader, sourceid psHeader, destid psHeader, msgid psHeader, 0];
             let wCount = ucast (rs_wCount psResp + 11);
             b' \<leftarrow> seal_package b wCount;
             (w', eRet) \<leftarrow> send s (oi_handle psImport) b' (ucast wCount) w;
             Some (psResp\<lparr>rs_buf := b'\<rparr>, w', eRet) })
      else Some (psResp, w, 0)) }"

definition alink_order_init :: "bool \<Rightarrow> alink_order \<Rightarrow> bytes \<Rightarrow> u16 \<Rightarrow> alink_order \<times> i32" where
  "alink_order_init mutex_ok ord buf bsize =
     (if mutex_ok
      then (ord\<lparr>od_pbyBuffer := buf, od_wBufferSize := ucast bsize, psCmdList := None\<rparr>, 0)
      else (ord, -1))"

text \<open>The loop over the registered commands and the call of the handler it finds.\<close>

definition order_dispatch ::
  "('t, 's, 'w) run_cmd \<Rightarrow> 't cmd_store \<Rightarrow> heap \<Rightarrow> nat option \<Rightarrow> 's alink_order_import \<Rightarrow>
   's alink_resp \<Rightarrow> 'w \<Rightarrow> ('s alink_resp \<times> 'w) option" where
  "order_dispatch run st h head psImport sResp w =
     (if head = None then Some (sResp, w)
      else do {
        m \<leftarrow> deref h (oi_pbyMsg psImport);
        mid \<leftarrow> load8 m 6;
        found \<leftarrow> find_walk psNext (\<lambda>_ n. byCmd n = mid) st head;
        (case found of
           None \<Rightarrow> Some (sResp, w)
         | Some a \<Rightarrow>
             (case pv_cmd_task (st a) of
                None \<Rightarrow> Some (sResp, w)
              | Some t \<Rightarrow> do {
                  src \<leftarrow> load8 m 5;
                  hi \<leftarrow> load8 m 2;
                  lo \<leftarrow> load8 m 1;
                  let sPayload = \<lparr>pl_ePortId = oi_ePortId psImport, eRemoteId = src,
                        wLength = push_bit 8 (ucast hi) OR ucast lo,
                        pbyData = ptr_add (oi_pbyMsg psImport) 9\<rparr>;
                  if ucast (wPayloadLen (st a)) \<le> wLength sPayload
                  then run t h sPayload sResp w
                  else Some (sResp, w) })) })"

definition alink_order_task ::
  "('t, 's, 'w) run_cmd \<Rightarrow> 't cmd_store \<Rightarrow> heap \<Rightarrow> alink_order \<Rightarrow> 's alink_order_import \<Rightarrow> 'w \<Rightarrow>
   (alink_order \<times> 'w \<times> i32) option" where
  "alink_order_task run st h ord psImport w = do {
     buf \<leftarrow> storen (od_pbyBuffer ord) 9 [0xFF];
     let sResp = \<lparr>rs_wCount = 1, rs_wSize = od_wBufferSize ord - 11, rs_buf = buf, psArg = psImport\<rparr>;
     (r, w') \<leftarrow> order_dispatch run st h (psCmdList ord) psImport sResp w;
     Some (ord\<lparr>od_pbyBuffer := rs_buf r\<rparr>, w', 0) }"

definition alink_order_register_cmd ::
  "'t cmd_store \<Rightarrow> alink_order \<Rightarrow> nat \<Rightarrow> ('t cmd_store \<times> alink_order \<times> i32) option" where
  "alink_order_register_cmd st ord cmd =
     (case psCmdList ord of
        None \<Rightarrow> Some (st, ord\<lparr>psCmdList := Some cmd\<rparr>, 0)
      | Some now \<Rightarrow> do {
          st' \<leftarrow> append_walk psNext (\<lambda>p. psNext_update (\<lambda>_. p)) st now cmd;
          Some (st', ord, 0) })"

text \<open>The static variables of \<^verbatim>\<open>alink.c\<close> that the command side uses.\<close>

record 't alink_cmds =
  cmd_nodes :: "'t cmd_store"
  sOrder :: alink_order
  sOrder_server :: alink_order

definition alink_register_cmd ::
  "'t alink_cmds \<Rightarrow> nat \<Rightarrow> u8 \<Rightarrow> u16 \<Rightarrow> 't option \<Rightarrow> ('t alink_cmds \<times> i32) option" where
  "alink_register_cmd s cmd order plen task =
     (let st = (cmd_nodes s)(cmd := (cmd_nodes s cmd)\<lparr>byCmd := order, wPayloadLen := plen,
                 pv_cmd_task := task, psNext := None\<rparr>);
          s1 = s\<lparr>cmd_nodes := st\<rparr> in
      if cmd_type (st cmd) = ALINK_USER_TYPE_C2 then do {
        (st', o', eRet) \<leftarrow> alink_order_register_cmd st (sOrder s) cmd;
        Some (s1\<lparr>cmd_nodes := st', sOrder := o'\<rparr>, eRet) }
      else if cmd_type (st cmd) = ALINK_USER_TYPE_DEVICE then do {
        (st', o', eRet) \<leftarrow> alink_order_register_cmd st (sOrder_server s) cmd;
        Some (s1\<lparr>cmd_nodes := st', sOrder_server := o'\<rparr>, eRet) }
      else Some (s1, RET_VALUE_INVALID_PARM))"

text \<open>\<^verbatim>\<open>&sOrder\<close> and \<^verbatim>\<open>&sOrder_server\<close> as the handles 0 and 1 that a socket keeps.\<close>

definition alink_connect_port :: "'s alink_socket \<Rightarrow> u8 \<Rightarrow> 's alink_socket \<times> i32" where
  "alink_connect_port psSocket type =
     (if type = ALINK_USER_TYPE_C2 then alink_socket_init psSocket 0
      else if type = ALINK_USER_TYPE_DEVICE then alink_socket_init psSocket 1
      else (psSocket, RET_VALUE_INVALID_PARM))"

text \<open>What the receive machine's callback \<^verbatim>\<open>alink_order_task\<close> does, on the two orders.\<close>

definition order_run ::
  "('t, 's, 'w) run_cmd \<Rightarrow> (nat, recv_cbk_fn, 's, 't alink_cmds \<times> 'w) run_cbk" where
  "order_run run c hdl h psImport sw =
     (let s = fst sw in
      case hdl of
        None \<Rightarrow> None
      | Some i \<Rightarrow> do {
          (o', w', eRet) \<leftarrow> alink_order_task run (cmd_nodes s) h
             (if i = 0 then sOrder s else sOrder_server s) psImport (snd sw);
          Some (if i = 0 then s\<lparr>sOrder := o'\<rparr> else s\<lparr>sOrder_server := o'\<rparr>, w') })"

subsection \<open>A registry as a list of entries\<close>

text \<open>
  The abstraction of a registry: node address and entry (command, minimal payload length, handler) in
  the order in which the dispatcher looks at them.
\<close>

type_synonym 't entry = "u8 \<times> u16 \<times> 't option"

definition cmd_entry :: "'t alink_cmd_list \<Rightarrow> 't entry" where
  "cmd_entry n = (byCmd n, wPayloadLen n, pv_cmd_task n)"

definition order_abs :: "'t cmd_store \<Rightarrow> alink_order \<Rightarrow> (nat \<times> 't entry) list \<Rightarrow> bool" where
  "order_abs st ord es \<longleftrightarrow>
     hlist psNext st (psCmdList ord) (map fst es) \<and> (\<forall>x \<in> set es. cmd_entry (st (fst x)) = snd x)"

definition cmds_abs ::
  "'t alink_cmds \<Rightarrow> (nat \<times> 't entry) list \<Rightarrow> (nat \<times> 't entry) list \<Rightarrow> bool" where
  "cmds_abs s c2 dev \<longleftrightarrow> order_abs (cmd_nodes s) (sOrder s) c2 \<and>
     order_abs (cmd_nodes s) (sOrder_server s) dev \<and> fst ` set c2 \<inter> fst ` set dev = {}"

lemma order_abs_cong:
  assumes "order_abs st ord es" "\<And>a. a \<in> fst ` set es \<Longrightarrow> st' a = st a"
  shows "order_abs st' ord es"
  using assms hlist_cong [of psNext st "psCmdList ord" "map fst es" st'] by (auto simp: order_abs_def)

lemma alink_order_register_cmd_abs:
  assumes a: "order_abs st ord es" and new: "cmd \<notin> fst ` set es" and nx: "psNext (st cmd) = None"
  shows "\<exists>st' ord'. alink_order_register_cmd st ord cmd = Some (st', ord', 0) \<and>
    order_abs st' ord' (es @ [(cmd, cmd_entry (st cmd))]) \<and>
    (\<forall>x. cmd_type (st' x) = cmd_type (st x)) \<and> (\<forall>x. x \<notin> fst ` set es \<longrightarrow> st' x = st x)"
proof (cases "psCmdList ord")
  case None
  with a have "es = []" by (simp add: order_abs_def)
  with None nx show ?thesis by (simp add: alink_order_register_cmd_def order_abs_def)
next
  case (Some now)
  let ?set = "\<lambda>p. psNext_update (\<lambda>_. p)"
  have l: "hlist psNext st (Some now) (map fst es)" "cmd \<notin> set (map fst es)"
    using a new Some by (auto simp: order_abs_def)
  obtain st' k where st': "append_walk psNext ?set st now cmd = Some st'"
    "hlist psNext st' (Some now) (map fst es @ [cmd])" "k \<in> set (map fst es)"
    "st' = st(k := (st k)\<lparr>psNext := Some cmd\<rparr>)"
    using cmds.append_walk_fresh [OF l nx] by blast
  have e: "cmd_entry (st' x) = cmd_entry (st x)" for x by (simp add: st'(4) cmd_entry_def)
  have "order_abs st' ord (es @ [(cmd, cmd_entry (st cmd))])"
    using a st'(2) Some e by (simp add: order_abs_def)
  with st'(1,3) Some show ?thesis
    by (intro exI [of _ st'] exI [of _ ord]) (auto simp: alink_order_register_cmd_def st'(4))
qed

text \<open>Registering in one order leaves a disjoint one as it was.\<close>

lemma alink_order_register_cmd_pair:
  assumes a: "order_abs st oa ea" and b: "order_abs st ob eb" and dis: "fst ` set ea \<inter> fst ` set eb = {}"
    and new: "cmd \<notin> fst ` set ea" and nx: "psNext (st cmd) = None" and e: "cmd_entry (st cmd) = ent"
  shows "\<exists>st' oa'. alink_order_register_cmd st oa cmd = Some (st', oa', 0) \<and>
    order_abs st' oa' (ea @ [(cmd, ent)]) \<and> order_abs st' ob eb \<and>
    (\<forall>x. cmd_type (st' x) = cmd_type (st x))"
proof -
  obtain st' oa' where st': "alink_order_register_cmd st oa cmd = Some (st', oa', 0)"
    "order_abs st' oa' (ea @ [(cmd, ent)])" "\<forall>x. cmd_type (st' x) = cmd_type (st x)"
    "\<forall>x. x \<notin> fst ` set ea \<longrightarrow> st' x = st x"
    using alink_order_register_cmd_abs [OF a new nx] e by blast
  have "order_abs st' ob eb" using st'(4) dis by (intro order_abs_cong [OF b]) blast
  with st' show ?thesis by blast
qed

lemma alink_register_cmd_abs:
  assumes abs: "cmds_abs s c2 dev" and new: "cmd \<notin> fst ` set c2" "cmd \<notin> fst ` set dev"
  shows "\<exists>s' e. alink_register_cmd s cmd mid plen task = Some (s', e) \<and>
    (\<forall>x. cmd_type (cmd_nodes s' x) = cmd_type (cmd_nodes s x)) \<and>
    (if cmd_type (cmd_nodes s cmd) = ALINK_USER_TYPE_C2
     then e = 0 \<and> cmds_abs s' (c2 @ [(cmd, mid, plen, task)]) dev
     else if cmd_type (cmd_nodes s cmd) = ALINK_USER_TYPE_DEVICE
     then e = 0 \<and> cmds_abs s' c2 (dev @ [(cmd, mid, plen, task)])
     else e = RET_VALUE_INVALID_PARM \<and> cmds_abs s' c2 dev)"
proof -
  define st where "st = (cmd_nodes s)(cmd := (cmd_nodes s cmd)\<lparr>byCmd := mid, wPayloadLen := plen,
                 pv_cmd_task := task, psNext := None\<rparr>)"
  note def = alink_register_cmd_def [of s cmd mid plen task, folded st_def] Let_def
  have away: "st x = cmd_nodes s x" if "x \<in> fst ` set c2 \<or> x \<in> fst ` set dev" for x
    using new that unfolding st_def by (cases "x = cmd") simp_all
  have c2: "order_abs st (sOrder s) c2"
    by (rule order_abs_cong [OF _ away]) (use abs in \<open>simp_all add: cmds_abs_def\<close>)
  have dev: "order_abs st (sOrder_server s) dev"
    by (rule order_abs_cong [OF _ away]) (use abs in \<open>simp_all add: cmds_abs_def\<close>)
  have dis: "fst ` set c2 \<inter> fst ` set dev = {}" "fst ` set dev \<inter> fst ` set c2 = {}"
    using abs by (simp_all add: cmds_abs_def Int_commute)
  have nx: "psNext (st cmd) = None" and en: "cmd_entry (st cmd) = (mid, plen, task)"
    and ty: "\<forall>x. cmd_type (st x) = cmd_type (cmd_nodes s x)" by (simp_all add: st_def cmd_entry_def)
  consider "cmd_type (cmd_nodes s cmd) = ALINK_USER_TYPE_C2"
    | "cmd_type (cmd_nodes s cmd) = ALINK_USER_TYPE_DEVICE"
      "cmd_type (cmd_nodes s cmd) \<noteq> ALINK_USER_TYPE_C2"
    | "cmd_type (cmd_nodes s cmd) \<noteq> ALINK_USER_TYPE_C2"
      "cmd_type (cmd_nodes s cmd) \<noteq> ALINK_USER_TYPE_DEVICE" by blast
  then show ?thesis
  proof cases
    case 1
    obtain st' o' where "alink_order_register_cmd st (sOrder s) cmd = Some (st', o', 0)"
      "order_abs st' o' (c2 @ [(cmd, mid, plen, task)])" "order_abs st' (sOrder_server s) dev"
      "\<forall>x. cmd_type (st' x) = cmd_type (st x)"
      using alink_order_register_cmd_pair [OF c2 dev dis(1) new(1) nx en] by (elim exE conjE)
    with 1 ty new dis show ?thesis by (simp add: def cmds_abs_def)
  next
    case 2
    obtain st' o' where "alink_order_register_cmd st (sOrder_server s) cmd = Some (st', o', 0)"
      "order_abs st' o' (dev @ [(cmd, mid, plen, task)])" "order_abs st' (sOrder s) c2"
      "\<forall>x. cmd_type (st' x) = cmd_type (st x)"
      using alink_order_register_cmd_pair [OF dev c2 dis(2) new(2) nx en] by (elim exE conjE)
    with 2 ty new dis show ?thesis by (simp add: def cmds_abs_def)
  next
    case 3
    with c2 dev dis ty show ?thesis by (simp add: def cmds_abs_def)
  qed
qed

subsection \<open>Dispatch on the abstract registry\<close>

lemma find_entry:
  "\<forall>x \<in> set es. cmd_entry (st (fst x)) = snd x \<Longrightarrow>
   List.find (\<lambda>a. byCmd (st a) = mid) (map fst es) = map_option fst (List.find (\<lambda>x. fst (snd x) = mid) es)"
  by (induction es) (auto simp: cmd_entry_def)

lemma find_in_set: "List.find P xs = Some x \<Longrightarrow> x \<in> set xs"
  by (auto simp: find_Some_iff)

definition payload_of :: "'s alink_order_import \<Rightarrow> bytes \<Rightarrow> alink_payload" where
  "payload_of psImport m = \<lparr>pl_ePortId = oi_ePortId psImport, eRemoteId = m ! 5,
     wLength = of_nat (payload_len m), pbyData = ptr_add (oi_pbyMsg psImport) 9\<rparr>"

text \<open>The handler the registry names for a message, if the payload is long enough for it.\<close>

definition selected :: "(nat \<times> 't entry) list \<Rightarrow> bytes \<Rightarrow> 't option" where
  "selected es m =
     (case List.find (\<lambda>x. fst (snd x) = m ! 6) es of
        None \<Rightarrow> None
      | Some (a, mid, plen, task) \<Rightarrow> if unat plen \<le> payload_len m then task else None)"

lemma payload_word:
  "push_bit 8 (ucast (m ! 2)) OR ucast (m ! Suc 0) = (of_nat (payload_len m) :: u32)"
proof -
  have "(push_bit 8 (ucast (m ! 2)) OR ucast (m ! Suc 0) :: u32) =
      push_bit 8 (ucast (m ! 2)) + ucast (m ! Suc 0)"
    by (rule disjunctive_add [symmetric]) (auto simp: bit_simps dest: bit_imp_le_length)
  then show ?thesis by (simp add: push_bit_eq_mult payload_len_def mult.commute)
qed

lemma unat_payload_word: "unat (of_nat (payload_len m) :: u32) = payload_len m"
  using payload_len_less [of m] by (intro unat_of_nat_small) simp

lemma order_dispatch_abs:
  assumes abs: "order_abs st ord es" and m: "deref h (oi_pbyMsg imp) = Some m" "9 \<le> length m"
  shows "order_dispatch run st h (psCmdList ord) imp r w =
    (case selected es m of None \<Rightarrow> Some (r, w) | Some t \<Rightarrow> run t h (payload_of imp m) r w)"
proof (cases "psCmdList ord")
  case None
  with abs have "es = []" by (simp add: order_abs_def)
  with None show ?thesis by (simp add: order_dispatch_def selected_def)
next
  case (Some now)
  have l: "hlist psNext st (Some now) (map fst es)" and e: "\<forall>x \<in> set es. cmd_entry (st (fst x)) = snd x"
    using abs Some by (auto simp: order_abs_def)
  have f: "find_walk psNext (\<lambda>_ n. byCmd n = m ! 6) st (Some now) =
      Some (map_option fst (List.find (\<lambda>x. fst (snd x) = m ! 6) es))"
    using find_walk_hlist [OF l] find_entry [OF e] by simp
  have ld: "load8 m 6 = Some (m ! 6)" "load8 m 5 = Some (m ! 5)" "load8 m 2 = Some (m ! 2)"
    "load8 m 1 = Some (m ! 1)" using m(2) by (simp_all add: load8_def)
  show ?thesis
  proof (cases "List.find (\<lambda>x. fst (snd x) = m ! 6) es")
    case None
    with f ld m Some show ?thesis by (simp add: order_dispatch_def selected_def)
  next
    case (Some x)
    obtain a mid plen task where x: "x = (a, mid, plen, task)" by (cases x) auto
    with e find_in_set [OF Some] have "wPayloadLen (st a) = plen" "pv_cmd_task (st a) = task"
      by (auto simp: cmd_entry_def)
    then show ?thesis
      using f ld m \<open>psCmdList ord = Some now\<close> Some x
      by (cases task) (simp_all add: order_dispatch_def selected_def payload_of_def payload_word
          word_le_nat_alt unat_payload_word unat_ucast_u16)
  qed
qed

subsection \<open>What the dispatcher asks of its handlers\<close>

text \<open>
  A handler may write the response but never resizes the buffer it lies in. Given that, dispatching keeps
  an order well formed: its registry and the size of its send buffer.
\<close>

locale cmd_handlers =
  fixes run :: "('t, 's, 'w) run_cmd"
  assumes keeps_size: "run t h p r w = Some (r', w') \<Longrightarrow> length (rs_buf r') = length (rs_buf r)"
begin

lemma order_dispatch_size:
  assumes "order_dispatch run st h p imp r w = Some (r', w')"
  shows "length (rs_buf r') = length (rs_buf r)"
  using assms
  by (auto simp: order_dispatch_def Let_def split: if_splits option.splits Option.bind_splits
      dest: keeps_size)

lemma alink_order_task_keeps:
  assumes "alink_order_task run st h ord imp w = Some (ord', w', e)"
  shows "psCmdList ord' = psCmdList ord" "od_wBufferSize ord' = od_wBufferSize ord"
    "length (od_pbyBuffer ord') = length (od_pbyBuffer ord)" "e = 0"
proof -
  from assms obtain buf r where b: "storen (od_pbyBuffer ord) 9 [0xFF] = Some buf" and
    d: "order_dispatch run st h (psCmdList ord) imp
      \<lparr>rs_wCount = 1, rs_wSize = od_wBufferSize ord - 11, rs_buf = buf, psArg = imp\<rparr> w = Some (r, w')"
    and o: "ord' = ord\<lparr>od_pbyBuffer := rs_buf r\<rparr>" "e = 0"
    by (auto simp: alink_order_task_def Let_def Option.bind_eq_Some_conv)
  from order_dispatch_size [OF d] storen_length [OF b] o
  show "psCmdList ord' = psCmdList ord" "od_wBufferSize ord' = od_wBufferSize ord"
    "length (od_pbyBuffer ord') = length (od_pbyBuffer ord)" "e = 0"
    by simp_all
qed

end

subsection \<open>A concrete registry\<close>

text \<open>Three nodes with one command each, two of the C2 side and one of the device side.\<close>

definition ex_nodes :: "string cmd_store" where
  "ex_nodes = (\<lambda>_. \<lparr>byCmd = 0, wPayloadLen = 0, pv_cmd_task = None, psNext = None, cmd_type = 1\<rparr>)
     (1 := \<lparr>byCmd = 0xD1, wPayloadLen = 3, pv_cmd_task = Some ''status'', psNext = Some 2, cmd_type = 0\<rparr>,
      2 := \<lparr>byCmd = 0xD0, wPayloadLen = 1, pv_cmd_task = Some ''heartbeat'', psNext = None, cmd_type = 0\<rparr>)"

definition ex_order :: "nat option \<Rightarrow> alink_order" where
  "ex_order p = \<lparr>od_wBufferSize = 32, od_pbyBuffer = replicate 32 0, psCmdList = p\<rparr>"

definition ex_cmds :: "string alink_cmds" where
  "ex_cmds = \<lparr>cmd_nodes = ex_nodes, sOrder = ex_order (Some 1), sOrder_server = ex_order None\<rparr>"

definition ex_c2 :: "(nat \<times> string entry) list" where
  "ex_c2 = [(1, 0xD1, 3, Some ''status''), (2, 0xD0, 1, Some ''heartbeat'')]"

definition log_cmd :: "(string, unit, (string \<times> u32) list) run_cmd" where
  "log_cmd t h p r w = Some (r, w @ [(t, wLength p)])"

lemma ex_cmds_abs: "cmds_abs ex_cmds ex_c2 []" "order_abs ex_nodes (ex_order (Some 1)) ex_c2"
  by (simp_all add: cmds_abs_def order_abs_def ex_cmds_def ex_c2_def ex_order_def ex_nodes_def cmd_entry_def)

lemma ex_selected: "selected ex_c2 ex_package = Some ''heartbeat''"
  by (simp add: selected_def ex_c2_def ex_package_def nth_frame_head payload_len_frame)

subsection \<open>Properties\<close>

text \<open>The response a handler starts from: one byte \<open>0xFF\<close> in the order's send buffer.\<close>

definition resp_start :: "alink_order \<Rightarrow> 's alink_order_import \<Rightarrow> 's alink_resp" where
  "resp_start ord psImport = \<lparr>rs_wCount = 1, rs_wSize = od_wBufferSize ord - 11,
     rs_buf = (od_pbyBuffer ord)[9 := 0xFF], psArg = psImport\<rparr>"

lemma alink_order_task_abs:
  assumes "order_abs st ord es" "deref h (oi_pbyMsg imp) = Some m" "9 \<le> length m"
    "10 \<le> length (od_pbyBuffer ord)"
  shows "alink_order_task run st h ord imp w =
    map_option (\<lambda>(r, w'). (ord\<lparr>od_pbyBuffer := rs_buf r\<rparr>, w', 0))
      (case selected es m of
         None \<Rightarrow> Some (resp_start ord imp, w)
       | Some t \<Rightarrow> run t h (payload_of imp m) (resp_start ord imp) w)"
proof -
  have "storen (od_pbyBuffer ord) 9 [0xFF] = Some ((od_pbyBuffer ord)[9 := 0xFF])"
    using assms(4) by (simp add: storen_def upd_conv_take_nth_drop)
  then show ?thesis
    using order_dispatch_abs [OF assms(1-3), of run "resp_start ord imp" w]
    by (simp add: alink_order_task_def resp_start_def Let_def map_conv_bind_option comp_def
        split: option.split prod.split Option.bind_split)
qed

text \<open>
  Dispatch: for a received message the dispatcher runs the handler of the first registered command
  with the message's id, once, provided the payload is at least as long as that command asks for, with
  the port, the sender, the payload's address behind the header and its length; in every other case no
  handler runs. The search always ends on a registry.
\<close>
theorem alink_order_task_dispatches:
  assumes "order_abs st ord es" "deref h (oi_pbyMsg imp) = Some m" "9 \<le> length m"
    "10 \<le> length (od_pbyBuffer ord)"
  shows "alink_order_task run st h ord imp w =
    map_option (\<lambda>(r, w'). (ord\<lparr>od_pbyBuffer := rs_buf r\<rparr>, w', 0))
      (case selected es m of
         None \<Rightarrow> Some (resp_start ord imp, w)
       | Some t \<Rightarrow> run t h (payload_of imp m) (resp_start ord imp) w)"
  using assms by (rule alink_order_task_abs)

theorem alink_order_task_dispatches_witness:
  "alink_order_task log_cmd ex_nodes [3 \<mapsto> ex_package] (ex_order (Some 1))
      \<lparr>oi_ePortId = 1, oi_pbyMsg = \<lparr>obj = 3, off = 0\<rparr>, oi_handle = 0, oi_pe_send = None\<rparr> [] =
    Some ((ex_order (Some 1))\<lparr>od_pbyBuffer := (replicate 32 0)[9 := 0xFF]\<rparr>, [(''heartbeat'', 3)], 0)"
proof -
  have "wLength (payload_of imp ex_package) = 3" for imp :: "unit alink_order_import"
    by (simp add: payload_of_def ex_package_def payload_len_frame)
  then show ?thesis
    using alink_order_task_dispatches [OF ex_cmds_abs(2), of "[3 \<mapsto> ex_package]"
        "\<lparr>oi_ePortId = 1, oi_pbyMsg = \<lparr>obj = 3, off = 0\<rparr>, oi_handle = 0, oi_pe_send = None\<rparr>" ex_package
        log_cmd "[]"]
    by (simp add: deref_def ex_selected log_cmd_def resp_start_def ex_order_def)
qed

text \<open>
  C31. Registering a node that is in neither registry always succeeds for a valid side: the new command
  goes to the end of its side's registry and the other registry keeps every entry; a node of unknown
  type changes neither registry and is reported as \<^verbatim>\<open>RET_VALUE_INVALID_PARM\<close>.
\<close>
theorem alink_register_cmd_appends:
  assumes "cmds_abs s c2 dev" "cmd \<notin> fst ` set c2" "cmd \<notin> fst ` set dev"
  shows "\<exists>s' e. alink_register_cmd s cmd mid plen task = Some (s', e) \<and>
    (\<forall>x. cmd_type (cmd_nodes s' x) = cmd_type (cmd_nodes s x)) \<and>
    (if cmd_type (cmd_nodes s cmd) = ALINK_USER_TYPE_C2
     then e = 0 \<and> cmds_abs s' (c2 @ [(cmd, mid, plen, task)]) dev
     else if cmd_type (cmd_nodes s cmd) = ALINK_USER_TYPE_DEVICE
     then e = 0 \<and> cmds_abs s' c2 (dev @ [(cmd, mid, plen, task)])
     else e = RET_VALUE_INVALID_PARM \<and> cmds_abs s' c2 dev)"
  using assms by (rule alink_register_cmd_abs)

theorem alink_register_cmd_appends_witness:
  "\<exists>s'. alink_register_cmd ex_cmds 7 0x12 1 (Some ''tracked'') = Some (s', 0) \<and>
     cmds_abs s' ex_c2 [(7, 0x12, 1, Some ''tracked'')]"
  using alink_register_cmd_appends [OF ex_cmds_abs(1), of 7 "0x12" 1 "Some ''tracked''"]
  by (auto simp: ex_c2_def ex_cmds_def ex_nodes_def ALINK_USER_TYPE_C2_def ALINK_USER_TYPE_DEVICE_def)

lemma hlist_cut:
  assumes "hlist nxt st p (us @ a # vs)" "nxt (st' a) = None" "\<And>x. x \<noteq> a \<Longrightarrow> nxt (st' x) = nxt (st x)"
  shows "hlist nxt st' p (us @ [a])"
  using assms hlist_distinct [OF assms(1)] by (induction us arbitrary: p) auto

text \<open>
  Registering a node again destroys the registrations behind it: \<^verbatim>\<open>alink_register_cmd\<close> clears the
  node's link before it looks for the end of the list, so the node becomes the last one.
\<close>
theorem alink_register_cmd_again_truncates:
  assumes "cmds_abs s (us @ (cmd, ent) # vs) dev" "cmd_type (cmd_nodes s cmd) = ALINK_USER_TYPE_C2"
  shows "\<exists>s'. alink_register_cmd s cmd mid plen task = Some (s', 0) \<and>
    cmds_abs s' (us @ [(cmd, mid, plen, task)]) dev"
proof -
  define st where "st = (cmd_nodes s)(cmd := (cmd_nodes s cmd)\<lparr>byCmd := mid, wPayloadLen := plen,
                 pv_cmd_task := task, psNext := None\<rparr>)"
  have old: "hlist psNext (cmd_nodes s) (psCmdList (sOrder s)) (map fst us @ cmd # map fst vs)"
    and ent: "\<forall>x \<in> set us. cmd_entry (cmd_nodes s (fst x)) = snd x"
    and dev: "order_abs (cmd_nodes s) (sOrder_server s) dev"
    and dis: "fst ` set (us @ (cmd, ent) # vs) \<inter> fst ` set dev = {}"
    using assms(1) by (simp_all add: cmds_abs_def order_abs_def)
  have "distinct (map fst us @ cmd # map fst vs)" using old by (rule hlist_distinct)
  then have us: "cmd \<notin> fst ` set us" by auto
  have l: "hlist psNext st (psCmdList (sOrder s)) (map fst us @ [cmd])"
    using old by (rule hlist_cut) (simp_all add: st_def)
  then obtain now where now: "psCmdList (sOrder s) = Some now" by (cases "psCmdList (sOrder s)") auto
  have "order_abs st (sOrder s) (us @ [(cmd, mid, plen, task)])"
    using l ent us by (auto simp: order_abs_def st_def cmd_entry_def image_iff)
  moreover have "order_abs st (sOrder_server s) dev"
    using dis by (intro order_abs_cong [OF dev]) (auto simp: st_def)
  moreover have "alink_order_register_cmd st (sOrder s) cmd = Some (st, sOrder s, 0)"
    using cmds.append_walk_present [of st now "map fst us @ [cmd]" cmd] l now
    by (simp add: alink_order_register_cmd_def)
  ultimately show ?thesis
    using assms(2) dis by (auto simp: alink_register_cmd_def Let_def cmds_abs_def st_def [symmetric])
      (simp_all add: st_def)
qed

theorem alink_register_cmd_again_truncates_witness:
  "\<exists>s'. alink_register_cmd ex_cmds 1 0xD1 3 (Some ''status'') = Some (s', 0) \<and>
     cmds_abs s' [(1, 0xD1, 3, Some ''status'')] []"
  using alink_register_cmd_again_truncates [of ex_cmds "[]" 1 "(0xD1, 3, Some ''status'')"
      "[(2, 0xD0, 1, Some ''heartbeat'')]" "[]" "0xD1" 3 "Some ''status''"] ex_cmds_abs(1)
  by (simp add: ex_c2_def ex_cmds_def ex_nodes_def ALINK_USER_TYPE_C2_def)

lemma ucast_low_byte: "(ucast (0xFF AND (w :: u32)) :: u8) = ucast w"
  by (rule bit_word_eqI) (auto simp: bit_simps bit_numeral_word_iff less_Suc_eq numeral_eq_Suc)

lemma length_bytes_of_count:
  assumes "n < 2 ^ 32"
  shows "ucast (0xFF AND (of_nat n :: u32)) = (of_nat n :: u8)"
    "ucast (0xFF AND drop_bit 8 (of_nat n :: u32)) = (of_nat (n div 256) :: u8)"
proof -
  have u: "unat (of_nat n :: u32) = n" using assms by (intro unat_of_nat_small) simp
  show "ucast (0xFF AND (of_nat n :: u32)) = (of_nat n :: u8)"
    using of_nat_unat [of "of_nat n :: u32", where 'a = u8] u by (simp add: ucast_low_byte)
  have "unat (drop_bit 8 (of_nat n :: u32)) = n div 256"
    unfolding unat_drop_bit_eq u by (simp add: drop_bit_eq_div)
  then show "ucast (0xFF AND drop_bit 8 (of_nat n :: u32)) = (of_nat (n div 256) :: u8)"
    using of_nat_unat [of "drop_bit 8 (of_nat n :: u32)", where 'a = u8] by (simp add: ucast_low_byte)
qed

text \<open>
  The acknowledgement: for a request that asks for an answer on a port that can send, exactly one
  package goes out. It is valid, carries the response payload, repeats the request's sequence number
  and message id, exchanges source and destination, and does not ask for an answer itself.
\<close>
theorem alink_order_send_acknowledges:
  assumes "rs_buf r = old @ payload @ rest" "length old = 9" "rs_wCount r = of_nat (length payload)"
    "length payload + 11 < 65536" "2 \<le> length rest"
    "deref h (oi_pbyMsg (psArg r)) = Some m" "9 \<le> length m" "m ! 7 \<noteq> 0" "oi_pe_send (psArg r) = Some sd"
  shows "\<exists>ack. ack = frame (m ! 3) (m ! 5) (m ! 4) (m ! 6) 0 payload \<and> valid_package ack \<and>
    alink_order_send send h r w =
      map_option (\<lambda>(w', e). (r\<lparr>rs_buf := ack @ drop 2 rest\<rparr>, w', e))
        (send sd (oi_handle (psArg r)) (ack @ drop 2 rest) (of_nat (length ack)) w)"
proof -
  let ?n = "length payload" and ?ack = "frame (m ! 3) (m ! 5) (m ! 4) (m ! 6) 0 payload"
  let ?hd = "frame_head (m ! 3) (m ! 5) (m ! 4) (m ! 6) 0 ?n"
  have hd: "head_of m = Some \<lparr>magic = m ! 0, len_lo = m ! 1, len_hi = m ! 2, seq = m ! 3, destid = m ! 4,
      sourceid = m ! 5, msgid = m ! 6, ans = m ! 7, checksum = m ! 8\<rparr>"
    using assms(7) by (simp add: head_of_def mem_simps)
  obtain x where x: "drop 8 old = [x]"
    using assms(2) by (cases "drop 8 old") (auto simp: Cons_nth_drop_Suc dest: arg_cong [of _ _ length])
  have b: "storen (rs_buf r) 0 ?hd = Some (?hd @ x # payload @ rest)"
    using assms(1,2) x by (simp add: storen_def)
  have n: "ucast (0xFF AND rs_wCount r) = (of_nat ?n :: u8)"
    "ucast (0xFF AND drop_bit 8 (rs_wCount r)) = (of_nat (?n div 256) :: u8)"
    unfolding assms(3) using assms(4) by (intro length_bytes_of_count; simp)+
  have c: "(ucast (rs_wCount r + 11) :: u16) = of_nat (?n + 11)"
  proof -
    have "rs_wCount r + 11 = (of_nat (?n + 11) :: u32)" using assms(3) by simp
    moreover have "(ucast (of_nat (?n + 11) :: u32) :: u16) = of_nat (?n + 11)"
      using assms(4) by (intro ucast_of_nat_small) simp
    ultimately show ?thesis by (simp only:)
  qed
  have cc: "(ucast (of_nat (?n + 11) :: u16) :: u32) = of_nat (length ?ack)"
    using assms(4) ucast_of_nat_small [of "?n + 11", where 'a = 16 and 'b = 32] by simp
  have sl: "seal_package (?hd @ x # payload @ rest) (of_nat (?n + 11)) = Some (?ack @ drop 2 rest)"
    using assms(4,5) by (intro seal_frame) simp_all
  have "alink_order_send send h r w =
      map_option (\<lambda>(w', e). (r\<lparr>rs_buf := ?ack @ drop 2 rest\<rparr>, w', e))
        (send sd (oi_handle (psArg r)) (?ack @ drop 2 rest) (of_nat (length ?ack)) w)"
    unfolding alink_order_send_def Let_def assms(6,9) bind.bind_lunit hd
    using assms(8) b sl
    by (simp add: n c cc frame_head_def map_conv_bind_option comp_def split_def del: of_nat_add of_nat_numeral)
  moreover have "valid_package ?ack" using assms(4) by (intro valid_frame) simp
  ultimately show ?thesis by blast
qed

theorem alink_order_send_acknowledges_witness:
  "\<exists>ack. ack = frame 1 8 6 0xD0 0 [0] \<and> valid_package ack \<and>
    alink_order_send (\<lambda>sd hdl b n w. Some (w @ [take (unat n) b], 0)) [3 \<mapsto> frame 1 6 8 0xD0 1 []]
      \<lparr>rs_wCount = 1, rs_wSize = 21, rs_buf = replicate 9 0 @ [0] @ replicate 22 0,
       psArg = \<lparr>oi_ePortId = 1, oi_pbyMsg = \<lparr>obj = 3, off = 0\<rparr>, oi_handle = 0, oi_pe_send = Some ()\<rparr>\<rparr> [] =
    Some (\<lparr>rs_wCount = 1, rs_wSize = 21, rs_buf = ack @ replicate 20 0,
       psArg = \<lparr>oi_ePortId = 1, oi_pbyMsg = \<lparr>obj = 3, off = 0\<rparr>, oi_handle = 0, oi_pe_send = Some ()\<rparr>\<rparr>,
       [ack], 0)"
  using alink_order_send_acknowledges [of "\<lparr>rs_wCount = 1, rs_wSize = 21, rs_buf = replicate 9 0 @ [0] @ replicate 22 0,
       psArg = \<lparr>oi_ePortId = 1, oi_pbyMsg = \<lparr>obj = 3, off = 0\<rparr>, oi_handle = 0, oi_pe_send = Some ()\<rparr>\<rparr>"
      "replicate 9 0" "[0]" "replicate 22 0" "[3 \<mapsto> frame 1 6 8 0xD0 1 []]" "frame 1 6 8 0xD0 1 []" "()"
      "\<lambda>sd hdl b n w. Some (w @ [take (unat n) b], 0)" "[]"]
  by (simp add: deref_def nth_frame_head)

lemma alink_connect_port_C2:
  assumes "alink_connect_port sk ALINK_USER_TYPE_C2 = (sk', e)"
  shows "e = 0" "pu_state (sRecv sk') = Check_magic"
    "sRecvCbk (sRecv sk') = \<lparr>psHandle = Some 0, pe_cbk = Some Cbk_alink_order_task\<rparr>"
  using assms alink_socket_init_ready [of sk 0 sk' e] by (simp_all add: alink_connect_port_def)

lemma alink_socket_recv_world:
  "map_option snd (alink_socket_recv run h sk q n w) =
   map_option snd (alink_recv_task run h (sRecv sk) ((sImport sk)\<lparr>ri_pbyData := q, ri_uLength := n\<rparr>) w)"
  by (cases "alink_recv_task run h (sRecv sk) ((sImport sk)\<lparr>ri_pbyData := q, ri_uLength := n\<rparr>) w")
    (simp_all add: alink_socket_recv_def split_def)

lemma order_abs_of_cmds: "cmds_abs s c2 dev \<Longrightarrow> order_abs (cmd_nodes s) (sOrder s) c2"
  by (simp add: cmds_abs_def)

text \<open>
  C2. From the wire to the handler: on a socket connected to the C2 side, a buffer holding one valid
  package (with noise around it) runs the registered handler of its message id exactly once, with the
  payload's address and length, and changes nothing else but the C2 order's response buffer; a package
  no handler takes runs none.
\<close>
theorem alink_socket_recv_handles:
  assumes "alink_connect_port sk ALINK_USER_TYPE_C2 = (sk', e)" "cmds_abs s c2 dev" "valid_package p"
    "h ob = Some (g @ p @ g')" "\<forall>b \<in> set g \<union> set g'. \<not> alink_check_magic b"
    "length (g @ p @ g') + 65546 < 2 ^ 32" "10 \<le> length (od_pbyBuffer (sOrder s))"
    "imp = order_import_of (sImport sk') \<lparr>obj = ob, off = length g\<rparr>"
  shows "map_option snd (alink_socket_recv (order_run run) h sk' \<lparr>obj = ob, off = 0\<rparr>
      (of_nat (length (g @ p @ g'))) (s, w)) =
    map_option (\<lambda>(r, w'). (s\<lparr>sOrder := (sOrder s)\<lparr>od_pbyBuffer := rs_buf r\<rparr>\<rparr>, w'))
      (case selected c2 p of
         None \<Rightarrow> Some (resp_start (sOrder s) imp, w)
       | Some t \<Rightarrow> run t h (payload_of imp p) (resp_start (sOrder s) imp) w)"
proof -
  let ?imp = "(sImport sk')\<lparr>ri_pbyData := \<lparr>obj = ob, off = 0\<rparr>, ri_uLength := of_nat (length (g @ p @ g'))\<rparr>"
  let ?q = "\<lparr>obj = ob, off = length g\<rparr>"
  note port = alink_connect_port_C2 [OF assms(1)]
  have pl: "11 \<le> length p" using assms(3) by (simp add: valid_package_def)
  have "frames 0 (g @ p @ g') = [(length g, p)]"
    using frames_stream [of "[p]" g g'] assms(3,5) by simp
  then have recv: "map_option snd (alink_recv_task (order_run run) h (sRecv sk') ?imp (s, w)) =
      deliver (order_run run) Cbk_alink_order_task (Some 0) h (sImport sk') ob [(length g, p)] (s, w)"
    using alink_recv_task_buffer [of "sRecv sk'" "Some 0" Cbk_alink_order_task h ob "g @ p @ g'"
        "order_run run" "sImport sk'" "(s, w)"] port assms(4,6) by simp
  have sel: "selected c2 (p @ g') = selected c2 p" "payload_of imp (p @ g') = payload_of imp p"
    using valid_package_head(1) [OF assms(3), of g'] pl
    by (simp_all add: selected_def payload_of_def nth_append split: option.split)
  have "deref h (oi_pbyMsg imp) = Some (p @ g')"
    using assms(4,8) by (simp add: order_import_of_def deref_def)
  then have "alink_order_task run (cmd_nodes s) h (sOrder s) imp w =
    map_option (\<lambda>(r, w'). ((sOrder s)\<lparr>od_pbyBuffer := rs_buf r\<rparr>, w', 0))
      (case selected c2 p of
         None \<Rightarrow> Some (resp_start (sOrder s) imp, w)
       | Some t \<Rightarrow> run t h (payload_of imp p) (resp_start (sOrder s) imp) w)"
    using alink_order_task_abs [OF order_abs_of_cmds [OF assms(2)], of h imp "p @ g'" run w] pl assms(7)
    by (simp add: sel split: option.split)
  then have "deliver (order_run run) Cbk_alink_order_task (Some 0) h (sImport sk') ob [(length g, p)] (s, w) =
    map_option (\<lambda>(r, w'). (s\<lparr>sOrder := (sOrder s)\<lparr>od_pbyBuffer := rs_buf r\<rparr>\<rparr>, w'))
      (case selected c2 p of
         None \<Rightarrow> Some (resp_start (sOrder s) imp, w)
       | Some t \<Rightarrow> run t h (payload_of imp p) (resp_start (sOrder s) imp) w)"
    using assms(8)
    by (cases "selected c2 p") (auto simp: order_run_def Let_def map_conv_bind_option comp_def split_def
        split: Option.bind_split)
  then show ?thesis
    using recv unfolding alink_socket_recv_world by (simp only: alink_socket.simps)
qed

text \<open>A freshly connected socket of the C2 side, for evaluating the property above.\<close>

definition raw_socket :: "unit alink_socket" where
  "raw_socket = \<lparr>abyBuffer = None,
      sRecv = \<lparr>wPkgSize = 0, wCount = 0, wBufferSize = 0, sRecvCbk = \<lparr>psHandle = None, pe_cbk = None\<rparr>,
        pbyBuffer = None, pu_state = Check_magic\<rparr>,
      sImport = ex_import 0 0, psOrder = None\<rparr>"

definition ex_socket :: "unit alink_socket" where
  "ex_socket = fst (alink_connect_port raw_socket ALINK_USER_TYPE_C2)"

lemma ex_socket_connected: "alink_connect_port raw_socket ALINK_USER_TYPE_C2 = (ex_socket, 0)"
  using alink_connect_port_C2(1) [of raw_socket "fst (alink_connect_port raw_socket ALINK_USER_TYPE_C2)"
      "snd (alink_connect_port raw_socket ALINK_USER_TYPE_C2)"]
  by (simp add: ex_socket_def prod_eq_iff)

theorem alink_socket_recv_handles_witness:
  "map_option snd (alink_socket_recv (order_run log_cmd) [3 \<mapsto> [7] @ ex_package @ [9]] ex_socket
      \<lparr>obj = 3, off = 0\<rparr> 16 (ex_cmds, [])) =
    Some (ex_cmds\<lparr>sOrder := (ex_order (Some 1))\<lparr>od_pbyBuffer := (replicate 32 0)[9 := 0xFF]\<rparr>\<rparr>,
      [(''heartbeat'', 3)])"
proof -
  have "wLength (payload_of imp ex_package) = 3" for imp :: "unit alink_order_import"
    by (simp add: payload_of_def ex_package_def payload_len_frame)
  then show ?thesis
    using alink_socket_recv_handles [OF ex_socket_connected ex_cmds_abs(1) valid_ex_package, of
        "[3 \<mapsto> [7] @ ex_package @ [9]]" 3 "[7]" "[9]" _ log_cmd "[]"]
    by (simp add: ex_selected log_cmd_def resp_start_def ex_order_def ex_cmds_def alink_check_magic_def
        ALINK_MSG_MAGIC_VALUE_def)
qed

end
