(* ===== verification/Alink_Upload.thy ===== *)
theory Alink_Upload
  imports Alink_Order
begin

text \<open>
  \<^verbatim>\<open>srv/alink/upload/alink_package.c\<close>, \<^verbatim>\<open>alink_upload.c\<close> and the upload half of \<^verbatim>\<open>srv/alink/alink.c\<close>: the
  registry of package kinds, the list of receivers connected to each kind, and the sender that packs a
  payload once and sends it, framed, to every receiver.

  Both kinds of node live in stores. A packer is a tag that \<open>pack\<close> interprets: given the payload area,
  its size and an argument it returns the new payload area and the payload length.
\<close>

subsection \<open>Data\<close>

record 's alink_send_list =
  byRemoteId :: u8
  sd_handle :: nat
  sd_pe_send :: "'s option"
  sd_psNext :: "nat option"

record 'p alink_package_list =
  byMsgId :: u8
  byAns :: u8
  pw_package_task :: "'p option"
  psSendList :: "nat option"
  pk_psNext :: "nat option"

record alink_upload =
  byDevId :: u8
  byReq :: u8
  up_wBufferSize :: u32
  up_pbyBuffer :: bytes
  psPackageList :: "nat option"

text \<open>The static upload object and the nodes its lists run through.\<close>

record ('p, 's) alink_uploads =
  packages :: "'p alink_package_list store"
  sends :: "'s alink_send_list store"
  sUpload :: alink_upload

type_synonym ('p, 'i) run_pack = "'p \<Rightarrow> bytes \<Rightarrow> u16 \<Rightarrow> 'i \<Rightarrow> (bytes \<times> u16) option"

interpretation pkgs: linked_nodes pk_psNext "\<lambda>p. pk_psNext_update (\<lambda>_. p)"
  by unfold_locales simp

interpretation snds: linked_nodes sd_psNext "\<lambda>p. sd_psNext_update (\<lambda>_. p)"
  by unfold_locales simp

subsection \<open>Package nodes (\<^verbatim>\<open>alink_package.c\<close>)\<close>

definition alink_package_init ::
  "'p alink_package_list \<Rightarrow> u8 \<Rightarrow> u8 \<Rightarrow> 'p option \<Rightarrow> 'p alink_package_list \<times> i32" where
  "alink_package_init psPackage mid an task =
     (psPackage\<lparr>byAns := an, byMsgId := mid, pw_package_task := task, pk_psNext := None\<rparr>, 0)"

definition alink_package_connect_send ::
  "('p, 's) alink_uploads \<Rightarrow> nat \<Rightarrow> nat \<Rightarrow> (('p, 's) alink_uploads \<times> i32) option" where
  "alink_package_connect_send u pkg sd =
     (case psSendList (packages u pkg) of
        None \<Rightarrow>
          Some (u\<lparr>packages := (packages u)(pkg := (packages u pkg)\<lparr>psSendList := Some sd\<rparr>)\<rparr>, 0)
      | Some now \<Rightarrow> do {
          st \<leftarrow> append_walk sd_psNext (\<lambda>p. sd_psNext_update (\<lambda>_. p)) (sends u) now sd;
          Some (u\<lparr>sends := st\<rparr>, 0) })"

text \<open>The removal loop: the node in front of the one searched for, if it is found.\<close>

partial_function (option) disconnect_walk ::
  "'s alink_send_list store \<Rightarrow> nat option \<Rightarrow> nat option \<Rightarrow> nat \<Rightarrow> nat option option option" where
  "disconnect_walk st prv now sd =
     (case now of
        None \<Rightarrow> Some None
      | Some a \<Rightarrow> if a = sd then Some (Some prv) else disconnect_walk st (Some a) (sd_psNext (st a)) sd)"

definition alink_package_disconnect_send ::
  "('p, 's) alink_uploads \<Rightarrow> nat \<Rightarrow> nat \<Rightarrow> (('p, 's) alink_uploads \<times> i32) option" where
  "alink_package_disconnect_send u pkg sd = do {
     r \<leftarrow> disconnect_walk (sends u) None (psSendList (packages u pkg)) sd;
     (case r of
        None \<Rightarrow> Some (u, 0)
      | Some (Some prv) \<Rightarrow>
          Some (u\<lparr>sends := (sends u)(prv := (sends u prv)\<lparr>sd_psNext := sd_psNext (sends u sd)\<rparr>)\<rparr>, 0)
      | Some None \<Rightarrow>
          Some (u\<lparr>packages := (packages u)(pkg := (packages u pkg)\<lparr>psSendList := None\<rparr>)\<rparr>, 0)) }"

subsection \<open>The upload object (\<^verbatim>\<open>alink_upload.c\<close>)\<close>

definition alink_upload_init :: "bool \<Rightarrow> alink_upload \<Rightarrow> u8 \<Rightarrow> bytes \<Rightarrow> u16 \<Rightarrow> alink_upload \<times> i32" where
  "alink_upload_init mutex_ok psUpload dev buf bsize =
     (if mutex_ok
      then (psUpload\<lparr>byReq := 0, byDevId := dev, up_pbyBuffer := buf, up_wBufferSize := ucast bsize\<rparr>, 0)
      else (psUpload, -1))"

partial_function (option) upload_send_loop ::
  "('s, 'w) run_send \<Rightarrow> u16 \<Rightarrow> 's alink_send_list store \<Rightarrow> bytes \<Rightarrow> nat option \<Rightarrow> 'w \<Rightarrow> i32 \<Rightarrow>
   (bytes \<times> 'w \<times> i32) option" where
  "upload_send_loop send plen st buf now w eRet =
     (case now of
        None \<Rightarrow> Some (buf, w, eRet)
      | Some a \<Rightarrow>
          (case sd_pe_send (st a) of
             None \<Rightarrow> upload_send_loop send plen st buf (sd_psNext (st a)) w eRet
           | Some s \<Rightarrow>
               Option.bind (storen buf 4 [byRemoteId (st a)]) (\<lambda>b1.
               Option.bind (seal_package b1 (plen + 11)) (\<lambda>b2.
               Option.bind (send s (sd_handle (st a)) b2 (ucast (plen + 11)) w) (\<lambda>r.
                 upload_send_loop send plen st b2 (sd_psNext (st a)) (fst r) (snd r))))))"

text \<open>The header fields that are the same for every receiver: all but destination and checksum.\<close>

definition upload_header :: "bytes \<Rightarrow> u16 \<Rightarrow> u8 \<Rightarrow> u8 \<Rightarrow> u8 \<Rightarrow> u8 \<Rightarrow> bytes option" where
  "upload_header buf plen dev sq mid an = do {
     b1 \<leftarrow> storen buf 0 [ALINK_MSG_MAGIC_VALUE, ucast (plen AND 0xFF), ucast (drop_bit 8 plen AND 0xFF), sq];
     storen b1 5 [dev, mid, an] }"

definition alink_upload_send_package ::
  "('p, 'i) run_pack \<Rightarrow> ('s, 'w) run_send \<Rightarrow> ('p, 's) alink_uploads \<Rightarrow> nat \<Rightarrow> 'i \<Rightarrow> 'w \<Rightarrow>
   (('p, 's) alink_uploads \<times> 'w \<times> i32) option" where
  "alink_upload_send_package pack send u pkg psImport w =
     (let psPackage = packages u pkg; up = sUpload u in
      case pw_package_task psPackage of
        None \<Rightarrow> Some (u, w, 0)
      | Some t \<Rightarrow>
          if psSendList psPackage = None then Some (u, w, 0)
          else do {
            area \<leftarrow> loadn (up_pbyBuffer up) 9 (length (up_pbyBuffer up) - 9);
            (area', plen) \<leftarrow> pack t area (ucast (up_wBufferSize up - 11)) psImport;
            b1 \<leftarrow> upload_header (take 9 (up_pbyBuffer up) @ area') plen (byDevId up) (byReq up)
                   (byMsgId psPackage) (byAns psPackage);
            (b2, w', eRet) \<leftarrow> upload_send_loop send plen (sends u) b1 (psSendList psPackage) w 0;
            Some (u\<lparr>sUpload := up\<lparr>byReq := byReq up + 1, up_pbyBuffer := b2\<rparr>\<rparr>, w', eRet) })"

definition alink_upload_register_package ::
  "('p, 's) alink_uploads \<Rightarrow> nat \<Rightarrow> (('p, 's) alink_uploads \<times> i32) option" where
  "alink_upload_register_package u pkg =
     (case psPackageList (sUpload u) of
        None \<Rightarrow> Some (u\<lparr>sUpload := (sUpload u)\<lparr>psPackageList := Some pkg\<rparr>\<rparr>, 0)
      | Some now \<Rightarrow> do {
          st \<leftarrow> append_walk pk_psNext (\<lambda>p. pk_psNext_update (\<lambda>_. p)) (packages u) now pkg;
          Some (u\<lparr>packages := st\<rparr>, 0) })"

definition alink_upload_connect_send ::
  "('p, 's) alink_uploads \<Rightarrow> u8 \<Rightarrow> nat \<Rightarrow> (('p, 's) alink_uploads \<times> i32) option" where
  "alink_upload_connect_send u mid sd = do {
     r \<leftarrow> find_walk pk_psNext (\<lambda>_ n. byMsgId n = mid) (packages u) (psPackageList (sUpload u));
     (case r of None \<Rightarrow> Some (u, -1) | Some pkg \<Rightarrow> alink_package_connect_send u pkg sd) }"

definition alink_upload_disconnect_send ::
  "('p, 's) alink_uploads \<Rightarrow> u8 \<Rightarrow> nat \<Rightarrow> (('p, 's) alink_uploads \<times> i32) option" where
  "alink_upload_disconnect_send u mid sd = do {
     r \<leftarrow> find_walk pk_psNext (\<lambda>_ n. byMsgId n = mid) (packages u) (psPackageList (sUpload u));
     (case r of None \<Rightarrow> Some (u, -1) | Some pkg \<Rightarrow> alink_package_disconnect_send u pkg sd) }"

subsection \<open>The front end (\<^verbatim>\<open>alink.c\<close>)\<close>

definition alink_upload_package ::
  "('p, 'i) run_pack \<Rightarrow> ('s, 'w) run_send \<Rightarrow> ('p, 's) alink_uploads \<Rightarrow> nat \<Rightarrow> 'i \<Rightarrow> 'w \<Rightarrow>
   (('p, 's) alink_uploads \<times> 'w \<times> i32) option" where
  "alink_upload_package pack send u pkg psImport w = alink_upload_send_package pack send u pkg psImport w"

definition alink_register_package ::
  "('p, 's) alink_uploads \<Rightarrow> nat \<Rightarrow> u8 \<Rightarrow> u8 \<Rightarrow> 'p option \<Rightarrow> (('p, 's) alink_uploads \<times> i32) option" where
  "alink_register_package u pkg mid an task =
     alink_upload_register_package
       (u\<lparr>packages := (packages u)(pkg := fst (alink_package_init (packages u pkg) mid an task))\<rparr>) pkg"

definition alink_connect_send ::
  "('p, 's) alink_uploads \<Rightarrow> nat \<Rightarrow> u8 \<Rightarrow> u8 \<Rightarrow> nat \<Rightarrow> 's option \<Rightarrow> (('p, 's) alink_uploads \<times> i32) option" where
  "alink_connect_send u sd mid remote hdl send =
     alink_upload_connect_send
       (u\<lparr>sends := (sends u)(sd := (sends u sd)\<lparr>byRemoteId := remote, sd_handle := hdl, sd_pe_send := send\<rparr>)\<rparr>)
       mid sd"

definition alink_disconnect_send ::
  "('p, 's) alink_uploads \<Rightarrow> nat \<Rightarrow> u8 \<Rightarrow> (('p, 's) alink_uploads \<times> i32) option" where
  "alink_disconnect_send u sd mid = alink_upload_disconnect_send u mid sd"

definition ALINK_DEV_ID_RADAR :: u8 where "ALINK_DEV_ID_RADAR = 3"

definition ALINK_DEV_ID_C2 :: u8 where "ALINK_DEV_ID_C2 = 6"

definition ALINK_DEV_ID_AGX :: u8 where "ALINK_DEV_ID_AGX = 8"

definition alink_set_upload_dev_id :: "alink_upload \<Rightarrow> u8 \<Rightarrow> alink_upload \<times> i32" where
  "alink_set_upload_dev_id up dev =
     (if ALINK_DEV_ID_RADAR = 0x0F AND dev then (up\<lparr>byDevId := dev\<rparr>, 0) else (up, -1))"

subsection \<open>What a run of the sender does\<close>

text \<open>The calls of the transport, in order: sender, handle and package; \<open>tail\<close> follows in the buffer.\<close>

fun send_all ::
  "('s, 'w) run_send \<Rightarrow> bytes \<Rightarrow> ('s \<times> nat \<times> bytes) list \<Rightarrow> 'w \<Rightarrow> i32 \<Rightarrow> ('w \<times> i32) option" where
  "send_all send tail [] w eRet = Some (w, eRet)"
| "send_all send tail ((s, hdl, f) # fs) w eRet =
     Option.bind (send s hdl (f @ tail) (of_nat (length f)) w) (\<lambda>r. send_all send tail fs (fst r) (snd r))"

definition receivers ::
  "'s alink_send_list store \<Rightarrow> (u8 \<Rightarrow> bytes) \<Rightarrow> nat list \<Rightarrow> ('s \<times> nat \<times> bytes) list" where
  "receivers st F = List.map_filter
     (\<lambda>a. map_option (\<lambda>s. (s, sd_handle (st a), F (byRemoteId (st a)))) (sd_pe_send (st a)))"

lemma receivers_simps [simp]:
  "receivers st F [] = []"
  "receivers st F (a # xs) =
     (case sd_pe_send (st a) of
        None \<Rightarrow> receivers st F xs
      | Some s \<Rightarrow> (s, sd_handle (st a), F (byRemoteId (st a))) # receivers st F xs)"
  by (simp_all add: receivers_def List.map_filter_def split: option.splits)

lemma receivers_valid:
  assumes "length payload + 11 < 65536"
  shows "\<forall>x \<in> set (receivers st (\<lambda>r. frame sq r src mid an payload) xs). valid_package (snd (snd x))"
  using assms by (induction xs) (auto simp: valid_frame split: option.splits)

lemma set_dest:
  "storen (frame_head sq d src mid an n @ bs) 4 [r] = Some (frame_head sq r src mid an n @ bs)"
  by (simp add: frame_head_def storen_def)

lemma frame_split:
  "frame sq r src mid an payload @ tail =
     frame_head sq r src mid an (length payload) @ sum_list (frame_head sq r src mid an (length payload)) #
     payload @ le_bytes 2 (crc_of (drop 1 (frame_body sq r src mid an payload)) X25_INIT_CRC) @ tail"
  by (simp add: frame_def frame_body_def Let_def del: le_bytes.simps)

lemma upload_send_loop_receivers:
  assumes "hlist sd_psNext st now xs" "length payload + 11 < 65536" "2 \<le> length rest"
    "buf = frame_head sq d src mid an (length payload) @ x # payload @ rest"
  shows "map_option (\<lambda>(b, r). (length b, r)) (upload_send_loop send (of_nat (length payload)) st buf now w e) =
    map_option (Pair (length buf))
      (send_all send (drop 2 rest) (receivers st (\<lambda>r. frame sq r src mid an payload) xs) w e)"
  using assms
proof (induction xs arbitrary: now buf d x rest w e)
  case Nil
  then show ?case by (simp add: upload_send_loop.simps)
next
  case (Cons a xs)
  let ?n = "length payload" and ?F = "\<lambda>r. frame sq r src mid an payload"
  let ?b = "?F (byRemoteId (st a)) @ drop 2 rest"
  have now: "now = Some a" and nx: "hlist sd_psNext st (sd_psNext (st a)) xs" using Cons.prems(1) by auto
  show ?case
  proof (cases "sd_pe_send (st a)")
    case None
    with now Cons.IH [OF nx Cons.prems(2-4)] show ?thesis by (simp add: upload_send_loop.simps [of _ _ _ _ "Some a"])
  next
    case (Some s)
    have dst: "storen buf 4 [byRemoteId (st a)] =
        Some (frame_head sq (byRemoteId (st a)) src mid an ?n @ x # payload @ rest)"
      unfolding Cons.prems(4) by (rule set_dest)
    have n11: "of_nat ?n + 11 = (of_nat (?n + 11) :: u16)" by simp
    have seal: "seal_package (frame_head sq (byRemoteId (st a)) src mid an ?n @ x # payload @ rest)
        (of_nat ?n + 11) = Some ?b"
      using seal_frame [OF refl Cons.prems(3,2), of sq "byRemoteId (st a)" src mid an x] unfolding n11 .
    have len: "(ucast (of_nat ?n + 11 :: u16) :: u32) = of_nat (length (?F (byRemoteId (st a))))"
      using Cons.prems(2) unfolding n11 by (subst ucast_of_nat_small) simp_all
    have "length ?b = length buf" using Cons.prems(3,4) by simp
    moreover have "map_option (\<lambda>(b, r). (length b, r))
        (upload_send_loop send (of_nat ?n) st ?b (sd_psNext (st a)) w' e') =
      map_option (Pair (length ?b)) (send_all send (drop 2 rest) (receivers st ?F xs) w' e')" for w' e'
      using Cons.IH [OF nx Cons.prems(2) _ frame_split [of sq "byRemoteId (st a)" src mid an payload "drop 2 rest"],
          of w' e'] by (simp del: le_bytes.simps)
    moreover have "upload_send_loop send (of_nat ?n) st buf now w e =
        Option.bind (send s (sd_handle (st a)) ?b (of_nat (length (?F (byRemoteId (st a))))) w)
          (\<lambda>r. upload_send_loop send (of_nat ?n) st ?b (sd_psNext (st a)) (fst r) (snd r))"
      unfolding now upload_send_loop.simps [of _ _ _ _ "Some a"] option.case Some dst bind.bind_lunit seal len ..
    ultimately show ?thesis
      using Some by (cases "send s (sd_handle (st a)) ?b (of_nat (length (?F (byRemoteId (st a))))) w") simp_all
  qed
qed

lemma length_bytes_u16:
  assumes "n < 65536"
  shows "ucast ((of_nat n :: u16) AND 0xFF) = (of_nat n :: u8)"
    "ucast (drop_bit 8 (of_nat n :: u16) AND 0xFF) = (of_nat (n div 256) :: u8)"
proof -
  have u: "unat (of_nat n :: u16) = n" using assms by (intro unat_of_nat_small) simp
  show "ucast ((of_nat n :: u16) AND 0xFF) = (of_nat n :: u8)"
    using of_nat_unat [of "of_nat n :: u16", where 'a = u8] u ucast_lo [of "of_nat n"] by (simp add: and.commute)
  have "unat (drop_bit 8 (of_nat n :: u16)) = n div 256"
    unfolding unat_drop_bit_eq u by (simp add: drop_bit_eq_div)
  then show "ucast (drop_bit 8 (of_nat n :: u16) AND 0xFF) = (of_nat (n div 256) :: u8)"
    using of_nat_unat [of "drop_bit 8 (of_nat n :: u16)", where 'a = u8] ucast_lo [of "drop_bit 8 (of_nat n)"]
    by (simp add: and.commute)
qed

lemma nine_bytes:
  assumes "9 \<le> length buf"
  shows "take 9 buf = [buf ! 0, buf ! 1, buf ! 2, buf ! 3, buf ! 4, buf ! 5, buf ! 6, buf ! 7, buf ! 8]"
  using assms by (auto intro!: nth_equalityI simp: less_Suc_eq numeral_eq_Suc)

lemma upload_header_head:
  assumes "9 \<le> length buf" "n < 65536"
  shows "upload_header (take 9 buf @ bs) (of_nat n) dev sq mid an =
    Some (frame_head sq (buf ! 4) dev mid an n @ buf ! 8 # bs)"
  using length_bytes_u16 [OF assms(2)]
  by (simp add: nine_bytes [OF assms(1)] upload_header_def storen_def frame_head_def)

subsection \<open>The registry as lists\<close>

text \<open>
  Package node, message id and the connected receivers of each registered package, in list order. No
  receiver node is in two lists.
\<close>

definition uploads_abs :: "('p, 's) alink_uploads \<Rightarrow> (nat \<times> u8 \<times> nat list) list \<Rightarrow> bool" where
  "uploads_abs u ps \<longleftrightarrow>
     hlist pk_psNext (packages u) (psPackageList (sUpload u)) (map fst ps) \<and>
     (\<forall>x \<in> set ps. byMsgId (packages u (fst x)) = fst (snd x) \<and>
        hlist sd_psNext (sends u) (psSendList (packages u (fst x))) (snd (snd x))) \<and>
     distinct (concat (map (snd \<circ> snd) ps))"

lemma uploads_abs_update:
  fixes u u' :: "('p, 's) alink_uploads"
  assumes a: "uploads_abs u (us @ (k, mid, xs) # vs)"
    and pk: "\<And>a. pk_psNext (packages u' a) = pk_psNext (packages u a)"
      "\<And>a. byMsgId (packages u' a) = byMsgId (packages u a)"
      "\<And>a. a \<noteq> k \<Longrightarrow> psSendList (packages u' a) = psSendList (packages u a)"
    and hd: "psPackageList (sUpload u') = psPackageList (sUpload u)"
    and sn: "\<And>a. a \<notin> set xs \<Longrightarrow> a \<notin> set ys \<Longrightarrow> sd_psNext (sends u' a) = sd_psNext (sends u a)"
    and ys: "hlist sd_psNext (sends u') (psSendList (packages u' k)) ys"
    and dis: "distinct (concat (map (snd \<circ> snd) (us @ (k, mid, ys) # vs)))"
  shows "uploads_abs u' (us @ (k, mid, ys) # vs)"
proof -
  have l: "hlist pk_psNext (packages u) (psPackageList (sUpload u)) (map fst us @ k # map fst vs)"
    and old: "\<And>x. x \<in> set us \<union> set vs \<Longrightarrow> byMsgId (packages u (fst x)) = fst (snd x) \<and>
        hlist sd_psNext (sends u) (psSendList (packages u (fst x))) (snd (snd x))"
    and kmid: "byMsgId (packages u k) = mid"
    and dis0: "distinct (concat (map (snd \<circ> snd) (us @ (k, mid, xs) # vs)))"
    using a by (auto simp: uploads_abs_def)
  have l': "hlist pk_psNext (packages u') (psPackageList (sUpload u')) (map fst us @ k # map fst vs)"
    unfolding hd by (rule hlist_cong [OF l]) (rule pk(1))
  have other: "hlist sd_psNext (sends u') (psSendList (packages u' (fst x))) (snd (snd x))"
    if x: "x \<in> set us \<union> set vs" for x
  proof -
    have "fst x \<noteq> k" using hlist_distinct [OF l] x by auto
    moreover have "b \<notin> set xs \<and> b \<notin> set ys" if "b \<in> set (snd (snd x))" for b
      using dis dis0 x that by fastforce
    ultimately show ?thesis using hlist_cong [of sd_psNext "sends u"] old [OF x] pk(3) sn by metis
  qed
  show ?thesis using l' other ys dis old kmid pk(2) by (auto simp: uploads_abs_def)
qed

lemma find_package:
  assumes "uploads_abs u (us @ (k, mid, xs) # vs)" "mid \<notin> (fst \<circ> snd) ` set us"
  shows "find_walk pk_psNext (\<lambda>_ n. byMsgId n = mid) (packages u) (psPackageList (sUpload u)) = Some (Some k)"
proof -
  have "\<forall>x \<in> set us. byMsgId (packages u (fst x)) \<noteq> mid" "byMsgId (packages u k) = mid"
    using assms by (auto simp: uploads_abs_def image_iff)
  then have "List.find (\<lambda>a. byMsgId (packages u a) = mid) (map fst (us @ (k, mid, xs) # vs)) = Some k"
    by (induction us) auto
  moreover have "hlist pk_psNext (packages u) (psPackageList (sUpload u)) (map fst (us @ (k, mid, xs) # vs))"
    using assms(1) by (simp add: uploads_abs_def)
  ultimately show ?thesis using find_walk_hlist by fastforce
qed

lemma find_package_none:
  assumes "uploads_abs u ps" "mid \<notin> (fst \<circ> snd) ` set ps"
  shows "find_walk pk_psNext (\<lambda>_ n. byMsgId n = mid) (packages u) (psPackageList (sUpload u)) = Some None"
proof -
  have "\<forall>x \<in> set ps. byMsgId (packages u (fst x)) \<noteq> mid"
    using assms by (auto simp: uploads_abs_def image_iff)
  then have "List.find (\<lambda>a. byMsgId (packages u a) = mid) (map fst ps) = None"
    by (induction ps) auto
  moreover have "hlist pk_psNext (packages u) (psPackageList (sUpload u)) (map fst ps)"
    using assms(1) by (simp add: uploads_abs_def)
  ultimately show ?thesis using find_walk_hlist by fastforce
qed

lemma disconnect_walk_found:
  "hlist sd_psNext st now (ys @ b # sd # cs) \<Longrightarrow> sd \<notin> set ys \<Longrightarrow> sd \<noteq> b \<Longrightarrow>
   disconnect_walk st prv now sd = Some (Some (Some b))"
proof (induction ys arbitrary: now prv)
  case Nil
  then show ?case
    by (simp add: disconnect_walk.simps [of _ _ "Some b"] disconnect_walk.simps [of _ _ "Some sd"])
next
  case (Cons y ys)
  then show ?case by (simp add: disconnect_walk.simps [of _ _ "Some y"])
qed

lemma disconnect_walk_head: "disconnect_walk st prv (Some sd) sd = Some (Some prv)"
  by (simp add: disconnect_walk.simps)

lemma disconnect_walk_absent:
  "hlist sd_psNext st now ys \<Longrightarrow> sd \<notin> set ys \<Longrightarrow> disconnect_walk st prv now sd = Some None"
  by (induction ys arbitrary: now prv) (simp_all add: disconnect_walk.simps)

lemma alink_package_connect_send_abs:
  assumes a: "uploads_abs u (us @ (k, mid, xs) # vs)"
    and new: "sd \<notin> set (concat (map (snd \<circ> snd) (us @ (k, mid, xs) # vs)))"
    and nx: "sd_psNext (sends u sd) = None"
  shows "\<exists>u'. alink_package_connect_send u k sd = Some (u', 0) \<and>
    uploads_abs u' (us @ (k, mid, xs @ [sd]) # vs) \<and>
    (\<forall>x. \<exists>n. sends u' x = (sends u x)\<lparr>sd_psNext := n\<rparr>) \<and> (\<forall>x. x \<notin> set xs \<longrightarrow> sends u' x = sends u x)"
proof -
  have l: "hlist sd_psNext (sends u) (psSendList (packages u k)) xs"
    using a by (simp add: uploads_abs_def)
  have dis: "distinct (concat (map (snd \<circ> snd) (us @ (k, mid, xs @ [sd]) # vs)))"
    using a new by (auto simp: uploads_abs_def)
  show ?thesis
  proof (cases "psSendList (packages u k)")
    case None
    with l have xs: "xs = []" by simp
    let ?u = "u\<lparr>packages := (packages u)(k := (packages u k)\<lparr>psSendList := Some sd\<rparr>)\<rparr>"
    have "uploads_abs ?u (us @ (k, mid, xs @ [sd]) # vs)"
      by (rule uploads_abs_update [OF a]) (use nx dis in \<open>simp_all add: xs\<close>)
    moreover have "\<exists>n. sends ?u x = (sends u x)\<lparr>sd_psNext := n\<rparr>" for x
      by (intro exI [of _ "sd_psNext (sends u x)"]) simp
    ultimately show ?thesis using None by (simp add: alink_package_connect_send_def)
  next
    case (Some now)
    have "hlist sd_psNext (sends u) (Some now) xs" "sd \<notin> set xs" using l Some new by auto
    then obtain st l where st: "append_walk sd_psNext (\<lambda>p. sd_psNext_update (\<lambda>_. p)) (sends u) now sd = Some st"
      "hlist sd_psNext st (Some now) (xs @ [sd])" "l \<in> set xs"
      "st = (sends u)(l := (sends u l)\<lparr>sd_psNext := Some sd\<rparr>)"
      using snds.append_walk_fresh [of "sends u" now xs sd] nx by blast
    have "uploads_abs (u\<lparr>sends := st\<rparr>) (us @ (k, mid, xs @ [sd]) # vs)"
      by (rule uploads_abs_update [OF a]) (use st dis Some in auto)
    moreover have "\<exists>n. st x = (sends u x)\<lparr>sd_psNext := n\<rparr>" for x
      by (intro exI [of _ "sd_psNext (st x)"]) (simp add: st(4))
    moreover have "st x = sends u x" if "x \<notin> set xs" for x
      using that st(3,4) by auto
    ultimately show ?thesis using Some st(1) by (simp add: alink_package_connect_send_def)
  qed
qed

lemma alink_package_disconnect_abs:
  assumes a: "uploads_abs u (us @ (k, mid, ys @ b # sd # cs) # vs)"
  shows "\<exists>u'. alink_package_disconnect_send u k sd = Some (u', 0) \<and>
    uploads_abs u' (us @ (k, mid, ys @ b # cs) # vs) \<and> packages u' = packages u \<and>
    sends u' = (sends u)(b := (sends u b)\<lparr>sd_psNext := sd_psNext (sends u sd)\<rparr>)"
proof -
  let ?st = "(sends u)(b := (sends u b)\<lparr>sd_psNext := sd_psNext (sends u sd)\<rparr>)"
  have l: "hlist sd_psNext (sends u) (psSendList (packages u k)) (ys @ b # sd # cs)"
    using a by (simp add: uploads_abs_def)
  have d: "distinct (ys @ b # sd # cs)" using l by (rule hlist_distinct)
  have "hlist sd_psNext ?st p (ys @ b # cs)" if "hlist sd_psNext (sends u) p (ys @ b # sd # cs)" for p
    using that d
  proof (induction ys arbitrary: p)
    case Nil
    then have "hlist sd_psNext (sends u) (sd_psNext (sends u sd)) cs" by simp
    then have "hlist sd_psNext ?st (sd_psNext (sends u sd)) cs"
      using Nil.prems(2) by (auto intro: hlist_cong)
    with Nil show ?case by (simp del: fun_upd_apply add: fun_upd_same)
  qed auto
  then have l': "hlist sd_psNext ?st (psSendList (packages u k)) (ys @ b # cs)" using l by blast
  have "distinct (concat (map (snd \<circ> snd) (us @ (k, mid, ys @ b # cs) # vs)))"
    using a by (auto simp: uploads_abs_def)
  with l' have "uploads_abs (u\<lparr>sends := ?st\<rparr>) (us @ (k, mid, ys @ b # cs) # vs)"
    by (intro uploads_abs_update [OF a]) auto
  then show ?thesis
    using disconnect_walk_found [OF l] d by (simp add: alink_package_disconnect_send_def)
qed

lemma alink_package_disconnect_head_abs:
  assumes a: "uploads_abs u (us @ (k, mid, sd # cs) # vs)"
  shows "\<exists>u'. alink_package_disconnect_send u k sd = Some (u', 0) \<and>
    uploads_abs u' (us @ (k, mid, []) # vs) \<and> sends u' = sends u"
proof -
  let ?u = "u\<lparr>packages := (packages u)(k := (packages u k)\<lparr>psSendList := None\<rparr>)\<rparr>"
  have "psSendList (packages u k) = Some sd" using a by (simp add: uploads_abs_def)
  moreover have "distinct (concat (map (snd \<circ> snd) (us @ (k, mid, []) # vs)))"
    using a by (auto simp: uploads_abs_def)
  then have "uploads_abs ?u (us @ (k, mid, []) # vs)"
    by (intro uploads_abs_update [OF a]) auto
  ultimately show ?thesis by (simp add: alink_package_disconnect_send_def disconnect_walk_head)
qed

lemma upload_send_loop_endless:
  assumes "\<forall>a \<in> S. \<exists>n \<in> S. sd_psNext (st a) = Some n" "a \<in> S"
  shows "upload_send_loop send plen st buf (Some a) w e = None"
proof -
  let ?P = "\<lambda>send plen st buf now w e r.
    (\<forall>a \<in> S. \<exists>n \<in> S. sd_psNext (st a) = Some n) \<longrightarrow> now \<notin> Some ` S"
  have "?P send plen st buf now w e r" if "upload_send_loop send plen st buf now w e = Some r" for now r
  proof (rule upload_send_loop.raw_induct [where P = ?P, OF _ that], rule impI, rule notI)
    fix loop send plen st buf now w e r
    assume IH: "\<And>send plen st buf now w e r. loop send plen st buf now w e = Some r \<Longrightarrow> ?P send plen st buf now w e r"
      and step: "(case now of None \<Rightarrow> Some (buf, w, e)
        | Some a \<Rightarrow> (case sd_pe_send (st a) of
             None \<Rightarrow> loop send plen st buf (sd_psNext (st a)) w e
           | Some s \<Rightarrow>
               Option.bind (storen buf 4 [byRemoteId (st a)]) (\<lambda>b1.
               Option.bind (seal_package b1 (plen + 11)) (\<lambda>b2.
               Option.bind (send s (sd_handle (st a)) b2 (ucast (plen + 11)) w) (\<lambda>r.
                 loop send plen st b2 (sd_psNext (st a)) (fst r) (snd r)))))) = Some r"
      and cl: "\<forall>a \<in> S. \<exists>n \<in> S. sd_psNext (st a) = Some n" and "now \<in> Some ` S"
    then obtain a n where a: "now = Some a" "a \<in> S" "sd_psNext (st a) = Some n" "n \<in> S" by blast
    from step a(1,3) obtain b w' e' where "loop send plen st b (Some n) w' e' = Some r"
      by (auto simp: Option.bind_eq_Some_conv split: option.splits)
    from IH [OF this] cl a(4) show False by blast
  qed
  from this [of "Some a"] assms show ?thesis
    by (cases "upload_send_loop send plen st buf (Some a) w e") auto
qed

subsection \<open>A concrete upload registry\<close>

text \<open>Package node 1 for message \<open>0xD0\<close> with the receivers 5, 6 and 7.\<close>

definition ex_uploads :: "(string, unit) alink_uploads" where
  "ex_uploads = \<lparr>
     packages = (\<lambda>_. \<lparr>byMsgId = 0xD0, byAns = 0, pw_package_task = Some ''pack'', psSendList = Some 5, pk_psNext = None\<rparr>),
     sends = (\<lambda>a. \<lparr>byRemoteId = of_nat a, sd_handle = a, sd_pe_send = Some (),
                   sd_psNext = (if a = 5 then Some 6 else if a = 6 then Some 7 else None)\<rparr>),
     sUpload = \<lparr>byDevId = 8, byReq = 7, up_wBufferSize = 16, up_pbyBuffer = replicate 16 0, psPackageList = Some 1\<rparr>\<rparr>"

definition ex_pack :: "(string, unit) run_pack" where
  "ex_pack t area n i = Some ([100, 0, 0] @ drop 3 area, 3)"

definition log_send :: "(unit, (nat \<times> bytes) list) run_send" where
  "log_send s hdl b n w = Some (w @ [(hdl, take (unat n) b)], 0)"

lemma ex_uploads_abs: "uploads_abs ex_uploads [(1, 0xD0, [5, 6, 7])]"
  by (simp add: uploads_abs_def ex_uploads_def)

subsection \<open>Properties\<close>

text \<open>
  C12. Upload: the payload is packed once and every connected receiver that can send gets, in the order
  of connection, one valid package with that payload, its own address as destination, the same sequence
  number, and the kind's message id; the sequence number then advances by one modulo 256 and the send
  buffer keeps its size.
\<close>
theorem alink_upload_sends_to_all:
  assumes "hlist sd_psNext (sends u) (psSendList (packages u k)) xs" "xs \<noteq> []"
    "pw_package_task (packages u k) = Some t" "up = sUpload u" "9 \<le> length (up_pbyBuffer up)"
    "pack t (drop 9 (up_pbyBuffer up)) (ucast (up_wBufferSize up - 11)) imp =
       Some (payload @ rest, of_nat (length payload))"
    "length (payload @ rest) = length (up_pbyBuffer up) - 9"
    "length payload + 11 < 65536" "2 \<le> length rest"
    "fs = receivers (sends u) (\<lambda>r. frame (byReq up) r (byDevId up) (byMsgId (packages u k))
       (byAns (packages u k)) payload) xs"
  shows "map_option (\<lambda>(u', w', e). (byReq (sUpload u'), length (up_pbyBuffer (sUpload u')), w', e))
      (alink_upload_send_package pack send u k imp w) =
    map_option (\<lambda>(w', e). (byReq up + 1, length (up_pbyBuffer up), w', e)) (send_all send (drop 2 rest) fs w 0) \<and>
    (\<forall>f \<in> set fs. valid_package (snd (snd f)))"
proof -
  let ?n = "length payload" and ?buf = "up_pbyBuffer up"
  let ?b = "frame_head (byReq up) (?buf ! 4) (byDevId up) (byMsgId (packages u k)) (byAns (packages u k)) ?n @
    ?buf ! 8 # payload @ rest"
  have hd: "upload_header (take 9 ?buf @ payload @ rest) (of_nat ?n) (byDevId up) (byReq up)
      (byMsgId (packages u k)) (byAns (packages u k)) = Some ?b"
    using assms(5,8) by (intro upload_header_head) simp_all
  have "map_option (\<lambda>(b, r). (length b, r))
      (upload_send_loop send (of_nat ?n) (sends u) ?b (psSendList (packages u k)) w 0) =
    map_option (Pair (length ?b)) (send_all send (drop 2 rest) fs w 0)"
    unfolding assms(10) by (rule upload_send_loop_receivers [OF assms(1,8,9) refl])
  moreover have "length ?b = length ?buf" using assms(5,7) by simp
  moreover have "psSendList (packages u k) \<noteq> None" using assms(1,2) by (cases xs) auto
  ultimately have "map_option (\<lambda>(u', w', e). (byReq (sUpload u'), length (up_pbyBuffer (sUpload u')), w', e))
      (alink_upload_send_package pack send u k imp w) =
    map_option (\<lambda>(w', e). (byReq up + 1, length (up_pbyBuffer up), w', e)) (send_all send (drop 2 rest) fs w 0)"
    using assms(3-6) hd
    by (cases "upload_send_loop send (of_nat ?n) (sends u) ?b (psSendList (packages u k)) w 0";
        cases "send_all send (drop 2 rest) fs w 0")
      (auto simp: alink_upload_send_package_def Let_def mem_simps split_def simp del: length_append)
  moreover have "\<forall>f \<in> set fs. valid_package (snd (snd f))"
    unfolding assms(10) using assms(8) by (rule receivers_valid)
  ultimately show ?thesis ..
qed

theorem alink_upload_sends_to_all_witness:
  "map_option (\<lambda>(u', w', e). (byReq (sUpload u'), length (up_pbyBuffer (sUpload u')), w', e))
      (alink_upload_send_package ex_pack log_send ex_uploads 1 () []) =
    Some (8, 16, [(5, frame 7 5 8 0xD0 0 [100, 0, 0]), (6, frame 7 6 8 0xD0 0 [100, 0, 0]),
      (7, frame 7 7 8 0xD0 0 [100, 0, 0])], 0)"
  using alink_upload_sends_to_all [of ex_uploads 1 "[5, 6, 7]" "''pack''" "sUpload ex_uploads" ex_pack "()"
      "[100, 0, 0]" "replicate 4 0" _ log_send "[]", OF _ _ _ refl _ _ _ _ _ refl]
  by (simp add: ex_uploads_def ex_pack_def log_send_def)

lemma connect_send_abs:
  assumes "uploads_abs u (us @ (k, mid, xs) # vs)" "mid \<notin> (fst \<circ> snd) ` set us"
    "sd \<notin> set (concat (map (snd \<circ> snd) (us @ (k, mid, xs) # vs)))" "sd_psNext (sends u sd) = None"
  shows "\<exists>u'. alink_connect_send u sd mid remote hdl send = Some (u', 0) \<and>
    uploads_abs u' (us @ (k, mid, xs @ [sd]) # vs) \<and> byRemoteId (sends u' sd) = remote \<and>
    sd_handle (sends u' sd) = hdl \<and> sd_pe_send (sends u' sd) = send \<and>
    (\<forall>x. x \<notin> set xs \<longrightarrow> x \<noteq> sd \<longrightarrow> sends u' x = sends u x)"
proof -
  let ?u = "u\<lparr>sends := (sends u)(sd := (sends u sd)\<lparr>byRemoteId := remote, sd_handle := hdl, sd_pe_send := send\<rparr>)\<rparr>"
  have a: "uploads_abs ?u (us @ (k, mid, xs) # vs)"
    by (rule uploads_abs_update [OF assms(1)])
      (use assms(1) in \<open>auto simp: uploads_abs_def elim!: hlist_cong\<close>)
  from alink_package_connect_send_abs [OF a assms(3)] assms(4)
  obtain u' where u': "alink_package_connect_send ?u k sd = Some (u', 0)"
    "uploads_abs u' (us @ (k, mid, xs @ [sd]) # vs)"
    "\<forall>x. \<exists>n. sends u' x = (sends ?u x)\<lparr>sd_psNext := n\<rparr>"
    "\<forall>x. x \<notin> set xs \<longrightarrow> sends u' x = sends ?u x"
    by auto
  moreover from u'(3) obtain n where "sends u' sd = (sends ?u sd)\<lparr>sd_psNext := n\<rparr>" by blast
  ultimately show ?thesis
    using find_package [OF a assms(2)] by (simp add: alink_connect_send_def alink_upload_connect_send_def)
qed

text \<open>
  Connecting a new receiver to a registered message adds it at the end of that message's receivers
  and changes no other list.
\<close>
theorem alink_connect_send_adds:
  assumes "uploads_abs u (us @ (k, mid, xs) # vs)" "mid \<notin> (fst \<circ> snd) ` set us"
    "sd \<notin> set (concat (map (snd \<circ> snd) (us @ (k, mid, xs) # vs)))" "sd_psNext (sends u sd) = None"
  shows "\<exists>u'. alink_connect_send u sd mid remote hdl send = Some (u', 0) \<and>
    uploads_abs u' (us @ (k, mid, xs @ [sd]) # vs) \<and> byRemoteId (sends u' sd) = remote \<and>
    sd_handle (sends u' sd) = hdl \<and> sd_pe_send (sends u' sd) = send"
  using connect_send_abs [OF assms] by blast

theorem alink_connect_send_adds_witness:
  "\<exists>u'. alink_connect_send ex_uploads 9 0xD0 6 3 (Some ()) = Some (u', 0) \<and>
    uploads_abs u' [(1, 0xD0, [5, 6, 7, 9])] \<and> byRemoteId (sends u' 9) = 6 \<and>
    sd_handle (sends u' 9) = 3 \<and> sd_pe_send (sends u' 9) = Some ()"
  using alink_connect_send_adds [of ex_uploads "[]" 1 "0xD0" "[5, 6, 7]" "[]" 9 6 3 "Some ()"] ex_uploads_abs
  by (simp add: ex_uploads_def)

text \<open>
  Connecting to or disconnecting from a message id that no package is registered for is an error
  and changes no list.
\<close>
lemma alink_connect_unknown_id:
  assumes "uploads_abs u ps" "mid \<notin> (fst \<circ> snd) ` set ps"
  shows "alink_disconnect_send u sd mid = Some (u, -1)"
    "\<exists>u'. alink_connect_send u sd mid remote hdl send = Some (u', -1) \<and> uploads_abs u' ps"
proof -
  let ?u = "u\<lparr>sends := (sends u)(sd := (sends u sd)\<lparr>byRemoteId := remote, sd_handle := hdl, sd_pe_send := send\<rparr>)\<rparr>"
  have a: "uploads_abs ?u ps"
    using assms(1) by (auto simp: uploads_abs_def elim!: hlist_cong)
  show "alink_disconnect_send u sd mid = Some (u, -1)"
    using find_package_none [OF assms]
    by (simp add: alink_disconnect_send_def alink_upload_disconnect_send_def)
  show "\<exists>u'. alink_connect_send u sd mid remote hdl send = Some (u', -1) \<and> uploads_abs u' ps"
    using find_package_none [OF a assms(2)] a
    by (simp add: alink_connect_send_def alink_upload_connect_send_def)
qed

text \<open>
  Disconnecting a receiver that is not the first one of its message removes exactly that receiver.
\<close>
theorem alink_disconnect_send_removes:
  assumes "uploads_abs u (us @ (k, mid, ys @ b # sd # cs) # vs)" "mid \<notin> (fst \<circ> snd) ` set us"
  shows "\<exists>u'. alink_disconnect_send u sd mid = Some (u', 0) \<and>
    uploads_abs u' (us @ (k, mid, ys @ b # cs) # vs)"
  using alink_package_disconnect_abs [OF assms(1)] find_package [OF assms]
  by (auto simp: alink_disconnect_send_def alink_upload_disconnect_send_def)

theorem alink_disconnect_send_removes_witness:
  "\<exists>u'. alink_disconnect_send ex_uploads 6 0xD0 = Some (u', 0) \<and> uploads_abs u' [(1, 0xD0, [5, 7])]"
  using alink_disconnect_send_removes [of ex_uploads "[]" 1 "0xD0" "[]" 5 6 "[7]" "[]"] ex_uploads_abs by simp

lemma disconnect_head_abs:
  assumes "uploads_abs u (us @ (k, mid, sd # cs) # vs)" "mid \<notin> (fst \<circ> snd) ` set us"
  shows "\<exists>u'. alink_disconnect_send u sd mid = Some (u', 0) \<and> uploads_abs u' (us @ (k, mid, []) # vs)"
  using alink_package_disconnect_head_abs [OF assms(1)] find_package [OF assms]
  by (auto simp: alink_disconnect_send_def alink_upload_disconnect_send_def)

text \<open>
  Disconnecting the first receiver of a message disconnects all of them: the list head is set to
  \<^verbatim>\<open>NULL\<close> instead of to the next node.
\<close>
theorem alink_disconnect_head_drops_all:
  assumes "uploads_abs u (us @ (k, mid, sd # cs) # vs)" "mid \<notin> (fst \<circ> snd) ` set us"
  shows "\<exists>u'. alink_disconnect_send u sd mid = Some (u', 0) \<and> uploads_abs u' (us @ (k, mid, []) # vs)"
  by (rule disconnect_head_abs [OF assms])

theorem alink_disconnect_head_drops_all_witness:
  "\<exists>u'. alink_disconnect_send ex_uploads 5 0xD0 = Some (u', 0) \<and> uploads_abs u' [(1, 0xD0, [])]"
  using alink_disconnect_head_drops_all [of ex_uploads "[]" 1 "0xD0" 5 "[6, 7]" "[]"] ex_uploads_abs by simp

lemma hlist_next:
  "hlist nxt st p xs \<Longrightarrow> a \<in> set xs \<Longrightarrow> a \<noteq> last xs \<Longrightarrow> \<exists>n \<in> set xs. nxt (st a) = Some n"
proof (induction xs arbitrary: p)
  case (Cons x xs)
  then show ?case by (cases xs) auto
qed simp

lemma connect_stale_cycle:
  assumes l: "hlist sd_psNext (sends u) (psSendList (packages u k)) xs" "c \<in> set xs"
    and sd: "sd \<notin> set xs" "sd_psNext (sends u sd) = Some c"
  shows "\<exists>u'. alink_package_connect_send u k sd = Some (u', 0) \<and> packages u' = packages u \<and>
    psSendList (packages u k) \<in> Some ` set xs \<and>
    (\<forall>a \<in> insert sd (set xs). \<exists>n \<in> insert sd (set xs). sd_psNext (sends u' a) = Some n)"
proof -
  obtain now where now: "psSendList (packages u k) = Some now" "now \<in> set xs"
    using l by (cases xs) auto
  let ?st = "(sends u)(last xs := (sends u (last xs))\<lparr>sd_psNext := Some sd\<rparr>)"
  have "append_walk sd_psNext (\<lambda>p. sd_psNext_update (\<lambda>_. p)) (sends u) now sd = Some ?st"
    using snds.append_walk_last [of "sends u" now xs sd] l(1) now(1) sd(1) by simp
  then have "alink_package_connect_send u k sd = Some (u\<lparr>sends := ?st\<rparr>, 0)"
    using now(1) by (simp add: alink_package_connect_send_def)
  moreover have "last xs \<in> set xs" using l(2) by (cases xs) auto
  then have "\<forall>a \<in> insert sd (set xs). \<exists>n \<in> insert sd (set xs). sd_psNext (?st a) = Some n"
    using hlist_next [OF l(1)] l(2) sd by auto
  ultimately show ?thesis using now by auto
qed

text \<open>
  C40. Disconnecting a receiver in the middle of a list and connecting it again makes the next upload of
  that message run forever: the node keeps its old link, the append hangs it behind the last node, and
  the list of receivers becomes a cycle. This holds whatever the packer and the transport do.
\<close>
theorem reconnected_receiver_never_returns:
  assumes "uploads_abs u (us @ (k, mid, ys @ b # sd # c # cs) # vs)" "mid \<notin> (fst \<circ> snd) ` set us"
    "pw_package_task (packages u k) = Some t"
  shows "\<exists>u1 u2. alink_disconnect_send u sd mid = Some (u1, 0) \<and>
    alink_connect_send u1 sd mid remote hdl pe = Some (u2, 0) \<and>
    alink_upload_send_package pack send u2 k imp w = None"
proof -
  let ?xs = "ys @ b # c # cs"
  obtain u1 where u1: "alink_package_disconnect_send u k sd = Some (u1, 0)"
    "uploads_abs u1 (us @ (k, mid, ?xs) # vs)" "packages u1 = packages u"
    "sends u1 = (sends u)(b := (sends u b)\<lparr>sd_psNext := sd_psNext (sends u sd)\<rparr>)"
    using alink_package_disconnect_abs [OF assms(1)] by auto
  have old: "hlist sd_psNext (sends u) (psSendList (packages u k)) (ys @ b # sd # c # cs)"
    using assms(1) by (simp add: uploads_abs_def)
  have nx: "sd_psNext (sends u sd) = Some c"
    using hlist_suffix [of sd_psNext "sends u" _ "ys @ [b]" sd "c # cs"] old by auto
  have dis: "sd \<notin> set ?xs" using hlist_distinct [OF old] by auto
  define u0 where
    "u0 = u1\<lparr>sends := (sends u1)(sd := (sends u1 sd)\<lparr>byRemoteId := remote, sd_handle := hdl, sd_pe_send := pe\<rparr>)\<rparr>"
  have nx0: "sd_psNext (sends u0 x) = sd_psNext (sends u1 x)" for x by (simp add: u0_def)
  have p0: "packages u0 = packages u" "sUpload u0 = sUpload u1" using u1(3) by (simp_all add: u0_def)
  have l0: "hlist sd_psNext (sends u0) (psSendList (packages u0 k)) ?xs"
    by (rule hlist_cong [of sd_psNext "sends u1"]) (use u1(2,3) p0 nx0 in \<open>simp_all add: uploads_abs_def\<close>)
  have abs0: "uploads_abs u0 (us @ (k, mid, ?xs) # vs)"
    by (rule uploads_abs_update [OF u1(2) _ _ _ _ _ l0])
      (use u1(2) in \<open>simp_all only: p0 u1(3) nx0, simp_all add: uploads_abs_def\<close>)
  have "sd_psNext (sends u0 sd) = Some c" unfolding nx0 u1(4) using nx dis by simp
  moreover have "c \<in> set ?xs" by simp
  note connect_stale_cycle [OF l0 this dis]
  ultimately
  obtain u2 where u2: "alink_package_connect_send u0 k sd = Some (u2, 0)" "packages u2 = packages u"
    "psSendList (packages u k) \<in> Some ` set ?xs"
    "\<forall>a \<in> insert sd (set ?xs). \<exists>n \<in> insert sd (set ?xs). sd_psNext (sends u2 a) = Some n"
    unfolding p0 by blast
  from u2(3) obtain x where x: "psSendList (packages u k) = Some x" "x \<in> insert sd (set ?xs)" by auto
  have "upload_send_loop send pl (sends u2) bf (Some x) v e = None" for pl bf v e
    using u2(4) x(2) by (rule upload_send_loop_endless)
  then have "alink_upload_send_package pack send u2 k imp w = None"
    using u2(2) x(1) assms(3)
    by (auto simp: alink_upload_send_package_def Let_def split: Option.bind_split)
  moreover have "alink_disconnect_send u sd mid = Some (u1, 0)"
    using find_package [OF assms(1,2)] u1(1) by (simp add: alink_disconnect_send_def alink_upload_disconnect_send_def)
  moreover have "alink_connect_send u1 sd mid remote hdl pe = Some (u2, 0)"
    using find_package [OF abs0 assms(2)] u2(1)
    by (simp add: alink_connect_send_def alink_upload_connect_send_def u0_def)
  ultimately show ?thesis by blast
qed

theorem reconnected_receiver_never_returns_witness:
  "\<exists>u1 u2. alink_disconnect_send ex_uploads 6 0xD0 = Some (u1, 0) \<and>
    alink_connect_send u1 6 0xD0 6 3 (Some ()) = Some (u2, 0) \<and>
    alink_upload_send_package ex_pack log_send u2 1 () [] = None"
  using reconnected_receiver_never_returns [of ex_uploads "[]" 1 "0xD0" "[]" 5 6 7 "[]" "[]" "''pack''"
      6 3 "Some ()" ex_pack log_send "()" "[]"] ex_uploads_abs
  by (simp add: ex_uploads_def)

lemma alink_register_package_abs:
  assumes "uploads_abs u ps" "pkg \<notin> fst ` set ps" "psSendList (packages u pkg) = None"
  shows "\<exists>u'. alink_register_package u pkg mid an task = Some (u', 0) \<and>
    uploads_abs u' (ps @ [(pkg, mid, [])]) \<and> pw_package_task (packages u' pkg) = task \<and>
    byAns (packages u' pkg) = an \<and> sends u' = sends u \<and>
    (\<forall>x. psSendList (packages u' x) = psSendList (packages u x)) \<and>
    (\<forall>x. x \<noteq> pkg \<longrightarrow> pw_package_task (packages u' x) = pw_package_task (packages u x)) \<and>
    (\<exists>p. sUpload u' = (sUpload u)\<lparr>psPackageList := p\<rparr>)"
proof -
  define u0 where "u0 = u\<lparr>packages := (packages u)(pkg := (packages u pkg)\<lparr>byAns := an, byMsgId := mid,
    pw_package_task := task, pk_psNext := None\<rparr>)\<rparr>"
  have reg: "alink_register_package u pkg mid an task = alink_upload_register_package u0 pkg"
    by (simp add: alink_register_package_def alink_package_init_def u0_def)
  have away: "packages u0 x = packages u x" if "x \<in> set (map fst ps)" for x
    using that assms(2) by (auto simp: u0_def)
  have l: "hlist pk_psNext (packages u0) (psPackageList (sUpload u0)) (map fst ps)"
    by (rule hlist_cong [of pk_psNext "packages u"])
      (use assms(1) in \<open>simp add: uploads_abs_def u0_def\<close>, simp only: away)
  have new: "pkg \<notin> set (map fst ps)" "pk_psNext (packages u0 pkg) = None" using assms(2) by (auto simp: u0_def)
  have k0: "sends u0 = sends u" "byMsgId (packages u0 pkg) = mid" "psSendList (packages u0 pkg) = None"
    using assms(3) by (simp_all add: u0_def)
  have old: "\<forall>x \<in> set ps. byMsgId (packages u0 (fst x)) = fst (snd x) \<and>
      hlist sd_psNext (sends u) (psSendList (packages u0 (fst x))) (snd (snd x))"
    using assms(1) away by (simp add: uploads_abs_def)
  have same: "uploads_abs (u0\<lparr>packages := st, sUpload := up\<rparr>) (ps @ [(pkg, mid, [])])"
    if "hlist pk_psNext st (psPackageList up) (map fst ps @ [pkg])"
      "\<And>x. byMsgId (st x) = byMsgId (packages u0 x) \<and> psSendList (st x) = psSendList (packages u0 x)" for st up
    using that old k0 assms(1) by (simp add: uploads_abs_def)
  show ?thesis
  proof (cases "psPackageList (sUpload u0)")
    case None
    with l new have "uploads_abs (u0\<lparr>packages := packages u0, sUpload := (sUpload u0)\<lparr>psPackageList := Some pkg\<rparr>\<rparr>)
        (ps @ [(pkg, mid, [])])"
      by (intro same) simp_all
    with None show ?thesis
      by (simp add: reg alink_upload_register_package_def) (auto simp: u0_def)
  next
    case (Some now)
    obtain st k where st: "append_walk pk_psNext (\<lambda>p. pk_psNext_update (\<lambda>_. p)) (packages u0) now pkg = Some st"
      "hlist pk_psNext st (Some now) (map fst ps @ [pkg])" "k \<in> set (map fst ps)"
      "st = (packages u0)(k := (packages u0 k)\<lparr>pk_psNext := Some pkg\<rparr>)"
      using pkgs.append_walk_fresh [OF l [unfolded Some] new] by blast
    have "uploads_abs (u0\<lparr>packages := st, sUpload := sUpload u0\<rparr>) (ps @ [(pkg, mid, [])])"
      using st(2) Some by (intro same) (simp_all add: st(4))
    moreover have "st pkg = packages u0 pkg" using st(3,4) new(1) by auto
    moreover have "\<exists>p. sUpload u0 = (sUpload u)\<lparr>psPackageList := p\<rparr>"
      by (intro exI [of _ "psPackageList (sUpload u)"]) (simp add: u0_def)
    ultimately show ?thesis
      using Some st(1) st(4) by (simp add: reg alink_upload_register_package_def) (auto simp: u0_def)
  qed
qed

text \<open>
  Registering a package kind whose node is not registered yet appends it, without receivers, to the
  registered kinds, with its message id and packer, and keeps every kind and receiver that was there.
\<close>
theorem alink_register_package_appends:
  assumes "uploads_abs u ps" "pkg \<notin> fst ` set ps" "psSendList (packages u pkg) = None"
  shows "\<exists>u'. alink_register_package u pkg mid an task = Some (u', 0) \<and>
    uploads_abs u' (ps @ [(pkg, mid, [])]) \<and> pw_package_task (packages u' pkg) = task \<and>
    byAns (packages u' pkg) = an"
  using alink_register_package_abs [OF assms, of mid an task] by blast

theorem alink_register_package_appends_witness:
  "\<exists>u'. alink_register_package (ex_uploads\<lparr>packages := (packages ex_uploads)(2 := (packages ex_uploads 2)\<lparr>psSendList := None\<rparr>)\<rparr>)
      2 0x80 0 (Some ''target'') = Some (u', 0) \<and>
    uploads_abs u' [(1, 0xD0, [5, 6, 7]), (2, 0x80, [])] \<and> pw_package_task (packages u' 2) = Some ''target'' \<and>
    byAns (packages u' 2) = 0"
  using alink_register_package_appends [of
      "ex_uploads\<lparr>packages := (packages ex_uploads)(2 := (packages ex_uploads 2)\<lparr>psSendList := None\<rparr>)\<rparr>"
      "[(1, 0xD0, [5, 6, 7])]" 2 "0x80" 0 "Some ''target''"]
  by (simp add: uploads_abs_def ex_uploads_def)

end
