(* ===== verification/Sysport_Task.thy ===== *)
theory Sysport_Task
  imports Ptz_Prelude
begin

text \<open>
  The counted allocator of \<^verbatim>\<open>common/tools/skyfend_tools.c\<close> and the task queues of
  \<^verbatim>\<open>common/sysport/task/sysport_task.c\<close>: a POSIX message queue of ten pointers and one worker thread that
  calls the posted functions.

  Whether \<^verbatim>\<open>malloc\<close>, \<^verbatim>\<open>mq_open\<close>, \<^verbatim>\<open>pthread_create\<close>, \<^verbatim>\<open>mq_send\<close> and \<^verbatim>\<open>mq_receive\<close> succeed is an argument. Posting and the
  worker's iteration are functions; their interleaving is the step relation \<open>task_step\<close>, in which a post
  waits while the queue is full, as \<^verbatim>\<open>mq_send\<close> on a blocking queue does.

  The allocation counter is a plain \<^verbatim>\<open>int\<close> that every thread changes without a lock. A function of the allocator gives the value
  the counter has after the call if no other thread changes it meanwhile; what happens otherwise is the subject of \<open>counter_run\<close>,
  and no property about interleaved threads speaks about the counter.
\<close>

subsection \<open>Allocator\<close>

definition skyfend_malloc :: "bool \<Rightarrow> nat \<Rightarrow> int \<Rightarrow> bytes option \<times> int" where
  "skyfend_malloc avail n cnt =
     (if n = 0 then (None, cnt)
      else if avail then (Some (replicate n 0), cnt + 1)
      else (None, cnt))"

text \<open>\<^verbatim>\<open>skyfend_free(p)\<close>: the pointer is set to \<^verbatim>\<open>NULL\<close>, so freeing it again does nothing.\<close>

definition skyfend_safefree :: "'a option \<Rightarrow> int \<Rightarrow> 'a option \<times> int" where
  "skyfend_safefree p cnt = (case p of None \<Rightarrow> (None, cnt) | Some _ \<Rightarrow> (None, cnt - 1))"

definition get_skyfend_malloc_free_cnt :: "int \<Rightarrow> int" where
  "get_skyfend_malloc_free_cnt cnt = cnt"

text \<open>
  \<^verbatim>\<open>++malloc_free_cnt\<close> and \<^verbatim>\<open>--malloc_free_cnt\<close> as the machine does them: a load into a register of the thread and a store of the
  changed value. \<open>counter_run\<close> executes the accesses of several threads, named by numbers, in the order of the list.
\<close>

datatype cnt_access = Cnt_load | Cnt_store int

fun counter_run :: "(nat \<times> cnt_access) list \<Rightarrow> int \<times> (nat \<Rightarrow> int) \<Rightarrow> int \<times> (nat \<Rightarrow> int)" where
  "counter_run [] cr = cr"
| "counter_run ((t, Cnt_load) # as) (c, r) = counter_run as (c, r(t := c))"
| "counter_run ((t, Cnt_store d) # as) (c, r) = counter_run as (r t + d, r)"

definition counter_update :: "nat \<times> int \<Rightarrow> (nat \<times> cnt_access) list" where
  "counter_update u = [(fst u, Cnt_load), (fst u, Cnt_store (snd u))]"

text \<open>Updates that do not overlap are counted; two that do can count as one.\<close>

lemma counter_alone: "fst (counter_run (concat (map counter_update us)) (c, r)) = c + sum_list (map snd us)"
  by (induction us arbitrary: c r) (auto simp: counter_update_def)

lemma counter_loses_update:
  assumes "t \<noteq> t'"
  shows "fst (counter_run [(t, Cnt_load), (t', Cnt_load), (t, Cnt_store d), (t', Cnt_store d')] (c, r)) = c + d'"
  using assms by simp

subsection \<open>Task queue\<close>

text \<open>\<^verbatim>\<open>sizeof(struct sysport_task_func)\<close> is 16 on a 64-bit target: a pointer, a \<^verbatim>\<open>uint32_t\<close> and padding.\<close>

record 'f sysport_task_func =
  pv_func :: "'f option"
  uSize :: u32
  acInfo :: bytes

record 'f sysport_task_module =
  strName :: string
  pvArg :: nat
  mq :: "'f sysport_task_func list"

definition SYSPORT_TASK_MSG_SIZE :: nat where "SYSPORT_TASK_MSG_SIZE = 10"

definition sysport_task_create ::
  "bool \<Rightarrow> i32 \<Rightarrow> i32 \<Rightarrow> string \<Rightarrow> nat \<Rightarrow> int \<Rightarrow> 'f sysport_task_module option \<times> int" where
  "sysport_task_create avail mq_ret pthread_ret name arg cnt =
     (case skyfend_malloc avail 32 cnt of
        (None, cnt1) \<Rightarrow> (None, cnt1)
      | (Some _, cnt1) \<Rightarrow>
          let m = \<lparr>strName = name, pvArg = arg, mq = []\<rparr> in
          if 0 > mq_ret then (None, snd (skyfend_safefree (Some m) cnt1))
          else if 0 > pthread_ret then (None, snd (skyfend_safefree (Some m) cnt1))
          else (Some m, cnt1))"

text \<open>The block \<^verbatim>\<open>sysport_task_malloc\<close> returns is the payload of a message whose function is not set yet.\<close>

definition sysport_task_malloc ::
  "bool \<Rightarrow> 'm option \<Rightarrow> u32 \<Rightarrow> int \<Rightarrow> 'f sysport_task_func option \<times> int" where
  "sysport_task_malloc avail pvModule n cnt =
     (case pvModule of
        None \<Rightarrow> (None, cnt)
      | Some _ \<Rightarrow>
          (case skyfend_malloc avail (16 + unat n) cnt of
             (None, cnt1) \<Rightarrow> (None, cnt1)
           | (Some _, cnt1) \<Rightarrow>
               (Some \<lparr>pv_func = None, uSize = n, acInfo = replicate (unat n) 0\<rparr>, cnt1)))"

definition sysport_task_func ::
  "i32 \<Rightarrow> 'f sysport_task_module option \<Rightarrow> 'f option \<Rightarrow> 'f sysport_task_func option \<Rightarrow> int \<Rightarrow>
   'f sysport_task_module option \<times> int \<times> i32" where
  "sysport_task_func mq_ret pvModule f pvInfo cnt =
     (case (pvModule, pvInfo) of
        (Some m, Some msg) \<Rightarrow>
          if 0 > mq_ret then (Some m, snd (skyfend_safefree (Some msg) cnt), mq_ret)
          else (Some (m\<lparr>mq := mq m @ [msg\<lparr>pv_func := f\<rparr>]\<rparr>), cnt, mq_ret)
      | _ \<Rightarrow> (pvModule, cnt, -1))"

definition sysport_task_delete ::
  "bool \<Rightarrow> i32 \<Rightarrow> 'f sysport_task_module option \<Rightarrow> int \<Rightarrow> 'f sysport_task_module option \<times> int \<times> i32" where
  "sysport_task_delete avail mq_ret pvModule cnt =
     (case pvModule of
        None \<Rightarrow> (None, cnt, -1)
      | Some m \<Rightarrow>
          (case sysport_task_malloc avail (Some m) 0 cnt of
             (None, cnt1) \<Rightarrow> (Some m, cnt1, -1)
           | (Some msg, cnt1) \<Rightarrow> sysport_task_func mq_ret (Some m) None (Some msg) cnt1))"

text \<open>
  What \<^verbatim>\<open>mq_receive\<close> answers: a message of the size of a pointer, or an error or another size; in the second case \<^verbatim>\<open>psFunc\<close>, which is
  declared without a value in the body of the loop, holds what was on the stack, and the flag says whether that is null.
\<close>

datatype mq_answer = Mq_received | Mq_failed bool

text \<open>
  One turn of the worker: \<open>run\<close> calls the posted function. A message without a function ends the worker, after which the module is
  freed. On an empty queue \<^verbatim>\<open>mq_receive\<close> waits, so that there is no turn; freeing what was on the stack is undefined.
\<close>

definition sysport_task_turn ::
  "('f \<Rightarrow> nat \<Rightarrow> bytes \<Rightarrow> u32 \<Rightarrow> 'w \<Rightarrow> 'w) \<Rightarrow> mq_answer \<Rightarrow> 'f sysport_task_module \<Rightarrow> int \<Rightarrow> 'w \<Rightarrow>
   ('f sysport_task_module option \<times> int \<times> 'w) option" where
  "sysport_task_turn run answer m cnt w =
     (case answer of
        Mq_failed null \<Rightarrow> if null then Some (Some m, cnt, w) else None
      | Mq_received \<Rightarrow>
          (case mq m of
             [] \<Rightarrow> None
           | msg # q \<Rightarrow>
               (case pv_func msg of
                  None \<Rightarrow> Some (None, snd (skyfend_safefree (Some m) cnt), w)
                | Some f \<Rightarrow>
                    Some (Some (m\<lparr>mq := q\<rparr>), snd (skyfend_safefree (Some msg) cnt),
                          run f (pvArg m) (acInfo msg) (uSize msg) w))))"

subsection \<open>Interleaving\<close>

text \<open>
  A task system: the module while its worker lives, what was posted (ghost), and the program state the functions change. The
  operations are given the value \<open>cnt\<close> the allocation counter happens to have.
\<close>

record ('f, 'w) task_sys =
  ts_mod :: "'f sysport_task_module option"
  ts_posted :: "'f sysport_task_func list"
  ts_world :: 'w

text \<open>Posting bytes \<open>bs\<close> with a function: allocate, copy, send. Enabled while the queue has room.\<close>

definition task_post :: "int \<Rightarrow> bool \<Rightarrow> i32 \<Rightarrow> 'f option \<Rightarrow> bytes \<Rightarrow> ('f, 'w) task_sys \<Rightarrow> ('f, 'w) task_sys" where
  "task_post cnt avail mq_ret f bs s =
     (case sysport_task_malloc avail (ts_mod s) (of_nat (length bs)) cnt of
        (None, _) \<Rightarrow> s
      | (Some msg, cnt1) \<Rightarrow>
          let msg' = msg\<lparr>acInfo := bs\<rparr>;
              (m, _, r) = sysport_task_func mq_ret (ts_mod s) f (Some msg') cnt1 in
          s\<lparr>ts_mod := m,
             ts_posted := (if r < 0 then ts_posted s else ts_posted s @ [msg'\<lparr>pv_func := f\<rparr>])\<rparr>)"

inductive task_step ::
  "('f \<Rightarrow> nat \<Rightarrow> bytes \<Rightarrow> u32 \<Rightarrow> 'w \<Rightarrow> 'w) \<Rightarrow> ('f, 'w) task_sys \<Rightarrow> ('f, 'w) task_sys \<Rightarrow> bool"
  for run where
  post: "ts_mod s = Some m \<Longrightarrow> length (mq m) < SYSPORT_TASK_MSG_SIZE \<Longrightarrow> length bs < 2 ^ 32 \<Longrightarrow>
    task_step run s (task_post cnt avail mq_ret (Some f) bs s)"
| turn: "ts_mod s = Some m \<Longrightarrow> sysport_task_turn run answer m cnt (ts_world s) = Some (m', cnt', w) \<Longrightarrow>
    task_step run s (s\<lparr>ts_mod := m', ts_world := w\<rparr>)"
| delete: "ts_mod s = Some m \<Longrightarrow> length (mq m) < SYSPORT_TASK_MSG_SIZE \<Longrightarrow>
    sysport_task_delete avail mq_ret (Some m) cnt = (m', cnt', r) \<Longrightarrow>
    task_step run s (s\<lparr>ts_mod := m'\<rparr>)"

inductive_cases task_stepE: "task_step run s s'"

abbreviation task_reach where
  "task_reach run \<equiv> (task_step run)\<^sup>*\<^sup>*"

text \<open>Running posted messages one after the other, each once, in order.\<close>

fun run_all ::
  "('f \<Rightarrow> nat \<Rightarrow> bytes \<Rightarrow> u32 \<Rightarrow> 'w \<Rightarrow> 'w) \<Rightarrow> nat \<Rightarrow> 'f sysport_task_func list \<Rightarrow> 'w \<Rightarrow> 'w" where
  "run_all run arg [] w = w"
| "run_all run arg (msg # ms) w =
     run_all run arg ms (case pv_func msg of None \<Rightarrow> w | Some f \<Rightarrow> run f arg (acInfo msg) (uSize msg) w)"

lemma run_all_append: "run_all run arg (xs @ ys) w = run_all run arg ys (run_all run arg xs w)"
  by (induction xs arbitrary: w) simp_all

text \<open>
  The invariant: messages with a function are handled in the order of posting, the rest of them is still
  queued; the queue is bounded.
\<close>

definition task_inv ::
  "('f \<Rightarrow> nat \<Rightarrow> bytes \<Rightarrow> u32 \<Rightarrow> 'w \<Rightarrow> 'w) \<Rightarrow> nat \<Rightarrow> 'w \<Rightarrow> ('f, 'w) task_sys \<Rightarrow> bool" where
  "task_inv run arg w0 s \<longleftrightarrow>
     (\<exists>handled rest. ts_posted s = handled @ rest \<and> ts_world s = run_all run arg handled w0 \<and>
        (\<forall>m. ts_mod s = Some m \<longrightarrow> pvArg m = arg \<and> rest = filter (\<lambda>msg. pv_func msg \<noteq> None) (mq m) \<and>
             length (mq m) \<le> SYSPORT_TASK_MSG_SIZE))"

lemma task_post_eq:
  assumes "ts_mod s = Some m" "length bs < 2 ^ 32"
  shows "task_post cnt avail mq_ret (Some f) bs s =
    (if avail \<and> 0 \<le> mq_ret
     then s\<lparr>ts_mod := Some (m\<lparr>mq := mq m @ [\<lparr>pv_func = Some f, uSize = of_nat (length bs), acInfo = bs\<rparr>]\<rparr>),
            ts_posted := ts_posted s @ [\<lparr>pv_func = Some f, uSize = of_nat (length bs), acInfo = bs\<rparr>]\<rparr>
     else s)"
  using assms
  by (auto simp: task_post_def sysport_task_malloc_def skyfend_malloc_def sysport_task_func_def
      skyfend_safefree_def Let_def not_le not_less)

lemma sysport_task_delete_eq:
  "sysport_task_delete avail mq_ret (Some m) cnt =
    (if avail then if 0 \<le> mq_ret
       then (Some (m\<lparr>mq := mq m @ [\<lparr>pv_func = None, uSize = 0, acInfo = []\<rparr>]\<rparr>), cnt + 1, mq_ret)
       else (Some m, cnt, mq_ret)
     else (Some m, cnt, -1))"
  by (simp add: sysport_task_delete_def sysport_task_malloc_def skyfend_malloc_def sysport_task_func_def
      skyfend_safefree_def not_le not_less)

lemma task_inv_post:
  assumes "task_inv run arg w0 s" "ts_mod s = Some m" "length (mq m) < SYSPORT_TASK_MSG_SIZE"
    "length bs < 2 ^ 32"
  shows "task_inv run arg w0 (task_post cnt avail mq_ret (Some f) bs s)"
  using assms by (auto simp: task_inv_def task_post_eq)

lemma task_inv_delete:
  assumes "task_inv run arg w0 s" "ts_mod s = Some m" "length (mq m) < SYSPORT_TASK_MSG_SIZE"
    "sysport_task_delete avail mq_ret (Some m) cnt = (m', cnt', r)"
  shows "task_inv run arg w0 (s\<lparr>ts_mod := m'\<rparr>)"
proof (cases "avail \<and> 0 \<le> mq_ret")
  case True
  with assms show ?thesis by (auto simp: task_inv_def sysport_task_delete_eq)
next
  case False
  with assms(2,4) have "m' = ts_mod s" by (auto simp: sysport_task_delete_eq split: if_splits)
  then have "s\<lparr>ts_mod := m'\<rparr> = s" by (cases s) simp
  with assms(1) show ?thesis by simp
qed

lemma task_inv_turn:
  assumes inv: "task_inv run arg w0 s" and m: "ts_mod s = Some m"
    and turn: "sysport_task_turn run answer m cnt (ts_world s) = Some (m', cnt', w)"
  shows "task_inv run arg w0 (s\<lparr>ts_mod := m', ts_world := w\<rparr>)"
proof (cases answer)
  case (Mq_failed null)
  with turn have "m' = Some m" "w = ts_world s" by (auto simp: sysport_task_turn_def split: if_splits)
  with inv m show ?thesis by (simp add: task_inv_def)
next
  case Mq_received
  obtain msg q where q: "mq m = msg # q" using turn Mq_received by (cases "mq m") (auto simp: sysport_task_turn_def)
  obtain handled where h: "ts_posted s = handled @ filter (\<lambda>msg. pv_func msg \<noteq> None) (mq m)"
    "ts_world s = run_all run arg handled w0" "pvArg m = arg" "length (mq m) \<le> SYSPORT_TASK_MSG_SIZE"
    using inv m by (auto simp: task_inv_def)
  show ?thesis
  proof (cases "pv_func msg")
    case None
    with turn q h Mq_received show ?thesis
      by (auto simp: task_inv_def sysport_task_turn_def skyfend_safefree_def)
  next
    case (Some f)
    with turn q Mq_received have t: "m' = Some (m\<lparr>mq := q\<rparr>)" "w = run f (pvArg m) (acInfo msg) (uSize msg) (ts_world s)"
      by (auto simp: sysport_task_turn_def skyfend_safefree_def)
    have "w = run_all run arg (handled @ [msg]) w0"
      using t(2) h(2,3) Some by (simp add: run_all_append)
    with t(1) show ?thesis
      using h q Some unfolding task_inv_def
      by (intro exI [of _ "handled @ [msg]"] exI [of _ "filter (\<lambda>msg. pv_func msg \<noteq> None) q"]) auto
  qed
qed

lemma task_inv_step: "task_step run s s' \<Longrightarrow> task_inv run arg w0 s \<Longrightarrow> task_inv run arg w0 s'"
  by (elim task_stepE) (auto intro: task_inv_post task_inv_turn task_inv_delete)

lemma task_inv_reach: "task_reach run s s' \<Longrightarrow> task_inv run arg w0 s \<Longrightarrow> task_inv run arg w0 s'"
  by (induction rule: rtranclp_induct) (auto intro: task_inv_step)

subsection \<open>A concrete run\<close>

text \<open>Two posts, one turn of the worker, a deletion, and turns until the worker ends.\<close>

definition ex_module :: "string sysport_task_module" where
  "ex_module = \<lparr>strName = ''/alg_task'', pvArg = 7, mq = []\<rparr>"

definition ex_run :: "string \<Rightarrow> nat \<Rightarrow> bytes \<Rightarrow> u32 \<Rightarrow> (string \<times> bytes) list \<Rightarrow> (string \<times> bytes) list" where
  "ex_run f arg bs n w = w @ [(f, bs)]"

definition ex_start :: "(string, (string \<times> bytes) list) task_sys" where
  "ex_start = \<lparr>ts_mod = Some ex_module, ts_posted = [], ts_world = []\<rparr>"

definition ex_after_post :: "(string, (string \<times> bytes) list) task_sys" where
  "ex_after_post = \<lparr>ts_mod = Some (ex_module\<lparr>mq := [\<lparr>pv_func = Some ''f'', uSize = 1, acInfo = [5]\<rparr>]\<rparr>),
     ts_posted = [\<lparr>pv_func = Some ''f'', uSize = 1, acInfo = [5]\<rparr>], ts_world = []\<rparr>"

definition ex_after_turn :: "(string, (string \<times> bytes) list) task_sys" where
  "ex_after_turn = ex_after_post\<lparr>ts_mod := Some ex_module, ts_world := [(''f'', [5])]\<rparr>"

lemma ex_reach_turn: "task_reach ex_run ex_start ex_after_turn"
proof -
  have "task_step ex_run ex_start (task_post 1 True 0 (Some ''f'') [5] ex_start)"
    by (rule task_step.post [of _ ex_module]) (simp_all add: ex_start_def ex_module_def SYSPORT_TASK_MSG_SIZE_def)
  moreover have "task_post 1 True 0 (Some ''f'') [5] ex_start = ex_after_post"
    by (simp add: task_post_eq ex_start_def ex_module_def ex_after_post_def)
  moreover have "task_step ex_run ex_after_post (ex_after_post\<lparr>ts_mod := Some ex_module, ts_world := [(''f'', [5])]\<rparr>)"
    by (rule task_step.turn [of _ "ex_module\<lparr>mq := [\<lparr>pv_func = Some ''f'', uSize = 1, acInfo = [5]\<rparr>]\<rparr>" _ Mq_received 2])
      (simp_all add: ex_after_post_def ex_module_def sysport_task_turn_def skyfend_safefree_def ex_run_def)
  ultimately show ?thesis unfolding ex_after_turn_def by (simp add: converse_rtranclp_into_rtranclp)
qed

subsection \<open>Properties\<close>

text \<open>
  C13. A task's worker handles the posted messages one after the other, each exactly once and in the
  order of posting, however posts, deletions, the worker and receives that fail interleave, as long as a failed receive
  finds null on the stack (see \<open>task_receive_failure\<close>); while it lives at most ten messages wait, and those not handled are
  the ones that wait.
\<close>
theorem task_queue_fifo:
  assumes "task_reach run \<lparr>ts_mod = Some m0, ts_posted = [], ts_world = w0\<rparr> s"
    "mq m0 = []"
  shows "\<exists>handled rest. ts_posted s = handled @ rest \<and> ts_world s = run_all run (pvArg m0) handled w0 \<and>
    (\<forall>m. ts_mod s = Some m \<longrightarrow> rest = filter (\<lambda>msg. pv_func msg \<noteq> None) (mq m) \<and>
       length (mq m) \<le> SYSPORT_TASK_MSG_SIZE)"
proof -
  have "task_inv run (pvArg m0) w0 \<lparr>ts_mod = Some m0, ts_posted = [], ts_world = w0\<rparr>"
    using assms(2) by (simp add: task_inv_def)
  with assms(1) have "task_inv run (pvArg m0) w0 s" by (rule task_inv_reach)
  then show ?thesis by (auto simp: task_inv_def)
qed

theorem task_queue_fifo_witness:
  "ts_world ex_after_turn = run_all ex_run 7 (ts_posted ex_after_turn) []"
  using task_queue_fifo [OF ex_reach_turn [unfolded ex_start_def]]
  by (auto simp: ex_after_turn_def ex_after_post_def ex_module_def)

text \<open>
  A receive that fails, for instance because a signal interrupts it, tests and frees a pointer that was never set: unless null
  happens to be on the stack, the worker frees an arbitrary address.
\<close>
theorem task_receive_failure:
  "sysport_task_turn run (Mq_failed null) m cnt w = (if null then Some (Some m, cnt, w) else None)"
  by (simp add: sysport_task_turn_def)

text \<open>
  Ending a task leaks: a task that is created, deleted and ended by its worker, with no other thread at the counter,
  leaves one allocation behind, the message that tells the worker to stop.
\<close>
theorem task_exit_leaks:
  assumes "sysport_task_create True mq_ret pthread_ret name arg cnt = (Some m, c1)"
    "sysport_task_delete True ret (Some m) c1 = (Some m', c2, r)" "0 \<le> r"
  shows "sysport_task_turn run Mq_received m' c2 w = Some (None, cnt + 1, w)"
proof -
  from assms(1) have m: "mq m = []" "c1 = cnt + 1"
    by (auto simp: sysport_task_create_def skyfend_malloc_def skyfend_safefree_def Let_def split: if_splits)
  with assms(2,3) have "mq m' = [\<lparr>pv_func = None, uSize = 0, acInfo = []\<rparr>]" "c2 = cnt + 2"
    by (auto simp: sysport_task_delete_eq split: if_splits)
  then show ?thesis by (simp add: sysport_task_turn_def skyfend_safefree_def)
qed

theorem task_exit_leaks_witness:
  "sysport_task_turn ex_run Mq_received (ex_module\<lparr>mq := [\<lparr>pv_func = None, uSize = 0, acInfo = []\<rparr>]\<rparr>) 2 [] = Some (None, 1, [])"
  using task_exit_leaks [of 3 0 "''/alg_task''" 7 0 ex_module 1 0 _ 2 0 ex_run "[]"]
  by (simp add: sysport_task_create_def skyfend_malloc_def sysport_task_delete_eq ex_module_def)

text \<open>
  A thread that cannot be created goes unnoticed: \<^verbatim>\<open>pthread_create\<close> reports errors as positive
  numbers, and \<^verbatim>\<open>sysport_task_create\<close> treats every such result as success and returns a module that no
  worker serves.
\<close>
theorem sysport_task_create_misses_thread_error:
  assumes "0 < pthread_ret" "0 \<le> mq_ret"
  shows "sysport_task_create True mq_ret pthread_ret name arg cnt =
    (Some \<lparr>strName = name, pvArg = arg, mq = []\<rparr>, cnt + 1)"
  using assms by (simp add: sysport_task_create_def skyfend_malloc_def)

theorem sysport_task_create_misses_thread_error_witness:
  "sysport_task_create True 3 11 ''/alg_task'' 7 0 = (Some ex_module, 1)"
  using sysport_task_create_misses_thread_error [of 11 3 "''/alg_task''" 7 0] by (simp add: ex_module_def)

end
