(* ===== verification/Sysport_Timer.thy ===== *)
theory Sysport_Timer
  imports Sysport_Task
begin

text \<open>
  The timers of \<^verbatim>\<open>common/sysport/timer/sysport_timer.c\<close>: a POSIX timer whose expirations run \<^verbatim>\<open>sysport_timer_thread\<close> with a
  module, which calls a function and, for a timer with a number of runs, counts down and ends the timer.

  Modules are kept in a heap by address; \<open>None\<close> is an address that holds no live module, and using it is an error. What the
  system answers to \<^verbatim>\<open>timer_create\<close>, \<^verbatim>\<open>timer_settime\<close> and \<^verbatim>\<open>timer_delete\<close> is an argument, as is the meaning \<open>call\<close> of function names.

  With \<^verbatim>\<open>SIGEV_THREAD\<close> every expiration runs in a thread of its own, without a lock. So \<^verbatim>\<open>sysport_timer_thread\<close> is modelled twice: in pieces,
  one for each access to the module, which the threads of several expirations interleave, and as a whole, which is what its pieces do when no
  other thread comes in between.
\<close>

subsection \<open>State\<close>

record 'f timer_module =
  timerid :: nat
  tm_strName :: string
  uRunTime :: u32
  tm_pvArg :: nat
  tm_pv_func :: "'f option"

record itimerspec =
  it_value :: "int \<times> int"
  it_interval :: "int \<times> int"

text \<open>The system keeps for each timer the module it was created with and its setting, if it is armed.\<close>

record ('f, 'w) timers =
  tm_heap :: "nat \<Rightarrow> 'f timer_module option"
  os_timers :: "nat \<Rightarrow> (nat \<times> itimerspec option) option"
  tm_cnt :: int
  tm_world :: 'w

type_synonym ('f, 'w) tm_call = "'f \<Rightarrow> nat \<Rightarrow> ('f, 'w) timers \<Rightarrow> ('f, 'w) timers option"

subsection \<open>Operations\<close>

text \<open>\<^verbatim>\<open>skyfend_free\<close> of a live module, and \<^verbatim>\<open>timer_delete\<close>, which fails with a negative result.\<close>

definition free_module :: "nat \<Rightarrow> ('f, 'w) timers \<Rightarrow> ('f, 'w) timers" where
  "free_module p s = s\<lparr>tm_heap := (tm_heap s)(p := None), tm_cnt := tm_cnt s - 1\<rparr>"

definition os_timer_delete :: "i32 \<Rightarrow> nat \<Rightarrow> ('f, 'w) timers \<Rightarrow> ('f, 'w) timers" where
  "os_timer_delete ret t s = (if 0 > ret then s else s\<lparr>os_timers := (os_timers s)(t := None)\<rparr>)"

text \<open>\<open>p\<close> is the address the allocator gives, \<open>t\<close> the number the system gives to the timer.\<close>

definition timer_spec :: "u32 \<Rightarrow> itimerspec" where
  "timer_spec uTimeMs =
     (let v = (uint (uTimeMs div 1000), uint (1000000 * (uTimeMs mod 1000))) in \<lparr>it_value = v, it_interval = v\<rparr>)"

text \<open>A setting whose first expiration is at zero disarms the timer.\<close>

definition arm :: "itimerspec \<Rightarrow> itimerspec option" where
  "arm its = (if it_value its = (0, 0) then None else Some its)"

definition sysport_timer_create ::
  "bool \<Rightarrow> nat \<Rightarrow> nat \<Rightarrow> i32 \<Rightarrow> i32 \<Rightarrow> string \<Rightarrow> u32 \<Rightarrow> u32 \<Rightarrow> nat \<Rightarrow> 'f option \<Rightarrow> ('f, 'w) timers \<Rightarrow> ('f, 'w) timers \<times> nat option" where
  "sysport_timer_create avail p t create_ret set_ret name uTimeMs n pv func s =
     (if \<not> avail then (s, None)
      else
        let s1 = s\<lparr>tm_heap := (tm_heap s)(p \<mapsto> \<lparr>timerid = t, tm_strName = name, uRunTime = n, tm_pvArg = pv, tm_pv_func = func\<rparr>),
              tm_cnt := tm_cnt s + 1\<rparr>
        in if 0 > create_ret then (free_module p s1, None)
           else
             let s2 = s1\<lparr>os_timers := (os_timers s1)(t \<mapsto> (p, None))\<rparr>
             in if 0 > set_ret then (free_module p s2, None)
                else (s2\<lparr>os_timers := (os_timers s2)(t \<mapsto> (p, arm (timer_spec uTimeMs)))\<rparr>, Some p))"

text \<open>
  The thread of one expiration when nothing else uses the module until it ends. The expirations of a timer run on threads of their own and may
  overlap: \<open>timer_piece\<close> below cuts the same code at every access to the module, and \<open>pieces_whole\<close> says that the pieces, one after the
  other, make up this function.
\<close>

definition sysport_timer_thread :: "('f, 'w) tm_call \<Rightarrow> i32 \<Rightarrow> nat option \<Rightarrow> ('f, 'w) timers \<Rightarrow> ('f, 'w) timers option" where
  "sysport_timer_thread call delete_ret psModule s =
     (case psModule of
        None \<Rightarrow> Some s
      | Some p \<Rightarrow> do {
          m \<leftarrow> tm_heap s p;
          (case tm_pv_func m of
             None \<Rightarrow> Some s
           | Some f \<Rightarrow> do {
               s1 \<leftarrow> call f (tm_pvArg m) s;
               m1 \<leftarrow> tm_heap s1 p;
               if uRunTime m1 = 0 then Some s1
               else
                 let m2 = m1\<lparr>uRunTime := uRunTime m1 - 1\<rparr>;
                     s2 = s1\<lparr>tm_heap := (tm_heap s1)(p \<mapsto> m2)\<rparr>
                 in if 0 \<noteq> uRunTime m2 then Some s2
                    else if 0 > delete_ret then Some (s2\<lparr>tm_heap := (tm_heap s2)(p \<mapsto> m2\<lparr>uRunTime := 1\<rparr>)\<rparr>)
                    else Some (free_module p (os_timer_delete delete_ret (timerid m2) s2)) }) })"

definition sysport_timer_delete :: "i32 \<Rightarrow> nat option \<Rightarrow> ('f, 'w) timers \<Rightarrow> (('f, 'w) timers \<times> i32) option" where
  "sysport_timer_delete delete_ret pvModule s = do {
     p \<leftarrow> pvModule;
     m \<leftarrow> tm_heap s p;
     if 0 > delete_ret then Some (s, -1)
     else Some (free_module p (os_timer_delete delete_ret (timerid m) s), 0) }"

text \<open>
  The thread of one expiration in pieces: the call of the function, the test of \<^verbatim>\<open>uRunTime\<close>, the load and the store of \<^verbatim>\<open>--uRunTime\<close>, \<^verbatim>\<open>timer_delete\<close>,
  and \<^verbatim>\<open>skyfend_free\<close>. The program counter says what comes next; the decremented value is in a register of the thread.
\<close>

datatype timer_pc = Tp_call | Tp_test | Tp_load | Tp_store u32 | Tp_delete | Tp_free | Tp_done

definition timer_piece ::
  "('f, 'w) tm_call \<Rightarrow> i32 \<Rightarrow> nat option \<Rightarrow> timer_pc \<Rightarrow> ('f, 'w) timers \<Rightarrow> (timer_pc \<times> ('f, 'w) timers) option" where
  "timer_piece call delete_ret psModule pc s =
     (case psModule of
        None \<Rightarrow> Some (Tp_done, s)
      | Some p \<Rightarrow>
          if pc = Tp_done then Some (Tp_done, s)
          else do {
            m \<leftarrow> tm_heap s p;
            (case pc of
               Tp_call \<Rightarrow>
                 (case tm_pv_func m of
                    None \<Rightarrow> Some (Tp_done, s)
                  | Some f \<Rightarrow> map_option (Pair Tp_test) (call f (tm_pvArg m) s))
             | Tp_test \<Rightarrow> Some (if uRunTime m = 0 then Tp_done else Tp_load, s)
             | Tp_load \<Rightarrow> Some (Tp_store (uRunTime m - 1), s)
             | Tp_store r \<Rightarrow> Some (if 0 \<noteq> r then Tp_done else Tp_delete, s\<lparr>tm_heap := (tm_heap s)(p \<mapsto> m\<lparr>uRunTime := r\<rparr>)\<rparr>)
             | Tp_delete \<Rightarrow>
                 Some (if 0 > delete_ret then (Tp_done, s\<lparr>tm_heap := (tm_heap s)(p \<mapsto> m\<lparr>uRunTime := 1\<rparr>)\<rparr>)
                   else (Tp_free, os_timer_delete delete_ret (timerid m) s))
             | Tp_free \<Rightarrow> Some (Tp_done, free_module p s)
             | Tp_done \<Rightarrow> Some (Tp_done, s)) })"

text \<open>
  The threads of the expirations so far, in their order, each with the module it was given; that of a timer which is not armed is over at once.
  \<open>Fire t\<close> is an expiration, \<open>Piece i\<close> the next piece of the \<open>i\<close>-th thread.
\<close>

datatype timer_act = Fire nat | Piece nat

fun timer_do ::
  "('f, 'w) tm_call \<Rightarrow> i32 \<Rightarrow> timer_act \<Rightarrow> (nat option \<times> timer_pc) list \<times> ('f, 'w) timers \<Rightarrow>
   ((nat option \<times> timer_pc) list \<times> ('f, 'w) timers) option" where
  "timer_do call ret (Fire t) (rs, s) =
     Some (rs @ [case os_timers s t of Some (p, Some _) \<Rightarrow> (Some p, Tp_call) | _ \<Rightarrow> (None, Tp_done)], s)"
| "timer_do call ret (Piece i) (rs, s) =
     (if i < length rs then
        case rs ! i of (m, pc) \<Rightarrow> map_option (\<lambda>(pc', s'). (rs[i := (m, pc')], s')) (timer_piece call ret m pc s)
      else Some (rs, s))"

fun timer_run ::
  "('f, 'w) tm_call \<Rightarrow> i32 \<Rightarrow> timer_act list \<Rightarrow> (nat option \<times> timer_pc) list \<times> ('f, 'w) timers \<Rightarrow>
   ((nat option \<times> timer_pc) list \<times> ('f, 'w) timers) option" where
  "timer_run call ret [] rs = Some rs"
| "timer_run call ret (a # as) rs = do { rs1 \<leftarrow> timer_do call ret a rs; timer_run call ret as rs1 }"

text \<open>\<open>k\<close> expirations of a timer, the thread of each of which comes to its end, after six pieces at most, before the next expiration.\<close>

definition one_by_one :: "nat \<Rightarrow> nat \<Rightarrow> timer_act list" where
  "one_by_one t k = concat (map (\<lambda>i. Fire t # replicate 6 (Piece i)) [0..<k])"

text \<open>The expiration of timer \<open>t\<close> as a whole: nothing happens when it is not armed.\<close>

definition expire :: "('f, 'w) tm_call \<Rightarrow> i32 \<Rightarrow> nat \<Rightarrow> ('f, 'w) timers \<Rightarrow> ('f, 'w) timers option" where
  "expire call delete_ret t s =
     (case os_timers s t of
        Some (p, Some its) \<Rightarrow> sysport_timer_thread call delete_ret (Some p) s
      | _ \<Rightarrow> Some s)"

fun expire_n :: "('f, 'w) tm_call \<Rightarrow> i32 \<Rightarrow> nat \<Rightarrow> nat \<Rightarrow> ('f, 'w) timers \<Rightarrow> ('f, 'w) timers option" where
  "expire_n call ret t 0 s = Some s"
| "expire_n call ret t (Suc k) s = do { s1 \<leftarrow> expire call ret t s; expire_n call ret t k s1 }"

subsection \<open>Lemmas\<close>

lemma expire_n_snoc: "expire_n call ret t (Suc k) s = Option.bind (expire_n call ret t k s) (expire call ret t)"
proof (induction k arbitrary: s)
  case (Suc k)
  have "expire_n call ret t (Suc (Suc k)) s = Option.bind (expire call ret t s) (\<lambda>s1. expire_n call ret t (Suc k) s1)"
    by (rule expire_n.simps(2))
  also have "\<dots> = Option.bind (Option.bind (expire call ret t s) (expire_n call ret t k)) (expire call ret t)"
    by (simp add: Suc.IH Option.bind_assoc del: expire_n.simps)
  finally show ?case by simp
next
  case 0
  show ?case by (cases "expire call ret t s") simp_all
qed

lemma timer_run_append: "timer_run call ret (as @ bs) rs = Option.bind (timer_run call ret as rs) (timer_run call ret bs)"
  by (induction as arbitrary: rs) (simp_all split: bind_split)

text \<open>The pieces without anything in between are the function as a whole.\<close>

fun pieces :: "('f, 'w) tm_call \<Rightarrow> i32 \<Rightarrow> nat option \<Rightarrow> nat \<Rightarrow> timer_pc \<times> ('f, 'w) timers \<Rightarrow> (timer_pc \<times> ('f, 'w) timers) option" where
  "pieces call ret m 0 st = Some st"
| "pieces call ret m (Suc n) st = do { st1 \<leftarrow> timer_piece call ret m (fst st) (snd st); pieces call ret m n st1 }"

lemma run_pieces:
  "timer_run call ret (replicate n (Piece (length rs))) (rs @ [(m, pc)], s) =
     map_option (\<lambda>(pc', s'). (rs @ [(m, pc')], s')) (pieces call ret m n (pc, s))"
proof (induction n arbitrary: pc s)
  case (Suc n)
  show ?case
  proof (cases "timer_piece call ret m pc s")
    case (Some st)
    then show ?thesis using Suc.IH [of "fst st" "snd st"] by (cases st) (simp add: nth_append)
  qed (simp add: nth_append)
qed simp

lemma pieces_done: "pieces call ret m n (Tp_done, s) = Some (Tp_done, s)"
proof (induction n)
  case (Suc n)
  have "timer_piece call ret m Tp_done s = Some (Tp_done, s)" by (cases m) (simp_all add: timer_piece_def)
  with Suc show ?case by simp
qed simp

lemma pieces_store:
  assumes "tm_heap s p = Some m" "uRunTime m \<noteq> 0"
  shows "pieces call ret (Some p) 5 (Tp_test, s) =
    (let m2 = m\<lparr>uRunTime := uRunTime m - 1\<rparr>; s2 = s\<lparr>tm_heap := (tm_heap s)(p \<mapsto> m2)\<rparr>
     in if 0 \<noteq> uRunTime m2 then Some (Tp_done, s2)
        else if 0 > ret then Some (Tp_done, s2\<lparr>tm_heap := (tm_heap s2)(p \<mapsto> m2\<lparr>uRunTime := 1\<rparr>)\<rparr>)
        else Some (Tp_done, free_module p (os_timer_delete ret (timerid m2) s2)))"
proof -
  let ?s2 = "s\<lparr>tm_heap := (tm_heap s)(p \<mapsto> m\<lparr>uRunTime := uRunTime m - 1\<rparr>)\<rparr>"
  have t: "timer_piece call ret (Some p) Tp_test s = Some (Tp_load, s)"
    "timer_piece call ret (Some p) Tp_load s = Some (Tp_store (uRunTime m - 1), s)"
    "timer_piece call ret (Some p) (Tp_store (uRunTime m - 1)) s = Some (if uRunTime m - 1 \<noteq> 0 then Tp_done else Tp_delete, ?s2)"
    "timer_piece call ret (Some p) Tp_delete ?s2 = Some (if 0 > ret
       then (Tp_done, ?s2\<lparr>tm_heap := (tm_heap ?s2)(p \<mapsto> m\<lparr>uRunTime := 1\<rparr>)\<rparr>) else (Tp_free, os_timer_delete ret (timerid m) ?s2))"
    "timer_piece call ret (Some p) Tp_free (os_timer_delete ret (timerid m) ?s2) = Some (Tp_done, free_module p (os_timer_delete ret (timerid m) ?s2))"
    using assms by (simp_all add: timer_piece_def os_timer_delete_def)
  have p: "pieces call ret (Some p) 5 (Tp_test, s) =
      pieces call ret (Some p) 2 (if uRunTime m - 1 \<noteq> 0 then Tp_done else Tp_delete, ?s2)"
    using t(1-3) by (simp only: numeral_eq_Suc pred_numeral_simps BitM.simps pieces.simps fst_conv snd_conv bind.bind_lunit)
  show ?thesis
  proof (cases "uRunTime m - 1 = 0")
    case True
    then show ?thesis unfolding p using t(4,5)
      by (cases "0 > ret") (simp_all add: numeral_2_eq_2 Let_def pieces_done)
  next
    case False
    then show ?thesis unfolding p by (simp add: pieces_done Let_def)
  qed
qed

lemma pieces_whole: "pieces call ret m 6 (Tp_call, s) = map_option (Pair Tp_done) (sysport_timer_thread call ret m s)"
proof (cases m)
  case None
  then show ?thesis by (simp add: eval_nat_numeral timer_piece_def sysport_timer_thread_def)
next
  case (Some p)
  have six: "pieces call ret m 6 (Tp_call, s) = do { st1 \<leftarrow> timer_piece call ret m Tp_call s; pieces call ret m 5 st1 }"
    using pieces.simps(2) [of call ret m 5 "(Tp_call, s)"] by simp
  show ?thesis
  proof (cases "tm_heap s p")
    case None
    with Some show ?thesis unfolding six by (simp add: timer_piece_def sysport_timer_thread_def)
  next
    case (Some mo)
    show ?thesis
    proof (cases "tm_pv_func mo")
      case None
      with Some \<open>m = Some p\<close> show ?thesis unfolding six by (simp add: timer_piece_def sysport_timer_thread_def pieces_done)
    next
      case f: (Some fn)
      show ?thesis
      proof (cases "call fn (tm_pvArg mo) s")
        case None
        with f Some \<open>m = Some p\<close> show ?thesis unfolding six by (simp add: timer_piece_def sysport_timer_thread_def)
      next
        case c: (Some s1)
        have one: "timer_piece call ret m Tp_call s = Some (Tp_test, s1)" using c f Some \<open>m = Some p\<close> by (simp add: timer_piece_def)
        show ?thesis
        proof (cases "tm_heap s1 p")
          case None
          then show ?thesis using c f Some \<open>m = Some p\<close> unfolding six one
            by (simp add: eval_nat_numeral timer_piece_def sysport_timer_thread_def)
        next
          case m1: (Some m1)
          show ?thesis
          proof (cases "uRunTime m1 = 0")
            case True
            have "timer_piece call ret m Tp_test s1 = Some (Tp_done, s1)" using True m1 \<open>m = Some p\<close> by (simp add: timer_piece_def)
            then have "pieces call ret m 5 (Tp_test, s1) = Some (Tp_done, s1)" by (simp add: eval_nat_numeral pieces_done)
            with True m1 c f Some \<open>m = Some p\<close> show ?thesis unfolding six one by (simp add: sysport_timer_thread_def)
          next
            case False
            from pieces_store [OF m1 this, of call ret] m1 False c f Some \<open>m = Some p\<close> show ?thesis
              unfolding six one by (auto simp: sysport_timer_thread_def Let_def)
          qed
        qed
      qed
    qed
  qed
qed

lemma run_one_by_one:
  "expire_n call ret t k s = Some s' \<Longrightarrow> \<exists>rs. timer_run call ret (one_by_one t k) ([], s) = Some (rs, s') \<and> length rs = k \<and> (\<forall>r \<in> set rs. snd r = Tp_done)"
proof (induction k arbitrary: s')
  case 0
  then show ?case by (simp add: one_by_one_def)
next
  case (Suc k)
  then obtain s1 where s1: "expire_n call ret t k s = Some s1" "expire call ret t s1 = Some s'"
    by (auto simp: expire_n_snoc simp del: expire_n.simps split: bind_splits)
  from Suc.IH [OF s1(1)] obtain rs where rs: "timer_run call ret (one_by_one t k) ([], s) = Some (rs, s1)" "length rs = k"
    "\<forall>r \<in> set rs. snd r = Tp_done" by blast
  let ?r = "case os_timers s1 t of Some (p, Some _) \<Rightarrow> (Some p, Tp_call) | _ \<Rightarrow> (None, Tp_done)"
  have "timer_run call ret (Fire t # replicate 6 (Piece k)) (rs, s1) = timer_run call ret (replicate 6 (Piece (length rs))) (rs @ [?r], s1)"
    using rs(2) by simp
  also have "\<dots> = Some (rs @ [(fst ?r, Tp_done)], s')"
  proof (cases "\<exists>p its. os_timers s1 t = Some (p, Some its)")
    case True
    then obtain p its where o: "os_timers s1 t = Some (p, Some its)" by blast
    with s1(2) have "sysport_timer_thread call ret (Some p) s1 = Some s'" by (simp add: expire_def)
    then have "pieces call ret (Some p) 6 (Tp_call, s1) = Some (Tp_done, s')" by (simp add: pieces_whole)
    with run_pieces [of call ret 6 rs "Some p" Tp_call s1] o show ?thesis by simp
  next
    case False
    then have n: "?r = (None, Tp_done)" "s' = s1" using s1(2) by (auto simp: expire_def split: option.splits prod.splits)
    with run_pieces [of call ret 6 rs None Tp_done s1] pieces_done [of call ret None 6 s1] show ?thesis by simp
  qed
  finally have "timer_run call ret (one_by_one t (Suc k)) ([], s) = Some (rs @ [(fst ?r, Tp_done)], s')"
    using rs(1) by (simp add: one_by_one_def timer_run_append del: timer_run.simps)
  with rs(2,3) show ?case by auto
qed

lemma timer_spec_parts:
  "timer_spec ms = \<lparr>it_value = (uint ms div 1000, 1000000 * (uint ms mod 1000)), it_interval = (uint ms div 1000, 1000000 * (uint ms mod 1000))\<rparr>"
proof -
  have "uint ms mod 1000 < 1000" by simp
  then have "uint (1000000 * (ms mod 1000)) = 1000000 * (uint ms mod 1000)"
    by (simp add: uint_word_ariths(3) uint_mod mod_pos_pos_trivial)
  then show ?thesis by (simp add: timer_spec_def uint_div Let_def)
qed

text \<open>Functions that change the rest of the program but no timer.\<close>

definition plain_call :: "('f \<Rightarrow> nat \<Rightarrow> 'w \<Rightarrow> 'w) \<Rightarrow> ('f, 'w) tm_call" where
  "plain_call act f pv s = Some (s\<lparr>tm_world := act f pv (tm_world s)\<rparr>)"

text \<open>Timer \<open>t\<close> runs \<open>f\<close> through the module at \<open>p\<close>, \<open>r\<close> more times; \<open>base\<close> is the state without it.\<close>

definition timer_live ::
  "nat \<Rightarrow> nat \<Rightarrow> 'f \<Rightarrow> nat \<Rightarrow> itimerspec \<Rightarrow> string \<Rightarrow> u32 \<Rightarrow> ('f, 'w) timers \<Rightarrow> ('f, 'w) timers \<Rightarrow> bool" where
  "timer_live p t f pv its name r base s \<longleftrightarrow>
     os_timers s = (os_timers base)(t \<mapsto> (p, Some its)) \<and> tm_cnt s = tm_cnt base + 1 \<and>
     tm_heap s = (tm_heap base)(p \<mapsto> \<lparr>timerid = t, tm_strName = name, uRunTime = r, tm_pvArg = pv, tm_pv_func = Some f\<rparr>)"

definition timer_over :: "nat \<Rightarrow> ('f, 'w) timers \<Rightarrow> ('f, 'w) timers \<Rightarrow> bool" where
  "timer_over t base s \<longleftrightarrow> os_timers s = (os_timers base)(t := None) \<and> tm_heap s = tm_heap base \<and> tm_cnt s = tm_cnt base"

lemma expire_live:
  assumes "timer_live p t f pv its name r base s" "0 \<le> ret" "tm_heap base p = None"
  shows "\<exists>s'. expire (plain_call act) ret t s = Some s' \<and> tm_world s' = act f pv (tm_world s) \<and>
    (if r = 1 then timer_over t base s' else timer_live p t f pv its name (if r = 0 then 0 else r - 1) base s')"
proof -
  have "(tm_heap base)(p := None) = tm_heap base" using assms(3) by (simp add: fun_upd_idem)
  moreover have "r - 1 \<noteq> 0" if "r \<noteq> 1" using that by simp
  ultimately show ?thesis using assms(1,2)
    by (simp add: expire_def sysport_timer_thread_def plain_call_def timer_live_def timer_over_def free_module_def os_timer_delete_def Let_def)
qed

lemma expire_over: "timer_over t base s \<Longrightarrow> expire call ret t s = Some s"
  by (simp add: expire_def timer_over_def)

lemma create_live:
  assumes "sysport_timer_create avail p t cr sr name ms n pv (Some f) s = (s1, Some p')" "ms \<noteq> 0"
  shows "p' = p \<and> timer_live p t f pv (timer_spec ms) name n s s1 \<and> tm_world s1 = tm_world s"
proof -
  have "\<not> (uint ms div 1000 = 0 \<and> uint ms mod 1000 = 0)"
  proof
    assume "uint ms div 1000 = 0 \<and> uint ms mod 1000 = 0"
    then have "uint ms = 0" using div_mult_mod_eq [of "uint ms" 1000] by simp
    with assms(2) show False by (simp add: unsigned_eq_0_iff)
  qed
  then have "arm (timer_spec ms) = Some (timer_spec ms)" by (simp add: arm_def timer_spec_parts)
  with assms(1) show ?thesis
    unfolding sysport_timer_create_def Let_def by (auto simp: timer_live_def split: if_split_asm)
qed

lemma runs_left:
  fixes n :: u32
  assumes "k < unat n"
  shows "unat (n - of_nat k) = unat n - k"
proof -
  have "unat n < 2 ^ LENGTH(32)" by (rule unsigned_less)
  with assms have k: "unat (of_nat k :: u32) = k" by (intro unat_of_nat_small) simp
  with assms have "of_nat k \<le> n" by (simp add: word_le_nat_alt)
  with k show ?thesis by (simp add: unat_sub)
qed

lemma counted_run:
  assumes "timer_live p t f pv its name n base s" "n \<noteq> 0" "0 \<le> ret" "tm_heap base p = None"
  shows "\<exists>s'. expire_n (plain_call act) ret t k s = Some s' \<and> tm_world s' = (act f pv ^^ min k (unat n)) (tm_world s) \<and>
    (if k < unat n then timer_live p t f pv its name (n - of_nat k) base s' else timer_over t base s')"
proof (induction k)
  case 0
  then show ?case using assms(1,2) by (simp add: unat_gt_0)
next
  case (Suc k)
  then obtain s' where s': "expire_n (plain_call act) ret t k s = Some s'" "tm_world s' = (act f pv ^^ min k (unat n)) (tm_world s)"
    "if k < unat n then timer_live p t f pv its name (n - of_nat k) base s' else timer_over t base s'" by blast
  show ?case
  proof (cases "k < unat n")
    case True
    have k: "n - of_nat k \<noteq> 0" "n - of_nat k = 1 \<longleftrightarrow> \<not> Suc k < unat n"
      using runs_left [OF True] True by (auto simp: word_unat_eq_iff)
    have m: "min k (unat n) = k" "min (Suc k) (unat n) = Suc k" "n - of_nat (Suc k) = n - of_nat k - 1" using True by simp_all
    from s'(3) True have "timer_live p t f pv its name (n - of_nat k) base s'" by simp
    from expire_live [OF this assms(3,4), of act] obtain s2 where s2: "expire (plain_call act) ret t s' = Some s2"
      "tm_world s2 = act f pv (tm_world s')"
      "if n - of_nat k = 1 then timer_over t base s2
       else timer_live p t f pv its name (if n - of_nat k = 0 then 0 else n - of_nat k - 1) base s2" by blast
    have "expire_n (plain_call act) ret t (Suc k) s = Some s2" unfolding expire_n_snoc s'(1) by (simp add: s2(1))
    then show ?thesis using s2(2,3) s'(2) k unfolding m by (auto split: if_splits)
  next
    case False
    with s' expire_over [of t base s'] show ?thesis by (simp add: expire_n_snoc del: expire_n.simps)
  qed
qed

lemma periodic_run:
  assumes "timer_live p t f pv its name 0 base s" "0 \<le> ret" "tm_heap base p = None"
  shows "\<exists>s'. expire_n (plain_call act) ret t k s = Some s' \<and> tm_world s' = (act f pv ^^ k) (tm_world s) \<and>
    timer_live p t f pv its name 0 base s'"
proof (induction k)
  case (Suc k)
  then obtain s' where "expire_n (plain_call act) ret t k s = Some s'" "tm_world s' = (act f pv ^^ k) (tm_world s)"
    "timer_live p t f pv its name 0 base s'" by blast
  with expire_live [OF this(3) assms(2,3), of act] show ?case by (auto simp: expire_n_snoc simp del: expire_n.simps)
qed (use assms(1) in simp)

subsection \<open>Properties\<close>

text \<open>
  C26. A timer that is created with a number of runs, and whose expirations do not overlap, because the function is done before the
  timer expires again, calls its function exactly that often, however many expirations follow, and
  then frees its module and the timer of the system; with the number 0 it calls it on every expiration and stays. The handle
  the creator holds can be deleted exactly as long as the timer is alive: afterwards it is a dangling pointer. For expirations that
  overlap all this is wrong, see \<open>timer_overlap\<close>.
\<close>
theorem timer_runs_counted:
  assumes "sysport_timer_create avail p t cr sr name ms n pv (Some f) s = (s1, Some p')" "ms \<noteq> 0" "0 \<le> ret" "tm_heap s p = None"
    "live = (n = 0 \<or> k < unat n)"
  shows "\<exists>rs s2. timer_run (plain_call act) ret (one_by_one t k) ([], s1) = Some (rs, s2) \<and> (\<forall>r \<in> set rs. snd r = Tp_done) \<and>
    tm_world s2 = (act f pv ^^ (if n = 0 then k else min k (unat n))) (tm_world s) \<and>
    tm_cnt s2 = tm_cnt s + (if live then 1 else 0) \<and> (os_timers s2 t \<noteq> None \<longleftrightarrow> live) \<and>
    (sysport_timer_delete ret2 (Some p') s2 \<noteq> None \<longleftrightarrow> live)"
proof -
  note c = create_live [OF assms(1,2)]
  have "\<exists>s2. expire_n (plain_call act) ret t k s1 = Some s2 \<and>
    tm_world s2 = (act f pv ^^ (if n = 0 then k else min k (unat n))) (tm_world s) \<and>
    tm_cnt s2 = tm_cnt s + (if live then 1 else 0) \<and> (os_timers s2 t \<noteq> None \<longleftrightarrow> live) \<and>
    (sysport_timer_delete ret2 (Some p') s2 \<noteq> None \<longleftrightarrow> live)"
  proof (cases "n = 0")
    case True
    with periodic_run [of p t f pv "timer_spec ms" name s s1 ret act k] c assms(3-5) show ?thesis
      by (auto simp: timer_live_def sysport_timer_delete_def)
  next
    case False
    with counted_run [of p t f pv "timer_spec ms" name n s s1 ret act k] c assms(3-5) show ?thesis
      by (cases "k < unat n") (auto simp: timer_live_def timer_over_def sysport_timer_delete_def)
  qed
  with run_one_by_one show ?thesis by blast
qed

definition ex_timers :: "(nat, nat list) timers" where
  "ex_timers = \<lparr>tm_heap = (\<lambda>_. None), os_timers = (\<lambda>_. None), tm_cnt = 0, tm_world = []\<rparr>"

theorem timer_runs_counted_witness:
  "\<exists>rs s2. timer_run (plain_call (\<lambda>f pv w. pv # w)) 0 (one_by_one 7 5)
      ([], fst (sysport_timer_create True 1 7 0 0 ''t'' 1500 2 9 (Some 3) ex_timers)) = Some (rs, s2) \<and>
    tm_world s2 = [9, 9] \<and> sysport_timer_delete 0 (Some 1) s2 = None"
proof -
  obtain s1 where c: "sysport_timer_create True 1 7 0 0 ''t'' 1500 2 9 (Some 3) ex_timers = (s1, Some 1)"
    by (simp add: sysport_timer_create_def Let_def)
  have l: "False = ((2 :: u32) = 0 \<or> 5 < unat (2 :: u32))" by simp
  have m: "(1500 :: u32) \<noteq> 0" by simp
  have w: "((#) 9 ^^ 2) [] = [9 :: nat, 9]" by (simp add: numeral_2_eq_2)
  from timer_runs_counted [OF c m _ _ l, of 0 "\<lambda>f pv w. pv # w" 0] c w show ?thesis
    by (auto simp: ex_timers_def simp del: not_None_eq)
qed

text \<open>
  When the function takes longer than the interval, the threads of two expirations overlap. A timer with one run then calls its function
  twice; and when the first thread goes on to its end, the second uses the module it has freed.
\<close>
theorem timer_overlap:
  assumes "timer_live p t f pv its name 1 base s" "0 \<le> ret"
  shows "map_option (tm_world \<circ> snd) (timer_run (plain_call act) ret [Fire t, Fire t, Piece 0, Piece 1] ([], s)) =
      Some (act f pv (act f pv (tm_world s))) \<and>
    timer_run (plain_call act) ret ([Fire t, Fire t, Piece 0, Piece 1] @ replicate 5 (Piece 0) @ [Piece 1]) ([], s) = None"
proof -
  let ?w = "s\<lparr>tm_world := act f pv (tm_world s)\<rparr>" and ?w2 = "s\<lparr>tm_world := act f pv (act f pv (tm_world s))\<rparr>"
  have h: "os_timers s t = Some (p, Some its)"
    "tm_heap s p = Some \<lparr>timerid = t, tm_strName = name, uRunTime = 1, tm_pvArg = pv, tm_pv_func = Some f\<rparr>"
    using assms(1) by (simp_all add: timer_live_def)
  have r1: "timer_run (plain_call act) ret [Fire t, Fire t, Piece 0, Piece 1] ([], s) = Some ([(Some p, Tp_test), (Some p, Tp_test)], ?w2)"
    using h by (simp add: timer_piece_def plain_call_def)
  have r2: "timer_run (plain_call act) ret (replicate 5 (Piece 0)) ([(Some p, Tp_test), (Some p, Tp_test)], ?w2) =
      Some ([(Some p, Tp_done), (Some p, Tp_test)], free_module p (os_timer_delete ret t
        (?w2\<lparr>tm_heap := (tm_heap s)(p \<mapsto> \<lparr>timerid = t, tm_strName = name, uRunTime = 0, tm_pvArg = pv, tm_pv_func = Some f\<rparr>)\<rparr>)))"
    using h assms(2) by (simp add: eval_nat_numeral timer_piece_def os_timer_delete_def)
  have r3: "timer_run (plain_call act) ret [Piece 1] ([(Some p, Tp_done), (Some p, Tp_test)], free_module p s') = None" for s'
    by (simp add: timer_piece_def free_module_def)
  show ?thesis unfolding timer_run_append r1 using r2 r3 by simp
qed

theorem timer_overlap_witness:
  "timer_run (plain_call (\<lambda>f pv w. pv # w)) 0 ([Fire 7, Fire 7, Piece 0, Piece 1] @ replicate 5 (Piece 0) @ [Piece 1])
    ([], fst (sysport_timer_create True 1 7 0 0 ''t'' 1500 1 9 (Some 3) ex_timers)) = None"
proof -
  obtain s1 where c: "sysport_timer_create True 1 7 0 0 ''t'' 1500 1 9 (Some 3) ex_timers = (s1, Some 1)"
    by (simp add: sysport_timer_create_def Let_def)
  then have "timer_live 1 7 3 9 (timer_spec 1500) ''t'' 1 ex_timers s1" using create_live [OF c] by simp
  from timer_overlap [OF this, of 0 "\<lambda>f pv w. pv # w"] c show ?thesis by simp
qed

text \<open>The interval a timer is armed with is exactly the milliseconds asked for, with less than a second in nanoseconds.\<close>
theorem timer_interval_exact:
  "case it_interval (timer_spec ms) of (sec, nsec) \<Rightarrow> sec * 1000000000 + nsec = uint ms * 1000000 \<and> 0 \<le> nsec \<and> nsec < 1000000000"
proof -
  have "uint ms = uint ms div 1000 * 1000 + uint ms mod 1000" by simp
  moreover have "0 \<le> uint ms mod 1000 \<and> uint ms mod 1000 < 1000" by simp
  ultimately show ?thesis unfolding timer_spec_parts by simp presburger
qed

text \<open>
  Creation that fails in \<^verbatim>\<open>timer_settime\<close> frees the module but keeps the timer of the system, which still points to it.
\<close>
theorem timer_settime_failure_leaks:
  assumes "0 \<le> cr" "sr < 0"
  shows "\<exists>s1. sysport_timer_create True p t cr sr name ms n pv func s = (s1, None) \<and> tm_cnt s1 = tm_cnt s \<and>
    tm_heap s1 p = None \<and> os_timers s1 t = Some (p, None)"
  using assms by (simp add: sysport_timer_create_def free_module_def Let_def)

theorem timer_settime_failure_leaks_witness:
  "\<exists>s1. sysport_timer_create True 1 7 0 (-1) ''t'' 1500 2 9 (Some 3) ex_timers = (s1, None) \<and> tm_cnt s1 = tm_cnt ex_timers \<and>
    tm_heap s1 1 = None \<and> os_timers s1 7 = Some (1, None)"
  by (rule timer_settime_failure_leaks) simp_all

text \<open>
  A function that deletes its own timer, the only way to stop a periodic one from within, makes the thread use the freed module.
\<close>
theorem timer_deleting_itself_dangles:
  assumes "timer_live p t f pv its name r base s" "call = (\<lambda>f pv s. map_option fst (sysport_timer_delete 0 (Some p) s))"
  shows "expire call ret t s = None"
  using assms by (simp add: timer_live_def expire_def sysport_timer_thread_def sysport_timer_delete_def free_module_def os_timer_delete_def)

theorem timer_deleting_itself_dangles_witness:
  "expire (\<lambda>f pv s. map_option fst (sysport_timer_delete 0 (Some 1) s)) 0 7
    (fst (sysport_timer_create True 1 7 0 0 ''t'' 1500 0 9 (Some 3) ex_timers)) = None"
proof -
  obtain s1 where c: "sysport_timer_create True 1 7 0 0 ''t'' 1500 0 9 (Some 3) ex_timers = (s1, Some 1)"
    by (simp add: sysport_timer_create_def Let_def)
  then have "timer_live 1 7 3 9 (timer_spec 1500) ''t'' 0 ex_timers s1" using create_live [OF c] by simp
  from timer_deleting_itself_dangles [OF this refl] c show ?thesis by simp
qed

end
