(* ===== verification/C_Struct.thy ===== *)
theory C_Struct
  imports Ptz_Prelude
begin

text \<open>
  Structs of the C headers, byte for byte. A layout lists the members of a \<^verbatim>\<open>pragma pack(1)\<close> struct with
  their sizes, in the order of the header; a value of the struct is its bytes. \<open>get_field\<close> and \<open>set_field\<close>
  are \<^verbatim>\<open>p->member\<close> as an rvalue and as an lvalue; \<open>None\<close> is an access outside the object. The laws say
  that members do not overlap, so that a struct behaves like a record of its members.
\<close>

type_synonym layout = "(string \<times> nat) list"

definition packed_size :: "layout \<Rightarrow> nat" where
  "packed_size l = sum_list (map snd l)"

fun field_off :: "layout \<Rightarrow> string \<Rightarrow> nat option" where
  "field_off [] f = None"
| "field_off ((g, n) # l) f = (if f = g then Some 0 else map_option (\<lambda>k. n + k) (field_off l f))"

text \<open>A struct with \<^verbatim>\<open>int\<close> alignment is padded to a multiple of four.\<close>

definition padded_size :: "layout \<Rightarrow> nat" where
  "padded_size l = (packed_size l + 3) div 4 * 4"

definition get_field :: "layout \<Rightarrow> string \<Rightarrow> bytes \<Rightarrow> bytes option" where
  "get_field l f m = do {
     i \<leftarrow> field_off l f;
     n \<leftarrow> map_of l f;
     loadn m i n }"

definition set_field :: "layout \<Rightarrow> string \<Rightarrow> bytes \<Rightarrow> bytes \<Rightarrow> bytes option" where
  "set_field l f v m = do {
     i \<leftarrow> field_off l f;
     n \<leftarrow> map_of l f;
     if length v = n then storen m i v else None }"

text \<open>Scalar accesses through a cast pointer, e.g. \<^verbatim>\<open>((uint32_t*)p)[0]\<close>, on a little-endian CPU.\<close>

definition load32 :: "bytes \<Rightarrow> nat \<Rightarrow> u32 option" where
  "load32 m i = map_option of_le (loadn m i 4)"

lemma field_in_struct:
  "field_off l f = Some i \<Longrightarrow> map_of l f = Some n \<Longrightarrow> i + n \<le> packed_size l"
proof (induction l arbitrary: i)
  case (Cons p l)
  obtain g k where p: "p = (g, k)" by (cases p)
  show ?case using Cons.prems Cons.IH by (fastforce simp: p packed_size_def split: if_splits)
qed simp

lemma field_off_iff: "field_off l f = None \<longleftrightarrow> map_of l f = None"
  by (induction l) auto

lemma fields_disjoint:
  assumes "field_off l f = Some i" "map_of l f = Some m" "field_off l g = Some j" "map_of l g = Some n" "f \<noteq> g"
  shows "i + m \<le> j \<or> j + n \<le> i"
  using assms
proof (induction l arbitrary: i j)
  case (Cons p l)
  obtain h k where p: "p = (h, k)" by (cases p)
  show ?case
  proof (cases "f = h \<or> g = h")
    case True
    then show ?thesis using Cons.prems by (auto simp: p split: if_splits)
  next
    case False
    then obtain i' j' where "field_off l f = Some i'" "field_off l g = Some j'" "i = k + i'" "j = k + j'"
      using Cons.prems by (auto simp: p)
    with Cons.IH [of i' j'] Cons.prems False show ?thesis by (simp add: p)
  qed
qed simp

lemma storen_loadn_other:
  assumes "storen m i v = Some m'" "i + length v \<le> j \<or> j + n \<le> i"
  shows "loadn m' j n = loadn m j n"
proof -
  have m': "m' = take i m @ v @ drop (i + length v) m" "i + length v \<le> length m"
    using assms(1) by (auto simp: storen_def split: if_splits)
  show ?thesis
  proof (cases "j + n \<le> length m")
    case True
    have "take n (drop j m') = take n (drop j m)"
      using m' True assms(2) by (intro nth_equalityI) (auto simp: nth_append)
    then show ?thesis using m' by (auto simp: loadn_def)
  qed (use m' in \<open>simp add: loadn_def\<close>)
qed

lemma set_field_length: "set_field l f v m = Some m' \<Longrightarrow> length m' = length m"
  by (auto simp: set_field_def split: if_splits bind_splits dest: storen_length)

lemma get_set_same: "set_field l f v m = Some m' \<Longrightarrow> get_field l f m' = Some v"
  by (auto simp: set_field_def get_field_def split: if_splits bind_splits dest: storen_loadn)

lemma get_set_other:
  assumes "set_field l f v m = Some m'" "f \<noteq> g"
  shows "get_field l g m' = get_field l g m"
proof (cases "field_off l g")
  case (Some j)
  then obtain n where n: "map_of l g = Some n" using field_off_iff [of l g] by auto
  from assms(1) obtain i where i: "field_off l f = Some i" "map_of l f = Some (length v)" "storen m i v = Some m'"
    by (auto simp: set_field_def split: if_splits bind_splits)
  from fields_disjoint [OF i(1,2) Some n assms(2)] i(3) Some n show ?thesis
    by (simp add: get_field_def storen_loadn_other)
qed (simp add: get_field_def)

lemma set_field_total:
  assumes "packed_size l \<le> length m" "map_of l f = Some (length v)"
  shows "\<exists>m'. set_field l f v m = Some m' \<and> length m' = length m"
proof -
  obtain i where i: "field_off l f = Some i" using assms(2) field_off_iff [of l f] by auto
  from field_in_struct [OF this assms(2)] assms show ?thesis
    by (simp add: set_field_def i storen_def)
qed

lemmas struct_laws = get_set_same get_set_other set_field_length

text \<open>A sequence of assignments to members.\<close>

fun set_fields :: "layout \<Rightarrow> (string \<times> bytes) list \<Rightarrow> bytes \<Rightarrow> bytes option" where
  "set_fields l [] m = Some m"
| "set_fields l ((f, v) # fs) m = Option.bind (set_field l f v m) (set_fields l fs)"

lemma set_fields_total:
  assumes "packed_size l \<le> length m" "\<forall>(f, v) \<in> set fs. map_of l f = Some (length v)"
  shows "\<exists>m'. set_fields l fs m = Some m' \<and> length m' = length m \<and>
    (\<forall>g. g \<notin> fst ` set fs \<longrightarrow> get_field l g m' = get_field l g m)"
  using assms
proof (induction fs arbitrary: m)
  case (Cons p fs)
  obtain f v where p: "p = (f, v)" by (cases p)
  from Cons.prems p obtain m1 where m1: "set_field l f v m = Some m1" "length m1 = length m"
    using set_field_total [of l m f v] by auto
  from Cons.IH [of m1] Cons.prems m1(2) obtain m' where m': "set_fields l fs m1 = Some m'" "length m' = length m"
    "\<forall>g. g \<notin> fst ` set fs \<longrightarrow> get_field l g m' = get_field l g m1" by auto
  have "\<forall>g. g \<notin> fst ` set (p # fs) \<longrightarrow> get_field l g m' = get_field l g m"
    using m'(3) get_set_other [OF m1(1)] p by auto
  with m' m1 p show ?case by simp
qed simp

end
