(* ===== verification/Netcon_Protocol.thy ===== *)
theory Netcon_Protocol
  imports Alink_Frame C_Struct
begin

text \<open>
  The discovery protocol of \<^verbatim>\<open>srv/eth_link/eth_protocol/netcon_protocol.c\<close>. It repeats the package format of
  alink with its own code: its own header and CRC loops, and 32-bit lengths. The theory shows that the two
  agree: what this code sends is a package of alink, and what it accepts is what alink accepts.
\<close>

subsection \<open>Structs and constants\<close>

definition eth_protocol_head :: layout where
  "eth_protocol_head = [(''magic'', 1), (''len_lo'', 1), (''len_hi'', 1), (''seq'', 1), (''destid'', 1),
     (''sourceid'', 1), (''msgid'', 1), (''ans'', 1), (''checksum'', 1)]"

definition eth_protocol_devinfo :: layout where
  "eth_protocol_devinfo = [(''head'', packed_size eth_protocol_head), (''protocol'', 4), (''sn'', 64), (''type'', 2),
     (''status'', 2), (''version'', 64), (''crc'', 2)]"

definition eth_protocol_devinfo_body :: layout where
  "eth_protocol_devinfo_body = [(''protocol'', 4), (''sn'', 32), (''type'', 2), (''status'', 2), (''version'', 64)]"

definition eth_protocol_search :: layout where
  "eth_protocol_search = [(''protocol'', 4), (''sn'', 32)]"

definition eth_protocol_cntinfo :: layout where
  "eth_protocol_cntinfo = [(''sn'', 32), (''ip'', 4), (''port'', 2), (''type'', 2)]"

definition eth_protocol_lookup :: layout where
  "eth_protocol_lookup = [(''head'', packed_size eth_protocol_head), (''protocol'', 4), (''sn'', 32), (''crc'', 2)]"

definition eth_protocol_request :: layout where
  "eth_protocol_request = [(''head'', packed_size eth_protocol_head), (''cntinfo'', packed_size eth_protocol_cntinfo),
     (''crc'', 2)]"

lemmas netcon_layouts = eth_protocol_head_def eth_protocol_devinfo_def eth_protocol_devinfo_body_def
  eth_protocol_search_def eth_protocol_cntinfo_def eth_protocol_lookup_def eth_protocol_request_def

lemma netcon_sizes [simp]:
  "packed_size eth_protocol_head = 9" "packed_size eth_protocol_cntinfo = 40" "packed_size eth_protocol_lookup = 47"
  "packed_size eth_protocol_request = 51" "packed_size eth_protocol_devinfo_body = 104"
  "packed_size eth_protocol_search = 36"
  by (simp_all add: packed_size_def netcon_layouts)

definition DEV_ID_AGX :: u8 where "DEV_ID_AGX = 0x07"
definition PROTOCOL_ID :: u32 where "PROTOCOL_ID = 0x04"
definition NETPROTOCAL_CRC_LEN :: nat where "NETPROTOCAL_CRC_LEN = 2"
definition NETPROTOCAL_MSG_ID_LOOKUP :: u8 where "NETPROTOCAL_MSG_ID_LOOKUP = 0xBA"
definition NETPROTOCAL_MSG_ID_LOOKUP_RESP :: u8 where "NETPROTOCAL_MSG_ID_LOOKUP_RESP = 0xBB"
definition NETPROTOCAL_MSG_ID_REQUEST_CONNECT :: u8 where "NETPROTOCAL_MSG_ID_REQUEST_CONNECT = 0xBC"
definition NETPROTOCAL_MSG_ID_CONFIG_RESP :: u8 where "NETPROTOCAL_MSG_ID_CONFIG_RESP = 0xBD"
definition RADAR_DEVICE_SN_LEN :: nat where "RADAR_DEVICE_SN_LEN = 32"

definition eth_protocol_get_agx_sn :: string where
  "eth_protocol_get_agx_sn = ''AGX-12345678''"

subsection \<open>Operations\<close>

text \<open>The body of the CRC loops, with C's promotions, and the loop over the bytes behind the magic byte.\<close>

definition eth_crc_step :: "u8 \<Rightarrow> u16 \<Rightarrow> u16" where
  "eth_crc_step b crc =
     (let tmp = b XOR ucast (crc AND 0xFF);
          tmp = tmp XOR (ucast (push_bit 4 (ucast tmp :: u32)) :: u8)
      in ucast (drop_bit 8 (ucast crc :: u32) XOR push_bit 8 (ucast tmp :: u32)
                XOR push_bit 3 (ucast tmp :: u32) XOR drop_bit 4 (ucast tmp :: u32)))"

fun eth_crc_loop :: "bytes \<Rightarrow> nat \<Rightarrow> u16 \<Rightarrow> u16 option" where
  "eth_crc_loop data 0 crc = Some crc"
| "eth_crc_loop data (Suc count) crc =
     (case data of [] \<Rightarrow> None | b # data' \<Rightarrow> eth_crc_loop data' count (eth_crc_step b crc))"

fun eth_head_sum :: "bytes \<Rightarrow> nat \<Rightarrow> nat \<Rightarrow> u8 \<Rightarrow> u8 option" where
  "eth_head_sum m i 0 acc = Some acc"
| "eth_head_sum m i (Suc k) acc = Option.bind (load8 m i) (\<lambda>b. eth_head_sum m (Suc i) k (acc + b))"

definition eth_protocol_package :: "u8 \<Rightarrow> bytes \<Rightarrow> u32 \<Rightarrow> (bytes \<times> u32) option" where
  "eth_protocol_package mid msg n = do {
     m1 \<leftarrow> storen msg 0 [0xFD, ucast (0xFF AND n), ucast (0xFF AND (drop_bit 8 n)), 0, 0xFF, DEV_ID_AGX, mid, 0];
     sm \<leftarrow> eth_head_sum m1 0 8 0;
     m2 \<leftarrow> storen m1 8 [sm];
     let count = unat (n + 11 - 3);
     crc \<leftarrow> eth_crc_loop (drop 1 m2) count 0xFFFF;
     m3 \<leftarrow> storen m2 (count + 1) [ucast (0xFF AND crc)];
     m4 \<leftarrow> storen m3 (count + 2) [ucast (0xFF AND (drop_bit 8 crc))];
     Some (m4, n + 11) }"

text \<open>The result is the offset of the payload, or null.\<close>

definition eth_protocol_analysis :: "bytes \<Rightarrow> u32 \<Rightarrow> nat option option" where
  "eth_protocol_analysis msg n = do {
     magic_b \<leftarrow> load8 msg 0;
     if 0xFD \<noteq> magic_b then Some None
     else do {
       hi \<leftarrow> load8 msg 2;
       lo \<leftarrow> load8 msg 1;
       let sz = push_bit 8 (ucast hi) OR ucast lo;
       if sz + 11 \<noteq> n then Some None
       else do {
         sm \<leftarrow> eth_head_sum msg 0 8 0;
         stored \<leftarrow> load8 msg 8;
         if stored \<noteq> sm then Some None
         else do {
           let count = unat (n - 3);
           crc \<leftarrow> eth_crc_loop (drop 1 msg) count 0xFFFF;
           c1 \<leftarrow> load8 msg (1 + count + 1);
           c0 \<leftarrow> load8 msg (1 + count);
           if crc \<noteq> push_bit 8 (ucast c1) OR ucast c0 then Some None
           else Some (Some (packed_size eth_protocol_head)) } } } }"

definition eth_protocol_get_detect_package :: "bytes \<Rightarrow> (bytes \<times> u32) option" where
  "eth_protocol_get_detect_package msg = do {
     let p0 = replicate (packed_size eth_protocol_lookup) 0;
     p1 \<leftarrow> set_field eth_protocol_lookup ''protocol'' (le_bytes 4 PROTOCOL_ID) p0;
     p2 \<leftarrow> set_field eth_protocol_lookup ''sn'' (replicate RADAR_DEVICE_SN_LEN 0) p1;
     (p3, _) \<leftarrow> eth_protocol_package NETPROTOCAL_MSG_ID_LOOKUP p2
        (of_nat (packed_size eth_protocol_lookup - packed_size eth_protocol_head - NETPROTOCAL_CRC_LEN));
     m \<leftarrow> storen msg 0 p3;
     Some (m, of_nat (packed_size eth_protocol_lookup)) }"

definition eth_protocol_get_request_package :: "bytes \<Rightarrow> bytes \<Rightarrow> (bytes \<times> u32) option" where
  "eth_protocol_get_request_package msg ep_ctlinfo = do {
     c \<leftarrow> loadn ep_ctlinfo 0 (packed_size eth_protocol_cntinfo);
     p1 \<leftarrow> set_field eth_protocol_request ''cntinfo'' c (replicate (packed_size eth_protocol_request) 0);
     (p2, _) \<leftarrow> eth_protocol_package NETPROTOCAL_MSG_ID_REQUEST_CONNECT p1
        (of_nat (packed_size eth_protocol_request - packed_size eth_protocol_head - NETPROTOCAL_CRC_LEN));
     m \<leftarrow> storen msg 0 p2;
     Some (m, of_nat (packed_size eth_protocol_request)) }"

subsection \<open>Agreement with alink\<close>

lemma eth_crc_step_accumulate: "eth_crc_step = crc_accumulate"
  by (simp add: eth_crc_step_def crc_accumulate_def fun_eq_iff)

lemma eth_crc_loop_eq: "eth_crc_loop p n crc = crc_loop p n crc"
  by (induction p n crc rule: crc_loop.induct) (simp_all add: eth_crc_step_accumulate)

lemma eth_head_sum_in: "i + k \<le> length m \<Longrightarrow> eth_head_sum m i k c = Some (c + sum_list (take k (drop i m)))"
proof (induction k arbitrary: i c)
  case (Suc k)
  then have "take (Suc k) (drop i m) = m ! i # take k (drop (Suc i) m)"
    by (simp add: Cons_nth_drop_Suc [symmetric])
  with Suc show ?case by (simp add: mem_simps add.assoc)
qed simp

lemma join_u8_u32: "(push_bit 8 (ucast (hi :: u8)) OR ucast (lo :: u8) :: u32) = of_nat (256 * unat hi + unat lo)"
proof -
  have "(push_bit 8 (ucast hi) OR ucast lo :: u32) = push_bit 8 (ucast hi) + ucast lo"
    by (rule disjunctive_add [symmetric]) (auto simp: bit_simps dest: bit_imp_le_length)
  also have "\<dots> = of_nat (256 * unat hi + unat lo)" by (simp add: push_bit_eq_mult mult.commute)
  finally show ?thesis .
qed

lemma unat_small_u32: "n < 100000 \<Longrightarrow> unat (of_nat n :: u32) = n"
  by (intro unat_of_nat_small) simp

lemma size_field_eq:
  assumes "3 \<le> length m" "unat n \<le> 65546"
  shows "(push_bit 8 (ucast (m ! 2)) OR ucast (m ! 1)) + 11 = (n :: u32) \<longleftrightarrow> payload_len m + 11 = unat n"
proof -
  have e: "(push_bit 8 (ucast (m ! 2)) OR ucast (m ! 1)) + 11 = (of_nat (payload_len m + 11) :: u32)"
    unfolding join_u8_u32 by (simp add: payload_len_def)
  have u: "unat (of_nat (payload_len m + 11) :: u32) = payload_len m + 11"
    using payload_len_less [of m] by (intro unat_small_u32) simp
  show ?thesis unfolding e by (metis u of_nat_unat ucast_id)
qed

text \<open>The whole-package view: what the reader accepts, in terms of alink's contract.\<close>

lemma eth_protocol_analysis_valid:
  assumes "3 \<le> length m" "unat n \<le> length m" "unat n \<le> 65538"
  shows "eth_protocol_analysis m n = Some (if valid_package (take (unat n) m) then Some 9 else None)"
proof -
  have ld: "load8 m 0 = Some (m ! 0)" "load8 m 2 = Some (m ! 2)" "load8 m (Suc 0) = Some (m ! Suc 0)"
    using assms(1) by (auto simp: load8_def)
  have "unat n \<le> 65546" using assms(3) by simp
  note eq = size_field_eq [OF assms(1) this, unfolded One_nat_def]
  show ?thesis
  proof (cases "m ! 0 = 0xFD \<and> payload_len m + 11 = unat n")
    case False
    have "payload_len (take (unat n) m) = payload_len m" if "11 \<le> unat n"
      using that by (simp add: payload_len_def)
    with False have "\<not> valid_package (take (unat n) m)"
      using assms by (auto simp: valid_package_def ALINK_MSG_MAGIC_VALUE_def)
    with False ld eq show ?thesis by (simp add: eth_protocol_analysis_def Let_def)
  next
    case True
    define k where "k = unat n"
    have k: "11 \<le> k" "k \<le> length m" "k \<le> 65538" "payload_len m + 11 = k" using True assms by (simp_all add: k_def)
    have n3: "unat (n - 3) = k - 3"
      using k(1) unfolding k_def by (subst unat_sub) (simp_all add: word_le_nat_alt)
    have crc: "eth_crc_loop (drop 1 m) (k - 3) 0xFFFF = Some (crc_of (take (k - 3) (drop 1 m)) 0xFFFF)"
      using k by (simp add: eth_crc_loop_eq crc_loop_in)
    have sm: "eth_head_sum m 0 8 0 = Some (sum_list (take 8 m))"
      using k eth_head_sum_in [of 0 8 m 0] by simp
    have tail: "drop (k - 2) (take k m) = [m ! (k - 2), m ! (k - 1)]"
      using k by (intro nth_equalityI) (auto simp: nth_Cons Suc_diff_Suc numeral_2_eq_2 split: nat.split)
    have v: "valid_package (take k m) \<longleftrightarrow> m ! 8 = sum_list (take 8 m) \<and>
        (push_bit 8 (ucast (m ! (k - 1))) OR ucast (m ! (k - 2))) = crc_of (take (k - 3) (drop 1 m)) 0xFFFF"
      using True k tail
      by (simp add: valid_package_def header_ok_def crc_ok_def crc_span_def payload_len_def ALINK_MSG_MAGIC_VALUE_def
          of_le_two X25_INIT_CRC_def min_def drop_take del: of_le.simps)
    have ix: "Suc (k - 3) = k - 2" "Suc (Suc (k - 3)) = k - 1" using k by simp_all
    have ld': "load8 m 8 = Some (m ! 8)" "load8 m (k - 1) = Some (m ! (k - 1))" "load8 m (k - 2) = Some (m ! (k - 2))"
      using k by (simp_all add: load8_def)
    show ?thesis
      unfolding k_def [symmetric] using True ld ld' eq sm crc v ix n3
      by (auto simp: eth_protocol_analysis_def Let_def)
  qed
qed

lemma ucast_lo_u32: "(ucast (0xFF AND (w :: u32)) :: u8) = ucast w"
  by (rule bit_word_eqI) (auto simp: bit_simps bit_numeral_word_iff less_Suc_eq numeral_eq_Suc)

lemma drop_bit_of_nat_u32:
  assumes "n < 65536"
  shows "drop_bit 8 (of_nat n :: u32) = of_nat (n div 256)"
proof -
  have "unat (drop_bit 8 (of_nat n :: u32)) = drop_bit 8 (take_bit LENGTH(32) (unat (of_nat n :: u32)))"
    by (rule unsigned_drop_bit_eq)
  also have "\<dots> = n div 256" using assms by (simp add: unat_small_u32 drop_bit_eq_div take_bit_nat_eq_self)
  finally have "unat (drop_bit 8 (of_nat n :: u32)) = n div 256" .
  then show ?thesis using assms by (metis of_nat_unat ucast_id)
qed

lemma eth_protocol_package_frame:
  assumes "length hd9 = 9" "2 \<le> length rest" "length payload < 65536"
  shows "eth_protocol_package mid (hd9 @ payload @ rest) (of_nat (length payload)) =
    Some (frame 0 0xFF DEV_ID_AGX mid 0 payload @ drop 2 rest, of_nat (length payload + 11))"
proof -
  let ?n = "length payload"
  define h where "h = frame_head 0 0xFF DEV_ID_AGX mid 0 ?n"
  define b where "b = frame_body 0 0xFF DEV_ID_AGX mid 0 payload"
  have b: "b = h @ [sum_list h] @ payload" by (simp add: b_def h_def frame_body_def Let_def)
  have l: "length h = 8" "length b = ?n + 9" by (simp_all add: h_def b_def)
  have hb: "[0xFD, ucast (0xFF AND (of_nat ?n :: u32)), ucast (0xFF AND (drop_bit 8 (of_nat ?n :: u32))), 0, 0xFF,
      DEV_ID_AGX, mid, 0] = h"
    using assms(3) by (simp add: h_def frame_head_def ucast_lo_u32 drop_bit_of_nat_u32 ucast_of_nat_small
        ALINK_MSG_MAGIC_VALUE_def)
  have s1: "storen (hd9 @ payload @ rest) 0 h = Some (h @ drop 8 hd9 @ payload @ rest)"
    using assms(1) l by (simp add: storen_def)
  have s2: "eth_head_sum (h @ drop 8 hd9 @ payload @ rest) 0 8 0 = Some (sum_list h)"
    using assms(1) l eth_head_sum_in [of 0 8 "h @ drop 8 hd9 @ payload @ rest" 0] by simp
  have s3: "storen (h @ drop 8 hd9 @ payload @ rest) 8 [sum_list h] = Some (b @ rest)"
    using assms(1) l by (simp add: storen_def b)
  have "of_nat ?n + 11 - 3 = (of_nat (?n + 8) :: u32)" by simp
  also have "unat \<dots> = ?n + 8" using assms(3) by (intro unat_small_u32) simp
  finally have c: "unat (of_nat ?n + 11 - 3 :: u32) = ?n + 8" .
  have k: "eth_crc_loop (drop 1 (b @ rest)) (?n + 8) 0xFFFF = Some (crc_of (drop 1 b) X25_INIT_CRC)"
    using l by (simp add: eth_crc_loop_eq crc_loop_in X25_INIT_CRC_def)
  define w where "w = crc_of (drop 1 b) X25_INIT_CRC"
  have s4: "Option.bind (storen (b @ rest) (?n + 8 + 1) [x]) (\<lambda>m'. Option.bind (storen m' (?n + 8 + 2) [y]) f) =
      f (b @ [x, y] @ drop 2 rest)" for x y and f :: "bytes \<Rightarrow> (bytes \<times> u32) option"
  proof -
    have i: "?n + 8 + 1 = ?n + 9" "?n + 8 + 2 = Suc (?n + 9)" by simp_all
    have "Option.bind (storen (b @ rest) (?n + 9) [x]) (\<lambda>m'. storen m' (Suc (?n + 9)) [y]) =
        Some (b @ [x, y] @ drop 2 rest)"
      using storen_two [of "?n + 9" "b @ rest" x y] l assms(2) by simp
    then show ?thesis unfolding i by (cases "storen (b @ rest) (?n + 9) [x]") simp_all
  qed
  have fr: "frame 0 0xFF DEV_ID_AGX mid 0 payload = b @ [ucast (0xFF AND w), ucast (0xFF AND (drop_bit 8 w))]"
    by (simp add: frame_def Let_def b_def [symmetric] w_def le_bytes_two [symmetric] del: le_bytes.simps)
  show ?thesis
    unfolding eth_protocol_package_def hb s1 bind.bind_lunit s2 s3 c Let_def k w_def [symmetric] s4 fr
    by simp
qed

lemma request_package:
  assumes "length ctl = 40" "51 \<le> length msg"
  shows "eth_protocol_get_request_package msg ctl =
    Some (frame 0 0xFF DEV_ID_AGX NETPROTOCAL_MSG_ID_REQUEST_CONNECT 0 ctl @ drop 51 msg, 51)"
proof -
  have f: "set_field eth_protocol_request ''cntinfo'' ctl (replicate 51 0) = Some (replicate 9 0 @ ctl @ replicate 2 0)"
    using assms(1) by (simp add: set_field_def eth_protocol_request_def storen_def)
  have "eth_protocol_package NETPROTOCAL_MSG_ID_REQUEST_CONNECT (replicate 9 0 @ ctl @ replicate 2 0) 40 =
      Some (frame 0 0xFF DEV_ID_AGX NETPROTOCAL_MSG_ID_REQUEST_CONNECT 0 ctl, 51)"
    using eth_protocol_package_frame [of "replicate 9 0" "replicate 2 0" ctl NETPROTOCAL_MSG_ID_REQUEST_CONNECT] assms(1)
    by simp
  then show ?thesis
    using f assms by (simp add: eth_protocol_get_request_package_def NETPROTOCAL_CRC_LEN_def loadn_def storen_def)
qed

lemma detect_package:
  assumes "47 \<le> length msg"
  shows "eth_protocol_get_detect_package msg =
    Some (frame 0 0xFF DEV_ID_AGX NETPROTOCAL_MSG_ID_LOOKUP 0 (le_bytes 4 PROTOCOL_ID @ replicate 32 0) @ drop 47 msg, 47)"
proof -
  have f: "set_field eth_protocol_lookup ''protocol'' (le_bytes 4 PROTOCOL_ID) (replicate 47 0) =
      Some (replicate 9 0 @ le_bytes 4 PROTOCOL_ID @ replicate 34 0)"
    by (simp add: set_field_def eth_protocol_lookup_def storen_def)
  have g: "set_field eth_protocol_lookup ''sn'' (replicate 32 0) (replicate 9 0 @ le_bytes 4 PROTOCOL_ID @ replicate 34 0) =
      Some (replicate 9 0 @ (le_bytes 4 PROTOCOL_ID @ replicate 32 0) @ replicate 2 0)"
    by (simp add: set_field_def eth_protocol_lookup_def storen_def)
  have "eth_protocol_package NETPROTOCAL_MSG_ID_LOOKUP
        (replicate 9 0 @ (le_bytes 4 PROTOCOL_ID @ replicate 32 0) @ replicate 2 0) 36 =
      Some (frame 0 0xFF DEV_ID_AGX NETPROTOCAL_MSG_ID_LOOKUP 0 (le_bytes 4 PROTOCOL_ID @ replicate 32 0), 47)"
    using eth_protocol_package_frame [of "replicate 9 0" "replicate 2 0" "le_bytes 4 PROTOCOL_ID @ replicate 32 0"
        NETPROTOCAL_MSG_ID_LOOKUP] by simp
  then show ?thesis
    using f g assms
    by (simp add: eth_protocol_get_detect_package_def NETPROTOCAL_CRC_LEN_def RADAR_DEVICE_SN_LEN_def storen_def Let_def
        del: append_assoc)
qed

subsection \<open>Properties\<close>

text \<open>
  C29. The discovery code and alink agree on what a package is: for every buffer and every received length
  up to 65538, the analysis returns the payload exactly for the packages that satisfy alink's contract, and
  null for all others, without reading beyond the received bytes.
\<close>
theorem eth_protocol_analysis_decides:
  assumes "3 \<le> length m" "unat n \<le> length m" "unat n \<le> 65538"
  shows "eth_protocol_analysis m n = Some (if valid_package (take (unat n) m) then Some 9 else None)"
  by (rule eth_protocol_analysis_valid [OF assms])

theorem eth_protocol_analysis_decides_witness:
  "eth_protocol_analysis (frame 0 0xFF 7 0xBB 0 [1, 2, 3] @ replicate 100 0) 14 = Some (Some 9)"
  using eth_protocol_analysis_decides [of "frame 0 0xFF 7 0xBB 0 [1, 2, 3] @ replicate 100 0" 14]
    valid_frame [of "[1, 2, 3]" 0 "0xFF" 7 "0xBB" 0]
  by simp

text \<open>
  The two packages the AGX broadcasts are packages of the protocol: the receiver finds the connection
  request where the payload starts, byte for byte, and for the search the protocol number and an empty
  serial number.
\<close>
theorem netcon_packages_roundtrip:
  assumes "length ctl = packed_size eth_protocol_cntinfo" "51 \<le> length msg"
  shows "\<exists>m1 m2. eth_protocol_get_request_package msg ctl = Some (m1, 51) \<and>
    eth_protocol_analysis m1 51 = Some (Some 9) \<and> loadn m1 9 40 = Some ctl \<and>
    load8 m1 6 = Some NETPROTOCAL_MSG_ID_REQUEST_CONNECT \<and>
    eth_protocol_get_detect_package msg = Some (m2, 47) \<and>
    eth_protocol_analysis m2 47 = Some (Some 9) \<and> loadn m2 9 36 = Some (le_bytes 4 PROTOCOL_ID @ replicate 32 0) \<and>
    load8 m2 6 = Some NETPROTOCAL_MSG_ID_LOOKUP"
proof -
  define F where "F = frame 0 0xFF DEV_ID_AGX NETPROTOCAL_MSG_ID_REQUEST_CONNECT 0 ctl"
  define G where "G = frame 0 0xFF DEV_ID_AGX NETPROTOCAL_MSG_ID_LOOKUP 0 (le_bytes 4 PROTOCOL_ID @ replicate 32 0)"
  have l: "length F = 51" "length G = 47" using assms(1) by (simp_all add: F_def G_def)
  have v: "valid_package F" "valid_package G" using assms(1) by (simp_all add: F_def G_def valid_frame)
  have p: "loadn (F @ x) 9 40 = Some ctl" "loadn (G @ x) 9 36 = Some (le_bytes 4 PROTOCOL_ID @ replicate 32 0)" for x
    using payload_frame [of ctl 0 "0xFF" DEV_ID_AGX NETPROTOCAL_MSG_ID_REQUEST_CONNECT 0]
      payload_frame [of "le_bytes 4 PROTOCOL_ID @ replicate 32 0" 0 "0xFF" DEV_ID_AGX NETPROTOCAL_MSG_ID_LOOKUP 0] l assms(1)
    by (simp_all add: loadn_def F_def G_def)
  have i: "load8 (F @ x) 6 = Some NETPROTOCAL_MSG_ID_REQUEST_CONNECT" "load8 (G @ x) 6 = Some NETPROTOCAL_MSG_ID_LOOKUP" for x
    using l by (simp_all add: load8_def nth_append) (simp_all add: F_def G_def nth_frame_head)
  have a: "eth_protocol_analysis (F @ x) 51 = Some (Some 9)" "eth_protocol_analysis (G @ x) 47 = Some (Some 9)" for x
    using eth_protocol_analysis_valid [of "F @ x" 51] eth_protocol_analysis_valid [of "G @ x" 47] l v by simp_all
  show ?thesis
    using request_package [of ctl msg] detect_package [of msg] assms p i a
    by (intro exI [of _ "F @ drop 51 msg"] exI [of _ "G @ drop 47 msg"]) (simp add: F_def G_def)
qed

theorem netcon_packages_roundtrip_witness:
  "\<exists>m1 m2. eth_protocol_get_request_package (replicate 512 0) (replicate 40 7) = Some (m1, 51) \<and>
    eth_protocol_analysis m1 51 = Some (Some 9) \<and> loadn m1 9 40 = Some (replicate 40 7) \<and>
    load8 m1 6 = Some NETPROTOCAL_MSG_ID_REQUEST_CONNECT \<and>
    eth_protocol_get_detect_package (replicate 512 0) = Some (m2, 47) \<and>
    eth_protocol_analysis m2 47 = Some (Some 9) \<and> loadn m2 9 36 = Some (le_bytes 4 PROTOCOL_ID @ replicate 32 0) \<and>
    load8 m2 6 = Some NETPROTOCAL_MSG_ID_LOOKUP"
  by (rule netcon_packages_roundtrip) simp_all

end
