(* ===== verification/Udp_Socket.thy ===== *)
theory Udp_Socket
  imports Ptz_Prelude
begin

text \<open>
  The UDP socket of \<^verbatim>\<open>srv/eth_link/socket/udp_socket.c\<close>: creation with its error path, the receive thread,
  sending and closing.

  The operating system is an argument: what each call returns. The calls the code makes are collected in a
  list, so that the theorems can say which of them are made. The configuration lives in the module that
  owns the socket and is reached through the pointer \<^verbatim>\<open>psCfg\<close>: \<open>cfgs\<close> is that memory.
\<close>

subsection \<open>State\<close>

text \<open>Of \<^verbatim>\<open>pid\<close> the model keeps whether it is the identifier of a thread that was created and has not been joined.\<close>

record udp_socket_cfg =
  bFlagRecv :: bool
  bBroadcast :: bool
  wRecvPort :: u16
  wSendPort :: u16
  uRecvIp :: u32
  uSendIp :: u32

record udp_socket =
  us_bFlagInit :: bool
  us_bFlagClose :: bool
  us_iSocket :: i32
  us_pid :: bool
  us_psCfg :: "nat option"
  us_psCbk :: "nat option"

datatype net_call =
    Call_socket
  | Call_bind i32 u32 u16
  | Call_setsockopt i32
  | Call_close i32
  | Call_mutex_init
  | Call_mutex_destroy
  | Call_pthread_create
  | Call_sendto i32 bytes u32 u16

record udp_os =
  ret_socket :: i32
  ret_bind :: i32
  ret_setsockopt :: i32
  ret_mutex_init :: i32
  ret_pthread_create :: i32

subsection \<open>Creation\<close>

text \<open>The part of \<^verbatim>\<open>udp_socket_crate\<close> after \<^verbatim>\<open>socket\<close>: the calls made and the error code.\<close>

definition udp_socket_open :: "udp_os \<Rightarrow> i32 \<Rightarrow> udp_socket_cfg \<Rightarrow> net_call list \<times> i32" where
  "udp_socket_open os fd c =
     (let b = (if bFlagRecv c then [Call_bind fd (uRecvIp c) (wRecvPort c)] else []) in
      if bFlagRecv c \<and> 0 > ret_bind os then (b, -3)
      else
        let sc = b @ (if bBroadcast c then [Call_setsockopt fd] else []) in
        if bBroadcast c \<and> 0 \<noteq> ret_setsockopt os then (sc, -4)
        else if 0 \<noteq> ret_mutex_init os then (sc @ [Call_mutex_init], -5)
        else if bFlagRecv c \<and> 0 \<noteq> ret_pthread_create os then (sc @ [Call_mutex_init, Call_pthread_create], -6)
        else (sc @ Call_mutex_init # (if bFlagRecv c then [Call_pthread_create] else []), 0))"

definition udp_socket_crate ::
  "udp_os \<Rightarrow> (nat \<Rightarrow> udp_socket_cfg) \<Rightarrow> udp_socket \<Rightarrow> nat option \<Rightarrow> nat option \<Rightarrow> udp_socket \<times> net_call list \<times> i32" where
  "udp_socket_crate os cfgs psSocket psCfg psCbk =
     (if us_bFlagInit psSocket then (psSocket, [], 0)
      else case (psCfg, psCbk) of
        (Some cfg, Some cbk) \<Rightarrow>
          let fd = ret_socket os;
              sk = psSocket\<lparr>us_bFlagInit := True, us_bFlagClose := False, us_psCfg := psCfg, us_psCbk := psCbk,
                     us_iSocket := fd\<rparr>;
              (calls, eRet) = (if 0 > fd then ([], -2) else udp_socket_open os fd (cfgs cfg))
          in (if bFlagRecv (cfgs cfg) \<and> eRet = 0 then sk\<lparr>us_pid := True\<rparr> else sk,
              Call_socket # calls @
                (if -4 > eRet then [Call_close fd, Call_mutex_destroy]
                 else if -1 > eRet then [Call_close fd] else []),
              eRet)
      | _ \<Rightarrow> (psSocket, [], -1))"

subsection \<open>Receiving\<close>

text \<open>
  \<^verbatim>\<open>udp_socket_recv\<close> for a non-null socket: the answer of \<^verbatim>\<open>recvfrom\<close> is a length, the bytes and the address
  of the sender. The result is the length, the bytes and, unless the read failed, the address.
\<close>

definition udp_socket_recv ::
  "i32 \<times> bytes \<times> u32 \<Rightarrow> udp_socket \<Rightarrow> udp_socket \<times> i32 \<times> bytes \<times> u32 option" where
  "udp_socket_recv answer psSocket =
     (case answer of (iLength, bs, addr) \<Rightarrow>
        if 0 > iLength then (psSocket\<lparr>us_bFlagClose := True\<rparr>, 0, [], None)
        else (psSocket, iLength, take (nat iLength) bs, Some addr))"

text \<open>
  The thread, on a finite list of answers of \<^verbatim>\<open>select\<close>: its result, whether the socket is readable, and the
  timeout it leaves in \<^verbatim>\<open>tv\<close>, which the code sets once before the loop. \<open>data\<close> is the data callback (or the
  read that stands in for a missing one). The result is the state, whether the loop was left, and the
  timeouts the calls of \<^verbatim>\<open>select\<close> were made with.
\<close>

record sel =
  ready :: i32
  isset :: bool
  tv_left :: nat

fun udp_task_loop ::
  "(udp_socket \<times> 'w \<Rightarrow> udp_socket \<times> 'w) \<Rightarrow> sel list \<Rightarrow> nat \<Rightarrow> udp_socket \<times> 'w \<Rightarrow> (udp_socket \<times> 'w) \<times> bool \<times> nat list" where
  "udp_task_loop data [] tv st = (st, us_bFlagClose (fst st), [])"
| "udp_task_loop data (a # as) tv st =
     (if us_bFlagClose (fst st) then (st, True, [])
      else if 0 > ready a then (st, True, [tv])
      else
        case udp_task_loop data as (tv_left a) (if ready a = 0 \<or> \<not> isset a then st else data st) of
          (st', ended, tvs) \<Rightarrow> (st', ended, tv # tvs))"

definition udp_task_end :: "udp_socket \<Rightarrow> udp_socket \<times> net_call list" where
  "udp_task_end sk =
     (sk\<lparr>us_iSocket := -1, us_bFlagInit := False\<rparr>,
      (if 0 \<le> us_iSocket sk then [Call_close (us_iSocket sk)] else []) @ [Call_mutex_destroy])"

text \<open>One second, in microseconds.\<close>

definition udp_socket_task ::
  "(udp_socket \<times> 'w \<Rightarrow> udp_socket \<times> 'w) \<Rightarrow> sel list \<Rightarrow> udp_socket \<times> 'w \<Rightarrow> (udp_socket \<times> 'w) \<times> net_call list" where
  "udp_socket_task data as st =
     (case udp_task_loop data as 1000000 st of
        ((sk, w), ended, _) \<Rightarrow>
          if ended then (case udp_task_end sk of (sk', calls) \<Rightarrow> ((sk', w), calls)) else ((sk, w), []))"

subsection \<open>Closing and sending\<close>

definition udp_socket_close :: "udp_socket option \<Rightarrow> udp_socket option \<times> i32" where
  "udp_socket_close psSocket =
     (case psSocket of
        None \<Rightarrow> (None, 0)
      | Some sk \<Rightarrow> (Some (if us_bFlagInit sk then sk\<lparr>us_bFlagClose := True\<rparr> else sk), 0))"

text \<open>
  \<^verbatim>\<open>pthread_join\<close> on the receive thread, after \<^verbatim>\<open>udp_socket_close\<close> has set the flag: the thread may be waiting in \<^verbatim>\<open>select\<close>, which
  returns after a second at the latest, or at work on a datagram; then it sees the flag and ends. So it runs its data callback once
  more, \<open>Some data\<close>, or not, \<open>None\<close>. \<open>data\<close> has no result when the callback does something undefined. A thread that has ended by itself
  does nothing more; joining where no thread was created, or twice, is undefined.
\<close>

definition udp_socket_join ::
  "(udp_socket \<times> 'w \<Rightarrow> (udp_socket \<times> 'w) option) option \<Rightarrow> udp_socket \<times> 'w \<Rightarrow> ((udp_socket \<times> 'w) \<times> net_call list) option" where
  "udp_socket_join last_turn st =
     (if \<not> us_pid (fst st) then None
      else if \<not> us_bFlagInit (fst st) then Some (((fst st)\<lparr>us_pid := False\<rparr>, snd st), [])
      else do {
        (sk, w) \<leftarrow> (case last_turn of None \<Rightarrow> Some st | Some data \<Rightarrow> data st);
        let (sk', calls) = udp_task_end sk;
        Some ((sk'\<lparr>us_pid := False\<rparr>, w), calls) })"

text \<open>\<open>None\<close> is a read outside the message, or an initialised socket without a configuration.\<close>

definition udp_socket_send ::
  "i32 \<Rightarrow> (nat \<Rightarrow> udp_socket_cfg) \<Rightarrow> udp_socket \<Rightarrow> bytes \<Rightarrow> u32 \<Rightarrow> (net_call list \<times> i32) option" where
  "udp_socket_send ret cfgs sk pbyData uLength =
     (if us_bFlagInit sk then do {
        cfg \<leftarrow> us_psCfg sk;
        bs \<leftarrow> loadn pbyData 0 (unat uLength);
        Some ([Call_sendto (us_iSocket sk) bs (uSendIp (cfgs cfg)) (wSendPort (cfgs cfg))], ret) }
      else Some ([], -2))"

subsection \<open>Lemmas\<close>

definition calls_closing :: "i32 \<Rightarrow> net_call list \<Rightarrow> nat" where
  "calls_closing fd cs = length (filter (\<lambda>c. c = Call_close fd) cs)"

lemma udp_socket_open_ret: "snd (udp_socket_open os fd c) \<in> {0, -3, -4, -5, -6}"
  by (simp add: udp_socket_open_def Let_def)

lemma udp_socket_open_closes: "calls_closing fd' (fst (udp_socket_open os fd c)) = 0"
  by (simp add: udp_socket_open_def Let_def calls_closing_def)

lemma udp_task_loop_closed: "us_bFlagClose (fst st) \<Longrightarrow> udp_task_loop data as tv st = (st, True, [])"
  by (cases as) simp_all

text \<open>
  What Linux documents of \<^verbatim>\<open>select\<close>: the timeout is updated to the time not slept, hence it never grows and
  is zero when the call timed out.
\<close>

fun linux_select :: "nat \<Rightarrow> sel list \<Rightarrow> bool" where
  "linux_select tv [] \<longleftrightarrow> True"
| "linux_select tv (a # as) \<longleftrightarrow> tv_left a \<le> tv \<and> (ready a = 0 \<longrightarrow> tv_left a = 0) \<and> linux_select (tv_left a) as"

lemma udp_task_loop_zero: "linux_select 0 as \<Longrightarrow> set (snd (snd (udp_task_loop data as 0 st))) \<subseteq> {0}"
proof (induction as arbitrary: st)
  case (Cons a as)
  then have "tv_left a = 0" "linux_select 0 as" by auto
  with Cons.IH show ?case by (auto simp: split_def)
qed simp

lemma udp_task_loop_spins:
  assumes "\<And>st. us_bFlagClose (fst (data st)) = us_bFlagClose (fst st)" "ready a = 0"
  shows "linux_select tv (as @ a # bs) \<Longrightarrow> \<forall>b \<in> set as. 0 \<le> ready b \<Longrightarrow> \<not> us_bFlagClose (fst st) \<Longrightarrow>
    tvs = snd (snd (udp_task_loop data (as @ a # bs) tv st)) \<Longrightarrow>
    length as < length tvs \<and> set (drop (Suc (length as)) tvs) \<subseteq> {0}"
proof (induction as arbitrary: st tv tvs)
  case Nil
  then have z: "tv_left a = 0" "linux_select 0 bs" using assms(2) by auto
  then show ?case
    using Nil udp_task_loop_zero [OF z(2), of data st] assms(2) by (simp add: split_def)
next
  case (Cons b as)
  define st' where "st' = (if ready b = 0 \<or> \<not> isset b then st else data st)"
  have nc: "\<not> us_bFlagClose (fst st')" using Cons.prems(3) assms(1) by (simp add: st'_def)
  have tvs: "tvs = tv # snd (snd (udp_task_loop data (as @ a # bs) (tv_left b) st'))"
    using Cons.prems by (simp add: st'_def split_def)
  have "length as < length (snd (snd (udp_task_loop data (as @ a # bs) (tv_left b) st'))) \<and>
      set (drop (Suc (length as)) (snd (snd (udp_task_loop data (as @ a # bs) (tv_left b) st')))) \<subseteq> {0}"
    by (rule Cons.IH [OF _ _ nc refl]) (use Cons.prems(1,2) in simp_all)
  then show ?case by (simp add: tvs)
qed

subsection \<open>Properties\<close>

text \<open>
  A failed creation is not undone: the socket stays marked as initialised, so that the next attempt
  does nothing and reports success, and sending goes to the descriptor that was closed.
\<close>
theorem udp_socket_crate_retry_lies:
  assumes "udp_socket_crate os cfgs sk (Some cfg) (Some cbk) = (sk', calls, e)" "\<not> us_bFlagInit sk" "e \<noteq> 0"
    "unat n \<le> length d"
  shows "udp_socket_crate os' cfgs' sk' psCfg psCbk = (sk', [], 0) \<and>
    Call_close (us_iSocket sk') \<in> set calls \<and>
    udp_socket_send ret cfgs' sk' d n =
      Some ([Call_sendto (us_iSocket sk') (take (unat n) d) (uSendIp (cfgs' cfg)) (wSendPort (cfgs' cfg))], ret)"
proof -
  from assms(1,2) have sk': "us_bFlagInit sk'" "us_psCfg sk' = Some cfg" "us_iSocket sk' = ret_socket os"
    by (auto simp: udp_socket_crate_def Let_def split_def)
  have "Call_close (us_iSocket sk') \<in> set calls"
    using assms udp_socket_open_ret [of os "ret_socket os" "cfgs cfg"] sk'(3)
    by (auto simp: udp_socket_crate_def Let_def split_def split: if_splits)
  then show ?thesis
    using sk' assms(4) by (simp add: udp_socket_crate_def udp_socket_send_def mem_simps)
qed

theorem udp_socket_crate_retry_lies_witness:
  "let os = \<lparr>ret_socket = 5, ret_bind = -1, ret_setsockopt = 0, ret_mutex_init = 0, ret_pthread_create = 0\<rparr>;
       sk = \<lparr>us_bFlagInit = False, us_bFlagClose = False, us_iSocket = 0, us_pid = False, us_psCfg = None, us_psCbk = None\<rparr>;
       cfg = \<lparr>bFlagRecv = True, bBroadcast = True, wRecvPort = 9966, wSendPort = 9966, uRecvIp = 0, uSendIp = 0xFFFFFFFF\<rparr>;
       sk' = \<lparr>us_bFlagInit = True, us_bFlagClose = False, us_iSocket = 5, us_pid = False, us_psCfg = Some 0, us_psCbk = Some 1\<rparr>
   in udp_socket_crate os (\<lambda>_. cfg) sk (Some 0) (Some 1) =
        (sk', [Call_socket, Call_bind 5 0 9966, Call_close 5], -3) \<and>
      udp_socket_crate os (\<lambda>_. cfg) sk' (Some 0) (Some 1) = (sk', [], 0)"
proof -
  define os where "os = \<lparr>ret_socket = 5, ret_bind = -1, ret_setsockopt = 0, ret_mutex_init = 0, ret_pthread_create = 0\<rparr>"
  define sk where "sk = \<lparr>us_bFlagInit = False, us_bFlagClose = False, us_iSocket = 0, us_pid = False, us_psCfg = None, us_psCbk = None\<rparr>"
  define cfg where "cfg = \<lparr>bFlagRecv = True, bBroadcast = True, wRecvPort = 9966, wSendPort = 9966, uRecvIp = 0,
    uSendIp = 0xFFFFFFFF\<rparr>"
  define sk' where "sk' = \<lparr>us_bFlagInit = True, us_bFlagClose = False, us_iSocket = 5, us_pid = False, us_psCfg = Some 0, us_psCbk = Some 1\<rparr>"
  have c: "udp_socket_crate os (\<lambda>_. cfg) sk (Some 0) (Some 1) = (sk', [Call_socket, Call_bind 5 0 9966, Call_close 5], -3)"
    by (simp add: os_def sk_def cfg_def sk'_def udp_socket_crate_def udp_socket_open_def)
  have "udp_socket_crate os (\<lambda>_. cfg) sk' (Some 0) (Some 1) = (sk', [], 0)"
    using udp_socket_crate_retry_lies [OF c, of 0 "[]" os "\<lambda>_. cfg" "Some 0" "Some 1" 0] by (simp add: sk_def)
  with c show ?thesis unfolding Let_def os_def sk_def cfg_def sk'_def by simp
qed

text \<open>
  The receive thread spins: \<^verbatim>\<open>select\<close> leaves the time not slept in the timeout that is set only once, so
  that after the first second without a datagram every wait has a timeout of zero.
\<close>
theorem udp_socket_task_spins:
  assumes "linux_select 1000000 (as @ a # bs)" "ready a = 0" "\<forall>b \<in> set as. 0 \<le> ready b"
    "\<And>st. us_bFlagClose (fst (data st)) = us_bFlagClose (fst st)" "\<not> us_bFlagClose (fst st)"
    "tvs = snd (snd (udp_task_loop data (as @ a # bs) 1000000 st))"
  shows "length as < length tvs \<and> set (drop (Suc (length as)) tvs) \<subseteq> {0}"
  by (rule udp_task_loop_spins [OF assms(4,2,1,3,5,6)])

theorem udp_socket_task_spins_witness:
  "let st = (\<lparr>us_bFlagInit = True, us_bFlagClose = False, us_iSocket = 3, us_pid = True, us_psCfg = Some 0, us_psCbk = Some 0\<rparr>, ());
      tvs = snd (snd (udp_task_loop id ([\<lparr>ready = 1, isset = True, tv_left = 400000\<rparr>] @
        \<lparr>ready = 0, isset = False, tv_left = 0\<rparr> # [\<lparr>ready = 0, isset = False, tv_left = 0\<rparr>]) 1000000 st))
   in length [\<lparr>ready = 1, isset = True, tv_left = 400000\<rparr>] < length tvs \<and>
      set (drop (Suc (length [\<lparr>ready = 1, isset = True, tv_left = 400000\<rparr>])) tvs) \<subseteq> {0}"
  unfolding Let_def
  by (rule udp_socket_task_spins [of "[\<lparr>ready = 1, isset = True, tv_left = 400000\<rparr>]", OF _ _ _ _ _ refl]) simp_all

end
