(* ===== verification/Eth_Link_Server.thy ===== *)
theory Eth_Link_Server
  imports Netcon_Protocol Udp_Socket Sysport_Task
begin

text \<open>
  The radar side of the network, \<^verbatim>\<open>srv/eth_link/eth_link_server.c\<close>: the AGX looks for radars by broadcast; for
  every radar that answers it opens a TCP server on a port of its own and tells the radar to connect there.

  The servers are nodes of a linked list in a store, as in the C program. The program keeps one
  \<^verbatim>\<open>eth_link_list_t\<close>, here \<open>eth_link_list\<close>; its \<^verbatim>\<open>next\<close> is always null. The addresses of new nodes, and
  whether \<^verbatim>\<open>tcp_server_create\<close> succeeds, are arguments. \<^verbatim>\<open>memset\<close> runs before the test for a null pointer, so a
  failed allocation is \<open>None\<close>.
\<close>

subsection \<open>State\<close>

record eth_link_tcp_server_list =
  ts_ulocalIp :: u32
  ts_wlocalPort :: u16
  ts_wConnectTime :: u16
  ts_bFlagConnect :: bool
  ts_bFlagClose :: bool
  radar_sn :: bytes
  ts_psUserCbk :: "nat option"
  ts_psNext :: "nat option"

record eth_link_list =
  el_net :: u8
  el_max :: u8
  cur_con :: u16
  el_type :: u16
  server_basical_port :: u16
  server_ip :: u32
  el_list :: "nat option"

type_synonym servers = "eth_link_tcp_server_list store"

definition RTH_LINK_NET_TCP_CLIENT :: u8 where "RTH_LINK_NET_TCP_CLIENT = 1"
definition AGX_MAX_DEFAULT_NUM :: u8 where "AGX_MAX_DEFAULT_NUM = 10"
definition AGX_DEFAULT_PORT_HEAD :: u16 where "AGX_DEFAULT_PORT_HEAD = 8070"
definition SERVER_TCP_TIMEOUT :: u16 where "SERVER_TCP_TIMEOUT = 5"

text \<open>\<^verbatim>\<open>"sn_init"\<close> with its terminating zero.\<close>

definition NETPOTOCAL_INITILA_SN :: bytes where
  "NETPOTOCAL_INITILA_SN = [115, 110, 95, 105, 110, 105, 116, 0]"

subsection \<open>The server list\<close>

text \<open>\<^verbatim>\<open>strncmp\<close> of two strings on at most \<open>n\<close> characters: they agree up to the first zero.\<close>

definition c_prefix :: "nat \<Rightarrow> bytes \<Rightarrow> bytes" where
  "c_prefix n b = takeWhile (\<lambda>c. c \<noteq> 0) (take n b)"

definition strncmp_eq :: "nat \<Rightarrow> bytes \<Rightarrow> bytes \<Rightarrow> bool" where
  "strncmp_eq n a b \<longleftrightarrow> c_prefix n a = c_prefix n b"

definition eth_link_create_tcp_server_list ::
  "nat option \<Rightarrow> bool \<Rightarrow> nat option \<Rightarrow> u16 \<Rightarrow> u32 \<Rightarrow> u16 \<Rightarrow> servers \<Rightarrow> int \<Rightarrow> (nat option \<times> servers \<times> int) option" where
  "eth_link_create_tcp_server_list new created cbk wConnectTime uIp wPort st cnt =
     (case new of
        None \<Rightarrow> None
      | Some a \<Rightarrow>
          if created then
            Some (Some a, st(a := \<lparr>ts_ulocalIp = uIp, ts_wlocalPort = wPort, ts_wConnectTime = wConnectTime,
              ts_bFlagConnect = False, ts_bFlagClose = False, radar_sn = replicate 32 0, ts_psUserCbk = cbk,
              ts_psNext = None\<rparr>), cnt + 1)
          else Some (None, st, cnt))"

text \<open>The search for a free port: at most a hundred candidates, wrapping at 65536.\<close>

fun port_loop :: "servers \<Rightarrow> nat option \<Rightarrow> nat \<Rightarrow> u16 \<Rightarrow> u16 option" where
  "port_loop st psList 0 port_sel = Some port_sel"
| "port_loop st psList (Suc k) port_sel = do {
     server_p \<leftarrow> find_walk ts_psNext (\<lambda>_ n. ts_wlocalPort n = port_sel) st psList;
     (case server_p of None \<Rightarrow> Some port_sel | Some _ \<Rightarrow> port_loop st psList k (port_sel + 1)) }"

definition get_unused_port :: "servers \<Rightarrow> nat option \<Rightarrow> u16 \<Rightarrow> u16 option" where
  "get_unused_port st psList basical_port = port_loop st psList 100 basical_port"

text \<open>
  The walk over the list: whether a server has the serial number, otherwise the last node and the number of
  nodes. On a cycle it does not return.
\<close>

partial_function (option) sn_walk :: "servers \<Rightarrow> bytes \<Rightarrow> nat \<Rightarrow> nat \<Rightarrow> (bool \<times> nat \<times> nat) option" where
  "sn_walk st sn p uCount =
     (if strncmp_eq 32 (radar_sn (st p)) sn then Some (True, p, uCount)
      else case ts_psNext (st p) of
             Some q \<Rightarrow> sn_walk st sn q (uCount + 1)
           | None \<Rightarrow> Some (False, p, uCount))"

text \<open>\<open>sn\<close> is the object the pointer points to; 32 bytes are copied from it.\<close>

definition eth_link_add_tcp_server_list ::
  "nat option \<Rightarrow> bool \<Rightarrow> nat option \<Rightarrow> bytes \<Rightarrow> u16 \<Rightarrow> eth_link_list \<Rightarrow> servers \<Rightarrow> int \<Rightarrow>
   (eth_link_list \<times> servers \<times> int \<times> i32) option" where
  "eth_link_add_tcp_server_list new created cbk sn wConnectTime e st cnt =
     (case el_list e of
        Some psList \<Rightarrow> do {
          (found, p, uCount) \<leftarrow> sn_walk st sn psList 1;
          if found then Some (e, st, cnt, -1)
          else if uCount = 1 \<and> strncmp_eq 7 (radar_sn (st p)) NETPOTOCAL_INITILA_SN then do {
            bs \<leftarrow> loadn sn 0 32;
            Some (e, st(p := (st p)\<lparr>radar_sn := bs\<rparr>), cnt, 0) }
          else if unat (el_max e) > uCount then do {
            port \<leftarrow> get_unused_port st (el_list e) (server_basical_port e);
            let e1 = e\<lparr>cur_con := port\<rparr>;
            (q, st1, cnt1) \<leftarrow> eth_link_create_tcp_server_list new created cbk wConnectTime (server_ip e) port st cnt;
            (case q of
               None \<Rightarrow> Some (e1, st1(p := (st1 p)\<lparr>ts_psNext := None\<rparr>), cnt1, -1)
             | Some a \<Rightarrow> do {
                 bs \<leftarrow> loadn sn 0 32;
                 let st2 = st1(p := (st1 p)\<lparr>ts_psNext := Some a\<rparr>);
                 Some (e1, st2(a := (st2 a)\<lparr>ts_psNext := None, radar_sn := bs\<rparr>), cnt1, 0) }) }
          else Some (e, st, cnt, -1) }
      | None \<Rightarrow> do {
          (q, st1, cnt1) \<leftarrow> eth_link_create_tcp_server_list new created cbk wConnectTime (server_ip e)
             (server_basical_port e) st cnt;
          (case q of
             None \<Rightarrow> Some (e\<lparr>el_list := None\<rparr>, st1, cnt1, -1)
           | Some a \<Rightarrow> do {
               bs \<leftarrow> loadn sn 0 32;
               Some (e\<lparr>el_list := Some a, cur_con := server_basical_port e\<rparr>,
                 st1(a := (st1 a)\<lparr>ts_psNext := None, radar_sn := bs\<rparr>), cnt1, 0) }) })"

text \<open>
  Removing a node, for any list with a head pointer: the loop of \<^verbatim>\<open>eth_link_del_tcp_server_list\<close>, in which
  \<^verbatim>\<open>psLast\<close> stays at the head.
\<close>

definition eth_link_del_tcp_server_list :: "nat \<Rightarrow> eth_link_list \<Rightarrow> servers \<Rightarrow> int \<Rightarrow> (eth_link_list \<times> servers \<times> int) option" where
  "eth_link_del_tcp_server_list psList e st cnt =
     (if Some psList = el_list e then Some (e\<lparr>el_list := ts_psNext (st psList)\<rparr>, st, cnt - 1)
      else do {
        found \<leftarrow> find_walk ts_psNext (\<lambda>a _. a = psList) st (el_list e);
        (case (found, el_list e) of
           (Some x, Some psLast) \<Rightarrow> Some (e, st(psLast := (st psLast)\<lparr>ts_psNext := ts_psNext (st x)\<rparr>), cnt - 1)
         | _ \<Rightarrow> Some (e, st, cnt - 1)) })"

subsection \<open>Registration and handshake\<close>

text \<open>
  \<open>eth0\<close> is the address of the network card, if it can be read: otherwise the buffer stays empty, because
  the default address is copied with the length of the empty buffer, and \<^verbatim>\<open>inet_addr("")\<close> is \<open>no_addr\<close>.
  \<open>after\<close> are the bytes that lie behind the literal \<^verbatim>\<open>"sn_init"\<close> in memory.
\<close>

definition INADDR_NONE :: u32 where "INADDR_NONE = 0xFFFFFFFF"

definition eth_server_register ::
  "bool \<Rightarrow> u32 option \<Rightarrow> bytes \<Rightarrow> nat option \<Rightarrow> bool \<Rightarrow> nat option \<Rightarrow> u8 \<Rightarrow> eth_link_list option \<Rightarrow> servers \<Rightarrow> int \<Rightarrow>
   (eth_link_list option \<times> servers \<times> int \<times> i32) option" where
  "eth_server_register avail eth0 after new created cbk net psEthList st cnt = do {
     (e, cnt1) \<leftarrow> (case psEthList of
        Some e \<Rightarrow> Some (e, cnt)
      | None \<Rightarrow>
          if avail then
            Some (\<lparr>el_net = net, el_max = AGX_MAX_DEFAULT_NUM, cur_con = 0, el_type = 1,
              server_basical_port = AGX_DEFAULT_PORT_HEAD,
              server_ip = (case eth0 of Some ip \<Rightarrow> ip | None \<Rightarrow> INADDR_NONE), el_list = None\<rparr>, cnt + 1)
          else None);
     (e', st', cnt', _) \<leftarrow> eth_link_add_tcp_server_list new created cbk (NETPOTOCAL_INITILA_SN @ after)
        SERVER_TCP_TIMEOUT e st cnt1;
     Some (Some e', st', cnt', 0) }"

definition eth_link_create_server ::
  "nat option \<Rightarrow> bool \<Rightarrow> nat option \<Rightarrow> bytes \<Rightarrow> eth_link_list option \<Rightarrow> servers \<Rightarrow> int \<Rightarrow>
   (eth_link_list option \<times> servers \<times> int \<times> i32) option" where
  "eth_link_create_server new created cbk sn psEthList st cnt =
     (case psEthList of
        None \<Rightarrow> Some (None, st, cnt, -1)
      | Some e \<Rightarrow>
          if el_net e = RTH_LINK_NET_TCP_CLIENT then do {
            (e', st', cnt', r) \<leftarrow> eth_link_add_tcp_server_list new created cbk sn SERVER_TCP_TIMEOUT e st cnt;
            Some (Some e', st', cnt', r) }
          else Some (Some e, st, cnt, -1))"

text \<open>
  The answer of a radar. \<open>psdev\<close> is the memory from the payload on, \<open>uIp\<close> the sender in host order and
  \<^verbatim>\<open>server_ip\<close> in network order. The request that goes out holds the address, the port and the serial
  number up to its first zero, which is searched beyond the 32 bytes of the member; more than 32 bytes
  overflow \<^verbatim>\<open>ep_ctlinfo.sn\<close>. The result ends with the datagram, if one is sent.
\<close>

definition htonl_u32 :: "u32 \<Rightarrow> u32" where
  "htonl_u32 w = of_le (rev (le_bytes 4 w))"

definition sn_field :: "bytes \<Rightarrow> bytes option" where
  "sn_field psdev = (if 4 \<le> length psdev \<and> 0 \<in> set (drop 4 psdev) then Some (takeWhile (\<lambda>c. c \<noteq> 0) (drop 4 psdev)) else None)"

definition server_search_handler ::
  "nat option \<Rightarrow> bool \<Rightarrow> nat option \<Rightarrow> bytes \<Rightarrow> u32 \<Rightarrow> eth_link_list option \<Rightarrow> servers \<Rightarrow> int \<Rightarrow>
   (eth_link_list option \<times> servers \<times> int \<times> bytes option) option" where
  "server_search_handler new created cbk psdev uIp psEthList st cnt = do {
     e0 \<leftarrow> psEthList;
     if htonl_u32 uIp = server_ip e0 then Some (psEthList, st, cnt, None)
     else do {
       (psEth', st', cnt', ret) \<leftarrow> eth_link_create_server new created cbk (drop 4 psdev) psEthList st cnt;
       if 0 \<noteq> ret then Some (psEth', st', cnt', None)
       else do {
         e \<leftarrow> psEth';
         let c0 = replicate (packed_size eth_protocol_cntinfo) 0;
         c1 \<leftarrow> set_field eth_protocol_cntinfo ''ip'' (le_bytes 4 (server_ip e)) c0;
         c2 \<leftarrow> set_field eth_protocol_cntinfo ''port'' (le_bytes 2 (cur_con e)) c1;
         sn \<leftarrow> sn_field psdev;
         c3 \<leftarrow> (if length sn \<le> 32 then storen c2 0 sn else None);
         c4 \<leftarrow> set_field eth_protocol_cntinfo ''type'' (le_bytes 2 (1 :: u16)) c3;
         (pkg, n) \<leftarrow> eth_protocol_get_request_package (replicate (packed_size eth_protocol_request) 0) c4;
         Some (psEth', st', cnt', Some (take (unat n) pkg)) } } }"

definition server_protocol_handler ::
  "nat option \<Rightarrow> bool \<Rightarrow> nat option \<Rightarrow> bytes \<Rightarrow> u32 \<Rightarrow> u32 \<Rightarrow> eth_link_list option \<Rightarrow> servers \<Rightarrow> int \<Rightarrow>
   (eth_link_list option \<times> servers \<times> int \<times> bytes option) option" where
  "server_protocol_handler new created cbk msg n uIp psEthList st cnt = do {
     pbyData \<leftarrow> eth_protocol_analysis msg n;
     (case pbyData of
        None \<Rightarrow> Some (psEthList, st, cnt, None)
      | Some i \<Rightarrow> do {
          mid \<leftarrow> load8 msg 6;
          if mid = NETPROTOCAL_MSG_ID_LOOKUP_RESP then
            server_search_handler new created cbk (drop i msg) uIp psEthList st cnt
          else Some (psEthList, st, cnt, None) }) }"

text \<open>The data callback of the broadcast socket: answers go to the sender's subnet. The result ends with what is sent.\<close>

definition server_udp_cbk_data ::
  "nat option \<Rightarrow> bool \<Rightarrow> nat option \<Rightarrow> udp_socket \<Rightarrow> i32 \<times> bytes \<times> u32 \<Rightarrow> eth_link_list option \<Rightarrow> servers \<Rightarrow> int \<Rightarrow>
   (udp_socket \<times> eth_link_list option \<times> servers \<times> int \<times> (u32 \<times> bytes) option) option" where
  "server_udp_cbk_data new created cbk sk answer psEthList st cnt =
     (case udp_socket_recv answer sk of
        (sk', iLength, bs, ip) \<Rightarrow> do {
          abyBuffer \<leftarrow> storen (replicate 512 0) 0 bs;
          let uIp = (case ip of None \<Rightarrow> 0xFFFFFFFF | Some a \<Rightarrow> a);
          (psEth', st', cnt', out) \<leftarrow> server_protocol_handler new created cbk abyBuffer (of_int iLength) uIp psEthList st cnt;
          Some (sk', psEth', st', cnt', map_option (Pair (uIp OR 0xFF)) out) })"

text \<open>
  The search task, for the values of \<^verbatim>\<open>exit_relase\<close> it reads: the datagrams it has sent, and whether it has ended.
\<close>

fun detect_loop :: "bytes \<Rightarrow> bool list \<Rightarrow> bytes list \<times> bool" where
  "detect_loop pkg [] = ([], False)"
| "detect_loop pkg (exit # rest) =
     (if exit then ([], True) else case detect_loop pkg rest of (out, ended) \<Rightarrow> (pkg # out, ended))"

definition find_online_detect_task :: "bool list \<Rightarrow> (bytes list \<times> bool) option" where
  "find_online_detect_task exits = do {
     (pkg, plen) \<leftarrow> eth_protocol_get_detect_package (replicate (packed_size eth_protocol_lookup) 0);
     Some (detect_loop (take (unat plen) pkg) exits) }"

definition server_cfg :: udp_socket_cfg where
  "server_cfg = \<lparr>bFlagRecv = True, bBroadcast = True, wRecvPort = 1810, wSendPort = 1800, uRecvIp = 0, uSendIp = 0xFFFFFFFF\<rparr>"

text \<open>
  \<^verbatim>\<open>detect_task\<close>: whether its identifier is that of a thread nobody has joined, the flag that ends the thread, and whether the thread has
  executed its first assignment, which clears the flag.
\<close>

record detect_task_res =
  detect_task_pid :: bool
  exit_relase :: bool
  dt_begun :: bool

definition detect_begin :: "detect_task_res \<Rightarrow> detect_task_res" where
  "detect_begin dt = dt\<lparr>exit_relase := False, dt_begun := True\<rparr>"

definition eth_link_server_init ::
  "i32 \<Rightarrow> udp_os \<Rightarrow> udp_socket \<times> detect_task_res \<Rightarrow> (udp_socket \<times> detect_task_res) \<times> net_call list \<times> i32" where
  "eth_link_server_init ret_thread os sd =
     (case udp_socket_crate os (\<lambda>_. server_cfg) (fst sd) (Some 0) (Some 0) of
        (sk', calls, eRet) \<Rightarrow>
          if 0 \<noteq> eRet then ((sk', snd sd), calls, eRet)
          else ((sk', if ret_thread = 0 then (snd sd)\<lparr>detect_task_pid := True, dt_begun := False\<rparr> else snd sd),
                calls @ [Call_pthread_create], ret_thread))"

text \<open>
  Shutting down closes the discovery socket and joins its thread, whose last turn may still handle a datagram; ends and joins the
  search task; and asks every server of the list to close, as \<^verbatim>\<open>tcp_server_close\<close> does. Joining a thread that was not created is undefined;
  a search task that has not begun clears the flag it was to see, so that the second join waits for ever: both are \<open>None\<close>.
\<close>

definition detect_join :: "detect_task_res \<Rightarrow> detect_task_res option" where
  "detect_join dt =
     (if \<not> detect_task_pid dt then None
      else let dt1 = (if dt_begun dt then dt else detect_begin dt)
           in if exit_relase dt1 then Some (dt1\<lparr>detect_task_pid := False\<rparr>) else None)"

definition ask_close :: "eth_link_tcp_server_list \<Rightarrow> eth_link_tcp_server_list" where
  "ask_close n = (if ts_bFlagConnect n then n\<lparr>ts_bFlagClose := True\<rparr> else n)"

partial_function (option) close_walk :: "servers \<Rightarrow> nat option \<Rightarrow> servers option" where
  "close_walk st p =
     (case p of
        None \<Rightarrow> Some st
      | Some a \<Rightarrow> close_walk (st(a := ask_close (st a))) (ts_psNext (ask_close (st a))))"

definition eth_link_server_uninit ::
  "(nat option \<times> bool \<times> nat option \<times> (i32 \<times> bytes \<times> u32)) option \<Rightarrow> udp_socket \<times> detect_task_res \<Rightarrow> eth_link_list option \<Rightarrow>
   servers \<Rightarrow> int \<Rightarrow> ((udp_socket \<times> detect_task_res) \<times> eth_link_list option \<times> servers \<times> int) option" where
  "eth_link_server_uninit last_turn sd psEthList st cnt = do {
     let data = (\<lambda>(new, created, cbk, answer) (sk, e, st, cnt).
       map_option (\<lambda>(sk', e', st', cnt', _). (sk', e', st', cnt')) (server_udp_cbk_data new created cbk sk answer e st cnt));
     ((sk, psEth, st1, cnt1), _) \<leftarrow> udp_socket_join (map_option data last_turn) (the (fst (udp_socket_close (Some (fst sd)))), psEthList, st, cnt);
     dt \<leftarrow> detect_join ((snd sd)\<lparr>exit_relase := True\<rparr>);
     st2 \<leftarrow> (case psEth of None \<Rightarrow> Some st1 | Some e \<Rightarrow> close_walk st1 (el_list e));
     Some ((sk, dt), psEth, st2, cnt1) }"

subsection \<open>The list behind the pointers\<close>

interpretation server_nodes: linked_nodes ts_psNext "\<lambda>p n. n\<lparr>ts_psNext := p\<rparr>"
  by unfold_locales simp

abbreviation node_sn :: "servers \<Rightarrow> nat \<Rightarrow> bytes" where
  "node_sn st x \<equiv> c_prefix 32 (radar_sn (st x))"

abbreviation is_init :: "bytes \<Rightarrow> bool" where
  "is_init sn \<equiv> strncmp_eq 7 sn NETPOTOCAL_INITILA_SN"

text \<open>
  The contract of the list: no two servers share a port or a serial number, there are at most \<^verbatim>\<open>max\<close> of
  them, and the server that waits for the first radar is alone and has the announced port.
\<close>

definition server_abs :: "eth_link_list \<Rightarrow> servers \<Rightarrow> nat list \<Rightarrow> bool" where
  "server_abs e st xs \<longleftrightarrow> hlist ts_psNext st (el_list e) xs \<and>
     distinct (map (\<lambda>x. ts_wlocalPort (st x)) xs) \<and> distinct (map (node_sn st) xs) \<and>
     length xs \<le> unat (el_max e) \<and>
     (\<forall>x \<in> set xs. is_init (radar_sn (st x)) \<longrightarrow> xs = [x] \<and> cur_con e = ts_wlocalPort (st x))"

lemma sn_walk_found:
  "hlist ts_psNext st (Some p) xs \<Longrightarrow> c_prefix 32 sn \<in> node_sn st ` set xs \<Longrightarrow> \<exists>x c'. sn_walk st sn p c = Some (True, x, c')"
proof (induction xs arbitrary: p c)
  case (Cons x xs)
  show ?case
  proof (cases "node_sn st p = c_prefix 32 sn")
    case True
    then show ?thesis by (simp add: sn_walk.simps strncmp_eq_def)
  next
    case False
    with Cons.prems obtain q where "ts_psNext (st p) = Some q" "hlist ts_psNext st (Some q) xs"
      "c_prefix 32 sn \<in> node_sn st ` set xs" by (cases "ts_psNext (st p)") auto
    with Cons.IH False show ?thesis by (simp add: sn_walk.simps [of st sn p] strncmp_eq_def)
  qed
qed simp

lemma sn_walk_absent:
  "hlist ts_psNext st (Some p) xs \<Longrightarrow> c_prefix 32 sn \<notin> node_sn st ` set xs \<Longrightarrow>
    sn_walk st sn p c = Some (False, last xs, c + length xs - 1)"
proof (induction xs arbitrary: p c)
  case (Cons x xs)
  then have p: "x = p" "node_sn st p \<noteq> c_prefix 32 sn" by auto
  show ?case
  proof (cases "ts_psNext (st p)")
    case None
    with Cons.prems p show ?thesis by (simp add: sn_walk.simps strncmp_eq_def)
  next
    case (Some q)
    with Cons.prems have "hlist ts_psNext st (Some q) xs" "xs \<noteq> []" "c_prefix 32 sn \<notin> node_sn st ` set xs" by auto
    with Cons.IH [of q "c + 1"] Some p show ?thesis by (simp add: sn_walk.simps [of st sn p] strncmp_eq_def)
  qed
qed simp

subsection \<open>Ports\<close>

definition candidates :: "u16 \<Rightarrow> nat \<Rightarrow> u16 list" where
  "candidates p k = map (\<lambda>i. p + of_nat i) [0..<k]"

lemma candidates_Suc: "candidates p (Suc k) = p # candidates (p + 1) k"
proof -
  have "[0..<Suc k] = 0 # map Suc [0..<k]" by (simp add: upt_conv_Cons map_Suc_upt del: upt_Suc)
  then show ?thesis by (simp add: candidates_def o_def add.assoc del: upt_Suc)
qed

lemma distinct_candidates: "k \<le> 65536 \<Longrightarrow> distinct (candidates p k)"
  unfolding candidates_def distinct_map
proof (intro conjI inj_onI)
  fix i j assume "k \<le> 65536" "i \<in> set [0..<k]" "j \<in> set [0..<k]" "p + of_nat i = p + of_nat j"
  then have e: "(of_nat i :: u16) = of_nat j" and l: "i < 65536" "j < 65536" by auto
  have "i = unat (of_nat i :: u16)" using l(1) by (subst unat_of_nat_small) simp_all
  also have "\<dots> = unat (of_nat j :: u16)" by (simp only: e)
  also have "\<dots> = j" using l(2) by (subst unat_of_nat_small) simp_all
  finally show "i = j" .
qed simp

lemma port_loop_free:
  assumes "hlist ts_psNext st psList xs" "U = (\<lambda>x. ts_wlocalPort (st x)) ` set xs"
  shows "\<exists>c \<in> set (candidates p k). c \<notin> U \<Longrightarrow> \<exists>q. port_loop st psList k p = Some q \<and> q \<notin> U"
proof (induction k arbitrary: p)
  case 0
  then show ?case by (simp add: candidates_def)
next
  case (Suc k)
  have f: "find_walk ts_psNext (\<lambda>_ n. ts_wlocalPort n = p) st psList = Some (List.find (\<lambda>a. ts_wlocalPort (st a) = p) xs)"
    by (rule find_walk_hlist [OF assms(1)])
  show ?case
  proof (cases "p \<in> U")
    case True
    then obtain x where "List.find (\<lambda>a. ts_wlocalPort (st a) = p) xs = Some x"
      using assms(2) by (cases "List.find (\<lambda>a. ts_wlocalPort (st a) = p) xs") (auto simp: find_None_iff)
    moreover have "\<exists>q. port_loop st psList k (p + 1) = Some q \<and> q \<notin> U"
      using Suc True by (auto simp: candidates_Suc)
    ultimately show ?thesis using f by simp
  next
    case False
    then have "List.find (\<lambda>a. ts_wlocalPort (st a) = p) xs = None"
      using assms(2) by (auto simp: find_None_iff)
    with f False show ?thesis by simp
  qed
qed

lemma unused_port_free:
  assumes "hlist ts_psNext st psList xs" "length xs < 100"
  shows "\<exists>q. get_unused_port st psList p = Some q \<and> q \<notin> (\<lambda>x. ts_wlocalPort (st x)) ` set xs"
proof -
  let ?U = "(\<lambda>x. ts_wlocalPort (st x)) ` set xs"
  have "card ?U \<le> length xs" by (meson card_image_le card_length finite_set le_trans)
  also have "\<dots> < card (set (candidates p 100))"
    using distinct_card [OF distinct_candidates [of 100 p]] assms(2) by (simp add: candidates_def)
  finally have "\<not> set (candidates p 100) \<subseteq> ?U" using card_mono [of ?U "set (candidates p 100)"] by auto
  then show ?thesis
    unfolding get_unused_port_def by (intro port_loop_free [OF assms(1) refl]) auto
qed

subsection \<open>Adding a server\<close>

lemma hlist_append_node:
  assumes "hlist nxt st p xs" "xs \<noteq> []" "nxt (st' (last xs)) = Some a" "nxt (st' a) = None"
    "\<And>x. x \<in> set xs \<Longrightarrow> x \<noteq> last xs \<Longrightarrow> nxt (st' x) = nxt (st x)"
  shows "hlist nxt st' p (xs @ [a])"
  using assms
proof (induction xs arbitrary: p)
  case (Cons x xs)
  show ?case
  proof (cases "xs = []")
    case True
    with Cons.prems show ?thesis by simp
  next
    case False
    have d: "x \<noteq> last xs" using hlist_distinct [OF Cons.prems(1)] False by auto
    have "hlist nxt st' (nxt (st x)) (xs @ [a])"
      using Cons.prems False by (intro Cons.IH) auto
    moreover have "nxt (st' x) = nxt (st x)" using Cons.prems(5) d False by simp
    ultimately show ?thesis using Cons.prems(1) by simp
  qed
qed simp

text \<open>The three ways in which a server is found for a radar, and the two in which none is.\<close>

lemma add_first:
  assumes "el_list e = None" "32 \<le> length sn" "0 < unat (el_max e)"
  shows "\<exists>e' st'. eth_link_add_tcp_server_list (Some a) True cbk sn t e st cnt = Some (e', st', cnt + 1, 0) \<and>
    server_abs e' st' [a] \<and> radar_sn (st' a) = take 32 sn \<and> cur_con e' = ts_wlocalPort (st' a) \<and> server_ip e' = server_ip e \<and>
    el_net e' = el_net e"
  using assms by (auto simp: eth_link_add_tcp_server_list_def eth_link_create_tcp_server_list_def loadn_def server_abs_def)

lemma c_prefix_take: "c_prefix 32 (take 32 sn) = c_prefix 32 sn"
  by (simp add: c_prefix_def)

lemma add_init:
  assumes "server_abs e st [p]" "is_init (radar_sn (st p))" "c_prefix 32 sn \<noteq> node_sn st p" "32 \<le> length sn"
  shows "\<exists>st'. eth_link_add_tcp_server_list new created cbk sn t e st cnt = Some (e, st', cnt, 0) \<and>
    server_abs e st' [p] \<and> radar_sn (st' p) = take 32 sn \<and> cur_con e = ts_wlocalPort (st' p)"
proof -
  have h: "hlist ts_psNext st (el_list e) [p]" "el_list e = Some p" using assms(1) by (auto simp: server_abs_def)
  have w: "sn_walk st sn p 1 = Some (False, p, 1)"
    using sn_walk_absent [of st p "[p]" sn 1] h assms(3) by simp
  let ?st = "st(p := (st p)\<lparr>radar_sn := take 32 sn\<rparr>)"
  have "eth_link_add_tcp_server_list new created cbk sn t e st cnt = Some (e, ?st, cnt, 0)"
    using h(2) w assms(2,4) by (simp add: eth_link_add_tcp_server_list_def loadn_def)
  moreover have "server_abs e ?st [p]" using assms(1,2) by (auto simp: server_abs_def)
  ultimately show ?thesis using assms(1,2) by (auto simp: server_abs_def)
qed

lemma add_next:
  assumes "server_abs e st xs" "xs \<noteq> []" "c_prefix 32 sn \<notin> node_sn st ` set xs" "32 \<le> length sn" "a \<notin> set xs"
    "length xs < unat (el_max e)" "length xs < 100" "\<not> (\<exists>p. xs = [p] \<and> is_init (radar_sn (st p)))"
    "\<not> is_init (take 32 sn)"
  shows "\<exists>e' st'. eth_link_add_tcp_server_list (Some a) True cbk sn t e st cnt = Some (e', st', cnt + 1, 0) \<and>
    server_abs e' st' (xs @ [a]) \<and> radar_sn (st' a) = take 32 sn \<and> cur_con e' = ts_wlocalPort (st' a) \<and>
    server_ip e' = server_ip e \<and> el_net e' = el_net e"
proof -
  have h: "hlist ts_psNext st (el_list e) xs" using assms(1) by (simp add: server_abs_def)
  then obtain p where p: "el_list e = Some p" using assms(2) by (cases "el_list e") auto
  have w: "sn_walk st sn p 1 = Some (False, last xs, length xs)"
    using sn_walk_absent [of st p xs sn 1] h p assms(2,3) by simp
  have single: "\<not> (length xs = 1 \<and> is_init (radar_sn (st (last xs))))"
  proof
    assume l: "length xs = 1 \<and> is_init (radar_sn (st (last xs)))"
    then obtain q where "xs = [q]" by (metis One_nat_def length_0_conv length_Suc_conv)
    with l assms(8) show False by simp
  qed
  obtain q where q: "get_unused_port st (el_list e) (server_basical_port e) = Some q"
    "q \<notin> (\<lambda>x. ts_wlocalPort (st x)) ` set xs"
    using unused_port_free [OF h assms(7)] by blast
  define n where "n = \<lparr>ts_ulocalIp = server_ip e, ts_wlocalPort = q, ts_wConnectTime = t,
      ts_bFlagConnect = False, ts_bFlagClose = False, radar_sn = take 32 sn, ts_psUserCbk = cbk, ts_psNext = None\<rparr>"
  define st' where "st' = st(last xs := (st (last xs))\<lparr>ts_psNext := Some a\<rparr>, a := n)"
  have la: "last xs \<in> set xs" "last xs \<noteq> a" using assms(2,5) by auto
  have r: "eth_link_add_tcp_server_list (Some a) True cbk sn t e st cnt = Some (e\<lparr>cur_con := q\<rparr>, st', cnt + 1, 0)"
    using p w single assms(4,6) q(1) la(2)
    by (auto simp: eth_link_add_tcp_server_list_def eth_link_create_tcp_server_list_def loadn_def Let_def st'_def n_def fun_upd_twist)
  have same: "ts_wlocalPort (st' x) = ts_wlocalPort (st x)" "radar_sn (st' x) = radar_sn (st x)" if "x \<in> set xs" for x
    using that assms(5) by (auto simp: st'_def)
  have "hlist ts_psNext st' (el_list e) (xs @ [a])"
    by (rule hlist_append_node [OF h assms(2)]) (use la assms(5) in \<open>auto simp: st'_def n_def\<close>)
  moreover have "distinct (map (\<lambda>x. ts_wlocalPort (st' x)) (xs @ [a]))"
  proof -
    have "map (\<lambda>x. ts_wlocalPort (st' x)) (xs @ [a]) = map (\<lambda>x. ts_wlocalPort (st x)) xs @ [q]"
      using same by (simp add: st'_def n_def)
    then show ?thesis using assms(1) q(2) by (simp only: server_abs_def distinct_append set_map) simp
  qed
  moreover have "distinct (map (node_sn st') (xs @ [a]))"
  proof -
    have "map (node_sn st') (xs @ [a]) = map (node_sn st) xs @ [c_prefix 32 sn]"
      using same by (simp add: st'_def n_def c_prefix_take)
    then show ?thesis using assms(1,3) by (simp only: server_abs_def distinct_append set_map) simp
  qed
  moreover have "\<not> is_init (radar_sn (st' x))" if "x \<in> set (xs @ [a])" for x
  proof (cases "x = a")
    case True
    then show ?thesis using assms(9) by (simp add: st'_def n_def)
  next
    case False
    with that have x: "x \<in> set xs" by simp
    then have "is_init (radar_sn (st x)) \<Longrightarrow> xs = [x]" using assms(1) by (auto simp: server_abs_def)
    with x same assms(8) show ?thesis by auto
  qed
  ultimately have "server_abs (e\<lparr>cur_con := q\<rparr>) st' (xs @ [a])"
    using assms(6) unfolding server_abs_def by simp
  with r show ?thesis by (auto simp: st'_def n_def)
qed

lemma add_refused:
  assumes "server_abs e st xs" "xs \<noteq> []" "c_prefix 32 sn \<in> node_sn st ` set xs \<or>
    (length xs = unat (el_max e) \<and> \<not> (\<exists>p. xs = [p] \<and> is_init (radar_sn (st p))))"
  shows "eth_link_add_tcp_server_list new created cbk sn t e st cnt = Some (e, st, cnt, -1)"
proof -
  have h: "hlist ts_psNext st (el_list e) xs" using assms(1) by (simp add: server_abs_def)
  then obtain p where p: "el_list e = Some p" using assms(2) by (cases "el_list e") auto
  show ?thesis
  proof (cases "c_prefix 32 sn \<in> node_sn st ` set xs")
    case True
    then obtain x c where "sn_walk st sn p 1 = Some (True, x, c)"
      using sn_walk_found [of st p xs sn 1] h p by auto
    then show ?thesis by (simp add: eth_link_add_tcp_server_list_def p)
  next
    case False
    have w: "sn_walk st sn p 1 = Some (False, last xs, length xs)"
      using sn_walk_absent [of st p xs sn 1] h p assms(2) False by simp
    have "\<not> (length xs = 1 \<and> is_init (radar_sn (st (last xs))))"
    proof
      assume l: "length xs = 1 \<and> is_init (radar_sn (st (last xs)))"
      then obtain q where "xs = [q]" by (metis One_nat_def length_0_conv length_Suc_conv)
      with l assms(3) False show False by simp
    qed
    with w p assms(3) False show ?thesis by (auto simp: eth_link_add_tcp_server_list_def)
  qed
qed

lemma server_add:
  assumes "server_abs e st xs" "0 < unat (el_max e)" "unat (el_max e) \<le> 100" "a \<notin> set xs" "32 \<le> length sn"
    "\<not> is_init (take 32 sn)"
  shows "\<exists>e' st' cnt' r xs'. eth_link_add_tcp_server_list (Some a) True cbk sn t e st cnt = Some (e', st', cnt', r) \<and>
    server_abs e' st' xs' \<and> set xs \<subseteq> set xs' \<and> server_ip e' = server_ip e \<and> el_net e' = el_net e \<and>
    (if r = 0 then \<exists>x \<in> set xs'. radar_sn (st' x) = take 32 sn \<and> cur_con e' = ts_wlocalPort (st' x)
     else xs' = xs \<and> (c_prefix 32 sn \<in> node_sn st ` set xs \<or> length xs = unat (el_max e)))"
proof -
  consider "xs = []"
    | "xs \<noteq> []" "c_prefix 32 sn \<in> node_sn st ` set xs \<or>
        (length xs = unat (el_max e) \<and> \<not> (\<exists>p. xs = [p] \<and> is_init (radar_sn (st p))))"
    | p where "xs = [p]" "is_init (radar_sn (st p))" "c_prefix 32 sn \<noteq> node_sn st p"
    | "xs \<noteq> []" "c_prefix 32 sn \<notin> node_sn st ` set xs" "length xs \<noteq> unat (el_max e)"
        "\<not> (\<exists>p. xs = [p] \<and> is_init (radar_sn (st p)))"
    by (cases "xs = []"; cases "c_prefix 32 sn \<in> node_sn st ` set xs"; cases "\<exists>p. xs = [p] \<and> is_init (radar_sn (st p))") auto
  then show ?thesis
  proof cases
    case 1
    then have "el_list e = None" using assms(1) by (simp add: server_abs_def)
    from add_first [OF this assms(5,2), of a cbk t st cnt] obtain e' st' where
      "eth_link_add_tcp_server_list (Some a) True cbk sn t e st cnt = Some (e', st', cnt + 1, 0)"
      "server_abs e' st' [a]" "radar_sn (st' a) = take 32 sn" "cur_con e' = ts_wlocalPort (st' a)"
      "server_ip e' = server_ip e" "el_net e' = el_net e" by blast
    note r = this 1
    show ?thesis
      by (rule exI [of _ e'], rule exI [of _ st'], rule exI [of _ "cnt + 1"], rule exI [of _ "0 :: int"], rule exI [of _ "[a]"])
        (use r in simp)
  next
    case 2
    note r = add_refused [OF assms(1) this] assms(1) 2(2)
    show ?thesis
      by (rule exI [of _ e], rule exI [of _ st], rule exI [of _ cnt], rule exI [of _ "-1 :: int"], rule exI [of _ xs])
        (use r in auto)
  next
    case 3
    have "server_abs e st [p]" using assms(1) 3(1) by simp
    from add_init [OF this 3(2,3) assms(5), of "Some a" True cbk t cnt] obtain st' where "eth_link_add_tcp_server_list (Some a) True cbk sn t e st cnt = Some (e, st', cnt, 0)"
      "server_abs e st' [p]" "radar_sn (st' p) = take 32 sn" "cur_con e = ts_wlocalPort (st' p)" by blast
    with 3(1) show ?thesis by auto
  next
    case 4
    have l: "length xs < unat (el_max e)" using 4(3) assms(1) by (simp add: server_abs_def)
    have "length xs < 100" using l assms(3) by simp
    from add_next [OF assms(1) 4(1,2) assms(5,4) l this 4(4) assms(6), of cbk t cnt] obtain e' st' where
      r: "eth_link_add_tcp_server_list (Some a) True cbk sn t e st cnt = Some (e', st', cnt + 1, 0)"
      "server_abs e' st' (xs @ [a])" "radar_sn (st' a) = take 32 sn" "cur_con e' = ts_wlocalPort (st' a)"
      "server_ip e' = server_ip e" "el_net e' = el_net e" by blast
    show ?thesis
      by (rule exI [of _ e'], rule exI [of _ st'], rule exI [of _ "cnt + 1"], rule exI [of _ "0 :: int"], rule exI [of _ "xs @ [a]"])
        (use r in auto)
  qed
qed

subsection \<open>Removing a server\<close>

lemma hlist_skip:
  assumes "hlist nxt st (Some h) (h # ys @ x # zs)" "nxt (st' h) = nxt (st x)" "\<And>y. y \<noteq> h \<Longrightarrow> nxt (st' y) = nxt (st y)"
  shows "hlist nxt st' (Some h) (h # zs)"
proof -
  have "hlist nxt st (nxt (st x)) zs"
    using hlist_suffix [of nxt st "Some h" "h # ys" x zs] assms(1) by simp
  then have "hlist nxt st' (nxt (st x)) zs"
  proof (rule hlist_cong)
    fix y assume "y \<in> set zs"
    then have "y \<noteq> h" using hlist_distinct [OF assms(1)] by auto
    then show "nxt (st' y) = nxt (st y)" by (rule assms(3))
  qed
  then show ?thesis using assms(2) by simp
qed

lemma server_del_head:
  assumes "hlist ts_psNext st (el_list e) (x # zs)"
  shows "\<exists>e'. eth_link_del_tcp_server_list x e st cnt = Some (e', st, cnt - 1) \<and> hlist ts_psNext st (el_list e') zs"
  using assms by (simp add: eth_link_del_tcp_server_list_def)

lemma server_del_inner_eq:
  assumes "hlist ts_psNext st (el_list e) (h # ys @ x # zs)"
    "st' = st(h := (st h)\<lparr>ts_psNext := ts_psNext (st x)\<rparr>)"
  shows "eth_link_del_tcp_server_list x e st cnt = Some (e, st', cnt - 1)" "hlist ts_psNext st' (el_list e) (h # zs)"
proof -
  have l: "el_list e = Some h" using assms(1) by simp
  have d: "distinct (h # ys @ x # zs)" by (rule hlist_distinct [OF assms(1)])
  have "List.find (\<lambda>a. a = x) (h # ys @ x # zs) = Some x"
    using d by (cases "List.find (\<lambda>a. a = x) (h # ys @ x # zs)") (auto simp: find_None_iff find_Some_iff)
  then have f: "find_walk ts_psNext (\<lambda>a _. a = x) st (el_list e) = Some (Some x)"
    using find_walk_hlist [OF assms(1), of "\<lambda>a _. a = x"] by simp
  show "eth_link_del_tcp_server_list x e st cnt = Some (e, st', cnt - 1)"
    using f l d by (auto simp: eth_link_del_tcp_server_list_def assms(2))
  have "hlist ts_psNext st' (Some h) (h # zs)"
    unfolding assms(2) by (rule hlist_skip [of _ st _ ys x]) (use assms(1) l in simp_all)
  with l show "hlist ts_psNext st' (el_list e) (h # zs)" by simp
qed

lemma server_del_inner:
  assumes "hlist ts_psNext st (el_list e) (h # ys @ x # zs)"
  shows "\<exists>st'. eth_link_del_tcp_server_list x e st cnt = Some (e, st', cnt - 1) \<and>
    hlist ts_psNext st' (el_list e) (h # zs)"
  using server_del_inner_eq [OF assms refl] by blast

subsection \<open>The connection request\<close>

definition request_info :: "bytes \<Rightarrow> u32 \<Rightarrow> u16 \<Rightarrow> bytes" where
  "request_info sn ip port = sn @ replicate (32 - length sn) 0 @ le_bytes 4 ip @ le_bytes 2 port @ le_bytes 2 (1 :: u16)"

lemma length_request_info [simp]: "length sn \<le> 32 \<Longrightarrow> length (request_info sn ip port) = 40"
  by (simp add: request_info_def)

lemma request_frame:
  assumes "length ctl = 40" "F = frame 0 0xFF DEV_ID_AGX NETPROTOCAL_MSG_ID_REQUEST_CONNECT 0 ctl"
  shows "length F = 51" "eth_protocol_analysis F 51 = Some (Some 9)" "loadn F 9 40 = Some ctl"
    "load8 F 6 = Some NETPROTOCAL_MSG_ID_REQUEST_CONNECT"
proof -
  show l: "length F = 51" using assms by simp
  have "valid_package F" using assms by (simp add: valid_frame)
  then show "eth_protocol_analysis F 51 = Some (Some 9)" using eth_protocol_analysis_valid [of F 51] l by simp
  show "loadn F 9 40 = Some ctl"
    using payload_frame [of ctl 0 "0xFF" DEV_ID_AGX NETPROTOCAL_MSG_ID_REQUEST_CONNECT 0] l assms
    by (simp add: loadn_def)
  show "load8 F 6 = Some NETPROTOCAL_MSG_ID_REQUEST_CONNECT"
    using l by (simp add: load8_def) (simp add: assms(2) nth_frame_head)
qed

lemma request_fields:
  assumes "length sn \<le> 32"
  shows "\<exists>c1 c2 c3. set_field eth_protocol_cntinfo ''ip'' (le_bytes 4 ip) (replicate 40 0) = Some c1 \<and>
    set_field eth_protocol_cntinfo ''port'' (le_bytes 2 port) c1 = Some c2 \<and> storen c2 0 sn = Some c3 \<and>
    set_field eth_protocol_cntinfo ''type'' (le_bytes 2 (1 :: u16)) c3 = Some (request_info sn ip port)"
  using assms
  by (simp add: set_field_def eth_protocol_cntinfo_def storen_def request_info_def replicate_add [symmetric]
      del: le_bytes.simps)

lemma search_handler_sends:
  assumes "eth_link_create_server new created cbk (drop 4 psdev) (Some e0) st cnt = Some (Some e, st', cnt', 0)"
    "htonl_u32 uIp \<noteq> server_ip e0" "sn_field psdev = Some sn" "length sn \<le> 32"
  shows "server_search_handler new created cbk psdev uIp (Some e0) st cnt = Some (Some e, st', cnt',
    Some (frame 0 0xFF DEV_ID_AGX NETPROTOCAL_MSG_ID_REQUEST_CONNECT 0 (request_info sn (server_ip e) (cur_con e))))"
proof -
  let ?c = "request_info sn (server_ip e) (cur_con e)"
  obtain c1 c2 c3 where c: "set_field eth_protocol_cntinfo ''ip'' (le_bytes 4 (server_ip e)) (replicate 40 0) = Some c1"
    "set_field eth_protocol_cntinfo ''port'' (le_bytes 2 (cur_con e)) c1 = Some c2" "storen c2 0 sn = Some c3"
    "set_field eth_protocol_cntinfo ''type'' (le_bytes 2 (1 :: u16)) c3 = Some ?c"
    using request_fields [OF assms(4)] by metis
  have r: "eth_protocol_get_request_package (replicate 51 0) ?c =
      Some (frame 0 0xFF DEV_ID_AGX NETPROTOCAL_MSG_ID_REQUEST_CONNECT 0 ?c, 51)"
    using request_package [of ?c "replicate 51 0"] assms(4) by simp
  have t: "take 51 (frame 0 0xFF DEV_ID_AGX NETPROTOCAL_MSG_ID_REQUEST_CONNECT 0 ?c) =
      frame 0 0xFF DEV_ID_AGX NETPROTOCAL_MSG_ID_REQUEST_CONNECT 0 ?c"
    using request_frame(1) [OF _ refl, of ?c] assms(4) by simp
  show ?thesis
    using assms by (simp add: server_search_handler_def c r t Let_def del: le_bytes.simps)
qed

subsection \<open>Properties\<close>

text \<open>
  C14. Adding a radar to the server list keeps the list's contract, that no two servers share a port or a
  serial number and that there are at most \<^verbatim>\<open>max\<close>: every server that was there stays; success means that a
  server with the radar's serial number is in the list and that \<^verbatim>\<open>cur_con\<close>, the port that is announced to the radar,
  is that server's; a refusal means that the radar is known or the list full, and changes nothing in the list.
\<close>
theorem eth_link_add_tcp_server_list_keeps:
  assumes "server_abs e st xs" "0 < unat (el_max e)" "unat (el_max e) \<le> 100" "a \<notin> set xs" "32 \<le> length sn"
    "\<not> is_init (take 32 sn)"
  shows "\<exists>e' st' cnt' r xs'. eth_link_add_tcp_server_list (Some a) True cbk sn t e st cnt = Some (e', st', cnt', r) \<and>
    server_abs e' st' xs' \<and> set xs \<subseteq> set xs' \<and> server_ip e' = server_ip e \<and> el_net e' = el_net e \<and>
    (if r = 0 then \<exists>x \<in> set xs'. radar_sn (st' x) = take 32 sn \<and> cur_con e' = ts_wlocalPort (st' x)
     else xs' = xs \<and> (c_prefix 32 sn \<in> node_sn st ` set xs \<or> length xs = unat (el_max e)))"
  by (rule server_add [OF assms])

definition eth_list0 :: eth_link_list where
  "eth_list0 = \<lparr>el_net = RTH_LINK_NET_TCP_CLIENT, el_max = AGX_MAX_DEFAULT_NUM, cur_con = 0, el_type = 1,
     server_basical_port = AGX_DEFAULT_PORT_HEAD, server_ip = 0xC801A8C0, el_list = None\<rparr>"

lemma eth_list0_abs: "server_abs eth_list0 st []"
  by (simp add: server_abs_def eth_list0_def)

theorem eth_link_add_tcp_server_list_keeps_witness:
  "\<exists>e' st' cnt' r xs'. eth_link_add_tcp_server_list (Some 4096) True None (replicate 32 65) 5 eth_list0 (\<lambda>_. undefined) 0 =
      Some (e', st', cnt', r) \<and> server_abs e' st' xs' \<and>
    (if r = 0 then \<exists>x \<in> set xs'. radar_sn (st' x) = replicate 32 65 \<and> cur_con e' = ts_wlocalPort (st' x) else xs' = [])"
proof -
  have m: "unat (el_max eth_list0) = 10" by (simp add: eth_list0_def AGX_MAX_DEFAULT_NUM_def)
  have i: "\<not> is_init (take 32 (replicate 32 65))" by code_simp
  have pre: "0 < unat (el_max eth_list0)" "unat (el_max eth_list0) \<le> 100" "4096 \<notin> set []"
    "32 \<le> length (replicate 32 65 :: bytes)" using m by simp_all
  show ?thesis
    using eth_link_add_tcp_server_list_keeps [OF eth_list0_abs [of "\<lambda>_. undefined"] pre i, of None 5 0]
    unfolding if_bool_eq_conj take_replicate min.idem by blast
qed

text \<open>
  With fewer than a hundred servers in the list, the search for a port ends with one that no server of
  the list uses, whatever the first candidate, also when the candidates wrap around at 65536.
\<close>
theorem get_unused_port_is_unused:
  assumes "hlist ts_psNext st psList xs" "length xs < 100"
  shows "\<exists>q. get_unused_port st psList p = Some q \<and> q \<notin> (\<lambda>x. ts_wlocalPort (st x)) ` set xs"
  by (rule unused_port_free [OF assms])

definition two_servers :: servers where
  "two_servers x = \<lparr>ts_ulocalIp = 0, ts_wlocalPort = (if x = 1 then 65535 else 0), ts_wConnectTime = 5,
     ts_bFlagConnect = False, ts_bFlagClose = False, radar_sn = replicate 32 (of_nat x), ts_psUserCbk = None,
     ts_psNext = (if x = 1 then Some 2 else None)\<rparr>"

theorem get_unused_port_is_unused_witness:
  "\<exists>q. get_unused_port two_servers (Some 1) 65535 = Some q \<and> q \<notin> {65535, 0}"
  using get_unused_port_is_unused [of two_servers "Some 1" "[1, 2]" 65535] by (auto simp: two_servers_def)

lemma search_offer:
  assumes "server_abs e st xs" "0 < unat (el_max e)" "unat (el_max e) \<le> 100" "a \<notin> set xs" "36 \<le> length psdev"
    "\<not> is_init (take 32 (drop 4 psdev))" "c_prefix 32 (drop 4 psdev) \<notin> node_sn st ` set xs"
    "length xs < unat (el_max e)" "el_net e = RTH_LINK_NET_TCP_CLIENT" "htonl_u32 uIp \<noteq> server_ip e"
    "sn_field psdev = Some sn" "length sn \<le> 32"
  shows "\<exists>e' st' cnt' xs' x. server_search_handler (Some a) True cbk psdev uIp (Some e) st cnt = Some (Some e', st', cnt',
      Some (frame 0 0xFF DEV_ID_AGX NETPROTOCAL_MSG_ID_REQUEST_CONNECT 0 (request_info sn (server_ip e) (ts_wlocalPort (st' x))))) \<and>
    server_abs e' st' xs' \<and> x \<in> set xs' \<and> radar_sn (st' x) = take 32 (drop 4 psdev)"
proof -
  have "32 \<le> length (drop 4 psdev)" using assms(5) by simp
  from server_add [OF assms(1-4) this assms(6), of cbk SERVER_TCP_TIMEOUT cnt] assms(7,8)
  obtain e' st' cnt' xs' x where
    r: "eth_link_add_tcp_server_list (Some a) True cbk (drop 4 psdev) SERVER_TCP_TIMEOUT e st cnt = Some (e', st', cnt', 0)"
    and i: "server_abs e' st' xs'" "server_ip e' = server_ip e"
    and x: "x \<in> set xs'" "radar_sn (st' x) = take 32 (drop 4 psdev)" "cur_con e' = ts_wlocalPort (st' x)"
    by (auto split: if_splits)
  have "eth_link_create_server (Some a) True cbk (drop 4 psdev) (Some e) st cnt = Some (Some e', st', cnt', 0)"
    using r assms(9) by (simp add: eth_link_create_server_def)
  note s = search_handler_sends [OF this assms(10-12)]
  show ?thesis using s i x by auto
qed

text \<open>
  The answer of a new radar, while there is room and it does not come from the AGX itself, is answered by one package
  that the protocol accepts as a connection request: it carries the radar's serial number, the address of
  the AGX and the port of the very server that was set up for that radar.
\<close>
theorem search_answer_offers_own_server:
  assumes "server_abs e st xs" "0 < unat (el_max e)" "unat (el_max e) \<le> 100" "a \<notin> set xs" "36 \<le> length psdev"
    "\<not> is_init (take 32 (drop 4 psdev))" "c_prefix 32 (drop 4 psdev) \<notin> node_sn st ` set xs"
    "length xs < unat (el_max e)" "el_net e = RTH_LINK_NET_TCP_CLIENT" "htonl_u32 uIp \<noteq> server_ip e"
    "sn_field psdev = Some sn" "length sn \<le> 32"
  shows "\<exists>e' st' cnt' xs' x m. server_search_handler (Some a) True cbk psdev uIp (Some e) st cnt = Some (Some e', st', cnt', Some m) \<and>
    server_abs e' st' xs' \<and> x \<in> set xs' \<and> radar_sn (st' x) = take 32 (drop 4 psdev) \<and>
    length m = 51 \<and> eth_protocol_analysis m 51 = Some (Some 9) \<and> load8 m 6 = Some NETPROTOCAL_MSG_ID_REQUEST_CONNECT \<and>
    loadn m 9 40 = Some (request_info sn (server_ip e) (ts_wlocalPort (st' x)))"
proof -
  from search_offer [OF assms, of cbk cnt] obtain e' st' cnt' xs' x where
    s: "server_search_handler (Some a) True cbk psdev uIp (Some e) st cnt = Some (Some e', st', cnt',
      Some (frame 0 0xFF DEV_ID_AGX NETPROTOCAL_MSG_ID_REQUEST_CONNECT 0 (request_info sn (server_ip e) (ts_wlocalPort (st' x)))))"
    "server_abs e' st' xs'" "x \<in> set xs'" "radar_sn (st' x) = take 32 (drop 4 psdev)" by metis
  note f = request_frame [OF length_request_info [OF assms(12)] refl, of "server_ip e" "ts_wlocalPort (st' x)"]
  show ?thesis
    using s f by (intro exI [of _ e'] exI [of _ st'] exI [of _ cnt'] exI [of _ xs'] exI [of _ x] exI conjI) simp_all
qed

theorem search_answer_offers_own_server_witness:
  "\<exists>e' st' cnt' xs' x m. server_search_handler (Some 4096) True None (replicate 4 0 @ replicate 31 65 @ replicate 69 0) 1
      (Some eth_list0) (\<lambda>_. undefined) 0 = Some (Some e', st', cnt', Some m) \<and>
    x \<in> set xs' \<and> server_abs e' st' xs' \<and> eth_protocol_analysis m 51 = Some (Some 9) \<and>
    loadn m 9 40 = Some (request_info (replicate 31 65) (server_ip eth_list0) (ts_wlocalPort (st' x)))"
proof -
  let ?d = "replicate 4 0 @ replicate 31 65 @ replicate 69 0 :: bytes"
  have m: "unat (el_max eth_list0) = 10" by (simp add: eth_list0_def AGX_MAX_DEFAULT_NUM_def)
  have i: "\<not> is_init (take 32 (drop 4 ?d))" by code_simp
  have f: "sn_field ?d = Some (replicate 31 65)" by code_simp
  have h: "htonl_u32 1 \<noteq> server_ip eth_list0" by code_simp
  have n: "el_net eth_list0 = RTH_LINK_NET_TCP_CLIENT" by (simp add: eth_list0_def)
  obtain e' st' cnt' xs' x m where
    "server_search_handler (Some 4096) True None ?d 1 (Some eth_list0) (\<lambda>_. undefined) 0 = Some (Some e', st', cnt', Some m)"
    "server_abs e' st' xs'" "x \<in> set xs'" "eth_protocol_analysis m 51 = Some (Some 9)"
    "loadn m 9 40 = Some (request_info (replicate 31 65) (server_ip eth_list0) (ts_wlocalPort (st' x)))"
    using search_answer_offers_own_server [OF eth_list0_abs [of "\<lambda>_. undefined"] _ _ _ _ i _ _ n h f, of 4096 None 0] m
    by auto
  then show ?thesis by blast
qed

text \<open>
  Removing a server that is not the first of the list also unlinks every server between the first and it: the
  predecessor pointer of the search stays at the head. What lies behind the removed server stays.
\<close>
theorem eth_link_del_tcp_server_list_drops:
  assumes "hlist ts_psNext st (el_list e) (h # ys @ x # zs)"
  shows "\<exists>st'. eth_link_del_tcp_server_list x e st cnt = Some (e, st', cnt - 1) \<and>
    hlist ts_psNext st' (el_list e) (h # zs)"
  by (rule server_del_inner [OF assms])

definition three_servers :: servers where
  "three_servers x = (two_servers x)\<lparr>ts_wlocalPort := 8070 + of_nat x, ts_psNext := (if x < 3 then Some (x + 1) else None)\<rparr>"

theorem eth_link_del_tcp_server_list_drops_witness:
  "\<exists>st'. eth_link_del_tcp_server_list 3 (eth_list0\<lparr>el_list := Some 1\<rparr>) three_servers 3 =
      Some (eth_list0\<lparr>el_list := Some 1\<rparr>, st', 2) \<and> hlist ts_psNext st' (Some 1) [1]"
  using eth_link_del_tcp_server_list_drops [of three_servers "eth_list0\<lparr>el_list := Some 1\<rparr>" 1 "[2]" 3 "[]" 3]
  by (simp add: three_servers_def)

text \<open>
  Registration copies 32 bytes from the eight bytes of the literal \<^verbatim>\<open>"sn_init"\<close>: whatever the state, when the list is empty
  and the server can be created, it stays inside the memory it may read only if 24 more bytes lie behind the literal.
\<close>
theorem eth_server_register_overreads:
  assumes "el_list e = None"
  shows "eth_server_register avail eth0 after (Some a) True cbk net (Some e) st cnt = None \<longleftrightarrow> length after < 24"
  using assms
  by (simp add: eth_server_register_def eth_link_add_tcp_server_list_def eth_link_create_tcp_server_list_def loadn_def
      NETPOTOCAL_INITILA_SN_def)

theorem eth_server_register_overreads_witness:
  "eth_server_register True None [] (Some 4096) True None 1 (Some eth_list0) (\<lambda>_. undefined) 1 = None"
  using eth_server_register_overreads [of eth_list0 True None "[]" 4096 None 1 "\<lambda>_. undefined" 1] by (simp add: eth_list0_def)

subsection \<open>Shutting down\<close>

lemma close_walk_all:
  "hlist ts_psNext st p xs \<Longrightarrow>
    \<exists>st'. close_walk st p = Some st' \<and> (\<forall>x. st' x = (if x \<in> set xs then ask_close (st x) else st x))"
proof (induction xs arbitrary: p st)
  case (Cons x xs)
  have nx: "ts_psNext (ask_close n) = ts_psNext n" for n by (simp add: ask_close_def)
  have d: "x \<notin> set xs" using hlist_distinct [OF Cons.prems] by simp
  have "hlist ts_psNext st (ts_psNext (st x)) xs" using Cons.prems by simp
  then have "hlist ts_psNext (st(x := ask_close (st x))) (ts_psNext (st x)) xs"
    by (rule hlist_cong) (use d in auto)
  from Cons.IH [OF this] obtain st' where
    "close_walk (st(x := ask_close (st x))) (ts_psNext (st x)) = Some st'"
    "\<forall>y. st' y = (if y \<in> set xs then ask_close ((st(x := ask_close (st x))) y) else (st(x := ask_close (st x))) y)" by blast
  with Cons.prems d nx show ?case by (auto simp: close_walk.simps [of st])
qed (simp add: close_walk.simps)

text \<open>
  Shutting down, when no datagram comes in between: it returns if both threads were created and the search task has begun, and then
  asks exactly the servers with a connection to close: a server that still waits for its radar
  is not asked, and nothing else of the list changes. If the search task was created but has not begun, it never returns.
\<close>
theorem eth_link_server_uninit_asks:
  assumes "hlist ts_psNext st (el_list e) xs" "us_pid (fst sd)" "detect_task_pid (snd sd)"
  shows "if dt_begun (snd sd)
    then \<exists>sk' dt' st'. eth_link_server_uninit None sd (Some e) st cnt = Some ((sk', dt'), Some e, st', cnt) \<and>
      \<not> us_bFlagInit sk' \<and> \<not> us_pid sk' \<and> \<not> detect_task_pid dt' \<and>
      (\<forall>x. st' x = (st x)\<lparr>ts_bFlagClose := ts_bFlagClose (st x) \<or> x \<in> set xs \<and> ts_bFlagConnect (st x)\<rparr>)
    else eth_link_server_uninit None sd (Some e) st cnt = None"
proof -
  obtain sk dt where sd: "sd = (sk, dt)" by (cases sd)
  obtain sk' calls where j: "udp_socket_join None (the (fst (udp_socket_close (Some sk))), Some e, st, cnt) = Some ((sk', Some e, st, cnt), calls)"
    "\<not> us_bFlagInit sk'" "\<not> us_pid sk'"
    using assms(2) sd by (cases "us_bFlagInit sk") (auto simp: udp_socket_join_def udp_socket_close_def udp_task_end_def)
  from close_walk_all [OF assms(1)] obtain st' where w:
    "close_walk st (el_list e) = Some st'" "\<forall>x. st' x = (if x \<in> set xs then ask_close (st x) else st x)" by blast
  have "\<forall>x. st' x = (st x)\<lparr>ts_bFlagClose := ts_bFlagClose (st x) \<or> x \<in> set xs \<and> ts_bFlagConnect (st x)\<rparr>"
    using w(2) by (auto simp: ask_close_def)
  with assms(3) sd j w(1) show ?thesis
    by (simp add: eth_link_server_uninit_def detect_join_def detect_begin_def Let_def)
qed

theorem eth_link_server_uninit_asks_witness:
  "\<exists>sk' dt' st'. eth_link_server_uninit None (\<lparr>us_bFlagInit = True, us_bFlagClose = False, us_iSocket = 3, us_pid = True, us_psCfg = Some 0, us_psCbk = Some 0\<rparr>,
      \<lparr>detect_task_pid = True, exit_relase = False, dt_begun = True\<rparr>)
      (Some (eth_list0\<lparr>el_list := Some 1\<rparr>)) three_servers 5 = Some ((sk', dt'), Some (eth_list0\<lparr>el_list := Some 1\<rparr>), st', 5) \<and> \<not> ts_bFlagClose (st' 2)"
proof -
  let ?sk = "\<lparr>us_bFlagInit = True, us_bFlagClose = False, us_iSocket = 3, us_pid = True, us_psCfg = Some 0, us_psCbk = Some 0\<rparr>"
  have "hlist ts_psNext three_servers (el_list (eth_list0\<lparr>el_list := Some 1\<rparr>)) [1, 2, 3]" by (simp add: three_servers_def)
  from eth_link_server_uninit_asks [OF this, of "(?sk, \<lparr>detect_task_pid = True, exit_relase = False, dt_begun = True\<rparr>)" 5] show ?thesis
    by (auto simp: three_servers_def two_servers_def)
qed

end
