(* ===== verification/Eth_Link.thy ===== *)
theory Eth_Link
  imports Eth_Link_Server
begin

text \<open>
  The other end of the discovery protocol, \<^verbatim>\<open>srv/eth_link/eth_link.c\<close>: the AGX as a device that a C2 station finds by
  broadcast and asks to connect. The module keeps a list of link types, each with the list of its TCP
  clients; requests for a connection add clients.

  Addresses of new nodes, whether \<^verbatim>\<open>tcp_client_create\<close> succeeds and the callbacks that \<^verbatim>\<open>ps_init\<close> returns are
  arguments. \<^verbatim>\<open>memset\<close> precedes the test of the allocation, so a failed one is \<open>None\<close>.
\<close>

subsection \<open>State\<close>

record link_list =
  lk_net :: u8
  lk_max :: u8
  lk_type :: u16
  lk_list :: "nat option"
  lk_next :: "nat option"

record eth_link_tcp_client_list =
  ec_uRemoteIp :: u32
  ec_wRemotePort :: u16
  ec_wConnectTime :: u16
  ec_psUserCbk :: "nat option"
  ec_psRoot :: nat
  ec_psNext :: "nat option"

record eth_links =
  ls_head :: "nat option"
  ls_lists :: "link_list store"
  ls_clients :: "eth_link_tcp_client_list store"
  ls_cnt :: int
  ls_freed :: "nat list"
  ls_bFlagTick :: bool
  ls_uSendIp :: u32
  ls_sn :: bytes

text \<open>\<^verbatim>\<open>htonl(inet_addr("192.168.1.162"))\<close> and the port.\<close>

definition DEFAULT_AGX_ACCESS_IP :: u32 where "DEFAULT_AGX_ACCESS_IP = 0xC0A801A2"
definition DEFAULT_AGX_ACCESS_PORT :: u16 where "DEFAULT_AGX_ACCESS_PORT = 9001"

subsection \<open>The clients of a link\<close>

definition eth_link_create_tcp_client_list ::
  "nat option \<Rightarrow> bool \<Rightarrow> nat option \<Rightarrow> u16 \<Rightarrow> u32 \<Rightarrow> u16 \<Rightarrow> eth_links \<Rightarrow> (nat option \<times> eth_links) option" where
  "eth_link_create_tcp_client_list new created cbk wConnectTime uIp wPort s =
     (case new of
        None \<Rightarrow> None
      | Some a \<Rightarrow>
          if created then
            Some (Some a, s\<lparr>ls_clients := (ls_clients s)(a := \<lparr>ec_uRemoteIp = uIp, ec_wRemotePort = wPort,
              ec_wConnectTime = wConnectTime, ec_psUserCbk = cbk, ec_psRoot = 0, ec_psNext = None\<rparr>), ls_cnt := ls_cnt s + 1\<rparr>)
          else Some (None, s))"

text \<open>
  The loop \<^verbatim>\<open>for( ; p->next; p = p->next ) { if( test ) break; count++; }\<close>: the first node before the last that passes
  the test, otherwise the last one, and the count.
\<close>

partial_function (option) stop_walk ::
  "('n \<Rightarrow> nat option) \<Rightarrow> ('n \<Rightarrow> bool) \<Rightarrow> 'n store \<Rightarrow> nat \<Rightarrow> nat \<Rightarrow> (nat \<times> nat) option" where
  "stop_walk nxt P st p c =
     (case nxt (st p) of
        None \<Rightarrow> Some (p, c)
      | Some q \<Rightarrow> if P (st p) then Some (p, c) else stop_walk nxt P st q (c + 1))"

definition eth_link_add_tcp_client_list ::
  "nat option \<Rightarrow> bool \<Rightarrow> nat option \<Rightarrow> nat \<Rightarrow> u32 \<Rightarrow> u16 \<Rightarrow> u16 \<Rightarrow> eth_links \<Rightarrow> eth_links option" where
  "eth_link_add_tcp_client_list new created cbk root uIp wPort wConnectTime s =
     (case lk_list (ls_lists s root) of
        Some p0 \<Rightarrow> do {
          (p, uCount) \<leftarrow> stop_walk ec_psNext (\<lambda>n. ec_uRemoteIp n = uIp \<and> ec_wRemotePort n = wPort) (ls_clients s) p0 1;
          if ec_uRemoteIp (ls_clients s p) \<noteq> uIp \<and> ec_wRemotePort (ls_clients s p) \<noteq> wPort \<and>
             unat (lk_max (ls_lists s root)) > uCount
          then do {
            (q, s1) \<leftarrow> eth_link_create_tcp_client_list new created cbk wConnectTime uIp wPort s;
            let s2 = s1\<lparr>ls_clients := (ls_clients s1)(p := (ls_clients s1 p)\<lparr>ec_psNext := q\<rparr>)\<rparr>;
            Some (case q of
                None \<Rightarrow> s2
              | Some a \<Rightarrow> s2\<lparr>ls_clients := (ls_clients s2)(a := (ls_clients s2 a)\<lparr>ec_psNext := None, ec_psRoot := root\<rparr>)\<rparr>) }
          else Some s }
      | None \<Rightarrow> do {
          (q, s1) \<leftarrow> eth_link_create_tcp_client_list new created cbk wConnectTime uIp wPort s;
          let s2 = s1\<lparr>ls_lists := (ls_lists s1)(root := (ls_lists s1 root)\<lparr>lk_list := q\<rparr>)\<rparr>;
          Some (case q of
              None \<Rightarrow> s2
            | Some a \<Rightarrow> s2\<lparr>ls_clients := (ls_clients s2)(a := (ls_clients s2 a)\<lparr>ec_psNext := None, ec_psRoot := root\<rparr>)\<rparr>) })"

definition eth_link_del_tcp_client_list :: "nat \<Rightarrow> eth_links \<Rightarrow> eth_links option" where
  "eth_link_del_tcp_client_list psList s =
     (let root = ec_psRoot (ls_clients s psList);
          psIndex = lk_list (ls_lists s root);
          freed = (\<lambda>s. s\<lparr>ls_cnt := ls_cnt s - 1, ls_freed := psList # ls_freed s\<rparr>)
      in if Some psList = psIndex then
           Some (freed (s\<lparr>ls_lists := (ls_lists s)(root := (ls_lists s root)\<lparr>lk_list := ec_psNext (ls_clients s psList)\<rparr>)\<rparr>))
         else do {
           found \<leftarrow> find_walk ec_psNext (\<lambda>a _. a = psList) (ls_clients s) psIndex;
           (case (found, psIndex) of
              (Some x, Some psLast) \<Rightarrow>
                Some (freed (s\<lparr>ls_clients := (ls_clients s)(psLast := (ls_clients s psLast)\<lparr>ec_psNext := ec_psNext (ls_clients s x)\<rparr>)\<rparr>))
            | _ \<Rightarrow> Some (freed s)) })"

subsection \<open>Link types\<close>

text \<open>\<open>newl\<close> is the address of the new list, \<open>new\<close> that of the client which a list of type 1 starts with.\<close>

definition link_node :: "u16 \<Rightarrow> u8 \<Rightarrow> u8 \<Rightarrow> link_list" where
  "link_node typ net mx = \<lparr>lk_net = net, lk_max = mx, lk_type = typ, lk_list = None, lk_next = None\<rparr>"

definition default_client :: "nat option \<Rightarrow> bool \<Rightarrow> nat option \<Rightarrow> u16 \<Rightarrow> nat \<Rightarrow> eth_links \<Rightarrow> eth_links option" where
  "default_client new created cbk typ root s =
     (if typ = 1 then eth_link_add_tcp_client_list new created cbk root DEFAULT_AGX_ACCESS_IP DEFAULT_AGX_ACCESS_PORT 0 s
      else Some s)"

definition eth_link_add_type ::
  "nat option \<Rightarrow> nat option \<Rightarrow> bool \<Rightarrow> nat option \<Rightarrow> u16 \<Rightarrow> u8 \<Rightarrow> u8 \<Rightarrow> eth_links \<Rightarrow> (eth_links \<times> i32) option" where
  "eth_link_add_type newl new created cbk typ net mx s =
     (case ls_head s of
        Some h \<Rightarrow> do {
          (p, _) \<leftarrow> stop_walk lk_next (\<lambda>n. lk_type n = typ) (ls_lists s) h 0;
          let eRet = (if lk_next (ls_lists s p) \<noteq> None then 1 else 0);
          if lk_type (ls_lists s p) \<noteq> typ then do {
            a \<leftarrow> newl;
            let s1 = s\<lparr>ls_lists := (ls_lists s)(p := (ls_lists s p)\<lparr>lk_next := Some a\<rparr>, a := link_node typ net mx), ls_cnt := ls_cnt s + 1\<rparr>;
            s2 \<leftarrow> default_client new created cbk typ a s1;
            Some (s2, eRet) }
          else Some (s, eRet) }
      | None \<Rightarrow> do {
          a \<leftarrow> newl;
          let s1 = s\<lparr>ls_head := Some a, ls_lists := (ls_lists s)(a := link_node typ net mx), ls_cnt := ls_cnt s + 1\<rparr>;
          s2 \<leftarrow> default_client new created cbk typ a s1;
          Some (s2, 0) })"

text \<open>The removal: \<^verbatim>\<open>psLast\<close> starts at the first node, so that the head pointer is never changed.\<close>

partial_function (option) del_type_walk :: "link_list store \<Rightarrow> u16 \<Rightarrow> nat option \<Rightarrow> nat \<Rightarrow> (nat \<times> nat) option option" where
  "del_type_walk st typ p psLast =
     (case p of
        None \<Rightarrow> Some None
      | Some a \<Rightarrow> if lk_type (st a) = typ then Some (Some (psLast, a)) else del_type_walk st typ (lk_next (st a)) a)"

definition eth_link_del_type :: "u16 \<Rightarrow> eth_links \<Rightarrow> (eth_links \<times> i32) option" where
  "eth_link_del_type typ s =
     (case ls_head s of
        None \<Rightarrow> Some (s, 0)
      | Some h \<Rightarrow> do {
          r \<leftarrow> del_type_walk (ls_lists s) typ (Some h) h;
          Some (case r of
              None \<Rightarrow> (s, 0)
            | Some (psLast, a) \<Rightarrow>
                (s\<lparr>ls_lists := (ls_lists s)(psLast := (ls_lists s psLast)\<lparr>lk_next := lk_next (ls_lists s a)\<rparr>),
                   ls_cnt := ls_cnt s - 1, ls_freed := a # ls_freed s\<rparr>, 0)) })"

definition eth_link_create_socket ::
  "nat option \<Rightarrow> bool \<Rightarrow> nat option \<Rightarrow> u16 \<Rightarrow> u32 \<Rightarrow> u16 \<Rightarrow> eth_links \<Rightarrow> eth_links option" where
  "eth_link_create_socket new created cbk typ ip port s = do {
     found \<leftarrow> find_walk lk_next (\<lambda>_ n. lk_type n = typ) (ls_lists s) (ls_head s);
     (case found of
        None \<Rightarrow> Some s
      | Some root \<Rightarrow>
          if lk_net (ls_lists s root) = RTH_LINK_NET_TCP_CLIENT
          then eth_link_add_tcp_client_list new created cbk root ip port 5 s
          else Some s) }"

subsection \<open>Discovery\<close>

text \<open>
  \<open>snf\<close> is what \<^verbatim>\<open>read\<close> delivers of the serial number file, if it can be opened. The string is collected in a static
  buffer of 64 bytes.
\<close>

definition RADAR_DEFAULT_SN :: bytes where
  "RADAR_DEFAULT_SN = [82, 65, 68, 65, 82, 45, 49, 50, 51, 52, 53, 54, 55, 56]"

definition eth_protocol_get_sn :: "bytes option \<Rightarrow> bytes \<Rightarrow> bytes \<times> bytes" where
  "eth_protocol_get_sn snf sn =
     (case snf of
        None \<Rightarrow> (RADAR_DEFAULT_SN, sn)
      | Some content \<Rightarrow>
          let rd = take 63 content; buf = rd @ drop (length rd) sn in
          if rd \<noteq> [] then (takeWhile (\<lambda>c. c \<noteq> 0) buf, buf) else (RADAR_DEFAULT_SN, buf))"

definition strncpy_c :: "nat \<Rightarrow> bytes \<Rightarrow> bytes" where
  "strncpy_c n str = take n (str @ replicate n 0)"

text \<open>\<^verbatim>\<open>"acur101_app_v00.01.02_dev"\<close>.\<close>

definition DEV_VERSION :: bytes where
  "DEV_VERSION = [97, 99, 117, 114, 49, 48, 49, 95, 97, 112, 112, 95, 118, 48, 48, 46, 48, 49, 46, 48, 50, 95, 100, 101, 118]"

text \<open>Three datagrams per tick of the one-second task; the result are the datagrams with their address.\<close>

definition eth_link_broadcast :: "bytes \<Rightarrow> eth_links \<Rightarrow> eth_links \<times> (u32 \<times> bytes) list" where
  "eth_link_broadcast pbyData s =
     (if ls_bFlagTick s then (s\<lparr>ls_bFlagTick := False\<rparr>, replicate 3 (ls_uSendIp s, pbyData)) else (s, []))"

text \<open>One round of \<^verbatim>\<open>eth_link_task\<close> besides the heartbeat upload.\<close>

definition eth_link_tick :: "eth_links \<Rightarrow> eth_links" where
  "eth_link_tick s = s\<lparr>ls_bFlagTick := True\<rparr>"

text \<open>\<open>junk\<close> is the uninitialised struct on the stack.\<close>

definition eth_protocol_devinfo_pkg_send ::
  "bytes option \<Rightarrow> bytes \<Rightarrow> eth_links \<Rightarrow> (eth_links \<times> (u32 \<times> bytes) list) option" where
  "eth_protocol_devinfo_pkg_send snf junk s = do {
     let (sn, buf) = eth_protocol_get_sn snf (ls_sn s);
     d1 \<leftarrow> set_field eth_protocol_devinfo ''protocol'' (le_bytes 4 (3 :: u32)) junk;
     d2 \<leftarrow> set_field eth_protocol_devinfo ''sn'' (strncpy_c 64 sn) d1;
     d3 \<leftarrow> set_field eth_protocol_devinfo ''type'' (le_bytes 2 (3 :: u16)) d2;
     d4 \<leftarrow> set_field eth_protocol_devinfo ''status'' (le_bytes 2 (1 :: u16)) d3;
     d5 \<leftarrow> set_field eth_protocol_devinfo ''version'' (strncpy_c 64 DEV_VERSION) d4;
     (d6, _) \<leftarrow> eth_protocol_package 0xBB d5 (of_nat (packed_size eth_protocol_devinfo - 11));
     Some (eth_link_broadcast (take (packed_size eth_protocol_devinfo) d6) (s\<lparr>ls_sn := buf\<rparr>)) }"

text \<open>Whether a null-terminated string in memory, and only such a one, equals the own serial number.\<close>

definition sn_matches :: "bytes \<Rightarrow> bytes \<Rightarrow> bool option" where
  "sn_matches mem own =
     (if 0 \<in> set mem then Some (takeWhile (\<lambda>c. c \<noteq> 0) mem = own) else None)"

text \<open>
  The search for a client of the sender, over the lists of TCP clients. \<^verbatim>\<open>uRemoteIp\<close> and \<^verbatim>\<open>uIp\<close> are both in host order, but
  the first is converted before the comparison.
\<close>

partial_function (option) sender_walk :: "eth_links \<Rightarrow> u32 \<Rightarrow> nat option \<Rightarrow> nat option option" where
  "sender_walk s uIp p =
     (case p of
        None \<Rightarrow> Some None
      | Some a \<Rightarrow>
          if lk_net (ls_lists s a) = RTH_LINK_NET_TCP_CLIENT then do {
            c \<leftarrow> find_walk ec_psNext (\<lambda>_ n. htonl_u32 (ec_uRemoteIp n) = uIp) (ls_clients s) (lk_list (ls_lists s a));
            (case c of Some _ \<Rightarrow> Some (Some a) | None \<Rightarrow> sender_walk s uIp (lk_next (ls_lists s a))) }
          else sender_walk s uIp (lk_next (ls_lists s a)))"

definition link_search_handler ::
  "bytes option \<Rightarrow> bytes \<Rightarrow> bytes \<Rightarrow> u32 \<Rightarrow> eth_links \<Rightarrow> (eth_links \<times> (u32 \<times> bytes) list) option" where
  "link_search_handler snf junk psSearch uIp s = do {
     c \<leftarrow> load8 psSearch 4;
     if c \<noteq> 0 then do {
       let (own, buf) = eth_protocol_get_sn snf (ls_sn s);
       same \<leftarrow> sn_matches (drop 4 psSearch) own;
       if same then eth_protocol_devinfo_pkg_send snf junk (s\<lparr>ls_sn := buf\<rparr>) else Some (s\<lparr>ls_sn := buf\<rparr>, []) }
     else do {
       psList \<leftarrow> sender_walk s uIp (ls_head s);
       (case psList of
          None \<Rightarrow> eth_protocol_devinfo_pkg_send snf junk s
        | Some _ \<Rightarrow> Some (s, [])) } }"

definition link_cntinfo_handler ::
  "nat option \<Rightarrow> bool \<Rightarrow> nat option \<Rightarrow> bytes option \<Rightarrow> bytes \<Rightarrow> eth_links \<Rightarrow> eth_links option" where
  "link_cntinfo_handler new created cbk snf psCntInfo s = do {
     c \<leftarrow> load8 psCntInfo 0;
     ip \<leftarrow> map_option of_le (get_field eth_protocol_cntinfo ''ip'' psCntInfo);
     port \<leftarrow> map_option of_le (get_field eth_protocol_cntinfo ''port'' psCntInfo);
     typ \<leftarrow> map_option of_le (get_field eth_protocol_cntinfo ''type'' psCntInfo);
     if c \<noteq> 0 then do {
       let (own, buf) = eth_protocol_get_sn snf (ls_sn s);
       same \<leftarrow> sn_matches psCntInfo own;
       if same then eth_link_create_socket new created cbk typ (htonl_u32 ip) port (s\<lparr>ls_sn := buf\<rparr>)
       else Some (s\<lparr>ls_sn := buf\<rparr>) }
     else eth_link_create_socket new created cbk typ (htonl_u32 ip) port s }"

definition link_protocol_handler ::
  "nat option \<Rightarrow> bool \<Rightarrow> nat option \<Rightarrow> bytes option \<Rightarrow> bytes \<Rightarrow> bytes \<Rightarrow> u32 \<Rightarrow> u32 \<Rightarrow> eth_links \<Rightarrow>
   (eth_links \<times> (u32 \<times> bytes) list) option" where
  "link_protocol_handler new created cbk snf junk msg n uIp s = do {
     pbyData \<leftarrow> eth_protocol_analysis msg n;
     (case pbyData of
        None \<Rightarrow> Some (s, [])
      | Some i \<Rightarrow> do {
          mid \<leftarrow> load8 msg 6;
          if mid = 0xBA then link_search_handler snf junk (drop i msg) uIp s
          else if mid = 0xBC then map_option (\<lambda>s. (s, [])) (link_cntinfo_handler new created cbk snf (drop i msg) s)
          else Some (s, []) }) }"

text \<open>
  The data callback: at most 64 bytes of the datagram are read. \<open>local_ip\<close> is the address of the network card, in network order.
\<close>

definition link_udp_cbk_data ::
  "nat option \<Rightarrow> bool \<Rightarrow> nat option \<Rightarrow> bytes option \<Rightarrow> bytes \<Rightarrow> bytes \<Rightarrow> u32 \<Rightarrow> udp_socket \<Rightarrow> i32 \<times> bytes \<times> u32 \<Rightarrow> eth_links \<Rightarrow>
   (udp_socket \<times> eth_links \<times> (u32 \<times> bytes) list) option" where
  "link_udp_cbk_data new created cbk snf junk stale local_ip sk answer s =
     (case udp_socket_recv answer sk of
        (sk', iLength, bs, ip) \<Rightarrow> do {
          abyBuffer \<leftarrow> storen stale 0 bs;
          let uIp = (case ip of None \<Rightarrow> 0xFFFFFFFF | Some a \<Rightarrow> a);
          if htonl_u32 uIp = local_ip then Some (sk', s, [])
          else do {
            (s', out) \<leftarrow> link_protocol_handler new created cbk snf junk abyBuffer (of_int iLength) uIp (s\<lparr>ls_uSendIp := uIp OR 0xFF\<rparr>);
            Some (sk', s'\<lparr>ls_uSendIp := 0xFFFFFFFF\<rparr>, out) } })"

text \<open>
  Start-up: the tick task is started first; without it no socket is created, and the result is still 0.
\<close>

definition eth_link_init :: "i32 \<Rightarrow> udp_os \<Rightarrow> udp_socket \<Rightarrow> udp_socket \<times> net_call list \<times> i32" where
  "eth_link_init ret_thread os sk =
     (if 0 = ret_thread then
        case udp_socket_crate os (\<lambda>_. \<lparr>bFlagRecv = True, bBroadcast = True, wRecvPort = 1800, wSendPort = 1810, uRecvIp = 0,
               uSendIp = 0xFFFFFFFF\<rparr>) sk (Some 0) (Some 0) of
          (sk', calls, eRet) \<Rightarrow> (sk', Call_pthread_create # calls, eRet)
      else (sk, [Call_pthread_create], 0))"

subsection \<open>Lemmas on the lists\<close>

lemma stop_walk_last:
  "hlist nxt st (Some p) xs \<Longrightarrow> \<forall>x \<in> set (butlast xs). \<not> P (st x) \<Longrightarrow>
    stop_walk nxt P st p c = Some (last xs, c + length xs - 1)"
proof (induction xs arbitrary: p c)
  case (Cons x xs)
  then have x: "x = p" by simp
  show ?case
  proof (cases "nxt (st p)")
    case None
    with Cons.prems x show ?thesis by (simp add: stop_walk.simps)
  next
    case (Some q)
    with Cons.prems x have "hlist nxt st (Some q) xs" "xs \<noteq> []" by auto
    with Cons.IH [of q "c + 1"] Cons.prems(2) x Some show ?thesis by (simp add: stop_walk.simps [of _ _ _ p])
  qed
qed simp

lemma stop_walk_found:
  "hlist nxt st (Some p) xs \<Longrightarrow> \<exists>q c'. stop_walk nxt P st p c = Some (q, c') \<and> q \<in> set xs \<and> c' < c + length xs \<and>
    (P (st q) \<or> q = last xs \<and> c' = c + length xs - 1 \<and> (\<forall>x \<in> set (butlast xs). \<not> P (st x)))"
proof (induction xs arbitrary: p c)
  case (Cons x xs)
  then have x: "x = p" by simp
  show ?case
  proof (cases "nxt (st p)")
    case None
    with Cons.prems x show ?thesis by (simp add: stop_walk.simps)
  next
    case (Some q)
    with Cons.prems x have r: "hlist nxt st (Some q) xs" "xs \<noteq> []" by auto
    show ?thesis
    proof (cases "P (st p)")
      case True
      with Some x show ?thesis by (simp add: stop_walk.simps [of _ _ _ p])
    next
      case False
      with Cons.IH [OF r(1), of "c + 1"] Some x r(2) show ?thesis by (auto simp: stop_walk.simps [of _ _ _ p])
    qed
  qed
qed simp

text \<open>
  The contract of a link: its clients are a list without two of the same address and port, and there are at most \<^verbatim>\<open>max\<close>.
\<close>

abbreviation endpoint :: "eth_links \<Rightarrow> nat \<Rightarrow> u32 \<times> u16" where
  "endpoint s x \<equiv> (ec_uRemoteIp (ls_clients s x), ec_wRemotePort (ls_clients s x))"

definition link_abs :: "eth_links \<Rightarrow> nat \<Rightarrow> nat list \<Rightarrow> bool" where
  "link_abs s root xs \<longleftrightarrow> hlist ec_psNext (ls_clients s) (lk_list (ls_lists s root)) xs \<and>
     distinct (map (endpoint s) xs) \<and> length xs \<le> unat (lk_max (ls_lists s root))"

definition linked_client :: "u32 \<Rightarrow> u16 \<Rightarrow> u16 \<Rightarrow> nat option \<Rightarrow> nat \<Rightarrow> eth_link_tcp_client_list" where
  "linked_client ip port t cbk root = \<lparr>ec_uRemoteIp = ip, ec_wRemotePort = port, ec_wConnectTime = t, ec_psUserCbk = cbk,
     ec_psRoot = root, ec_psNext = None\<rparr>"

lemma add_client_first:
  assumes "link_abs s root []" "0 < lk_max (ls_lists s root)"
  shows "\<exists>s'. eth_link_add_tcp_client_list (Some a) True cbk root ip port t s = Some s' \<and> link_abs s' root [a] \<and>
    ls_clients s' a = linked_client ip port t cbk root"
proof -
  have "0 < unat (lk_max (ls_lists s root))" using assms(2) by (simp add: word_less_nat_alt)
  moreover have "lk_list (ls_lists s root) = None" using assms(1) by (simp add: link_abs_def)
  ultimately show ?thesis
    by (simp add: eth_link_add_tcp_client_list_def eth_link_create_tcp_client_list_def Let_def link_abs_def linked_client_def)
qed

lemma add_client_next:
  assumes "link_abs s root xs" "xs \<noteq> []" "a \<notin> set xs" "\<forall>x \<in> set (butlast xs). endpoint s x \<noteq> (ip, port)"
    "ec_uRemoteIp (ls_clients s (last xs)) \<noteq> ip" "ec_wRemotePort (ls_clients s (last xs)) \<noteq> port"
    "length xs < unat (lk_max (ls_lists s root))"
  shows "\<exists>s'. eth_link_add_tcp_client_list (Some a) True cbk root ip port t s = Some s' \<and> link_abs s' root (xs @ [a]) \<and>
    ls_clients s' a = linked_client ip port t cbk root"
proof -
  have h: "hlist ec_psNext (ls_clients s) (lk_list (ls_lists s root)) xs" using assms(1) by (simp add: link_abs_def)
  then obtain p where p: "lk_list (ls_lists s root) = Some p" using assms(2) by (cases "lk_list (ls_lists s root)") auto
  have w: "stop_walk ec_psNext (\<lambda>n. ec_uRemoteIp n = ip \<and> ec_wRemotePort n = port) (ls_clients s) p 1 =
      Some (last xs, length xs)"
    using stop_walk_last [of ec_psNext "ls_clients s" p xs "\<lambda>n. ec_uRemoteIp n = ip \<and> ec_wRemotePort n = port" 1]
      h p assms(2,4) by auto
  have la: "last xs \<in> set xs" "last xs \<noteq> a" using assms(2,3) by auto
  define st where "st = (ls_clients s)(last xs := (ls_clients s (last xs))\<lparr>ec_psNext := Some a\<rparr>,
      a := linked_client ip port t cbk root)"
  define s' where "s' = s\<lparr>ls_clients := st, ls_cnt := ls_cnt s + 1\<rparr>"
  have r: "eth_link_add_tcp_client_list (Some a) True cbk root ip port t s = Some s'"
    using p w assms(5-7) la(2)
    by (simp add: eth_link_add_tcp_client_list_def eth_link_create_tcp_client_list_def Let_def s'_def st_def linked_client_def
        fun_upd_twist)
  have same: "endpoint s' x = endpoint s x" if "x \<in> set xs" for x
    using that assms(3) by (auto simp: s'_def st_def)
  have "hlist ec_psNext st (lk_list (ls_lists s root)) (xs @ [a])"
    by (rule hlist_append_node [OF h assms(2)]) (use la assms(3) in \<open>auto simp: st_def linked_client_def\<close>)
  moreover have "distinct (map (endpoint s') (xs @ [a]))"
  proof -
    have "(ip, port) \<noteq> endpoint s x" if "x \<in> set xs" for x
    proof (cases "x = last xs")
      case True
      then show ?thesis using assms(5) by simp
    next
      case False
      have "xs = butlast xs @ [last xs]" using assms(2) by simp
      with that False have "x \<in> set (butlast xs)" by (metis rotate1.simps(2) set_ConsD set_rotate1)
      with assms(4) show ?thesis by metis
    qed
    then have "(ip, port) \<notin> endpoint s ` set xs" by auto
    moreover have "map (endpoint s') (xs @ [a]) = map (endpoint s) xs @ [(ip, port)]"
      using same by (simp add: s'_def st_def linked_client_def)
    ultimately show ?thesis using assms(1) by (simp only: link_abs_def distinct_append set_map) simp
  qed
  ultimately have "link_abs s' root (xs @ [a])" using assms(7) by (simp add: link_abs_def s'_def)
  with r show ?thesis by (auto simp: s'_def st_def)
qed

lemma add_client_refused:
  assumes "link_abs s root xs" "xs \<noteq> []" "(\<exists>x \<in> set (butlast xs). endpoint s x = (ip, port)) \<or>
    ec_uRemoteIp (ls_clients s (last xs)) = ip \<or> ec_wRemotePort (ls_clients s (last xs)) = port \<or>
    length xs = unat (lk_max (ls_lists s root))"
  shows "eth_link_add_tcp_client_list new created cbk root ip port t s = Some s"
proof -
  have h: "hlist ec_psNext (ls_clients s) (lk_list (ls_lists s root)) xs" using assms(1) by (simp add: link_abs_def)
  then obtain p where p: "lk_list (ls_lists s root) = Some p" using assms(2) by (cases "lk_list (ls_lists s root)") auto
  let ?P = "\<lambda>n. ec_uRemoteIp n = ip \<and> ec_wRemotePort n = port"
  obtain q c where "stop_walk ec_psNext ?P (ls_clients s) p 1 = Some (q, c)"
    "?P (ls_clients s q) \<or> q = last xs \<and> c = length xs \<and> (\<forall>x \<in> set (butlast xs). \<not> ?P (ls_clients s x))"
    using stop_walk_found [of ec_psNext "ls_clients s" p xs ?P 1] h p by auto
  with assms(3) p show ?thesis by (auto simp: eth_link_add_tcp_client_list_def)
qed

lemma link_abs_irrelevant [simp]:
  "link_abs (s\<lparr>ls_uSendIp := u\<rparr>) root xs = link_abs s root xs"
  "link_abs (s\<lparr>ls_sn := b\<rparr>) root xs = link_abs s root xs"
  by (simp_all add: link_abs_def)

lemma create_socket_adds:
  assumes "hlist lk_next (ls_lists s) (ls_head s) rs" "List.find (\<lambda>r. lk_type (ls_lists s r) = typ) rs = Some root"
    "lk_net (ls_lists s root) = RTH_LINK_NET_TCP_CLIENT" "link_abs s root xs" "a \<notin> set xs"
    "\<forall>x \<in> set xs. ec_uRemoteIp (ls_clients s x) \<noteq> ip \<and> ec_wRemotePort (ls_clients s x) \<noteq> port"
    "length xs < unat (lk_max (ls_lists s root))"
  shows "\<exists>s'. eth_link_create_socket (Some a) True cbk typ ip port s = Some s' \<and> link_abs s' root (xs @ [a]) \<and>
    ls_clients s' a = linked_client ip port 5 cbk root"
proof -
  have f: "find_walk lk_next (\<lambda>_ n. lk_type n = typ) (ls_lists s) (ls_head s) = Some (Some root)"
    using find_walk_hlist [OF assms(1)] assms(2) by simp
  have "\<exists>s'. eth_link_add_tcp_client_list (Some a) True cbk root ip port 5 s = Some s' \<and> link_abs s' root (xs @ [a]) \<and>
      ls_clients s' a = linked_client ip port 5 cbk root"
  proof (cases "xs = []")
    case True
    then have "0 < lk_max (ls_lists s root)" using assms(7) by (simp add: unat_gt_0 word_gt_0)
    with add_client_first [of s root a] assms(4) True show ?thesis by simp
  next
    case False
    then have l: "ec_uRemoteIp (ls_clients s (last xs)) \<noteq> ip" "ec_wRemotePort (ls_clients s (last xs)) \<noteq> port"
      using assms(6) by auto
    have "\<forall>x \<in> set (butlast xs). endpoint s x \<noteq> (ip, port)" using assms(6) by (auto dest: in_set_butlastD)
    from add_client_next [OF assms(4) False assms(5) this l assms(7)] show ?thesis .
  qed
  with f assms(3) show ?thesis by (simp add: eth_link_create_socket_def)
qed

lemma request_info_fields:
  assumes "length sn \<le> 32"
  shows "get_field eth_protocol_cntinfo ''ip'' (request_info sn ip port @ m) = Some (le_bytes 4 ip)"
    "get_field eth_protocol_cntinfo ''port'' (request_info sn ip port @ m) = Some (le_bytes 2 port)"
    "get_field eth_protocol_cntinfo ''type'' (request_info sn ip port @ m) = Some (le_bytes 2 (1 :: u16))"
  using assms
  by (simp_all add: get_field_def eth_protocol_cntinfo_def loadn_def request_info_def del: le_bytes.simps)

lemma request_info_sn:
  assumes "length sn < 32" "0 \<notin> set sn"
  shows "sn_matches (request_info sn ip port @ m) own = Some (sn = own)"
proof -
  obtain k where k: "32 - length sn = Suc k" using assms(1) by (metis Suc_diff_Suc)
  have t: "takeWhile (\<lambda>c. c \<noteq> 0) (sn @ 0 # ys) = sn" for ys
    using assms(2) by (induction sn) auto
  show ?thesis by (simp add: sn_matches_def request_info_def k t)
qed

lemma cntinfo_connects:
  assumes "length sn < 32" "0 \<notin> set sn" "sn \<noteq> []" "fst (eth_protocol_get_sn snf (ls_sn s)) = sn"
  shows "\<exists>buf. link_cntinfo_handler new created cbk snf (request_info sn ip port @ m) s =
    eth_link_create_socket new created cbk 1 (htonl_u32 ip) port (s\<lparr>ls_sn := buf\<rparr>)"
proof -
  obtain buf where b: "eth_protocol_get_sn snf (ls_sn s) = (sn, buf)" using assms(4) by (cases "eth_protocol_get_sn snf (ls_sn s)") simp
  obtain c where "load8 (request_info sn ip port @ m) 0 = Some c" "c \<noteq> 0"
    using assms(2,3) by (cases sn) (auto simp: load8_def request_info_def)
  with b assms(1) request_info_sn [OF assms(1,2), of ip port m sn] show ?thesis
    by (auto simp: link_cntinfo_handler_def request_info_fields of_le_le_bytes)
qed

lemma request_datagram:
  assumes "length sn < 32" "0 \<notin> set sn" "sn \<noteq> []" "fst (eth_protocol_get_sn snf (ls_sn s)) = sn" "51 \<le> length buf"
    "take 51 buf = frame 0 0xFF DEV_ID_AGX NETPROTOCAL_MSG_ID_REQUEST_CONNECT 0 (request_info sn ip port)"
  shows "\<exists>b. link_protocol_handler new created cbk snf junk buf 51 uIp s =
    map_option (\<lambda>s. (s, [])) (eth_link_create_socket new created cbk 1 (htonl_u32 ip) port (s\<lparr>ls_sn := b\<rparr>))"
proof -
  let ?c = "request_info sn ip port"
  have F': "load8 (take 51 buf) 6 = Some NETPROTOCAL_MSG_ID_REQUEST_CONNECT" "loadn (take 51 buf) 9 40 = Some ?c"
    using request_frame(3,4) [OF length_request_info assms(6)] assms(1) by simp_all
  have v: "valid_package (take 51 buf)" using assms(1,6) by (simp add: valid_frame)
  have a: "eth_protocol_analysis buf 51 = Some (Some 9)"
    using eth_protocol_analysis_valid [of buf 51] assms(5) v by simp
  have m: "load8 buf 6 = Some 0xBC" using F'(1) assms(5) by (simp add: load8_def NETPROTOCAL_MSG_ID_REQUEST_CONNECT_def)
  have "take 40 (drop 9 buf) = ?c" using F'(2) assms(5) by (simp add: loadn_def drop_take)
  then have d: "drop 9 buf = ?c @ drop 40 (drop 9 buf)" using append_take_drop_id [of 40 "drop 9 buf"] by simp
  obtain b where "link_cntinfo_handler new created cbk snf (?c @ drop 40 (drop 9 buf)) s =
      eth_link_create_socket new created cbk 1 (htonl_u32 ip) port (s\<lparr>ls_sn := b\<rparr>)"
    using cntinfo_connects [OF assms(1-4)] by blast
  then show ?thesis using a m d by (auto simp: link_protocol_handler_def)
qed

lemma udp_request_connects:
  assumes "length sn < 32" "0 \<notin> set sn" "sn \<noteq> []" "fst (eth_protocol_get_sn snf (ls_sn s)) = sn"
    "hlist lk_next (ls_lists s) (ls_head s) rs" "List.find (\<lambda>r. lk_type (ls_lists s r) = 1) rs = Some root"
    "lk_net (ls_lists s root) = RTH_LINK_NET_TCP_CLIENT" "link_abs s root xs" "a \<notin> set xs"
    "\<forall>x \<in> set xs. ec_uRemoteIp (ls_clients s x) \<noteq> htonl_u32 ip \<and> ec_wRemotePort (ls_clients s x) \<noteq> port"
    "length xs < unat (lk_max (ls_lists s root))" "length stale = 64" "htonl_u32 addr \<noteq> local_ip"
    "m = frame 0 0xFF DEV_ID_AGX NETPROTOCAL_MSG_ID_REQUEST_CONNECT 0 (request_info sn ip port)"
  shows "\<exists>s'. link_udp_cbk_data (Some a) True cbk snf junk stale local_ip sk (51, m, addr) s = Some (sk, s', []) \<and>
    link_abs s' root (xs @ [a]) \<and> ls_clients s' a = linked_client (htonl_u32 ip) port 5 cbk root"
proof -
  have lm: "length m = 51" using assms(1,14) by simp
  let ?buf = "m @ drop 51 stale" and ?s = "s\<lparr>ls_uSendIp := addr OR 0xFF\<rparr>"
  have st: "storen stale 0 (take (nat 51) m) = Some ?buf" using lm assms(12) by (simp add: storen_def)
  have "take 51 ?buf = frame 0 0xFF DEV_ID_AGX NETPROTOCAL_MSG_ID_REQUEST_CONNECT 0 (request_info sn ip port)"
    using lm assms(14) by simp
  note q = request_datagram [OF assms(1-3) _ _ this, of snf ?s]
  have "fst (eth_protocol_get_sn snf (ls_sn ?s)) = sn" "51 \<le> length ?buf" using assms(4) lm by simp_all
  from q [OF this] obtain b where r: "link_protocol_handler (Some a) True cbk snf junk ?buf 51 addr ?s =
      map_option (\<lambda>s. (s, [])) (eth_link_create_socket (Some a) True cbk 1 (htonl_u32 ip) port (?s\<lparr>ls_sn := b\<rparr>))" by blast
  have "\<exists>s'. eth_link_create_socket (Some a) True cbk 1 (htonl_u32 ip) port (?s\<lparr>ls_sn := b\<rparr>) = Some s' \<and>
      link_abs s' root (xs @ [a]) \<and> ls_clients s' a = linked_client (htonl_u32 ip) port 5 cbk root"
    by (rule create_socket_adds) (use assms(5-11) in simp_all)
  then obtain s' where s': "eth_link_create_socket (Some a) True cbk 1 (htonl_u32 ip) port (?s\<lparr>ls_sn := b\<rparr>) = Some s'"
    "link_abs s' root (xs @ [a])" "ls_clients s' a = linked_client (htonl_u32 ip) port 5 cbk root" by blast
  have "link_udp_cbk_data (Some a) True cbk snf junk stale local_ip sk (51, m, addr) s =
      Some (sk, s'\<lparr>ls_uSendIp := 0xFFFFFFFF\<rparr>, [])"
    using st r s'(1) assms(13) by (simp add: link_udp_cbk_data_def udp_socket_recv_def)
  with s'(2,3) show ?thesis by (intro exI [of _ "s'\<lparr>ls_uSendIp := 0xFFFFFFFF\<rparr>"]) simp
qed

subsection \<open>Properties\<close>

text \<open>
  C33. Adding a client keeps a link's contract, no two clients of the same address and port and at most \<^verbatim>\<open>max\<close> of
  them: either the list is as before or the new client, with the requested address, is behind the others.
\<close>
theorem eth_link_clients_bounded:
  assumes "link_abs s root xs" "0 < lk_max (ls_lists s root)" "a \<notin> set xs"
  shows "\<exists>s' xs'. eth_link_add_tcp_client_list (Some a) True cbk root ip port t s = Some s' \<and> link_abs s' root xs' \<and>
    (xs' = xs \<and> s' = s \<or> xs' = xs @ [a] \<and> ls_clients s' a = linked_client ip port t cbk root)"
proof (cases "xs = []")
  case True
  with add_client_first [of s root a cbk ip port t] assms(1,2) show ?thesis by auto
next
  case ne: False
  let ?no = "(\<exists>x \<in> set (butlast xs). endpoint s x = (ip, port)) \<or>
    ec_uRemoteIp (ls_clients s (last xs)) = ip \<or> ec_wRemotePort (ls_clients s (last xs)) = port \<or>
    length xs = unat (lk_max (ls_lists s root))"
  show ?thesis
  proof (cases ?no)
    case True
    from add_client_refused [OF assms(1) ne this] assms(1) show ?thesis by auto
  next
    case False
    moreover have "length xs \<le> unat (lk_max (ls_lists s root))" using assms(1) by (simp add: link_abs_def)
    ultimately have "length xs < unat (lk_max (ls_lists s root))" "\<forall>x \<in> set (butlast xs). endpoint s x \<noteq> (ip, port)"
      "ec_uRemoteIp (ls_clients s (last xs)) \<noteq> ip" "ec_wRemotePort (ls_clients s (last xs)) \<noteq> port" by auto
    from add_client_next [OF assms(1) ne assms(3) this(2-4,1), of cbk t] show ?thesis by auto
  qed
qed

text \<open>A link of type 1 with the client every such link starts with.\<close>

definition ex_links :: eth_links where
  "ex_links = \<lparr>ls_head = Some 1, ls_lists = (\<lambda>_. (link_node 1 RTH_LINK_NET_TCP_CLIENT 10)\<lparr>lk_list := Some 2\<rparr>),
     ls_clients = (\<lambda>_. linked_client DEFAULT_AGX_ACCESS_IP DEFAULT_AGX_ACCESS_PORT 0 None 1), ls_cnt = 2, ls_freed = [],
     ls_bFlagTick = True, ls_uSendIp = 0xFFFFFFFF, ls_sn = replicate 64 0\<rparr>"

lemma ex_links_abs: "link_abs ex_links 1 [2]"
  by (simp add: link_abs_def ex_links_def link_node_def linked_client_def)

theorem eth_link_clients_bounded_witness:
  "\<exists>s' xs'. eth_link_add_tcp_client_list (Some 3) True None 1 0xC0A80105 8070 5 ex_links = Some s' \<and> link_abs s' 1 xs' \<and>
    (xs' = [2] \<and> s' = ex_links \<or> xs' = [2, 3] \<and> ls_clients s' 3 = linked_client 0xC0A80105 8070 5 None 1)"
  using eth_link_clients_bounded [OF ex_links_abs, of 3 None "0xC0A80105" 8070 5] by (simp add: ex_links_def link_node_def)

text \<open>
  A request for a connection to the host of the last client, on another port, is dropped without an answer, although the
  link has room and no client of that address and port: the code asks for both to differ.
\<close>
theorem second_port_refused:
  assumes "link_abs s root (ys @ [x])" "ec_uRemoteIp (ls_clients s x) = ip"
  shows "eth_link_add_tcp_client_list new created cbk root ip port t s = Some s"
  using add_client_refused [OF assms(1)] assms(2) by simp

theorem second_port_refused_witness:
  "eth_link_add_tcp_client_list (Some 3) True None 1 DEFAULT_AGX_ACCESS_IP 9002 5 ex_links = Some ex_links"
  using second_port_refused [of ex_links 1 "[]" 2 DEFAULT_AGX_ACCESS_IP] ex_links_abs
  by (simp add: ex_links_def linked_client_def)

text \<open>
  A connection request that carries the own serial number is obeyed: the datagram makes the link of type 1
  open one more client, to the address and port in the request, and sends nothing back.
\<close>
theorem connection_request_obeyed:
  assumes "length sn < 32" "0 \<notin> set sn" "sn \<noteq> []" "fst (eth_protocol_get_sn snf (ls_sn s)) = sn"
    "hlist lk_next (ls_lists s) (ls_head s) rs" "List.find (\<lambda>r. lk_type (ls_lists s r) = 1) rs = Some root"
    "lk_net (ls_lists s root) = RTH_LINK_NET_TCP_CLIENT" "link_abs s root xs" "a \<notin> set xs"
    "\<forall>x \<in> set xs. ec_uRemoteIp (ls_clients s x) \<noteq> htonl_u32 ip \<and> ec_wRemotePort (ls_clients s x) \<noteq> port"
    "length xs < unat (lk_max (ls_lists s root))" "length stale = 64" "htonl_u32 addr \<noteq> local_ip"
    "m = frame 0 0xFF DEV_ID_AGX NETPROTOCAL_MSG_ID_REQUEST_CONNECT 0 (request_info sn ip port)"
  shows "\<exists>s'. link_udp_cbk_data (Some a) True cbk snf junk stale local_ip sk (51, m, addr) s = Some (sk, s', []) \<and>
    link_abs s' root (xs @ [a]) \<and> ls_clients s' a = linked_client (htonl_u32 ip) port 5 cbk root"
  by (rule udp_request_connects [OF assms])

definition ex_udp :: udp_socket where
  "ex_udp = \<lparr>us_bFlagInit = True, us_bFlagClose = False, us_iSocket = 3, us_pid = True, us_psCfg = Some 0, us_psCbk = Some 0\<rparr>"

theorem connection_request_obeyed_witness:
  "\<exists>s'. link_udp_cbk_data (Some 3) True None None [] (replicate 64 7) 0 ex_udp
      (51, frame 0 0xFF DEV_ID_AGX NETPROTOCAL_MSG_ID_REQUEST_CONNECT 0 (request_info RADAR_DEFAULT_SN 0x0501A8C0 8070), 0xC0A80105)
      ex_links = Some (ex_udp, s', []) \<and> link_abs s' 1 [2, 3]"
proof -
  have h: "htonl_u32 0x0501A8C0 = 0xC0A80105" "htonl_u32 0xC0A80105 \<noteq> 0" by code_simp+
  have "\<exists>s'. link_udp_cbk_data (Some 3) True None None [] (replicate 64 7) 0 ex_udp
      (51, frame 0 0xFF DEV_ID_AGX NETPROTOCAL_MSG_ID_REQUEST_CONNECT 0 (request_info RADAR_DEFAULT_SN 0x0501A8C0 8070), 0xC0A80105)
      ex_links = Some (ex_udp, s', []) \<and> link_abs s' 1 ([2] @ [3]) \<and>
      ls_clients s' 3 = linked_client (htonl_u32 0x0501A8C0) 8070 5 None 1"
  proof (rule connection_request_obeyed)
    show "hlist lk_next (ls_lists ex_links) (ls_head ex_links) [1]" by (simp add: ex_links_def link_node_def)
    show "List.find (\<lambda>r. lk_type (ls_lists ex_links r) = 1) [1] = Some 1" by (simp add: ex_links_def link_node_def)
    show "link_abs ex_links 1 [2]" by (rule ex_links_abs)
  qed (simp_all add: RADAR_DEFAULT_SN_def eth_protocol_get_sn_def ex_links_def link_node_def linked_client_def h
      DEFAULT_AGX_ACCESS_IP_def DEFAULT_AGX_ACCESS_PORT_def)
  then show ?thesis by auto
qed

subsection \<open>Answers to a search\<close>

definition dev_info :: "bytes \<Rightarrow> bytes" where
  "dev_info sn = le_bytes 4 (3 :: u32) @ strncpy_c 64 sn @ le_bytes 2 (3 :: u16) @ le_bytes 2 (1 :: u16) @ strncpy_c 64 DEV_VERSION"

lemma length_strncpy [simp]: "length (strncpy_c n str) = n"
  by (simp add: strncpy_c_def)

lemma length_dev_info [simp]: "length (dev_info sn) = 136"
  by (simp add: dev_info_def)

lemma devinfo_size [simp]: "packed_size eth_protocol_devinfo = 147"
  by (simp add: packed_size_def netcon_layouts)

lemma devinfo_fields:
  assumes "length junk = 147"
  shows "\<exists>d1 d2 d3 d4 h c. set_field eth_protocol_devinfo ''protocol'' (le_bytes 4 (3 :: u32)) junk = Some d1 \<and>
    set_field eth_protocol_devinfo ''sn'' (strncpy_c 64 sn) d1 = Some d2 \<and>
    set_field eth_protocol_devinfo ''type'' (le_bytes 2 (3 :: u16)) d2 = Some d3 \<and>
    set_field eth_protocol_devinfo ''status'' (le_bytes 2 (1 :: u16)) d3 = Some d4 \<and>
    set_field eth_protocol_devinfo ''version'' (strncpy_c 64 DEV_VERSION) d4 = Some (h @ dev_info sn @ c) \<and>
    length h = 9 \<and> length c = 2"
proof -
  have "set_field eth_protocol_devinfo ''version'' (strncpy_c 64 DEV_VERSION)
      (take 9 junk @ le_bytes 4 (3 :: u32) @ strncpy_c 64 sn @ le_bytes 2 (3 :: u16) @ le_bytes 2 (1 :: u16) @ drop 81 junk) =
      Some (take 9 junk @ dev_info sn @ drop 145 junk)"
    using assms by (simp add: set_field_def eth_protocol_devinfo_def storen_def dev_info_def del: le_bytes.simps)
  then show ?thesis
    using assms
    by (simp add: set_field_def eth_protocol_devinfo_def storen_def del: le_bytes.simps)
      (intro exI [of _ "take 9 junk"] exI [of _ "drop 145 junk"], simp)
qed

lemma devinfo_sends:
  assumes "length junk = 147" "eth_protocol_get_sn snf (ls_sn s) = (sn, buf)"
  shows "eth_protocol_devinfo_pkg_send snf junk s =
    Some (eth_link_broadcast (frame 0 0xFF DEV_ID_AGX 0xBB 0 (dev_info sn)) (s\<lparr>ls_sn := buf\<rparr>))"
proof -
  obtain d1 d2 d3 d4 h c where d: "set_field eth_protocol_devinfo ''protocol'' (le_bytes 4 (3 :: u32)) junk = Some d1"
    "set_field eth_protocol_devinfo ''sn'' (strncpy_c 64 sn) d1 = Some d2"
    "set_field eth_protocol_devinfo ''type'' (le_bytes 2 (3 :: u16)) d2 = Some d3"
    "set_field eth_protocol_devinfo ''status'' (le_bytes 2 (1 :: u16)) d3 = Some d4"
    "set_field eth_protocol_devinfo ''version'' (strncpy_c 64 DEV_VERSION) d4 = Some (h @ dev_info sn @ c)"
    "length h = 9" "length c = 2"
    using devinfo_fields [OF assms(1), of sn] by metis
  have "eth_protocol_package 0xBB (h @ dev_info sn @ c) 136 = Some (frame 0 0xFF DEV_ID_AGX 0xBB 0 (dev_info sn), 147)"
    using eth_protocol_package_frame [of h c "dev_info sn" "0xBB"] d(6,7) by simp
  moreover have "take 147 (frame 0 0xFF DEV_ID_AGX 0xBB 0 (dev_info sn)) = frame 0 0xFF DEV_ID_AGX 0xBB 0 (dev_info sn)" by simp
  ultimately show ?thesis
    using assms(2) d(1-5) by (simp add: eth_protocol_devinfo_pkg_send_def del: le_bytes.simps)
qed

lemma sender_walk_find:
  assumes "\<And>r. r \<in> set rs \<Longrightarrow> hlist ec_psNext (ls_clients s) (lk_list (ls_lists s r)) (cs r)"
  shows "hlist lk_next (ls_lists s) p rs \<Longrightarrow> sender_walk s uIp p =
    Some (List.find (\<lambda>r. lk_net (ls_lists s r) = RTH_LINK_NET_TCP_CLIENT \<and>
      (\<exists>x \<in> set (cs r). htonl_u32 (ec_uRemoteIp (ls_clients s x)) = uIp)) rs)"
  using assms
proof (induction rs arbitrary: p)
  case (Cons r rs)
  have c: "find_walk ec_psNext (\<lambda>_ n. htonl_u32 (ec_uRemoteIp n) = uIp) (ls_clients s) (lk_list (ls_lists s r)) =
      Some (List.find (\<lambda>x. htonl_u32 (ec_uRemoteIp (ls_clients s x)) = uIp) (cs r))"
    by (rule find_walk_hlist) (simp add: Cons.prems(2))
  have "sender_walk s uIp (lk_next (ls_lists s r)) = Some (List.find (\<lambda>r. lk_net (ls_lists s r) = RTH_LINK_NET_TCP_CLIENT \<and>
      (\<exists>x \<in> set (cs r). htonl_u32 (ec_uRemoteIp (ls_clients s x)) = uIp)) rs)"
    by (rule Cons.IH) (use Cons.prems in auto)
  moreover have "p = Some r" using Cons.prems(1) by simp
  ultimately show ?case
    using c by (cases "List.find (\<lambda>x. htonl_u32 (ec_uRemoteIp (ls_clients s x)) = uIp) (cs r)")
      (auto simp: sender_walk.simps [of s uIp "Some r"] find_None_iff find_Some_iff)
qed (simp add: sender_walk.simps)

text \<open>
  A search that names no device is meant to be answered only for stations that are not connected yet. It compares
  addresses of different byte order: a search from the very station every client is connected to is answered all the same,
  unless the station's address reads the same in both orders. The answer is three copies of one package of the protocol that
  carries the own serial number, and no second answer goes out before the next tick.
\<close>
theorem search_answers_connected_station:
  assumes "hlist lk_next (ls_lists s) (ls_head s) rs"
    "\<And>r. r \<in> set rs \<Longrightarrow> hlist ec_psNext (ls_clients s) (lk_list (ls_lists s r)) (cs r)"
    "\<And>r x. r \<in> set rs \<Longrightarrow> x \<in> set (cs r) \<Longrightarrow> ec_uRemoteIp (ls_clients s x) = uIp" "htonl_u32 uIp \<noteq> uIp"
    "load8 psSearch 4 = Some 0" "length junk = 147" "eth_protocol_get_sn snf (ls_sn s) = (sn, buf)" "ls_bFlagTick s"
  shows "link_search_handler snf junk psSearch uIp s = Some (s\<lparr>ls_sn := buf, ls_bFlagTick := False\<rparr>,
      replicate 3 (ls_uSendIp s, frame 0 0xFF DEV_ID_AGX NETPROTOCAL_MSG_ID_LOOKUP_RESP 0 (dev_info sn)))"
proof -
  have "sender_walk s uIp (ls_head s) = Some (List.find (\<lambda>r. lk_net (ls_lists s r) = RTH_LINK_NET_TCP_CLIENT \<and>
      (\<exists>x \<in> set (cs r). htonl_u32 (ec_uRemoteIp (ls_clients s x)) = uIp)) rs)"
    by (rule sender_walk_find [OF _ assms(1)]) (rule assms(2))
  also have "\<dots> = Some None" using assms(3,4) by (auto simp: find_None_iff)
  finally have "sender_walk s uIp (ls_head s) = Some None" .
  then show ?thesis
    using assms(5,8) devinfo_sends [OF assms(6,7)]
    by (simp add: link_search_handler_def eth_link_broadcast_def NETPROTOCAL_MSG_ID_LOOKUP_RESP_def)
qed

theorem search_answers_connected_station_witness:
  "link_search_handler None (replicate 147 7) (replicate 36 0) DEFAULT_AGX_ACCESS_IP ex_links =
    Some (ex_links\<lparr>ls_bFlagTick := False\<rparr>,
      replicate 3 (0xFFFFFFFF, frame 0 0xFF DEV_ID_AGX NETPROTOCAL_MSG_ID_LOOKUP_RESP 0 (dev_info RADAR_DEFAULT_SN)))"
proof -
  have h: "htonl_u32 DEFAULT_AGX_ACCESS_IP \<noteq> DEFAULT_AGX_ACCESS_IP" by code_simp
  have "link_search_handler None (replicate 147 7) (replicate 36 0) DEFAULT_AGX_ACCESS_IP ex_links =
    Some (ex_links\<lparr>ls_sn := ls_sn ex_links, ls_bFlagTick := False\<rparr>,
      replicate 3 (ls_uSendIp ex_links, frame 0 0xFF DEV_ID_AGX NETPROTOCAL_MSG_ID_LOOKUP_RESP 0 (dev_info RADAR_DEFAULT_SN)))"
  proof (rule search_answers_connected_station)
    show "hlist lk_next (ls_lists ex_links) (ls_head ex_links) [1]" by (simp add: ex_links_def link_node_def)
    show "hlist ec_psNext (ls_clients ex_links) (lk_list (ls_lists ex_links r)) [2]" for r
      by (simp add: ex_links_def link_node_def linked_client_def)
  qed (use h in \<open>simp_all add: ex_links_def linked_client_def load8_def eth_protocol_get_sn_def\<close>)
  then show ?thesis by (simp add: ex_links_def)
qed

end
