(* ===== verification/Tcp_Sockets.thy ===== *)
theory Tcp_Sockets
  imports Udp_Socket
begin

text \<open>
  The two TCP sockets, \<^verbatim>\<open>srv/eth_link/socket/tcp_client.c\<close> and \<^verbatim>\<open>srv/eth_link/socket/tcp_server.c\<close>: creation, the
  thread of each socket, sending and closing.

  A thread is a machine that makes one turn for every answer of the call it blocks in (\<^verbatim>\<open>connect\<close>, \<^verbatim>\<open>accept\<close> or
  \<^verbatim>\<open>select\<close>). Between two turns another thread may close the socket or send. The calls of the user's
  callbacks are collected in a log. \<open>data\<close> is the data callback: it may read, which can clear
  \<^verbatim>\<open>bFlagConnect\<close>, and close.
\<close>

subsection \<open>What both share\<close>

datatype cbk_event = Ev_connect | Ev_data | Ev_disconnect | Ev_delete

text \<open>Which of the four callbacks the user gave.\<close>

record tcp_cbk =
  cb_connect :: bool
  cb_data :: bool
  cb_disconnect :: bool
  cb_delete :: bool

definition all_cbks :: tcp_cbk where
  "all_cbks = \<lparr>cb_connect = True, cb_data = True, cb_disconnect = True, cb_delete = True\<rparr>"

text \<open>
  The contract between a socket and its user: data only arrives between a connect and a disconnect,
  connects and disconnects alternate, and the delete is the last call, of a disconnected socket.
\<close>

datatype user_view = V_closed | V_open | V_gone | V_violated

fun view_step :: "cbk_event \<Rightarrow> user_view \<Rightarrow> user_view" where
  "view_step Ev_connect V_closed = V_open"
| "view_step Ev_data V_open = V_open"
| "view_step Ev_disconnect V_open = V_closed"
| "view_step Ev_delete V_closed = V_gone"
| "view_step _ _ = V_violated"

definition view_of :: "cbk_event list \<Rightarrow> user_view" where
  "view_of l = fold view_step l V_closed"

lemma view_of_Nil [simp]: "view_of [] = V_closed"
  by (simp add: view_of_def)

lemma view_of_snoc [simp]: "view_of (l @ [e]) = view_step e (view_of l)"
  by (simp add: view_of_def)

lemma view_of_append: "view_of (l @ l') = fold view_step l' (view_of l)"
  by (simp add: view_of_def)

lemma view_violated: "fold view_step l V_violated = V_violated"
  by (induction l) simp_all

lemma view_gone: "fold view_step l V_gone \<noteq> V_violated \<Longrightarrow> l = []"
  by (cases l) (simp_all add: view_violated)

lemma delete_is_last:
  assumes "view_of (l @ Ev_delete # l') \<noteq> V_violated"
  shows "l' = []"
proof -
  have "fold view_step l' (view_step Ev_delete (view_of l)) \<noteq> V_violated"
    using assms by (simp add: view_of_append)
  then show ?thesis by (cases "view_of l") (auto simp: view_violated dest: view_gone)
qed

text \<open>
  A socket thread: turns \<open>turn\<close>, the log of its state and what the thread takes the user to know. The law is that a turn keeps
  the two in agreement; the rest follows for every sequence of turns.
\<close>

locale socket_thread =
  fixes turn :: "'a \<Rightarrow> 's \<Rightarrow> 's" and log_of :: "'s \<Rightarrow> cbk_event list" and view :: "'s \<Rightarrow> user_view"
  assumes turn_view: "view_of (log_of s) = view s \<Longrightarrow> view_of (log_of (turn a s)) = view (turn a s)"
    and not_violated: "view s \<noteq> V_violated"
begin

lemma run_view: "view_of (log_of s) = view s \<Longrightarrow> view_of (log_of (fold turn as s)) = view (fold turn as s)"
  by (induction as arbitrary: s) (simp_all add: turn_view)

lemma run_contract: "view_of (log_of s) = view s \<Longrightarrow> view_of (log_of (fold turn as s)) \<noteq> V_violated"
  by (simp add: run_view not_violated)

lemma deleted_once:
  assumes "view_of (log_of s) = view s" "log_of (fold turn as s) = l @ Ev_delete # l'"
  shows "l' = []"
  by (rule delete_is_last [of l]) (use run_contract [OF assms(1), of as] assms(2) in simp)

end

subsection \<open>Client\<close>

record tcp_client_cfg =
  tc_wConnectTime :: u16
  tc_wRemotePort :: u16
  tc_uRemoteIp :: u32

record tcp_client =
  tc_bFlagInit :: bool
  tc_bFlagConnect :: bool
  tc_bFlagClose :: bool
  tc_iSocket :: i32
  tc_psCfg :: "nat option"
  tc_psCbk :: "nat option"

definition tcp_client_recv :: "i32 \<Rightarrow> tcp_client \<Rightarrow> tcp_client \<times> i32" where
  "tcp_client_recv ret psClient =
     (if 0 \<ge> ret then (psClient\<lparr>tc_bFlagConnect := False\<rparr>, 0) else (psClient, ret))"

definition tcp_client_create ::
  "udp_os \<Rightarrow> tcp_client \<Rightarrow> nat option \<Rightarrow> nat option \<Rightarrow> tcp_client \<times> net_call list \<times> i32" where
  "tcp_client_create os psClient psCfg psCbk =
     (if tc_bFlagInit psClient then (psClient, [], 0)
      else
        let c0 = psClient\<lparr>tc_bFlagInit := True, tc_bFlagClose := False, tc_bFlagConnect := False\<rparr> in
        if psCfg \<noteq> None \<and> psCbk \<noteq> None then
          let fd = ret_socket os;
              c1 = c0\<lparr>tc_psCfg := psCfg, tc_psCbk := psCbk, tc_iSocket := fd\<rparr>;
              opts = replicate 5 (Call_setsockopt fd)
          in if 0 \<le> fd then
               if 0 = ret_mutex_init os then
                 if 0 = ret_pthread_create os then (c1, Call_socket # opts @ [Call_mutex_init, Call_pthread_create], 0)
                 else (c1\<lparr>tc_bFlagInit := False\<rparr>,
                       Call_socket # opts @ [Call_mutex_init, Call_pthread_create, Call_mutex_destroy, Call_close fd], -2)
               else (c1\<lparr>tc_bFlagInit := False\<rparr>, Call_socket # opts @ [Call_mutex_init, Call_close fd], -2)
             else (c1\<lparr>tc_bFlagInit := False\<rparr>, [Call_socket], -2)
        else (c0\<lparr>tc_bFlagInit := False\<rparr>, [], -1))"

definition tcp_client_send :: "tcp_client option \<Rightarrow> bytes option \<Rightarrow> u32 \<Rightarrow> ((i32 \<times> bytes) list \<times> i32) option" where
  "tcp_client_send psClient pvData uLength =
     (case (psClient, pvData) of
        (Some c, Some m) \<Rightarrow>
          if tc_bFlagConnect c then do {
            bs \<leftarrow> loadn m 0 (unat uLength);
            Some ([(tc_iSocket c, bs)], 0) }
          else Some ([], -2)
      | _ \<Rightarrow> Some ([], -2))"

definition tcp_client_close :: "tcp_client option \<Rightarrow> tcp_client option \<times> i32" where
  "tcp_client_close psClient =
     (case psClient of
        None \<Rightarrow> (None, 0)
      | Some c \<Rightarrow> (Some (if tc_bFlagConnect c then c\<lparr>tc_bFlagClose := True\<rparr> else c), 0))"

text \<open>The thread: whether it is about to connect, waits for data, or has ended.\<close>

datatype client_phase = Ph_connect | Ph_select | Ph_end

record 'w client_thread =
  cl_sock :: tcp_client
  cl_count :: u32
  cl_phase :: client_phase
  cl_log :: "cbk_event list"
  cl_calls :: "net_call list"
  cl_user :: 'w

text \<open>
  What the calls of one turn return: of \<^verbatim>\<open>connect\<close>, \<^verbatim>\<open>socket\<close>, \<^verbatim>\<open>select\<close>, \<^verbatim>\<open>FD_ISSET\<close>, \<^verbatim>\<open>recv\<close>, and whether \<^verbatim>\<open>errno\<close> is \<^verbatim>\<open>EBADF\<close>. Of the
  calls that are made, those that open and close descriptors and the mutex are recorded.
\<close>

record client_answer =
  a_connect :: i32
  a_socket :: i32
  a_select :: i32
  a_isset :: bool
  a_badf :: bool
  a_recv :: i32

definition log_if :: "bool \<Rightarrow> cbk_event \<Rightarrow> cbk_event list" where
  "log_if b e = (if b then [e] else [])"

definition client_end :: "tcp_cbk \<Rightarrow> 'w client_thread \<Rightarrow> 'w client_thread" where
  "client_end cbk t =
     t\<lparr>cl_sock := (cl_sock t)\<lparr>tc_iSocket := -1, tc_bFlagInit := False, tc_bFlagClose := False\<rparr>,
       cl_calls := cl_calls t @ (if 0 \<le> tc_iSocket (cl_sock t) then [Call_close (tc_iSocket (cl_sock t))] else []) @ [Call_mutex_destroy],
       cl_phase := Ph_end, cl_log := cl_log t @ log_if (cb_delete cbk) Ev_delete\<rparr>"

definition client_lost :: "tcp_cbk \<Rightarrow> 'w client_thread \<Rightarrow> 'w client_thread" where
  "client_lost cbk t =
     t\<lparr>cl_sock := (cl_sock t)\<lparr>tc_bFlagConnect := False\<rparr>, cl_phase := Ph_connect,
       cl_log := cl_log t @ log_if (cb_disconnect cbk) Ev_disconnect\<rparr>"

text \<open>The branch of a readable socket: the state, and whether the inner loop is left.\<close>

definition client_readable ::
  "tcp_cbk \<Rightarrow> (tcp_client \<times> 'w \<Rightarrow> tcp_client \<times> 'w) \<Rightarrow> client_answer \<Rightarrow> 'w client_thread \<Rightarrow> 'w client_thread \<times> bool" where
  "client_readable cbk data a t =
     (if cb_data cbk then
        case data (cl_sock t, cl_user t) of
          (c, w) \<Rightarrow> (t\<lparr>cl_sock := c, cl_user := w, cl_log := cl_log t @ [Ev_data]\<rparr>, \<not> tc_bFlagConnect c)
      else
        case tcp_client_recv (a_recv a) (cl_sock t) of
          (c, iLength) \<Rightarrow> (t\<lparr>cl_sock := c\<rparr>, 0 \<ge> iLength \<or> \<not> tc_bFlagConnect c))"

definition tcp_client_turn ::
  "tcp_client_cfg \<Rightarrow> tcp_cbk \<Rightarrow> (tcp_client \<times> 'w \<Rightarrow> tcp_client \<times> 'w) \<Rightarrow> client_answer \<Rightarrow> 'w client_thread \<Rightarrow> 'w client_thread" where
  "tcp_client_turn cfg cbk data a t =
     (case cl_phase t of
        Ph_end \<Rightarrow> t
      | Ph_connect \<Rightarrow>
          if tc_bFlagClose (cl_sock t) then client_end cbk t
          else if a_connect a < 0 then
            let retry = (\<lambda>t. t\<lparr>cl_sock := (cl_sock t)\<lparr>tc_iSocket := a_socket a\<rparr>,
                   cl_calls := cl_calls t @ [Call_close (tc_iSocket (cl_sock t)), Call_socket]\<rparr>) in
            if tc_wConnectTime cfg \<noteq> 0 then
              let t1 = t\<lparr>cl_count := cl_count t + 1\<rparr> in
              if ucast (tc_wConnectTime cfg) \<le> cl_count t1 then client_end cbk t1 else retry t1
            else retry t
          else
            t\<lparr>cl_sock := (cl_sock t)\<lparr>tc_bFlagConnect := True\<rparr>, cl_count := 0, cl_phase := Ph_select,
              cl_log := cl_log t @ log_if (cb_connect cbk) Ev_connect\<rparr>
      | Ph_select \<Rightarrow>
          let (t1, out) =
            (if 0 < a_select a then (if a_isset a then client_readable cbk data a t else (t, False))
             else if 0 > a_select a then (t, a_badf a \<and> a_isset a)
             else (t, False))
          in if out \<or> tc_bFlagClose (cl_sock t1) then client_lost cbk t1 else t1)"

text \<open>The steps of the program around one client: a turn of its thread or a call of \<^verbatim>\<open>tcp_client_close\<close> by another thread.\<close>

datatype client_act = C_turn client_answer | C_close

fun client_do ::
  "tcp_client_cfg \<Rightarrow> tcp_cbk \<Rightarrow> (tcp_client \<times> 'w \<Rightarrow> tcp_client \<times> 'w) \<Rightarrow> client_act \<Rightarrow> 'w client_thread \<Rightarrow> 'w client_thread" where
  "client_do cfg cbk data (C_turn a) t = tcp_client_turn cfg cbk data a t"
| "client_do cfg cbk data C_close t = t\<lparr>cl_sock := the (fst (tcp_client_close (Some (cl_sock t))))\<rparr>"

text \<open>The thread right after it has been started.\<close>

definition client_start :: "tcp_client \<Rightarrow> 'w \<Rightarrow> 'w client_thread" where
  "client_start c w = \<lparr>cl_sock = c, cl_count = 0, cl_phase = Ph_connect, cl_log = [], cl_calls = [], cl_user = w\<rparr>"

fun client_view :: "client_phase \<Rightarrow> user_view" where
  "client_view Ph_connect = V_closed"
| "client_view Ph_select = V_open"
| "client_view Ph_end = V_gone"

lemma client_view_ok: "client_view p \<noteq> V_violated"
  by (cases p) simp_all

lemma client_turn_view:
  "view_of (cl_log t) = client_view (cl_phase t) \<Longrightarrow>
    view_of (cl_log (tcp_client_turn cfg all_cbks data a t)) = client_view (cl_phase (tcp_client_turn cfg all_cbks data a t))"
  by (cases "cl_phase t")
    (auto simp: tcp_client_turn_def Let_def client_end_def client_lost_def client_readable_def log_if_def all_cbks_def split_def)

interpretation client: socket_thread "client_do cfg all_cbks data" cl_log "\<lambda>t. client_view (cl_phase t)" for cfg data
proof
  fix t :: "'w client_thread" and a data
  assume "view_of (cl_log t) = client_view (cl_phase t)"
  then show "view_of (cl_log (client_do cfg all_cbks data a t)) = client_view (cl_phase (client_do cfg all_cbks data a t))"
    by (cases a) (simp_all add: client_turn_view)
qed (rule client_view_ok)

subsection \<open>Server\<close>

record tcp_server_cfg =
  sv_wConnectTime :: u16
  sv_wlocalPort :: u16
  sv_ulocalIp :: u32

record tcp_server =
  sv_bFlagInit :: bool
  sv_bFlagConnect :: bool
  sv_bFlagClose :: bool
  sv_iSocket :: i32
  sv_psCfg :: "nat option"
  sv_psCbk :: "nat option"
  sv_client_fd :: i32

definition tcp_server_recv :: "i32 \<Rightarrow> tcp_server \<Rightarrow> tcp_server \<times> i32" where
  "tcp_server_recv ret psserver =
     (if 0 \<ge> ret then (psserver\<lparr>sv_bFlagConnect := False\<rparr>, 0) else (psserver, ret))"

text \<open>
  \<^verbatim>\<open>accept_timeout\<close> with the answers of \<^verbatim>\<open>select\<close> (its result and whether it was interrupted) and of \<^verbatim>\<open>accept\<close>;
  \<open>None\<close> while it waits for more answers.
\<close>

fun accept_select :: "(i32 \<times> bool) list \<Rightarrow> i32 option" where
  "accept_select [] = None"
| "accept_select ((ret, eintr) # as) = (if ret < 0 \<and> eintr then accept_select as else Some ret)"

definition accept_timeout :: "(i32 \<times> bool) list \<Rightarrow> i32 \<Rightarrow> bool \<Rightarrow> nat \<Rightarrow> i32 option" where
  "accept_timeout sels acc addr wait_seconds =
     (if \<not> addr then Some (-1)
      else if wait_seconds > 0 then
        (case accept_select sels of
           None \<Rightarrow> None
         | Some ret \<Rightarrow> Some (if ret = -1 \<or> ret = 0 then -1 else acc))
      else Some acc)"

definition tcp_server_create ::
  "i32 \<Rightarrow> i32 \<Rightarrow> tcp_server \<Rightarrow> nat option \<Rightarrow> nat option \<Rightarrow> tcp_server \<times> net_call list \<times> i32" where
  "tcp_server_create ret_mutex ret_thread psserver psCfg psCbk =
     (if sv_bFlagInit psserver then (psserver, [], 0)
      else
        let c0 = psserver\<lparr>sv_bFlagInit := True, sv_bFlagClose := False, sv_bFlagConnect := False\<rparr> in
        if psCfg \<noteq> None \<and> psCbk \<noteq> None then
          let c1 = c0\<lparr>sv_psCfg := psCfg, sv_psCbk := psCbk\<rparr> in
          if 0 = ret_mutex then
            if 0 = ret_thread then (c1, [Call_mutex_init, Call_pthread_create], 0)
            else (c1\<lparr>sv_bFlagInit := False\<rparr>, [Call_mutex_init, Call_pthread_create, Call_mutex_destroy], -2)
          else (c1\<lparr>sv_bFlagInit := False\<rparr>, [Call_mutex_init, Call_close (sv_iSocket c1)], -2)
        else (c0\<lparr>sv_bFlagInit := False\<rparr>, [], -1))"

definition tcp_server_send :: "tcp_server option \<Rightarrow> bytes option \<Rightarrow> u32 \<Rightarrow> ((i32 \<times> bytes) list \<times> i32) option" where
  "tcp_server_send psserver pvData uLength =
     (case (psserver, pvData) of
        (Some c, Some m) \<Rightarrow>
          if sv_bFlagConnect c then do {
            bs \<leftarrow> loadn m 0 (unat uLength);
            Some ([(sv_client_fd c, bs)], 0) }
          else Some ([], -2)
      | _ \<Rightarrow> Some ([], -2))"

definition tcp_server_close :: "tcp_server option \<Rightarrow> tcp_server option \<times> i32" where
  "tcp_server_close psserver =
     (case psserver of
        None \<Rightarrow> (None, 0)
      | Some c \<Rightarrow> (Some (if sv_bFlagConnect c then c\<lparr>sv_bFlagClose := True\<rparr> else c), 0))"

text \<open>
  The thread: not yet started, waiting for a radar, waiting for data, ended, or returned early because no
  listening socket could be set up.
\<close>

datatype server_phase = Sv_start | Sv_accept | Sv_select | Sv_end | Sv_failed

record 'w server_thread =
  sv_sock :: tcp_server
  sv_count :: u32
  sv_phase :: server_phase
  sv_log :: "cbk_event list"
  sv_calls :: "net_call list"
  sv_user :: 'w

record server_answer =
  b_socket :: i32
  b_bind :: i32
  b_listen :: i32
  b_sels :: "(i32 \<times> bool) list"
  b_accept :: i32
  b_select :: i32
  b_isset :: bool
  b_alive :: bool
  b_recv :: i32

definition server_open :: "tcp_server_cfg \<Rightarrow> server_answer \<Rightarrow> 'w server_thread \<Rightarrow> 'w server_thread" where
  "server_open cfg a t =
     (let fd = b_socket a;
          t1 = t\<lparr>sv_sock := (sv_sock t)\<lparr>sv_iSocket := fd\<rparr>, sv_calls := sv_calls t @ [Call_socket]\<rparr>;
          t2 = t1\<lparr>sv_calls := sv_calls t1 @ [Call_setsockopt fd, Call_bind fd 0 (sv_wlocalPort cfg)]\<rparr>
      in if fd < 0 then t1\<lparr>sv_phase := Sv_failed\<rparr>
         else if b_bind a < 0 \<or> b_listen a \<noteq> 0 then t2\<lparr>sv_calls := sv_calls t2 @ [Call_close fd], sv_phase := Sv_failed\<rparr>
         else t2\<lparr>sv_phase := Sv_accept\<rparr>)"

definition server_end :: "tcp_cbk \<Rightarrow> 'w server_thread \<Rightarrow> 'w server_thread" where
  "server_end cbk t =
     t\<lparr>sv_sock := (sv_sock t)\<lparr>sv_client_fd := -1, sv_iSocket := -1, sv_bFlagInit := False, sv_bFlagClose := False\<rparr>,
       sv_calls := sv_calls t @ Call_close (sv_client_fd (sv_sock t)) #
         (if 0 \<le> sv_iSocket (sv_sock t) then [Call_close (sv_iSocket (sv_sock t))] else []) @ [Call_mutex_destroy],
       sv_phase := Sv_end, sv_log := sv_log t @ log_if (cb_delete cbk) Ev_delete\<rparr>"

definition server_lost :: "tcp_cbk \<Rightarrow> 'w server_thread \<Rightarrow> 'w server_thread" where
  "server_lost cbk t = server_end cbk
     (t\<lparr>sv_sock := (sv_sock t)\<lparr>sv_bFlagConnect := False\<rparr>,
        sv_log := sv_log t @ log_if (cb_disconnect cbk) Ev_disconnect\<rparr>)"

definition server_readable ::
  "tcp_cbk \<Rightarrow> (tcp_server \<times> 'w \<Rightarrow> tcp_server \<times> 'w) \<Rightarrow> server_answer \<Rightarrow> 'w server_thread \<Rightarrow> 'w server_thread \<times> bool" where
  "server_readable cbk data a t =
     (if cb_data cbk then
        case data (sv_sock t, sv_user t) of
          (c, w) \<Rightarrow> (t\<lparr>sv_sock := c, sv_user := w, sv_log := sv_log t @ [Ev_data]\<rparr>, \<not> sv_bFlagConnect c)
      else
        case tcp_server_recv (b_recv a) (sv_sock t) of
          (c, iLength) \<Rightarrow> (t\<lparr>sv_sock := c\<rparr>, 0 \<ge> iLength \<or> \<not> sv_bFlagConnect c))"

text \<open>One round of the inner loop up to the test of \<^verbatim>\<open>bFlagClose\<close>; \<open>b_alive\<close> tells whether \<^verbatim>\<open>TCP_INFO\<close> reports a live socket.\<close>

definition server_select ::
  "tcp_server_cfg \<Rightarrow> tcp_cbk \<Rightarrow> (tcp_server \<times> 'w \<Rightarrow> tcp_server \<times> 'w) \<Rightarrow> server_answer \<Rightarrow> 'w server_thread \<Rightarrow>
   'w server_thread \<times> bool" where
  "server_select cfg cbk data a t =
     (if 0 < b_select a then
        let t0 = t\<lparr>sv_count := 0\<rparr> in
        if b_isset a then server_readable cbk data a t0 else (t0, False)
      else
        let t0 = t\<lparr>sv_count := sv_count t + 1\<rparr> in
        (t0, ucast (sv_wConnectTime cfg) \<le> sv_count t0 \<or> \<not> b_alive a))"

definition tcp_server_turn ::
  "tcp_server_cfg \<Rightarrow> tcp_cbk \<Rightarrow> (tcp_server \<times> 'w \<Rightarrow> tcp_server \<times> 'w) \<Rightarrow> server_answer \<Rightarrow> 'w server_thread \<Rightarrow> 'w server_thread" where
  "tcp_server_turn cfg cbk data a t =
     (case sv_phase t of
        Sv_end \<Rightarrow> t
      | Sv_failed \<Rightarrow> t
      | Sv_start \<Rightarrow> server_open cfg a t
      | Sv_accept \<Rightarrow>
          (case accept_timeout (b_sels a) (b_accept a) True 1 of
             None \<Rightarrow> t
           | Some fd \<Rightarrow>
               let t1 = t\<lparr>sv_sock := (sv_sock t)\<lparr>sv_client_fd := fd\<rparr>\<rparr> in
               if fd < 0 then
                 if sv_wConnectTime cfg \<noteq> 0 then
                   let t2 = t1\<lparr>sv_count := sv_count t1 + 1\<rparr> in
                   if ucast (sv_wConnectTime cfg) \<le> sv_count t2 then server_end cbk t2 else t2
                 else t1
               else
                 t1\<lparr>sv_sock := (sv_sock t1)\<lparr>sv_bFlagConnect := True\<rparr>, sv_count := 0, sv_phase := Sv_select,
                    sv_log := sv_log t1 @ log_if (cb_connect cbk) Ev_connect\<rparr>)
      | Sv_select \<Rightarrow>
          (case server_select cfg cbk data a t of
             (t1, out) \<Rightarrow> if out \<or> sv_bFlagClose (sv_sock t1) then server_lost cbk t1 else t1))"

datatype server_act = S_turn server_answer | S_close

fun server_do ::
  "tcp_server_cfg \<Rightarrow> tcp_cbk \<Rightarrow> (tcp_server \<times> 'w \<Rightarrow> tcp_server \<times> 'w) \<Rightarrow> server_act \<Rightarrow> 'w server_thread \<Rightarrow> 'w server_thread" where
  "server_do cfg cbk data (S_turn a) t = tcp_server_turn cfg cbk data a t"
| "server_do cfg cbk data S_close t = t\<lparr>sv_sock := the (fst (tcp_server_close (Some (sv_sock t))))\<rparr>"

definition server_start :: "tcp_server \<Rightarrow> 'w \<Rightarrow> 'w server_thread" where
  "server_start c w = \<lparr>sv_sock = c, sv_count = 0, sv_phase = Sv_start, sv_log = [], sv_calls = [], sv_user = w\<rparr>"

fun server_view :: "server_phase \<Rightarrow> user_view" where
  "server_view Sv_select = V_open"
| "server_view Sv_end = V_gone"
| "server_view _ = V_closed"

lemma server_view_ok: "server_view p \<noteq> V_violated"
  by (cases p) simp_all

lemmas server_turn_defs = tcp_server_turn_def Let_def server_end_def server_lost_def server_readable_def
  server_open_def server_select_def log_if_def split_def

lemma server_turn_view:
  "view_of (sv_log t) = server_view (sv_phase t) \<Longrightarrow>
    view_of (sv_log (tcp_server_turn cfg all_cbks data a t)) = server_view (sv_phase (tcp_server_turn cfg all_cbks data a t))"
  by (cases "sv_phase t") (auto simp: server_turn_defs all_cbks_def view_of_append split: option.split)

interpretation server: socket_thread "server_do cfg all_cbks data" sv_log "\<lambda>t. server_view (sv_phase t)" for cfg data
proof
  fix t :: "'w server_thread" and a data
  assume "view_of (sv_log t) = server_view (sv_phase t)"
  then show "view_of (sv_log (server_do cfg all_cbks data a t)) = server_view (sv_phase (server_do cfg all_cbks data a t))"
    by (cases a) (simp_all add: server_turn_view)
qed (rule server_view_ok)

subsection \<open>Invariants\<close>

definition client_inv :: "'w client_thread \<Rightarrow> bool" where
  "client_inv t \<longleftrightarrow> (tc_bFlagConnect (cl_sock t) \<longleftrightarrow> cl_phase t = Ph_select)"

lemma client_turn_inv: "client_inv t \<Longrightarrow> client_inv (tcp_client_turn cfg cbk data a t)"
  by (cases "cl_phase t")
    (auto simp: client_inv_def tcp_client_turn_def Let_def client_end_def client_lost_def client_readable_def
      tcp_client_recv_def split_def)

lemma client_do_inv: "client_inv t \<Longrightarrow> client_inv (client_do cfg cbk data a t)"
  by (cases a) (simp_all add: client_turn_inv, simp add: client_inv_def tcp_client_close_def)

lemma client_run_inv: "client_inv t \<Longrightarrow> client_inv (fold (client_do cfg cbk data) as t)"
  by (induction as arbitrary: t) (simp_all add: client_do_inv)

text \<open>The server's log: nothing before the first connection, which is the only one.\<close>

definition server_inv :: "'w server_thread \<Rightarrow> bool" where
  "server_inv t \<longleftrightarrow> (sv_bFlagConnect (sv_sock t) \<longleftrightarrow> sv_phase t = Sv_select) \<and>
     (case sv_phase t of
        Sv_select \<Rightarrow> \<exists>n. sv_log t = Ev_connect # replicate n Ev_data
      | Sv_end \<Rightarrow> sv_log t = [Ev_delete] \<or> (\<exists>n. sv_log t = Ev_connect # replicate n Ev_data @ [Ev_disconnect, Ev_delete])
      | _ \<Rightarrow> sv_log t = [])"

lemma replicate_snoc: "replicate n x @ [x] = replicate (Suc n) x"
  by (induction n) simp_all

lemma server_readable_inv:
  assumes "server_inv t" "sv_phase t = Sv_select" "server_readable all_cbks data a t = (t', out)"
  shows "sv_phase t' = Sv_select" "\<exists>n. sv_log t' = Ev_connect # replicate n Ev_data" "out \<longleftrightarrow> \<not> sv_bFlagConnect (sv_sock t')"
proof -
  from assms(1,2) obtain n where "sv_log t = Ev_connect # replicate n Ev_data" by (auto simp: server_inv_def)
  then have "sv_log t @ [Ev_data] = Ev_connect # replicate (Suc n) Ev_data" by (simp only: append_Cons replicate_snoc)
  then show "\<exists>n. sv_log t' = Ev_connect # replicate n Ev_data"
    using assms(3) by (intro exI [of _ "Suc n"]) (auto simp: server_readable_def all_cbks_def split_def)
qed (use assms in \<open>auto simp: server_readable_def all_cbks_def split_def\<close>)

lemma server_lost_inv:
  assumes "\<exists>n. sv_log t = Ev_connect # replicate n Ev_data"
  shows "server_inv (server_lost all_cbks t)"
  using assms by (auto simp: server_inv_def server_lost_def server_end_def log_if_def all_cbks_def)

lemma server_turn_inv:
  assumes "server_inv t"
  shows "server_inv (tcp_server_turn cfg all_cbks data a t)"
proof (cases "sv_phase t = Sv_select")
  case False
  with assms show ?thesis
    by (cases "sv_phase t") (auto simp: server_inv_def server_turn_defs all_cbks_def split: option.split)
next
  case True
  obtain t1 out where t1: "server_select cfg all_cbks data a t = (t1, out)"
    by (cases "server_select cfg all_cbks data a t")
  have i0: "server_inv (t\<lparr>sv_count := c\<rparr>)" for c
    using assms by (cases "sv_phase t") (simp_all add: server_inv_def)
  have "sv_phase t1 = Sv_select \<and> (\<exists>n. sv_log t1 = Ev_connect # replicate n Ev_data) \<and> (sv_bFlagConnect (sv_sock t1) \<or> out)"
  proof (cases "0 < b_select a \<and> b_isset a")
    case True
    with t1 have "server_readable all_cbks data a (t\<lparr>sv_count := 0\<rparr>) = (t1, out)" by (simp add: server_select_def)
    from server_readable_inv [OF i0 _ this] \<open>sv_phase t = Sv_select\<close> show ?thesis by auto
  next
    case False
    with t1 assms True show ?thesis by (auto simp: server_select_def server_inv_def Let_def split: if_splits)
  qed
  moreover have "tcp_server_turn cfg all_cbks data a t =
      (if out \<or> sv_bFlagClose (sv_sock t1) then server_lost all_cbks t1 else t1)"
    using True t1 by (simp add: tcp_server_turn_def)
  ultimately show ?thesis using server_lost_inv [of t1] by (auto simp: server_inv_def)
qed

lemma server_do_inv: "server_inv t \<Longrightarrow> server_inv (server_do cfg all_cbks data a t)"
proof (cases a)
  case S_close
  assume "server_inv t"
  then show ?thesis by (cases "sv_phase t") (simp_all add: S_close server_inv_def tcp_server_close_def)
qed (simp add: server_turn_inv)

lemma server_run_inv: "server_inv t \<Longrightarrow> server_inv (fold (server_do cfg all_cbks data) as t)"
  by (induction as arbitrary: t) (simp_all add: server_do_inv)

subsection \<open>Giving up\<close>

lemma server_failed_why:
  assumes "sv_phase (fold (server_do cfg cbk data) as t) = Sv_failed" "sv_phase t \<noteq> Sv_failed"
  shows "\<exists>a. S_turn a \<in> set as \<and> (b_socket a < 0 \<or> b_bind a < 0 \<or> b_listen a \<noteq> 0)"
  using assms
proof (induction as arbitrary: t)
  case (Cons x as)
  show ?case
  proof (cases "sv_phase (server_do cfg cbk data x t) = Sv_failed")
    case True
    with Cons.prems(2) obtain a where "x = S_turn a" "b_socket a < 0 \<or> b_bind a < 0 \<or> b_listen a \<noteq> 0"
      by (cases x; cases "sv_phase t") (auto simp: server_turn_defs server_open_def server_select_def log_if_def
          split: option.splits if_splits prod.splits)
    then show ?thesis by auto
  next
    case False
    from Cons.IH [OF _ this] Cons.prems(1) show ?thesis by auto
  qed
qed simp

lemma unat_count_Suc: "unat (c :: u32) < 65536 \<Longrightarrow> unat (c + 1) = unat c + 1"
proof -
  assume "unat c < 65536"
  then have "unat (of_nat (unat c + 1) :: u32) = unat c + 1" by (intro unat_of_nat_small) simp
  moreover have "(of_nat (unat c + 1) :: u32) = c + 1" by (simp add: of_nat_add)
  ultimately show ?thesis by (simp only:)
qed

lemma client_retry:
  assumes "tc_wConnectTime cfg \<noteq> 0" "a_connect a < 0" "cl_phase t = Ph_connect" "\<not> tc_bFlagClose (cl_sock t)"
    "Suc (unat (cl_count t)) < unat (tc_wConnectTime cfg)" "t1 = tcp_client_turn cfg cbk data a t"
  shows "cl_phase t1 = Ph_connect" "\<not> tc_bFlagClose (cl_sock t1)" "cl_log t1 = cl_log t"
    "unat (cl_count t1) = Suc (unat (cl_count t))"
proof -
  have u: "unat (cl_count t + 1) = Suc (unat (cl_count t))"
    using unat_count_Suc [of "cl_count t"] assms(5) unat_u16_less [of "tc_wConnectTime cfg"] by simp
  then have "\<not> ucast (tc_wConnectTime cfg) \<le> cl_count t + 1"
    using assms(5) by (simp add: word_le_nat_alt unat_ucast_u16)
  then have "t1 = t\<lparr>cl_count := cl_count t + 1, cl_sock := (cl_sock t)\<lparr>tc_iSocket := a_socket a\<rparr>,
      cl_calls := cl_calls t @ [Call_close (tc_iSocket (cl_sock t)), Call_socket]\<rparr>"
    unfolding assms(6) tcp_client_turn_def assms(3) Let_def using assms(1,2,4) by simp
  note t1 = this
  show "cl_phase t1 = Ph_connect" "\<not> tc_bFlagClose (cl_sock t1)" "cl_log t1 = cl_log t"
    using assms(3,4) by (simp_all add: t1)
  show "unat (cl_count t1) = Suc (unat (cl_count t))"
    using u by (simp add: t1)
qed

lemma client_count_up:
  assumes "tc_wConnectTime cfg \<noteq> 0"
  shows "\<forall>a \<in> set as. a_connect a < 0 \<Longrightarrow> cl_phase t = Ph_connect \<Longrightarrow> \<not> tc_bFlagClose (cl_sock t) \<Longrightarrow>
    unat (cl_count t) + length as < unat (tc_wConnectTime cfg) \<Longrightarrow>
    t' = fold (tcp_client_turn cfg cbk data) as t \<Longrightarrow>
    cl_phase t' = Ph_connect \<and> \<not> tc_bFlagClose (cl_sock t') \<and> cl_log t' = cl_log t \<and>
      unat (cl_count t') = unat (cl_count t) + length as"
proof (induction as arbitrary: t)
  case (Cons a as)
  define t1 where "t1 = tcp_client_turn cfg cbk data a t"
  have "a_connect a < 0" "Suc (unat (cl_count t)) < unat (tc_wConnectTime cfg)" using Cons.prems(1,4) by simp_all
  note r = client_retry [OF assms this(1) Cons.prems(2,3) this(2) t1_def]
  have "\<forall>a \<in> set as. a_connect a < 0" "unat (cl_count t1) + length as < unat (tc_wConnectTime cfg)"
    "t' = fold (tcp_client_turn cfg cbk data) as t1"
    using Cons.prems(1,4,5) r(4) by (simp_all add: t1_def)
  from Cons.IH [OF this(1) r(1,2) this(2,3)] r(3,4) show ?case by simp
qed simp

lemma client_give_up:
  assumes "tc_wConnectTime cfg \<noteq> 0" "a_connect a < 0" "cl_phase t = Ph_connect" "\<not> tc_bFlagClose (cl_sock t)"
    "Suc (unat (cl_count t)) = unat (tc_wConnectTime cfg)" "t1 = tcp_client_turn cfg all_cbks data a t"
  shows "cl_phase t1 = Ph_end" "cl_log t1 = cl_log t @ [Ev_delete]"
proof -
  have "unat (cl_count t + 1) = Suc (unat (cl_count t))"
    using unat_count_Suc [of "cl_count t"] assms(5) unat_u16_less [of "tc_wConnectTime cfg"] by simp
  then have "ucast (tc_wConnectTime cfg) \<le> cl_count t + 1"
    using assms(5) by (simp add: word_le_nat_alt unat_ucast_u16)
  then show "cl_phase t1 = Ph_end" "cl_log t1 = cl_log t @ [Ev_delete]"
    using assms by (simp_all add: tcp_client_turn_def Let_def client_end_def log_if_def all_cbks_def)
qed

lemma client_ended: "cl_phase t = Ph_end \<Longrightarrow> fold (tcp_client_turn cfg cbk data) as t = t"
  by (induction as) (simp_all add: tcp_client_turn_def)

subsection \<open>Properties\<close>

text \<open>
  C15. What a user of a TCP client can rely on, whatever the network answers and whenever, between the turns of its thread,
  another thread closes the socket: the callbacks come in the order connect, data, disconnect, repeatedly; the delete comes
  once, last and never while connected; and between the turns, while the last the user has been told is that the socket is
  connected, a call of \<^verbatim>\<open>tcp_client_send\<close> hands exactly the given bytes to the socket's descriptor and returns 0; at any other
  time it sends nothing and returns -2.
\<close>
theorem tcp_client_contract:
  assumes "\<not> tc_bFlagConnect c" "t = fold (client_do cfg all_cbks data) as (client_start c w)"
  shows "view_of (cl_log t) \<noteq> V_violated \<and> (\<forall>l l'. cl_log t = l @ Ev_delete # l' \<longrightarrow> l' = []) \<and>
    (\<forall>m n. unat n \<le> length m \<longrightarrow> tcp_client_send (Some (cl_sock t)) (Some m) n =
       Some (if view_of (cl_log t) = V_open then ([(tc_iSocket (cl_sock t), take (unat n) m)], 0) else ([], -2)))"
proof -
  have s: "view_of (cl_log (client_start c w)) = client_view (cl_phase (client_start c w))"
    by (simp add: client_start_def)
  have v: "view_of (cl_log t) = client_view (cl_phase t)"
    unfolding assms(2) by (rule client.run_view [OF s])
  have "client_inv t"
    unfolding assms(2) by (rule client_run_inv) (use assms(1) in \<open>simp add: client_inv_def client_start_def\<close>)
  then have "tc_bFlagConnect (cl_sock t) \<longleftrightarrow> view_of (cl_log t) = V_open"
    unfolding v by (cases "cl_phase t") (simp_all add: client_inv_def)
  moreover have "l' = []" if "cl_log t = l @ Ev_delete # l'" for l l'
    using client.deleted_once [OF s] that unfolding assms(2) .
  ultimately show ?thesis
    using client_view_ok [of "cl_phase t"] v by (auto simp: tcp_client_send_def loadn_def)
qed

definition ex_client :: tcp_client where
  "ex_client = \<lparr>tc_bFlagInit = True, tc_bFlagConnect = False, tc_bFlagClose = False, tc_iSocket = 5, tc_psCfg = Some 0, tc_psCbk = Some 0\<rparr>"

definition ex_cfg :: tcp_client_cfg where
  "ex_cfg = \<lparr>tc_wConnectTime = 5, tc_wRemotePort = 9001, tc_uRemoteIp = 0xC0A801A2\<rparr>"

definition ans :: "i32 \<Rightarrow> i32 \<Rightarrow> client_answer" where
  "ans c sel = \<lparr>a_connect = c, a_socket = 6, a_select = sel, a_isset = True, a_badf = False, a_recv = 0\<rparr>"

text \<open>A failed attempt, a connection, a read, and a close by another thread.\<close>

definition ex_acts :: "client_act list" where
  "ex_acts = [C_turn (ans (-1) 0), C_turn (ans 0 0), C_turn (ans 0 1), C_close, C_turn (ans 0 0), C_turn (ans 0 0)]"

theorem tcp_client_contract_witness:
  "view_of (cl_log (fold (client_do ex_cfg all_cbks id) ex_acts (client_start ex_client ()))) \<noteq> V_violated \<and>
    cl_log (fold (client_do ex_cfg all_cbks id) ex_acts (client_start ex_client ())) =
      [Ev_connect, Ev_data, Ev_disconnect, Ev_delete] \<and>
    tcp_client_send (Some (cl_sock (fold (client_do ex_cfg all_cbks id) (take 3 ex_acts) (client_start ex_client ())))) (Some [1, 2, 3]) 2 =
      Some ([(6, [1, 2])], 0)"
proof (intro conjI)
  let ?t = "fold (client_do ex_cfg all_cbks id) (take 3 ex_acts) (client_start ex_client ())"
  have v: "view_of (cl_log ?t) = V_open" "tc_iSocket (cl_sock ?t) = 6" by code_simp+
  have "\<forall>m n. unat n \<le> length m \<longrightarrow> tcp_client_send (Some (cl_sock ?t)) (Some m) n =
      Some (if view_of (cl_log ?t) = V_open then ([(tc_iSocket (cl_sock ?t), take (unat n) m)], 0) else ([], -2))"
    using tcp_client_contract [OF _ refl, of ex_client ex_cfg id "take 3 ex_acts" "()"] by (simp add: ex_client_def)
  from this [rule_format, of 2 "[1, 2, 3]"] show "tcp_client_send (Some (cl_sock ?t)) (Some [1, 2, 3]) 2 = Some ([(6, [1, 2])], 0)"
    by (simp add: v)
next
  show "view_of (cl_log (fold (client_do ex_cfg all_cbks id) ex_acts (client_start ex_client ()))) \<noteq> V_violated"
    using tcp_client_contract [OF _ refl, of ex_client ex_cfg id ex_acts "()"] by (simp add: ex_client_def)
  show "cl_log (fold (client_do ex_cfg all_cbks id) ex_acts (client_start ex_client ())) =
      [Ev_connect, Ev_data, Ev_disconnect, Ev_delete]"
    by code_simp
qed

text \<open>
  C35. A client with a connection limit gives up: after exactly \<^verbatim>\<open>wConnectTime\<close> failed attempts in a row its thread
  ends, the user is told once, and nothing more happens.
\<close>
theorem tcp_client_gives_up:
  assumes "tc_wConnectTime cfg \<noteq> 0" "\<forall>a \<in> set as. a_connect a < 0" "\<not> tc_bFlagClose c"
    "t = fold (tcp_client_turn cfg all_cbks data) as (client_start c w)"
  shows "cl_phase t = (if length as < unat (tc_wConnectTime cfg) then Ph_connect else Ph_end) \<and>
    cl_log t = (if length as < unat (tc_wConnectTime cfg) then [] else [Ev_delete])"
proof (cases "length as < unat (tc_wConnectTime cfg)")
  case True
  then show ?thesis
    using client_count_up [OF assms(1,2) _ _ _ assms(4)] assms(3) by (simp add: client_start_def)
next
  case False
  define k where "k = unat (tc_wConnectTime cfg) - 1"
  have k: "Suc k = unat (tc_wConnectTime cfg)" using assms(1) by (simp add: k_def unat_gt_0)
  with False obtain bs b ds where as: "as = bs @ b # ds" "length bs = k"
    using id_take_nth_drop [of k as] by (metis Suc_le_eq linorder_not_less length_take min.absorb4)
  let ?t = "fold (tcp_client_turn cfg all_cbks data) bs (client_start c w)"
  have "\<forall>a \<in> set bs. a_connect a < 0" "a_connect b < 0" using assms(2) as by auto
  note c = client_count_up [OF assms(1) this(1) _ _ _ refl, of "client_start c w" all_cbks data]
  have c': "cl_phase ?t = Ph_connect" "\<not> tc_bFlagClose (cl_sock ?t)" "cl_log ?t = []" "unat (cl_count ?t) = k"
    using c assms(3) k as(2) by (simp_all add: client_start_def)
  note e = client_give_up [OF assms(1) \<open>a_connect b < 0\<close> c'(1,2) _ refl, of data]
  have "t = tcp_client_turn cfg all_cbks data b ?t"
    unfolding assms(4) as(1) using client_ended [OF e(1)] k c'(4) by simp
  with e k c'(3,4) False show ?thesis by simp
qed

theorem tcp_client_gives_up_witness:
  "cl_log (fold (tcp_client_turn ex_cfg all_cbks id) (replicate 5 (ans (-1) 0)) (client_start ex_client ())) = [Ev_delete]"
  using tcp_client_gives_up [OF _ _ _ refl, of ex_cfg "replicate 5 (ans (-1) 0)" ex_client id "()"]
  by (simp add: ex_cfg_def ex_client_def ans_def)

text \<open>
  A client without a connection limit, which the C2 link is, cannot be stopped while its peer is unreachable:
  closing has no effect before the connection is up, and the thread retries forever.
\<close>
theorem tcp_client_unstoppable:
  assumes "tc_wConnectTime cfg = 0" "\<forall>a. C_turn a \<in> set as \<longrightarrow> a_connect a < 0" "\<not> tc_bFlagConnect c" "\<not> tc_bFlagClose c"
  shows "cl_phase (fold (client_do cfg cbk data) as (client_start c w)) = Ph_connect"
proof -
  define ok where "ok t \<longleftrightarrow> cl_phase t = Ph_connect \<and> \<not> tc_bFlagConnect (cl_sock t) \<and> \<not> tc_bFlagClose (cl_sock t)"
    for t :: "'a client_thread"
  have "ok (client_do cfg cbk data x t)" if "ok t" "\<forall>a. x = C_turn a \<longrightarrow> a_connect a < 0" for x t
    using that assms(1) by (cases x) (auto simp: ok_def tcp_client_turn_def tcp_client_close_def Let_def)
  then have "ok t \<Longrightarrow> ok (fold (client_do cfg cbk data) as t)" for t
    using assms(2) by (induction as arbitrary: t) auto
  from this [of "client_start c w"] assms(3,4) show ?thesis by (simp add: ok_def client_start_def)
qed

theorem tcp_client_unstoppable_witness:
  "cl_phase (fold (client_do (ex_cfg\<lparr>tc_wConnectTime := 0\<rparr>) all_cbks id)
      [C_turn (ans (-1) 0), C_close, C_turn (ans (-1) 0)] (client_start ex_client ())) = Ph_connect"
  by (rule tcp_client_unstoppable) (auto simp: ex_client_def ans_def)

text \<open>
  C16. A server serves one connection: in every interleaving with closing threads, the callbacks so far are a beginning of
  one connect, any number of reads, one disconnect and the delete, or the delete alone when no radar came; the thread
  has gone through its end exactly if that sequence is complete. The other way for the thread to end is that the listening socket cannot
  be set up, because \<^verbatim>\<open>socket\<close>, \<^verbatim>\<open>bind\<close> or \<^verbatim>\<open>listen\<close> fails: then it returns without any callback, not even the delete. A connection
  can be sent to exactly between connect and disconnect.
\<close>
theorem tcp_server_serves_once:
  assumes "\<not> sv_bFlagConnect c" "t = fold (server_do cfg all_cbks data) as (server_start c w)"
  shows "(\<exists>n. sv_log t \<in> {[], [Ev_delete], Ev_connect # replicate n Ev_data, Ev_connect # replicate n Ev_data @ [Ev_disconnect, Ev_delete]}) \<and>
    (sv_phase t = Sv_end \<longleftrightarrow> sv_log t \<noteq> [] \<and> last (sv_log t) = Ev_delete) \<and>
    (sv_phase t = Sv_failed \<longrightarrow> sv_log t = [] \<and> (\<exists>a. S_turn a \<in> set as \<and> (b_socket a < 0 \<or> b_bind a < 0 \<or> b_listen a \<noteq> 0))) \<and>
    (sv_bFlagConnect (sv_sock t) \<longleftrightarrow> view_of (sv_log t) = V_open)"
proof -
  have i: "server_inv t"
    unfolding assms(2) by (rule server_run_inv) (use assms(1) in \<open>simp add: server_inv_def server_start_def\<close>)
  have v: "view_of (sv_log t) = server_view (sv_phase t)"
    unfolding assms(2) by (rule server.run_view) (simp add: server_start_def)
  have "\<exists>n. sv_log t \<in> {[], [Ev_delete], Ev_connect # replicate n Ev_data, Ev_connect # replicate n Ev_data @ [Ev_disconnect, Ev_delete]}"
    using i by (cases "sv_phase t") (auto simp: server_inv_def)
  moreover have "sv_phase t = Sv_end \<longleftrightarrow> sv_log t \<noteq> [] \<and> last (sv_log t) = Ev_delete"
    using i by (cases "sv_phase t") (auto simp: server_inv_def last_replicate split: if_splits)
  moreover have "sv_bFlagConnect (sv_sock t) \<longleftrightarrow> view_of (sv_log t) = V_open"
    using i unfolding v by (cases "sv_phase t") (simp_all add: server_inv_def)
  moreover have "sv_log t = []" if "sv_phase t = Sv_failed" using i that by (simp add: server_inv_def)
  ultimately show ?thesis using server_failed_why [of cfg all_cbks data as "server_start c w"] unfolding assms(2) [symmetric]
    by (auto simp: server_start_def)
qed

definition ex_server :: tcp_server where
  "ex_server = \<lparr>sv_bFlagInit = True, sv_bFlagConnect = False, sv_bFlagClose = False, sv_iSocket = 0, sv_psCfg = Some 0,
     sv_psCbk = Some 0, sv_client_fd = 0\<rparr>"

definition ex_scfg :: tcp_server_cfg where
  "ex_scfg = \<lparr>sv_wConnectTime = 5, sv_wlocalPort = 8070, sv_ulocalIp = 0\<rparr>"

definition sans :: "i32 \<Rightarrow> i32 \<Rightarrow> server_answer" where
  "sans acc sel = \<lparr>b_socket = 3, b_bind = 0, b_listen = 0, b_sels = [(if acc < 0 then 0 else 1, False)], b_accept = acc,
     b_select = sel, b_isset = True, b_alive = True, b_recv = 0\<rparr>"

theorem tcp_server_serves_once_witness:
  "sv_phase (fold (server_do ex_scfg all_cbks id) (map S_turn [sans 0 0, sans 4 0, sans 0 1, sans 0 1] @ [S_close, S_turn (sans 0 0)])
      (server_start ex_server ())) = Sv_end"
proof -
  let ?as = "map S_turn [sans 0 0, sans 4 0, sans 0 1, sans 0 1] @ [S_close, S_turn (sans 0 0)]"
  have "sv_log (fold (server_do ex_scfg all_cbks id) ?as (server_start ex_server ())) =
      [Ev_connect, Ev_data, Ev_data, Ev_disconnect, Ev_delete]" by code_simp
  with tcp_server_serves_once [OF _ refl, of ex_server ex_scfg id ?as "()"] show ?thesis
    by (simp add: ex_server_def)
qed

text \<open>
  When the listening socket cannot be set up, the thread of a server returns without the delete callback, whatever happens
  afterwards: its user is never told, and the socket still counts as initialised.
\<close>
theorem tcp_server_failure_unnoticed:
  assumes "b_socket a < 0 \<or> b_bind a < 0 \<or> b_listen a \<noteq> 0" "sv_bFlagInit c"
    "t = fold (server_do cfg cbk data) (S_turn a # as) (server_start c w)"
  shows "sv_log t = [] \<and> sv_bFlagInit (sv_sock t)"
proof -
  define dead where "dead t \<longleftrightarrow> sv_phase t = Sv_failed \<and> sv_log t = [] \<and> sv_bFlagInit (sv_sock t)" for t :: "'a server_thread"
  have "dead (server_do cfg cbk data x t)" if "dead t" for x t
    using that by (cases x) (auto simp: dead_def tcp_server_turn_def tcp_server_close_def)
  then have "dead t \<Longrightarrow> dead (fold (server_do cfg cbk data) as t)" for t
    by (induction as arbitrary: t) auto
  moreover have "dead (server_do cfg cbk data (S_turn a) (server_start c w))"
    using assms(1,2) by (auto simp: dead_def tcp_server_turn_def server_open_def server_start_def Let_def)
  ultimately show ?thesis unfolding assms(3) by (simp add: dead_def)
qed

theorem tcp_server_failure_unnoticed_witness:
  "sv_log (fold (server_do ex_scfg all_cbks id) (S_turn ((sans 0 0)\<lparr>b_bind := -1\<rparr>) # [S_turn (sans 4 0), S_close])
      (server_start ex_server ())) = []"
  using tcp_server_failure_unnoticed [OF _ _ refl, of "(sans 0 0)\<lparr>b_bind := -1\<rparr>" ex_server ex_scfg all_cbks id
      "[S_turn (sans 4 0), S_close]" "()"] by (simp add: ex_server_def)

end
