(* ===== verification/Link_Callbacks.thy ===== *)
theory Link_Callbacks
  imports Eth_Link Tcp_Sockets
begin

text \<open>
  The callbacks that \<^verbatim>\<open>eth_link_server.c\<close> and \<^verbatim>\<open>eth_link.c\<close> give to their TCP sockets, \<^verbatim>\<open>eth_link_socket_cbk_connect\<close>,
  \<^verbatim>\<open>_data\<close>, \<^verbatim>\<open>_disconnect\<close> and \<^verbatim>\<open>_delete\<close>: each hands the event to the user of the link, and the last takes the node of
  the socket out of its list and frees it.

  This is where the socket threads of \<^verbatim>\<open>Tcp_Sockets\<close> meet the lists of \<^verbatim>\<open>Eth_Link_Server\<close> and \<^verbatim>\<open>Eth_Link\<close>. What the user's
  functions do is not part of the link: a call is recorded as the handle the function is given and the event.
\<close>

subsection \<open>The user's functions\<close>

text \<open>\<^verbatim>\<open>eth_link_cbk_t\<close>: which functions are set, and the handle they are called with.\<close>

record eth_link_cbk = tcp_cbk +
  uc_psHandle :: nat

type_synonym user_calls = "(nat \<times> cbk_event) list"

text \<open>The guard all four callbacks share: \<^verbatim>\<open>psList->psUserCbk && psList->psUserCbk->pv_cbk_...\<close>.\<close>

definition user_call ::
  "(nat \<Rightarrow> eth_link_cbk) \<Rightarrow> (eth_link_cbk \<Rightarrow> bool) \<Rightarrow> cbk_event \<Rightarrow> nat option \<Rightarrow> user_calls" where
  "user_call cbks has ev psUserCbk =
     (case psUserCbk of
        None \<Rightarrow> []
      | Some c \<Rightarrow> if has (cbks c) then [(uc_psHandle (cbks c), ev)] else [])"

subsection \<open>The radar side\<close>

definition server_socket_cbk_connect ::
  "(nat \<Rightarrow> eth_link_cbk) \<Rightarrow> servers \<Rightarrow> nat option \<Rightarrow> user_calls" where
  "server_socket_cbk_connect cbks st psHandle =
     (case psHandle of
        None \<Rightarrow> []
      | Some psList \<Rightarrow> user_call cbks cb_connect Ev_connect (ts_psUserCbk (st psList)))"

text \<open>Without a user's function the data is read here, up to 128 bytes, and thrown away: the second component is the size asked for.\<close>

definition server_socket_cbk_data ::
  "(nat \<Rightarrow> eth_link_cbk) \<Rightarrow> servers \<Rightarrow> nat option \<Rightarrow> user_calls \<times> u32 option" where
  "server_socket_cbk_data cbks st psHandle =
     (case psHandle of
        None \<Rightarrow> ([], Some 128)
      | Some psList \<Rightarrow>
          (case user_call cbks cb_data Ev_data (ts_psUserCbk (st psList)) of
             [] \<Rightarrow> ([], Some 128)
           | calls \<Rightarrow> (calls, None)))"

definition server_socket_cbk_disconnect ::
  "(nat \<Rightarrow> eth_link_cbk) \<Rightarrow> servers \<Rightarrow> nat option \<Rightarrow> user_calls" where
  "server_socket_cbk_disconnect cbks st psHandle =
     (case psHandle of
        None \<Rightarrow> []
      | Some psList \<Rightarrow> user_call cbks cb_disconnect Ev_disconnect (ts_psUserCbk (st psList)))"

text \<open>The handle is dereferenced without a test, so a null pointer is \<open>None\<close>. The mutex makes the removal one step.\<close>

definition server_socket_cbk_delete ::
  "(nat \<Rightarrow> eth_link_cbk) \<Rightarrow> nat option \<Rightarrow> eth_link_list \<Rightarrow> servers \<Rightarrow> int \<Rightarrow>
   (eth_link_list \<times> servers \<times> int \<times> user_calls) option" where
  "server_socket_cbk_delete cbks psHandle e st cnt = do {
     psList \<leftarrow> psHandle;
     let calls = user_call cbks cb_delete Ev_delete (ts_psUserCbk (st psList));
     (e', st', cnt') \<leftarrow> eth_link_del_tcp_server_list psList e st cnt;
     Some (e', st', cnt', calls) }"

subsection \<open>The C2 side\<close>

definition client_socket_cbk_connect ::
  "(nat \<Rightarrow> eth_link_cbk) \<Rightarrow> eth_links \<Rightarrow> nat option \<Rightarrow> user_calls" where
  "client_socket_cbk_connect cbks s psHandle =
     (case psHandle of
        None \<Rightarrow> []
      | Some psList \<Rightarrow> user_call cbks cb_connect Ev_connect (ec_psUserCbk (ls_clients s psList)))"

definition client_socket_cbk_data ::
  "(nat \<Rightarrow> eth_link_cbk) \<Rightarrow> eth_links \<Rightarrow> nat option \<Rightarrow> user_calls \<times> u32 option" where
  "client_socket_cbk_data cbks s psHandle =
     (case psHandle of
        None \<Rightarrow> ([], Some 128)
      | Some psList \<Rightarrow>
          (case user_call cbks cb_data Ev_data (ec_psUserCbk (ls_clients s psList)) of
             [] \<Rightarrow> ([], Some 128)
           | calls \<Rightarrow> (calls, None)))"

definition client_socket_cbk_disconnect ::
  "(nat \<Rightarrow> eth_link_cbk) \<Rightarrow> eth_links \<Rightarrow> nat option \<Rightarrow> user_calls" where
  "client_socket_cbk_disconnect cbks s psHandle =
     (case psHandle of
        None \<Rightarrow> []
      | Some psList \<Rightarrow> user_call cbks cb_disconnect Ev_disconnect (ec_psUserCbk (ls_clients s psList)))"

definition client_socket_cbk_delete ::
  "(nat \<Rightarrow> eth_link_cbk) \<Rightarrow> nat option \<Rightarrow> eth_links \<Rightarrow> (eth_links \<times> user_calls) option" where
  "client_socket_cbk_delete cbks psHandle s = do {
     psList \<leftarrow> psHandle;
     let calls = user_call cbks cb_delete Ev_delete (ec_psUserCbk (ls_clients s psList));
     s' \<leftarrow> eth_link_del_tcp_client_list psList s;
     Some (s', calls) }"

subsection \<open>A socket and its node\<close>

text \<open>
  What the callback of an event does to the link, when the socket belongs to node \<open>x\<close>: the functions \<^verbatim>\<open>sCbk\<close> is set up with.
\<close>

fun server_event ::
  "(nat \<Rightarrow> eth_link_cbk) \<Rightarrow> nat \<Rightarrow> cbk_event \<Rightarrow> eth_link_list \<times> servers \<times> int \<Rightarrow>
   ((eth_link_list \<times> servers \<times> int) \<times> user_calls) option" where
  "server_event cbks x Ev_connect (e, st, cnt) = Some ((e, st, cnt), server_socket_cbk_connect cbks st (Some x))"
| "server_event cbks x Ev_data (e, st, cnt) = Some ((e, st, cnt), fst (server_socket_cbk_data cbks st (Some x)))"
| "server_event cbks x Ev_disconnect (e, st, cnt) = Some ((e, st, cnt), server_socket_cbk_disconnect cbks st (Some x))"
| "server_event cbks x Ev_delete (e, st, cnt) =
     map_option (\<lambda>(e', st', cnt', calls). ((e', st', cnt'), calls)) (server_socket_cbk_delete cbks (Some x) e st cnt)"

fun client_event ::
  "(nat \<Rightarrow> eth_link_cbk) \<Rightarrow> nat \<Rightarrow> cbk_event \<Rightarrow> eth_links \<Rightarrow> (eth_links \<times> user_calls) option" where
  "client_event cbks x Ev_connect s = Some (s, client_socket_cbk_connect cbks s (Some x))"
| "client_event cbks x Ev_data s = Some (s, fst (client_socket_cbk_data cbks s (Some x)))"
| "client_event cbks x Ev_disconnect s = Some (s, client_socket_cbk_disconnect cbks s (Some x))"
| "client_event cbks x Ev_delete s = client_socket_cbk_delete cbks (Some x) s"

text \<open>The events of a socket thread, or of several threads, one after the other.\<close>

fun link_events ::
  "('ev \<Rightarrow> 's \<Rightarrow> ('s \<times> user_calls) option) \<Rightarrow> 'ev list \<Rightarrow> 's \<Rightarrow> ('s \<times> user_calls) option" where
  "link_events event [] s = Some (s, [])"
| "link_events event (ev # evs) s = do {
     (s1, calls1) \<leftarrow> event ev s;
     (s2, calls2) \<leftarrow> link_events event evs s1;
     Some (s2, calls1 @ calls2) }"

lemma link_events_append:
  "link_events event (xs @ ys) s = do {
     (s1, calls1) \<leftarrow> link_events event xs s;
     (s2, calls2) \<leftarrow> link_events event ys s1;
     Some (s2, calls1 @ calls2) }"
  by (induction xs arbitrary: s) (auto split: option.split bind_split simp: Option.bind_assoc)

subsection \<open>The life of a socket\<close>

text \<open>The handle of a user who has set all four functions.\<close>

definition user_handle :: "(nat \<Rightarrow> eth_link_cbk) \<Rightarrow> nat option \<Rightarrow> nat option" where
  "user_handle cbks psUserCbk =
     (case psUserCbk of
        None \<Rightarrow> None
      | Some c \<Rightarrow>
          if cb_connect (cbks c) \<and> cb_data (cbks c) \<and> cb_disconnect (cbks c) \<and> cb_delete (cbks c)
          then Some (uc_psHandle (cbks c)) else None)"

lemma user_call_handle:
  assumes "user_handle cbks p = Some h"
  shows "user_call cbks cb_connect ev p = [(h, ev)]" "user_call cbks cb_data ev p = [(h, ev)]"
    "user_call cbks cb_disconnect ev p = [(h, ev)]" "user_call cbks cb_delete ev p = [(h, ev)]"
  using assms by (auto simp: user_handle_def user_call_def split: option.splits if_splits)

text \<open>A complete log: one delete, at the end.\<close>

lemma view_gone_split:
  assumes "view_of l = V_gone"
  shows "\<exists>l0. l = l0 @ [Ev_delete] \<and> Ev_delete \<notin> set l0"
proof (cases l rule: rev_cases)
  case (snoc l0 ev)
  with assms have v: "ev = Ev_delete" "view_of l0 = V_closed" by (cases ev; cases "view_of l0"; simp)+
  have "Ev_delete \<notin> set l0"
  proof
    assume "Ev_delete \<in> set l0"
    then obtain l1 l2 where "l0 = l1 @ Ev_delete # l2" by (meson split_list)
    with delete_is_last [of l1 l2] v(2) show False by (cases "view_of l1") auto
  qed
  with snoc v(1) show ?thesis by blast
qed (use assms in simp)

lemma view_live_no_delete:
  assumes "view_of l = V_closed \<or> view_of l = V_open"
  shows "Ev_delete \<notin> set l"
proof
  assume "Ev_delete \<in> set l"
  then obtain l1 l2 where l: "l = l1 @ Ev_delete # l2" by (meson split_list)
  with delete_is_last [of l1 l2] assms have "l2 = []" by auto
  with l assms show False by (cases "view_of l1") auto
qed

text \<open>
  The events of the sockets of a list of nodes, interleaved: each delete comes while its node is one of the first two of what is left of
  the list, and nothing comes after it from that node.
\<close>

fun deletes_ok :: "nat list \<Rightarrow> (nat \<times> cbk_event) list \<Rightarrow> bool" where
  "deletes_ok xs [] \<longleftrightarrow> True"
| "deletes_ok xs ((x, ev) # evs) \<longleftrightarrow>
     (if ev = Ev_delete then x \<in> set (take 2 xs) \<and> x \<notin> fst ` set evs \<and> deletes_ok (remove1 x xs) evs else deletes_ok xs evs)"



text \<open>
  A link as its sockets see it: events other than the delete only reach the user of the node, and the delete of one of the first
  two nodes takes exactly that node out of the list.
\<close>

locale link_side =
  fixes event :: "nat \<Rightarrow> cbk_event \<Rightarrow> 's \<Rightarrow> ('s \<times> user_calls) option"
    and nodes :: "'s \<Rightarrow> nat list \<Rightarrow> bool" and handle :: "'s \<Rightarrow> nat \<Rightarrow> nat option"
  assumes forwards: "handle s x = Some h \<Longrightarrow> ev \<noteq> Ev_delete \<Longrightarrow> event x ev s = Some (s, [(h, ev)])"
    and removes: "nodes s xs \<Longrightarrow> x \<in> set (take 2 xs) \<Longrightarrow> handle s x = Some h \<Longrightarrow>
      \<exists>s'. event x Ev_delete s = Some (s', [(h, Ev_delete)]) \<and> nodes s' (remove1 x xs) \<and> (\<forall>y. handle s' y = handle s y)"
begin

lemma live_events:
  "handle s x = Some h \<Longrightarrow> Ev_delete \<notin> set l \<Longrightarrow> link_events (event x) l s = Some (s, map (Pair h) l)"
  by (induction l) (auto simp: forwards)

lemma live:
  "handle s x = Some h \<Longrightarrow> view_of l = V_closed \<or> view_of l = V_open \<Longrightarrow> link_events (event x) l s = Some (s, map (Pair h) l)"
  by (rule live_events [OF _ view_live_no_delete])

lemma gone:
  assumes "nodes s xs" "x \<in> set (take 2 xs)" "handle s x = Some h" "view_of l = V_gone"
  shows "\<exists>s'. link_events (event x) l s = Some (s', map (Pair h) l) \<and> nodes s' (remove1 x xs)"
proof -
  obtain l0 where l: "l = l0 @ [Ev_delete]" "Ev_delete \<notin> set l0" using view_gone_split [OF assms(4)] by blast
  from removes [OF assms(1-3)] l live_events [OF assms(3) l(2)] show ?thesis
    by (auto simp: link_events_append)
qed

lemma several:
  assumes "nodes s xs" "distinct xs" "\<forall>x \<in> set xs. handle s x = Some (h x)" "fst ` set evs \<subseteq> set xs" "deletes_ok xs evs"
  shows "\<exists>s'. link_events (\<lambda>(x, ev). event x ev) evs s = Some (s', map (\<lambda>(x, ev). (h x, ev)) evs) \<and>
    nodes s' (filter (\<lambda>x. (x, Ev_delete) \<notin> set evs) xs)"
  using assms
proof (induction evs arbitrary: s xs)
  case (Cons p evs)
  obtain x ev where p: "p = (x, ev)" by (cases p)
  have x: "x \<in> set xs" "handle s x = Some (h x)" using Cons.prems p by auto
  show ?case
  proof (cases "ev = Ev_delete")
    case False
    have "fst ` set evs \<subseteq> set xs" "deletes_ok xs evs" using Cons.prems(4,5) p False by auto
    with Cons.IH [OF Cons.prems(1-3)] obtain s' where
      "link_events (\<lambda>(x, ev). event x ev) evs s = Some (s', map (\<lambda>(x, ev). (h x, ev)) evs)"
      "nodes s' (filter (\<lambda>x. (x, Ev_delete) \<notin> set evs) xs)" by blast
    with p False forwards [OF x(2) False] show ?thesis by simp
  next
    case True
    have d: "x \<in> set (take 2 xs)" "x \<notin> fst ` set evs" "deletes_ok (remove1 x xs) evs" using Cons.prems(5) p True by auto
    obtain s1 where s1: "event x Ev_delete s = Some (s1, [(h x, Ev_delete)])" "nodes s1 (remove1 x xs)" "\<forall>y. handle s1 y = handle s y"
      using removes [OF Cons.prems(1) d(1) x(2)] by blast
    have "distinct (remove1 x xs)" "\<forall>y \<in> set (remove1 x xs). handle s1 y = Some (h y)" "fst ` set evs \<subseteq> set (remove1 x xs)"
      using Cons.prems(2-4) p d(2) s1(3) by auto
    from Cons.IH [OF s1(2) this d(3)] obtain s' where s': "link_events (\<lambda>(x, ev). event x ev) evs s1 = Some (s', map (\<lambda>(x, ev). (h x, ev)) evs)"
      "nodes s' (filter (\<lambda>y. (y, Ev_delete) \<notin> set evs) (remove1 x xs))" by blast
    moreover have "filter (\<lambda>y. (y, Ev_delete) \<notin> set evs) (remove1 x xs) = filter (\<lambda>y. (y, Ev_delete) \<notin> set (p # evs)) xs"
      using Cons.prems(2) p True by (simp add: distinct_remove1_removeAll removeAll_filter_not_eq filter_filter conj_commute)
        (metis (full_types))
    ultimately show ?thesis using p True s1(1) by simp
  qed
qed simp

end

subsection \<open>Both links keep the contract\<close>

lemma first_two:
  assumes "x \<in> set (take 2 xs)"
  obtains zs where "xs = x # zs" | h zs where "h \<noteq> x" "xs = h # x # zs"
proof -
  from assms obtain a r where a: "xs = a # r" by (cases xs) auto
  show ?thesis
  proof (cases "a = x")
    case True
    with a that(1) show ?thesis by blast
  next
    case False
    with assms a obtain zs where "r = x # zs" by (cases r) auto
    with a False that(2) show ?thesis by blast
  qed
qed

lemma server_abs_remove:
  assumes "server_abs e st xs" "x \<in> set (take 2 xs)"
  shows "\<exists>e' st'. eth_link_del_tcp_server_list x e st cnt = Some (e', st', cnt - 1) \<and> server_abs e' st' (remove1 x xs) \<and>
    el_max e' = el_max e \<and> (\<forall>y. ts_psUserCbk (st' y) = ts_psUserCbk (st y))"
proof -
  note abs = assms(1)[unfolded server_abs_def]
  from assms(2) show ?thesis
  proof (cases rule: first_two)
    case (1 zs)
    let ?e = "e\<lparr>el_list := ts_psNext (st x)\<rparr>"
    have "eth_link_del_tcp_server_list x e st cnt = Some (?e, st, cnt - 1)"
      using abs 1 by (simp add: eth_link_del_tcp_server_list_def)
    moreover have "server_abs ?e st zs" using abs 1 by (auto simp: server_abs_def)
    ultimately show ?thesis using 1 by auto
  next
    case (2 h zs)
    define st' where "st' = st(h := (st h)\<lparr>ts_psNext := ts_psNext (st x)\<rparr>)"
    have "hlist ts_psNext st (el_list e) (h # [] @ x # zs)" using abs 2 by simp
    note del = server_del_inner_eq [OF this st'_def]
    have same: "radar_sn (st' y) = radar_sn (st y)" "ts_wlocalPort (st' y) = ts_wlocalPort (st y)"
      "ts_psUserCbk (st' y) = ts_psUserCbk (st y)" for y
      by (simp_all add: st'_def)
    have "server_abs e st' (h # zs)"
      using abs 2 del(2) unfolding server_abs_def same by auto
    with del(1) [of cnt] 2 same show ?thesis by auto
  qed
qed

lemma server_data_calls: "fst (server_socket_cbk_data cbks st (Some x)) = user_call cbks cb_data Ev_data (ts_psUserCbk (st x))"
  by (simp add: server_socket_cbk_data_def split: list.split)

lemma client_data_calls: "fst (client_socket_cbk_data cbks s (Some x)) = user_call cbks cb_data Ev_data (ec_psUserCbk (ls_clients s x))"
  by (simp add: client_socket_cbk_data_def split: list.split)

interpretation radar_side: link_side "server_event cbks" "\<lambda>(e, st, cnt). server_abs e st"
  "\<lambda>(e, st, cnt) x. user_handle cbks (ts_psUserCbk (st x))" for cbks
proof (unfold_locales, goal_cases)
  case (1 s x h ev)
  then show ?case
    by (cases s; cases ev)
      (simp_all add: server_socket_cbk_connect_def server_socket_cbk_disconnect_def server_data_calls user_call_handle)
next
  case (2 s xs x h)
  obtain e st cnt where s: "s = (e, st, cnt)" by (cases s)
  from 2 s server_abs_remove [of e st xs x cnt] show ?case
    by (auto simp: server_socket_cbk_delete_def user_call_handle)
qed

lemma link_abs_remove:
  assumes "link_abs s root xs" "x \<in> set (take 2 xs)" "ec_psRoot (ls_clients s x) = root"
  shows "\<exists>s'. eth_link_del_tcp_client_list x s = Some s' \<and> link_abs s' root (remove1 x xs) \<and>
    (\<forall>y. ec_psRoot (ls_clients s' y) = ec_psRoot (ls_clients s y) \<and> ec_psUserCbk (ls_clients s' y) = ec_psUserCbk (ls_clients s y))"
proof -
  note abs = assms(1)[unfolded link_abs_def]
  from assms(2) show ?thesis
  proof (cases rule: first_two)
    case (1 zs)
    let ?s = "s\<lparr>ls_lists := (ls_lists s)(root := (ls_lists s root)\<lparr>lk_list := ec_psNext (ls_clients s x)\<rparr>),
      ls_cnt := ls_cnt s - 1, ls_freed := x # ls_freed s\<rparr>"
    have "eth_link_del_tcp_client_list x s = Some ?s"
      using abs 1 assms(3) by (simp add: eth_link_del_tcp_client_list_def Let_def)
    moreover have "link_abs ?s root zs" using abs 1 by (simp add: link_abs_def)
    ultimately show ?thesis using 1 by simp
  next
    case (2 h zs)
    have l: "lk_list (ls_lists s root) = Some h" using abs 2 by simp
    have hx: "hlist ec_psNext (ls_clients s) (Some h) (h # [] @ x # zs)" using abs 2 by simp
    from find_walk_hlist [OF hx, of "\<lambda>a _. a = x"] 2(1)
    have f: "find_walk ec_psNext (\<lambda>a _. a = x) (ls_clients s) (Some h) = Some (Some x)" by simp
    let ?cl = "(ls_clients s)(h := (ls_clients s h)\<lparr>ec_psNext := ec_psNext (ls_clients s x)\<rparr>)"
    let ?s = "s\<lparr>ls_clients := ?cl, ls_cnt := ls_cnt s - 1, ls_freed := x # ls_freed s\<rparr>"
    have del: "eth_link_del_tcp_client_list x s = Some ?s"
      using f l 2(1) assms(3) by (simp add: eth_link_del_tcp_client_list_def Let_def)
    have "hlist ec_psNext ?cl (Some h) (h # zs)"
      by (rule hlist_skip [OF hx]) simp_all
    moreover have "endpoint ?s y = endpoint s y" for y by simp
    then have "distinct (map (endpoint ?s) (h # zs))" using abs 2 by auto
    ultimately have "link_abs ?s root (h # zs)"
      using abs 2 l by (simp add: link_abs_def)
    with del 2 show ?thesis by (intro exI [of _ ?s]) simp
  qed
qed

interpretation c2_side: link_side "client_event cbks" "\<lambda>s xs. link_abs s root xs \<and> (\<forall>x \<in> set xs. ec_psRoot (ls_clients s x) = root)"
  "\<lambda>s x. user_handle cbks (ec_psUserCbk (ls_clients s x))" for cbks root
proof (unfold_locales, goal_cases)
  case (1 s x h ev)
  then show ?case
    by (cases ev)
      (simp_all add: client_socket_cbk_connect_def client_socket_cbk_disconnect_def client_data_calls user_call_handle)
next
  case (2 s xs x h)
  have "x \<in> set xs" using 2(2) by (meson in_set_takeD)
  with 2 link_abs_remove [of s root xs x] obtain s' where
    "eth_link_del_tcp_client_list x s = Some s'" "link_abs s' root (remove1 x xs)"
    "\<forall>y. ec_psRoot (ls_clients s' y) = ec_psRoot (ls_clients s y) \<and> ec_psUserCbk (ls_clients s' y) = ec_psUserCbk (ls_clients s y)" by blast
  moreover have "set (remove1 x xs) \<subseteq> set xs" by (rule set_remove1_subset)
  ultimately show ?case
    using 2 by (auto simp: client_socket_cbk_delete_def user_call_handle subset_iff)
qed

subsection \<open>Properties\<close>


definition ex_cbks :: "nat \<Rightarrow> eth_link_cbk" where
  "ex_cbks c = \<lparr>cb_connect = True, cb_data = True, cb_disconnect = True, cb_delete = True, uc_psHandle = 100 + c\<rparr>"

text \<open>Three servers on consecutive ports, each with a user.\<close>

definition served :: servers where
  "served x = (three_servers x)\<lparr>ts_psUserCbk := Some x\<rparr>"

lemma served_fields:
  "distinct (map (\<lambda>x. ts_wlocalPort (served x)) [1, 2, 3])" "distinct (map (node_sn served) [1, 2, 3])"
  "\<not> is_init (radar_sn (served 1))" "\<not> is_init (radar_sn (served 2))" "\<not> is_init (radar_sn (served 3))"
  "length [1 :: nat, 2, 3] \<le> unat (el_max eth_list0)"
  by code_simp+

lemma served_abs: "server_abs (eth_list0\<lparr>el_list := Some 1\<rparr>) served [1, 2, 3]"
proof -
  have "hlist ts_psNext served (Some 1) [1, 2, 3]"
    by (simp add: served_def three_servers_def)
  with served_fields show ?thesis by (simp add: server_abs_def)
qed

definition ex_server_acts :: "server_act list" where
  "ex_server_acts = map S_turn [sans 0 0, sans 4 0, sans 0 1] @ [S_close, S_turn (sans 0 0)]"

lemma ex_server_run:
  "sv_log (fold (server_do ex_scfg all_cbks id) ex_server_acts (server_start ex_server ())) =
    [Ev_connect, Ev_data, Ev_disconnect, Ev_delete]"
  "sv_phase (fold (server_do ex_scfg all_cbks id) ex_server_acts (server_start ex_server ())) = Sv_end"
  by code_simp+




text \<open>
  The same for the clients of a link: while the thread of a client runs, its user hears every event once and in order and the
  link is untouched; when it has ended, exactly this client, if it is one of the first two, has left the list.
\<close>
theorem link_client_lifecycle:
  assumes "link_abs s root xs" "\<forall>y \<in> set xs. ec_psRoot (ls_clients s y) = root" "x \<in> set (take 2 xs)"
    "user_handle cbks (ec_psUserCbk (ls_clients s x)) = Some h"
    "t = fold (client_do cfg all_cbks data) as (client_start c w)"
  shows "\<exists>s'. link_events (client_event cbks x) (cl_log t) s = Some (s', map (Pair h) (cl_log t)) \<and>
    (if cl_phase t = Ph_end then link_abs s' root (remove1 x xs) else s' = s)"
proof -
  have v: "view_of (cl_log t) = client_view (cl_phase t)"
    unfolding assms(5) by (rule client.run_view) (simp add: client_start_def)
  show ?thesis
  proof (cases "cl_phase t = Ph_end")
    case True
    with c2_side.gone [of s root xs x cbks h "cl_log t"] assms(1-4) v show ?thesis by auto
  next
    case False
    with v have "view_of (cl_log t) = V_closed \<or> view_of (cl_log t) = V_open" by (cases "cl_phase t") auto
    with c2_side.live [of cbks s x h "cl_log t"] assms(4) False show ?thesis by auto
  qed
qed

theorem link_client_lifecycle_witness:
  "\<exists>s'. link_events (client_event ex_cbks 2) [Ev_connect, Ev_data, Ev_disconnect, Ev_delete]
      (ex_links\<lparr>ls_clients := (\<lambda>x. (ls_clients ex_links x)\<lparr>ec_psUserCbk := Some x\<rparr>)\<rparr>) =
      Some (s', [(102, Ev_connect), (102, Ev_data), (102, Ev_disconnect), (102, Ev_delete)]) \<and> link_abs s' 1 []"
proof -
  let ?s = "ex_links\<lparr>ls_clients := (\<lambda>x. (ls_clients ex_links x)\<lparr>ec_psUserCbk := Some x\<rparr>)\<rparr>"
  let ?t = "fold (client_do ex_cfg all_cbks id) ex_acts (client_start ex_client ())"
  have t: "cl_log ?t = [Ev_connect, Ev_data, Ev_disconnect, Ev_delete]" "cl_phase ?t = Ph_end" by code_simp+
  have "link_abs ?s 1 [2]"
    by (simp add: link_abs_def ex_links_def link_node_def linked_client_def)
  from link_client_lifecycle [OF this _ _ _ refl, of 2 ex_cbks 102 ex_cfg id ex_acts ex_client "()"] t show ?thesis
    by (simp add: user_handle_def ex_cbks_def ex_links_def linked_client_def)
qed

text \<open>
  A radar that ends takes another one with it: when the thread of the third server ends, the second server leaves the
  list too, although no event of it has occurred. Its user is not told, its thread goes on listening, and its port counts as unused.
\<close>
theorem third_server_takes_second:
  assumes "server_abs e st (h # y # x # zs)" "user_handle cbks (ts_psUserCbk (st x)) = Some u"
  shows "\<exists>st' cnt'. link_events (server_event cbks x) [Ev_connect, Ev_disconnect, Ev_delete] (e, st, cnt) =
      Some ((e, st', cnt'), [(u, Ev_connect), (u, Ev_disconnect), (u, Ev_delete)]) \<and>
    hlist ts_psNext st' (el_list e) (h # zs) \<and>
    ts_wlocalPort (st' y) \<notin> (\<lambda>z. ts_wlocalPort (st' z)) ` set (h # zs)"
proof -
  note abs = assms(1)[unfolded server_abs_def]
  define st' where "st' = st(h := (st h)\<lparr>ts_psNext := ts_psNext (st x)\<rparr>)"
  have "hlist ts_psNext st (el_list e) (h # [y] @ x # zs)" using abs by simp
  note del = server_del_inner_eq [OF this st'_def]
  have "ts_wlocalPort (st' z) = ts_wlocalPort (st z)" for z by (simp add: st'_def)
  moreover have "ts_wlocalPort (st y) \<notin> (\<lambda>z. ts_wlocalPort (st z)) ` set (h # zs)" using abs by auto
  ultimately have "ts_wlocalPort (st' y) \<notin> (\<lambda>z. ts_wlocalPort (st' z)) ` set (h # zs)" by simp
  moreover have "link_events (server_event cbks x) [Ev_connect, Ev_disconnect] (e, st, cnt) =
      Some ((e, st, cnt), [(u, Ev_connect), (u, Ev_disconnect)])"
    using radar_side.live_events [of cbks "(e, st, cnt)" x u "[Ev_connect, Ev_disconnect]"] assms(2) by simp
  ultimately show ?thesis
    using del link_events_append [of "server_event cbks x" "[Ev_connect, Ev_disconnect]" "[Ev_delete]" "(e, st, cnt)"] assms(2)
    by (auto simp: server_socket_cbk_delete_def user_call_handle)
qed

theorem third_server_takes_second_witness:
  "\<exists>st' cnt'. link_events (server_event ex_cbks 3) [Ev_connect, Ev_disconnect, Ev_delete] (eth_list0\<lparr>el_list := Some 1\<rparr>, served, 4) =
      Some ((eth_list0\<lparr>el_list := Some 1\<rparr>, st', cnt'), [(103, Ev_connect), (103, Ev_disconnect), (103, Ev_delete)]) \<and>
    hlist ts_psNext st' (Some 1) [1]"
  using third_server_takes_second [OF served_abs, of ex_cbks 103 4]
  by (auto simp: user_handle_def ex_cbks_def served_def)

end
