(* ===== verification/Ptz_Protocol.thy ===== *)
theory Ptz_Protocol
  imports C_Struct Sysport_Task
begin

text \<open>
  The protocol between the AGX and the pan-tilt head:
  \<^verbatim>\<open>srv/eth_link/ptz_protocol/ptz_control_protocol.c\<close>. A package is a 24-byte header, the message, a
  sequence number, a byte sum and a stop word. \<open>ptz_frame\<close> is the package as the reader expects it; the
  lemmas say that the sender produces exactly that, that the reader recovers command and message from it,
  and what the reader does with a package that is damaged or lies about its length.

  \<open>avail\<close> says whether \<^verbatim>\<open>malloc\<close> succeeds, \<open>cnt\<close> is the allocator's counter.
\<close>

subsection \<open>Constants and structs of the header file\<close>

definition PTZ_PACKAGE_HEAD :: u32 where "PTZ_PACKAGE_HEAD = 0x8A808988"
definition PTZ_PACKAGE_PROTOCOL_VERSION :: u32 where "PTZ_PACKAGE_PROTOCOL_VERSION = 9002"
definition PTZ_PACKAGE_STOPBIT :: u32 where "PTZ_PACKAGE_STOPBIT = 0x8B8A8089"

definition PTZ_PACKAGE_HEAD_LEN :: nat where "PTZ_PACKAGE_HEAD_LEN = 4"
definition PTZ_PACKAGE_PROTOCOL_LEN :: nat where "PTZ_PACKAGE_PROTOCOL_LEN = 4"
definition PTZ_PACKAGE_LENGTH_LEN :: nat where "PTZ_PACKAGE_LENGTH_LEN = 4"
definition PTZ_PACKAGE_COMMAND_LEN :: nat where "PTZ_PACKAGE_COMMAND_LEN = 4"
definition PTZ_PACKAGE_TIMESMAP_LEN :: nat where "PTZ_PACKAGE_TIMESMAP_LEN = 8"
definition PTZ_PACKAGE_SEQ_MSG_LEN :: nat where "PTZ_PACKAGE_SEQ_MSG_LEN = 4"
definition PTZ_PACKAGE_CRC_LEN :: nat where "PTZ_PACKAGE_CRC_LEN = 4"
definition PTZ_PACKAGE_STOPBIT_LEN :: nat where "PTZ_PACKAGE_STOPBIT_LEN = 4"
definition PTZ_PACKAGE_MAX_LEN :: nat where "PTZ_PACKAGE_MAX_LEN = 2048"

lemmas ptz_lens = PTZ_PACKAGE_HEAD_LEN_def PTZ_PACKAGE_PROTOCOL_LEN_def PTZ_PACKAGE_LENGTH_LEN_def
  PTZ_PACKAGE_COMMAND_LEN_def PTZ_PACKAGE_TIMESMAP_LEN_def PTZ_PACKAGE_SEQ_MSG_LEN_def
  PTZ_PACKAGE_CRC_LEN_def PTZ_PACKAGE_STOPBIT_LEN_def

text \<open>The members behind \<^verbatim>\<open>timesmap\<close> are never accessed through the struct.\<close>

definition ptz_protocol_pac :: layout where
  "ptz_protocol_pac = [(''head'', 4), (''protocol_VER'', 4), (''len'', 4), (''command'', 4), (''timesmap'', 8),
     (''msg'', 8), (''msg_seq_no'', 8), (''crc'', 4), (''stopbit'', 4)]"

record ptz_protocol_msg =
  pm_command :: u32
  msglen :: i32
  pm_msg :: "bytes option"

definition ptz_msg_zero :: ptz_protocol_msg where
  "ptz_msg_zero = \<lparr>pm_command = 0, msglen = 0, pm_msg = None\<rparr>"

subsection \<open>Operations\<close>

text \<open>
  The byte sum. The accumulator is an \<^verbatim>\<open>int\<close>; it cannot overflow before the loop has left every buffer of
  the program, so a word is as good.
\<close>

function crc_cal_loop :: "bytes \<Rightarrow> nat \<Rightarrow> nat \<Rightarrow> u32 \<Rightarrow> u32 option" where
  "crc_cal_loop pac n i verify =
     (if i < n then do {
        b \<leftarrow> load8 pac i;
        crc_cal_loop pac n (i + 1) (verify + ucast b) }
      else Some verify)"
  by pat_completeness auto
termination by (relation "measure (\<lambda>(pac, n, i, verify). n - i)") auto

declare crc_cal_loop.simps [simp del]

definition ptz_protocol_crc_cal :: "bytes \<Rightarrow> u32 \<Rightarrow> u32 option" where
  "ptz_protocol_crc_cal pac n =
     crc_cal_loop pac (unat n) (PTZ_PACKAGE_PROTOCOL_LEN + PTZ_PACKAGE_HEAD_LEN) 0"

text \<open>\<^verbatim>\<open>tv.tv_sec * 1000 + tv.tv_usec / 1000\<close>, the milliseconds of \<^verbatim>\<open>gettimeofday\<close>.\<close>

record timeval =
  tv_sec :: int
  tv_usec :: int

definition timesmap_of :: "timeval \<Rightarrow> u64" where
  "timesmap_of tv = of_int (tv_sec tv * 1000 + tv_usec tv div 1000)"

text \<open>
  The sender writes into \<open>pac\<close>; \<open>msg\<close> is the message object. \<^verbatim>\<open>seq_no\<close> is a static that is never
  changed. The result is the buffer and the length of the package.
\<close>

definition ptz_protocol_package ::
  "timeval \<Rightarrow> u32 \<Rightarrow> bytes \<Rightarrow> u32 \<Rightarrow> bytes \<Rightarrow> (bytes \<times> u32) option" where
  "ptz_protocol_package tv msgid msg n pac = do {
     p1 \<leftarrow> set_field ptz_protocol_pac ''head'' (le_bytes 4 PTZ_PACKAGE_HEAD) pac;
     p2 \<leftarrow> set_field ptz_protocol_pac ''protocol_VER'' (le_bytes 4 PTZ_PACKAGE_PROTOCOL_VERSION) p1;
     p3 \<leftarrow> set_field ptz_protocol_pac ''len'' (le_bytes 4 (n + of_nat (PTZ_PACKAGE_COMMAND_LEN +
             PTZ_PACKAGE_TIMESMAP_LEN + PTZ_PACKAGE_SEQ_MSG_LEN + PTZ_PACKAGE_CRC_LEN))) p2;
     p4 \<leftarrow> set_field ptz_protocol_pac ''command'' (le_bytes 4 msgid) p3;
     p5 \<leftarrow> set_field ptz_protocol_pac ''timesmap'' (le_bytes 8 (timesmap_of tv)) p4;
     let data = PTZ_PACKAGE_HEAD_LEN + PTZ_PACKAGE_PROTOCOL_LEN + PTZ_PACKAGE_LENGTH_LEN +
           PTZ_PACKAGE_COMMAND_LEN + PTZ_PACKAGE_TIMESMAP_LEN;
     bs \<leftarrow> loadn msg 0 (unat n);
     p6 \<leftarrow> storen p5 data bs;
     let data' = data + unat n;
     let total_len = of_nat data + n;
     p7 \<leftarrow> storen p6 data' (le_bytes 4 (0 :: u32));
     let total_len' = total_len + of_nat PTZ_PACKAGE_SEQ_MSG_LEN;
     crc \<leftarrow> ptz_protocol_crc_cal p7 total_len';
     p8 \<leftarrow> storen p7 (data' + 4) (le_bytes 4 crc);
     p9 \<leftarrow> storen p8 (data' + 8) (le_bytes 4 PTZ_PACKAGE_STOPBIT);
     Some (p9, total_len' + of_nat (PTZ_PACKAGE_CRC_LEN + PTZ_PACKAGE_STOPBIT_LEN)) }"

text \<open>
  The reader. \<open>pac\<close> is the whole buffer; the received length is only compared and reported. The pointer
  \<^verbatim>\<open>pac + offset + msglen + 4\<close> may lie in front of the buffer.
\<close>

definition ptz_protocol_network_data_analysis ::
  "bool \<Rightarrow> bytes \<Rightarrow> u32 \<Rightarrow> ptz_protocol_msg \<Rightarrow> int \<Rightarrow> (ptz_protocol_msg \<times> int \<times> i32) option" where
  "ptz_protocol_network_data_analysis avail pac received lmsg cnt = do {
     head \<leftarrow> load32 pac 0;
     if head \<noteq> PTZ_PACKAGE_HEAD then Some (lmsg, cnt, 0)
     else do {
       ln \<leftarrow> load32 pac 8;
       let m = sint (ln - of_nat (PTZ_PACKAGE_TIMESMAP_LEN + PTZ_PACKAGE_COMMAND_LEN +
             PTZ_PACKAGE_SEQ_MSG_LEN + PTZ_PACKAGE_CRC_LEN));
       cmd \<leftarrow> load32 pac 12;
       let lm = lmsg\<lparr>msglen := m, pm_command := cmd\<rparr>;
       let ofs = PTZ_PACKAGE_HEAD_LEN + PTZ_PACKAGE_PROTOCOL_LEN + PTZ_PACKAGE_LENGTH_LEN +
             PTZ_PACKAGE_COMMAND_LEN + PTZ_PACKAGE_TIMESMAP_LEN;
       (case (if m > 0 then skyfend_malloc avail (nat m) cnt else (pm_msg lm, cnt)) of
          (blk, cnt1) \<Rightarrow>
            if m > 0 \<and> blk = None then Some (lm\<lparr>pm_msg := None\<rparr>, cnt1, -1)
            else do {
              b \<leftarrow> (if m > 0 then do { x \<leftarrow> loadn pac ofs (nat m); Some (Some x) } else Some blk);
              let lm' = lm\<lparr>pm_msg := b\<rparr>;
              cal_verify \<leftarrow> ptz_protocol_crc_cal pac (of_int (int ofs + m + int PTZ_PACKAGE_SEQ_MSG_LEN));
              let pData = int ofs + m + int PTZ_PACKAGE_SEQ_MSG_LEN;
              if pData < 0 then None
              else do {
                verify \<leftarrow> load32 pac (nat pData);
                if verify \<noteq> cal_verify then
                  (case skyfend_safefree b cnt1 of (b', cnt2) \<Rightarrow> Some (lm'\<lparr>pm_msg := b'\<rparr>, cnt2, -1))
                else do {
                  _ \<leftarrow> load32 pac (nat pData + 4);
                  Some (lm', cnt1, 0) } } }) } }"

definition ptz_protocol_msg_destory :: "ptz_protocol_msg \<Rightarrow> int \<Rightarrow> ptz_protocol_msg \<times> int" where
  "ptz_protocol_msg_destory lmsg cnt =
     (case skyfend_safefree (pm_msg lmsg) cnt of (b, cnt') \<Rightarrow> (lmsg\<lparr>pm_msg := b\<rparr>, cnt'))"

subsection \<open>The byte sum\<close>

definition byte_sum :: "bytes \<Rightarrow> u32" where
  "byte_sum bs = sum_list (map ucast bs)"

lemma byte_sum_simps [simp]:
  "byte_sum [] = 0" "byte_sum (b # bs) = ucast b + byte_sum bs" "byte_sum (xs @ ys) = byte_sum xs + byte_sum ys"
  by (simp_all add: byte_sum_def)

lemma crc_cal_loop_sum:
  "i \<le> n \<Longrightarrow> n \<le> length pac \<Longrightarrow> crc_cal_loop pac n i v = Some (v + byte_sum (take (n - i) (drop i pac)))"
proof (induction "n - i" arbitrary: i v)
  case 0
  then show ?case by (simp add: crc_cal_loop.simps)
next
  case (Suc k)
  then have "i < n" "i < length pac" by auto
  moreover from this have "take (n - i) (drop i pac) = pac ! i # take (n - Suc i) (drop (Suc i) pac)"
    by (simp add: Cons_nth_drop_Suc [symmetric] Suc_diff_Suc take_Cons')
  ultimately show ?case
    using Suc.hyps(1) [of "Suc i" "v + ucast (pac ! i)"] Suc.hyps(2) Suc.prems
    by (simp add: crc_cal_loop.simps [of _ _ i] mem_simps)
qed

lemma crc_cal_loop_overrun: "i \<le> length pac \<Longrightarrow> length pac < n \<Longrightarrow> crc_cal_loop pac n i v = None"
proof (induction "length pac - i" arbitrary: i v)
  case 0
  then show ?case by (simp add: crc_cal_loop.simps load8_def)
next
  case (Suc k)
  then have "i < n" "i < length pac" by auto
  then show ?case
    using Suc.hyps(1) [of "Suc i"] Suc.hyps(2) Suc.prems by (simp add: crc_cal_loop.simps [of _ _ i] mem_simps)
qed

lemma crc_cal_empty: "n \<le> i \<Longrightarrow> crc_cal_loop pac n i v = Some v"
  by (simp add: crc_cal_loop.simps)

subsection \<open>The package\<close>

definition ptz_body :: "u32 \<Rightarrow> u64 \<Rightarrow> bytes \<Rightarrow> bytes" where
  "ptz_body cmd ts msg =
     le_bytes 4 (of_nat (length msg) + 20 :: u32) @ le_bytes 4 cmd @ le_bytes 8 ts @ msg @ le_bytes 4 (0 :: u32)"

definition ptz_frame :: "u32 \<Rightarrow> u64 \<Rightarrow> bytes \<Rightarrow> bytes" where
  "ptz_frame cmd ts msg =
     le_bytes 4 PTZ_PACKAGE_HEAD @ le_bytes 4 PTZ_PACKAGE_PROTOCOL_VERSION @ ptz_body cmd ts msg @
     le_bytes 4 (byte_sum (ptz_body cmd ts msg)) @ le_bytes 4 PTZ_PACKAGE_STOPBIT"

lemma length_ptz_body [simp]: "length (ptz_body cmd ts msg) = length msg + 20"
  by (simp add: ptz_body_def)

lemma length_ptz_frame [simp]: "length (ptz_frame cmd ts msg) = length msg + 36"
  by (simp add: ptz_frame_def)

text \<open>Writing a buffer from front to back.\<close>

lemma storen_next:
  assumes "i + length v \<le> length m" "length a = i"
  shows "storen (a @ drop i m) i v = Some ((a @ v) @ drop (i + length v) m)"
  using assms by (simp add: storen_def add.commute)

lemma ptz_field_stores:
  "set_field ptz_protocol_pac ''head'' (le_bytes 4 (w :: u32)) m = storen m 0 (le_bytes 4 w)"
  "set_field ptz_protocol_pac ''protocol_VER'' (le_bytes 4 w) m = storen m 4 (le_bytes 4 w)"
  "set_field ptz_protocol_pac ''len'' (le_bytes 4 w) m = storen m 8 (le_bytes 4 w)"
  "set_field ptz_protocol_pac ''command'' (le_bytes 4 w) m = storen m 12 (le_bytes 4 w)"
  "set_field ptz_protocol_pac ''timesmap'' (le_bytes 8 (d :: u64)) m = storen m 16 (le_bytes 8 d)"
  by (simp_all add: set_field_def ptz_protocol_pac_def)

lemma crc_cal_body:
  assumes "length h = 8" "n = of_nat (length h + length b)" "length b < 1000000"
  shows "ptz_protocol_crc_cal (h @ b @ rest) n = Some (byte_sum b)"
proof -
  have "unat n = 8 + length b"
    unfolding assms(2) using assms(1,3) by (subst unat_of_nat_small) simp_all
  then show ?thesis
    using crc_cal_loop_sum [of 8 "8 + length b" "h @ b @ rest" 0] assms(1)
    by (simp add: ptz_protocol_crc_cal_def ptz_lens)
qed

lemma ptz_protocol_package_frame:
  assumes "length msg + 36 \<le> length pac" "length msg < 100000"
  shows "ptz_protocol_package tv cmd (msg @ rest) (of_nat (length msg)) pac =
    Some (ptz_frame cmd (timesmap_of tv) msg @ drop (length msg + 36) pac, of_nat (length msg + 36))"
proof -
  let ?n = "of_nat (length msg) :: u32"
  define H where "H = le_bytes 4 PTZ_PACKAGE_HEAD @ le_bytes 4 PTZ_PACKAGE_PROTOCOL_VERSION"
  define L where "L = H @ le_bytes 4 (?n + 20)"
  define D where "D = (L @ le_bytes 4 cmd) @ le_bytes 8 (timesmap_of tv)"
  define B where "B = ptz_body cmd (timesmap_of tv) msg"
  have len: "length H = 8" "length L = 12" "length D = 24" "unat ?n = length msg"
    using assms(2) by (simp_all add: H_def L_def D_def unat_of_nat_small)
  have DB: "(D @ msg) @ le_bytes 4 (0 :: u32) = H @ B" by (simp add: D_def L_def B_def ptz_body_def)
  have s1: "storen pac 0 (le_bytes 4 PTZ_PACKAGE_HEAD) = Some (le_bytes 4 PTZ_PACKAGE_HEAD @ drop 4 pac)"
    using storen_next [of 0 "le_bytes 4 PTZ_PACKAGE_HEAD" pac "[]"] assms(1) by simp
  have s2: "storen (le_bytes 4 PTZ_PACKAGE_HEAD @ drop 4 pac) 4 (le_bytes 4 PTZ_PACKAGE_PROTOCOL_VERSION) =
      Some (H @ drop 8 pac)"
    unfolding H_def by (subst storen_next) (use assms(1) in simp_all)
  have s3: "storen (H @ drop 8 pac) 8 (le_bytes 4 (?n + 20)) = Some (L @ drop 12 pac)"
    unfolding L_def by (subst storen_next) (use assms(1) len in simp_all)
  have s4: "storen (L @ drop 12 pac) 12 (le_bytes 4 cmd) = Some ((L @ le_bytes 4 cmd) @ drop 16 pac)"
    by (subst storen_next) (use assms(1) len in simp_all)
  have s5: "storen ((L @ le_bytes 4 cmd) @ drop 16 pac) 16 (le_bytes 8 (timesmap_of tv)) = Some (D @ drop 24 pac)"
    unfolding D_def by (subst storen_next) (use assms(1) len in simp_all)
  have s6: "storen (D @ drop 24 pac) 24 msg = Some ((D @ msg) @ drop (24 + length msg) pac)"
    by (subst storen_next) (use assms(1) len in simp_all)
  have s7: "storen ((D @ msg) @ drop (24 + length msg) pac) (24 + length msg) (le_bytes 4 (0 :: u32)) =
      Some ((H @ B) @ drop (28 + length msg) pac)"
    unfolding DB [symmetric] by (subst storen_next) (use assms(1) len in \<open>simp_all add: add.commute\<close>)
  have c: "ptz_protocol_crc_cal ((H @ B) @ drop (28 + length msg) pac) (28 + ?n) = Some (byte_sum B)"
    using crc_cal_body [of H "28 + ?n" B "drop (28 + length msg) pac"] len assms(2) by (simp add: B_def)
  have s8: "storen ((H @ B) @ drop (28 + length msg) pac) (28 + length msg) (le_bytes 4 (byte_sum B)) =
      Some (((H @ B) @ le_bytes 4 (byte_sum B)) @ drop (32 + length msg) pac)"
    by (subst storen_next) (use assms(1) len in \<open>simp_all add: B_def\<close>)
  have s9: "storen (((H @ B) @ le_bytes 4 (byte_sum B)) @ drop (32 + length msg) pac) (32 + length msg)
        (le_bytes 4 PTZ_PACKAGE_STOPBIT) =
      Some ((((H @ B) @ le_bytes 4 (byte_sum B)) @ le_bytes 4 PTZ_PACKAGE_STOPBIT) @ drop (36 + length msg) pac)"
    by (subst storen_next) (use assms(1) len in \<open>simp_all add: B_def\<close>)
  have ld: "loadn (msg @ rest) 0 (length msg) = Some msg" by (simp add: loadn_def)
  have fr: "(((H @ B) @ le_bytes 4 (byte_sum B)) @ le_bytes 4 PTZ_PACKAGE_STOPBIT) = ptz_frame cmd (timesmap_of tv) msg"
    by (simp add: H_def B_def ptz_frame_def)
  have o: "24 + length msg + 4 = 28 + length msg" "24 + length msg + 8 = 32 + length msg"
    "36 + length msg = length msg + 36" "36 + ?n = ?n + 36" by simp_all
  show ?thesis
    unfolding ptz_protocol_package_def ptz_field_stores ptz_lens Let_def
    by (simp add: s1 s2 s3 s4 s5 s6 s7 c s8 s9 ld len fr o del: append_assoc)
qed

subsection \<open>Reading\<close>

lemma load32_at: "length a = i \<Longrightarrow> load32 (a @ le_bytes 4 w @ c) i = Some w"
  by (simp add: load32_def loadn_def of_le_le_bytes)

lemma load32_in [mem_simps]: "i + 4 \<le> length m \<Longrightarrow> load32 m i = Some (of_le (take 4 (drop i m)))"
  by (simp add: load32_def loadn_def)

text \<open>
  A package whose length field is honest: the reader compares the byte sum of everything between the
  version and the sum with the word behind it.
\<close>

definition sum_ok :: "bytes \<Rightarrow> nat \<Rightarrow> bool" where
  "sum_ok pac n \<longleftrightarrow> of_le (take 4 (drop (n + 28) pac)) = byte_sum (take (n + 20) (drop 8 pac))"

definition taken :: "bytes \<Rightarrow> nat \<Rightarrow> bytes option" where
  "taken pac n = (if n = 0 then None else Some (take n (drop 24 pac)))"

lemma analysis_honest:
  assumes "load32 pac 0 = Some PTZ_PACKAGE_HEAD" "load32 pac 8 = Some (of_nat n + 20)" "load32 pac 12 = Some cmd"
    "n + 36 \<le> length pac" "n < 100000" "avail \<or> n = 0"
  shows "ptz_protocol_network_data_analysis avail pac received ptz_msg_zero cnt =
    (if sum_ok pac n
     then Some (\<lparr>pm_command = cmd, msglen = int n, pm_msg = taken pac n\<rparr>, cnt + (if n = 0 then 0 else 1), 0)
     else Some (\<lparr>pm_command = cmd, msglen = int n, pm_msg = None\<rparr>, cnt, -1))"
proof -
  have m: "sint (of_nat n :: u32) = int n"
    using assms(5) by (subst sint_small) (simp_all add: unat_of_nat_small)
  have n20: "n + 28 - 8 = n + 20" by simp
  have crc: "ptz_protocol_crc_cal pac (of_nat (n + 28)) = Some (byte_sum (take (n + 20) (drop 8 pac)))"
    using assms(4,5) crc_cal_loop_sum [of 8 "n + 28" pac 0, unfolded n20]
    by (simp add: ptz_protocol_crc_cal_def ptz_lens unat_of_nat_small del: of_nat_add)
  have i: "of_int (24 + int n + 4) = (of_nat (n + 28) :: u32)" "nat (24 + int n + 4) = n + 28"
    by simp_all
  have lds: "loadn pac 24 n = Some (take n (drop 24 pac))"
    "load32 pac (n + 28) = Some (of_le (take 4 (drop (n + 28) pac)))"
    "load32 pac (32 + n) = Some (of_le (take 4 (drop (32 + n) pac)))"
    using assms(4) by (simp_all add: mem_simps)
  show ?thesis
  proof (cases n)
    case 0
    then show ?thesis
      using assms(1-3) crc lds
      by (simp add: ptz_protocol_network_data_analysis_def ptz_lens ptz_msg_zero_def taken_def sum_ok_def skyfend_safefree_def)
  next
    case (Suc k)
    then have "0 < n" by simp
    then show ?thesis
      using assms(1-3,6) crc lds m i
      by (simp add: ptz_protocol_network_data_analysis_def ptz_lens ptz_msg_zero_def taken_def sum_ok_def
          skyfend_malloc_def skyfend_safefree_def del: of_int_add of_int_of_nat_eq)
  qed
qed

lemma frame_header:
  assumes "pac = ptz_frame cmd ts msg @ rest"
  shows "load32 pac 0 = Some PTZ_PACKAGE_HEAD" "load32 pac 8 = Some (of_nat (length msg) + 20)"
    "load32 pac 12 = Some cmd"
  using load32_at [of "[]" 0 PTZ_PACKAGE_HEAD]
    load32_at [of "le_bytes 4 PTZ_PACKAGE_HEAD @ le_bytes 4 PTZ_PACKAGE_PROTOCOL_VERSION" 8 "of_nat (length msg) + 20"]
    load32_at [of "le_bytes 4 PTZ_PACKAGE_HEAD @ le_bytes 4 PTZ_PACKAGE_PROTOCOL_VERSION @
        le_bytes 4 (of_nat (length msg) + 20 :: u32)" 12 cmd]
  by (simp_all add: assms ptz_frame_def ptz_body_def)

lemma frame_sum:
  assumes "pac = ptz_frame cmd ts msg @ rest"
  shows "take (length msg + 20) (drop 8 pac) = ptz_body cmd ts msg" "sum_ok pac (length msg)"
    "take (length msg) (drop 24 pac) = msg"
proof -
  have "drop 8 pac = ptz_body cmd ts msg @ le_bytes 4 (byte_sum (ptz_body cmd ts msg)) @
      le_bytes 4 PTZ_PACKAGE_STOPBIT @ rest" by (simp add: assms ptz_frame_def)
  then show b: "take (length msg + 20) (drop 8 pac) = ptz_body cmd ts msg" by simp
  have "drop (length msg + 28) pac = le_bytes 4 (byte_sum (ptz_body cmd ts msg)) @ le_bytes 4 PTZ_PACKAGE_STOPBIT @ rest"
    by (simp add: assms ptz_frame_def)
  then have "take 4 (drop (length msg + 28) pac) = le_bytes 4 (byte_sum (ptz_body cmd ts msg))" by simp
  then show "sum_ok pac (length msg)" unfolding sum_ok_def b by (simp add: of_le_le_bytes)
  show "take (length msg) (drop 24 pac) = msg" by (simp add: assms ptz_frame_def ptz_body_def)
qed

lemma analysis_frame:
  assumes "pac = ptz_frame cmd ts msg @ rest" "length msg < 100000" "avail \<or> msg = []"
  shows "ptz_protocol_network_data_analysis avail pac received ptz_msg_zero cnt =
    Some (\<lparr>pm_command = cmd, msglen = int (length msg), pm_msg = (if msg = [] then None else Some msg)\<rparr>,
      cnt + (if msg = [] then 0 else 1), 0)"
  using analysis_honest [OF frame_header [OF assms(1)], where avail = avail] frame_sum [OF assms(1)] assms
  by (simp add: taken_def)

text \<open>A length field of zero: the sum covers nothing and is compared with the length field itself.\<close>

lemma analysis_zero_length:
  assumes "load32 pac 0 = Some PTZ_PACKAGE_HEAD" "load32 pac 8 = Some 0" "load32 pac 12 = Some cmd"
  shows "ptz_protocol_network_data_analysis avail pac received ptz_msg_zero cnt =
    Some (\<lparr>pm_command = cmd, msglen = -20, pm_msg = None\<rparr>, cnt, 0)"
proof -
  have "ptz_protocol_crc_cal pac 8 = Some 0"
    by (simp add: ptz_protocol_crc_cal_def ptz_lens crc_cal_empty)
  then show ?thesis
    using assms by (simp add: ptz_protocol_network_data_analysis_def ptz_lens ptz_msg_zero_def)
qed

text \<open>A length field beyond the buffer.\<close>

lemma analysis_overlong:
  assumes "load32 pac 0 = Some PTZ_PACKAGE_HEAD" "load32 pac 8 = Some ln" "load32 pac 12 = Some cmd"
    "20 < unat ln" "unat ln < 2147483648" "length pac < unat ln + 8"
  shows "ptz_protocol_network_data_analysis True pac received ptz_msg_zero cnt = None"
proof -
  define n where "n = unat ln - 20"
  have ln: "ln = of_nat n + 20"
  proof -
    have "of_nat n + 20 = (of_nat (n + 20) :: u32)" by simp
    also have "n + 20 = unat ln" using assms(4) by (simp add: n_def)
    finally show ?thesis by simp
  qed
  have m: "sint (of_nat n :: u32) = int n"
    using assms(5) by (subst sint_small) (simp_all add: unat_of_nat_small n_def)
  have l4: "16 \<le> length pac" using assms(3) by (auto simp: load32_def loadn_def split: if_splits)
  have n0: "0 < n" "length pac < n + 28" using assms(4,6) by (simp_all add: n_def)
  have "unat (of_nat (n + 28) :: u32) = n + 28"
    using assms(5) by (intro unat_of_nat_small) (simp add: n_def)
  then have crc: "ptz_protocol_crc_cal pac (of_nat (n + 28)) = None"
    using n0 l4 by (simp add: ptz_protocol_crc_cal_def ptz_lens crc_cal_loop_overrun del: of_nat_add)
  have i: "of_int (24 + int n + 4) = (of_nat (n + 28) :: u32)" by simp
  show ?thesis
    using assms(1-3) ln m n0 crc i
    by (cases "loadn pac 24 n")
      (simp_all add: ptz_protocol_network_data_analysis_def ptz_lens ptz_msg_zero_def skyfend_malloc_def
        del: of_int_add of_int_of_nat_eq)
qed

text \<open>Changing one byte changes the sum.\<close>

lemma byte_sum_upd:
  assumes "i < length bs" "b \<noteq> bs ! i"
  shows "byte_sum (bs[i := b]) \<noteq> byte_sum bs"
proof -
  have "byte_sum (bs[i := b]) = byte_sum bs + ucast b - ucast (bs ! i)"
    using sum_list_upd [of i "map ucast bs" "ucast b :: u32"] assms(1) by (simp add: byte_sum_def map_update)
  moreover have "(ucast b :: u32) \<noteq> ucast (bs ! i)"
  proof
    assume "(ucast b :: u32) = ucast (bs ! i)"
    then have "unat (ucast b :: u32) = unat (ucast (bs ! i) :: u32)" by simp
    then have "unat b = unat (bs ! i)"
      using unat_u8_less [of b] unat_u8_less [of "bs ! i"] by (simp add: unsigned_ucast_eq take_bit_eq_mod)
    with assms(2) show False using word_unat_eq_iff by blast
  qed
  ultimately show ?thesis by simp
qed

subsection \<open>Properties\<close>

text \<open>
  C9. Round trip: a package the sender builds in its 2048-byte buffer is, wherever it is received, accepted
  and gives back the command and the message, in one newly allocated block.
\<close>
theorem ptz_protocol_roundtrip:
  assumes "length msg \<le> 2012" "length buf = PTZ_PACKAGE_MAX_LEN" "avail \<or> msg = []"
  shows "\<exists>pac. ptz_protocol_package tv cmd msg (of_nat (length msg)) buf = Some (pac, of_nat (length msg + 36)) \<and>
    (\<forall>rest. ptz_protocol_network_data_analysis avail (take (length msg + 36) pac @ rest) received ptz_msg_zero cnt =
      Some (\<lparr>pm_command = cmd, msglen = int (length msg), pm_msg = (if msg = [] then None else Some msg)\<rparr>,
        cnt + (if msg = [] then 0 else 1), 0))"
proof -
  have "ptz_protocol_package tv cmd msg (of_nat (length msg)) buf =
      Some (ptz_frame cmd (timesmap_of tv) msg @ drop (length msg + 36) buf, of_nat (length msg + 36))"
    using ptz_protocol_package_frame [of msg buf tv cmd "[]"] assms(1,2) by (simp add: PTZ_PACKAGE_MAX_LEN_def)
  moreover have "ptz_protocol_network_data_analysis avail
      (take (length msg + 36) (ptz_frame cmd (timesmap_of tv) msg @ drop (length msg + 36) buf) @ rest) received ptz_msg_zero cnt =
      Some (\<lparr>pm_command = cmd, msglen = int (length msg), pm_msg = (if msg = [] then None else Some msg)\<rparr>,
        cnt + (if msg = [] then 0 else 1), 0)" for rest
    using assms by (intro analysis_frame) simp_all
  ultimately show ?thesis by blast
qed

theorem ptz_protocol_roundtrip_witness:
  "\<exists>pac. ptz_protocol_package \<lparr>tv_sec = 1700000000, tv_usec = 123456\<rparr> 3 [1, 2, 255] 3 (replicate 2048 0) = Some (pac, 39) \<and>
    ptz_protocol_network_data_analysis True (take 39 pac @ replicate 473 0) 39 ptz_msg_zero 0 =
      Some (\<lparr>pm_command = 3, msglen = 3, pm_msg = Some [1, 2, 255]\<rparr>, 1, 0)"
proof -
  have "\<exists>pac. ptz_protocol_package \<lparr>tv_sec = 1700000000, tv_usec = 123456\<rparr> 3 [1, 2, 255] (of_nat (length [1, 2, 255 :: u8]))
      (replicate 2048 0) = Some (pac, of_nat (length [1, 2, 255 :: u8] + 36)) \<and>
    (\<forall>rest. ptz_protocol_network_data_analysis True (take (length [1, 2, 255 :: u8] + 36) pac @ rest) 39 ptz_msg_zero 0 =
      Some (\<lparr>pm_command = 3, msglen = int (length [1, 2, 255 :: u8]),
        pm_msg = (if [1, 2, 255] = ([] :: bytes) then None else Some [1, 2, 255])\<rparr>,
        0 + (if [1, 2, 255] = ([] :: bytes) then 0 else 1), 0))"
    by (rule ptz_protocol_roundtrip) (simp_all add: PTZ_PACKAGE_MAX_LEN_def)
  then obtain pac where
    "ptz_protocol_package \<lparr>tv_sec = 1700000000, tv_usec = 123456\<rparr> 3 [1, 2, 255] 3 (replicate 2048 0) = Some (pac, 39)"
    "\<And>rest. ptz_protocol_network_data_analysis True (take 39 pac @ rest) 39 ptz_msg_zero 0 =
      Some (\<lparr>pm_command = 3, msglen = 3, pm_msg = Some [1, 2, 255]\<rparr>, 1, 0)" by auto
  then show ?thesis by blast
qed

text \<open>
  Damage: a change of one byte of the command, the time stamp, the message or the sequence number of a
  package is noticed; the package is rejected, and the block allocated for the message is freed again.
\<close>
theorem ptz_protocol_detects_damage:
  assumes "length msg < 100000" "12 \<le> i" "i < length msg + 28" "b \<noteq> ptz_frame cmd ts msg ! i" "avail \<or> msg = []"
  shows "\<exists>lm. ptz_protocol_network_data_analysis avail ((ptz_frame cmd ts msg)[i := b] @ rest) received ptz_msg_zero cnt =
    Some (lm, cnt, -1) \<and> pm_msg lm = None"
proof -
  define F where "F = ptz_frame cmd ts msg @ rest"
  have F: "F[i := b] = (ptz_frame cmd ts msg)[i := b] @ rest"
    using assms(3) by (simp add: F_def list_update_append)
  have lF: "length msg + 36 \<le> length F" by (simp add: F_def)
  have keep: "take k (drop j (F[i := b])) = take k (drop j F)" if "i < j \<or> j + k \<le> i" for j k
    using that assms(3) lF by (intro nth_equalityI) (auto simp: nth_list_update)
  have eq: "load32 (F[i := b]) j = load32 F j" if "j + 4 \<le> i" for j
    using keep [of j 4] that by (simp add: load32_def loadn_def)
  have h: "load32 (F[i := b]) 0 = Some PTZ_PACKAGE_HEAD" "load32 (F[i := b]) 8 = Some (of_nat (length msg) + 20)"
    using frame_header(1,2) [OF F_def] eq [of 0] eq [of 8] assms(2) by simp_all
  obtain cmd' where c: "load32 (F[i := b]) 12 = Some cmd'"
    using lF by (simp add: load32_def loadn_def)
  have "take (length msg + 20) (drop 8 (F[i := b])) = (take (length msg + 20) (drop 8 F))[i - 8 := b]"
    using assms(2) by (simp add: drop_update_swap take_update_swap)
  moreover have "byte_sum ((take (length msg + 20) (drop 8 F))[i - 8 := b]) \<noteq> byte_sum (take (length msg + 20) (drop 8 F))"
    using assms(2-4) lF by (intro byte_sum_upd) (auto simp: F_def nth_append)
  moreover have "take 4 (drop (length msg + 28) (F[i := b])) = take 4 (drop (length msg + 28) F)"
    using assms(3) by (intro keep) simp
  ultimately have "\<not> sum_ok (F[i := b]) (length msg)"
    using frame_sum(2) [OF F_def] by (simp add: sum_ok_def)
  then show ?thesis
    using analysis_honest [OF h c, where avail = avail] lF assms(1,5) unfolding F by simp
qed

theorem ptz_protocol_detects_damage_witness:
  "\<exists>lm. ptz_protocol_network_data_analysis True ((ptz_frame 3 0 [1, 2])[24 := 9] @ []) 38 ptz_msg_zero 0 =
    Some (lm, 0, -1) \<and> pm_msg lm = None"
proof (rule ptz_protocol_detects_damage)
  show "(9 :: u8) \<noteq> ptz_frame 3 0 [1, 2] ! 24" by (simp add: ptz_frame_def ptz_body_def nth_append)
qed simp_all

text \<open>
  The length field of the wire is trusted: a package whose length field exceeds the receive buffer
  makes the reader leave it, whatever the rest of the package is.
\<close>
theorem ptz_protocol_trusts_length:
  assumes "length pac = 512" "load32 pac 0 = Some PTZ_PACKAGE_HEAD" "load32 pac 8 = Some ln"
    "504 < unat ln" "unat ln < 2147483648"
  shows "ptz_protocol_network_data_analysis True pac received ptz_msg_zero cnt = None"
proof -
  obtain cmd where "load32 pac 12 = Some cmd" using assms(1) by (simp add: mem_simps)
  with assms show ?thesis by (intro analysis_overlong) simp_all
qed

theorem ptz_protocol_trusts_length_witness:
  "ptz_protocol_network_data_analysis True
    (le_bytes 4 PTZ_PACKAGE_HEAD @ le_bytes 4 (0 :: u32) @ le_bytes 4 (1000 :: u32) @ replicate 500 0) 512 ptz_msg_zero 0 = None"
proof (rule ptz_protocol_trusts_length)
  show "load32 (le_bytes 4 PTZ_PACKAGE_HEAD @ le_bytes 4 (0 :: u32) @ le_bytes 4 (1000 :: u32) @ replicate 500 0) 0 =
      Some PTZ_PACKAGE_HEAD" using load32_at [of "[]" 0 PTZ_PACKAGE_HEAD] by simp
  show "load32 (le_bytes 4 PTZ_PACKAGE_HEAD @ le_bytes 4 (0 :: u32) @ le_bytes 4 (1000 :: u32) @ replicate 500 0) 8 = Some 1000"
    using load32_at [of "le_bytes 4 PTZ_PACKAGE_HEAD @ le_bytes 4 (0 :: u32)" 8 1000] by simp
qed simp_all

end
