(* ===== verification/Eth_Link_Ptz.thy ===== *)
theory Eth_Link_Ptz
  imports Ptz_Protocol Udp_Socket
begin

text \<open>
  The link to the pan-tilt head, \<^verbatim>\<open>srv/eth_link/eth_link_ptz.c\<close>: a broadcast UDP socket, the handlers
  registered per message id, and the data callback that analyses a datagram and dispatches it.

  The state is the module's static variables, the allocator's counter, the network calls made so far and
  whatever else the handlers work on. A handler is a name \<open>'f\<close>; \<open>run\<close> says what calling it does. The nodes
  of \<^verbatim>\<open>ptz_list_obj\<close> are allocated by the module and never handed out, so the list is a list.
\<close>

record 'f msg_handle_info =
  msg_id :: u32
  mh_cbk :: "'f option"

record ('f, 'w) ptz_link =
  sUdpCfg :: udp_socket_cfg
  sUdpSocket :: udp_socket
  ptz_list_obj :: "'f msg_handle_info list"
  pl_cnt :: int
  pl_calls :: "net_call list"
  pl_world :: 'w

type_synonym ('f, 'w) run_ptz = "'f \<Rightarrow> ptz_protocol_msg \<Rightarrow> ('f, 'w) ptz_link \<Rightarrow> ('f, 'w) ptz_link option"

definition ptz_cfg :: udp_socket_cfg where
  "ptz_cfg = \<lparr>bFlagRecv = True, bBroadcast = True, wRecvPort = 9966, wSendPort = 9966, uRecvIp = 0,
     uSendIp = 0xFFFFFFFF\<rparr>"

subsection \<open>Setting up\<close>

definition eth_link_ptz_init :: "udp_os \<Rightarrow> ('f, 'w) ptz_link \<Rightarrow> ('f, 'w) ptz_link \<times> i32" where
  "eth_link_ptz_init os s =
     (case udp_socket_crate os (\<lambda>_. sUdpCfg s) (sUdpSocket s) (Some 0) (Some 0) of
        (sk, calls, e) \<Rightarrow> (s\<lparr>sUdpSocket := sk, pl_calls := pl_calls s @ calls\<rparr>, e))"

text \<open>Both branches of the source allocate a node and hang it at the end of the list.\<close>

definition eth_ptz_command_register ::
  "bool \<Rightarrow> u32 \<Rightarrow> 'f option \<Rightarrow> ('f, 'w) ptz_link \<Rightarrow> ('f, 'w) ptz_link \<times> i32" where
  "eth_ptz_command_register avail msgid cb s =
     (case skyfend_malloc avail 24 (pl_cnt s) of
        (None, cnt) \<Rightarrow> (s\<lparr>pl_cnt := cnt\<rparr>, -1)
      | (Some _, cnt) \<Rightarrow>
          (s\<lparr>ptz_list_obj := ptz_list_obj s @ [\<lparr>msg_id = msgid, mh_cbk = cb\<rparr>], pl_cnt := cnt\<rparr>, 0))"

fun free_nodes :: "'n list \<Rightarrow> int \<Rightarrow> int" where
  "free_nodes [] cnt = cnt"
| "free_nodes (n # ns) cnt = free_nodes ns (snd (skyfend_safefree (Some n) cnt))"

subsection \<open>Sending\<close>

text \<open>\<open>ret\<close> is the answer of \<^verbatim>\<open>sendto\<close>, which is ignored. A null message is an empty object.\<close>

definition send_ptz_package ::
  "timeval \<Rightarrow> i32 \<Rightarrow> ptz_protocol_msg \<Rightarrow> ('f, 'w) ptz_link \<Rightarrow> (('f, 'w) ptz_link \<times> i32) option" where
  "send_ptz_package tv ret msginfo s = do {
     (pac, retlen) \<leftarrow> ptz_protocol_package tv (pm_command msginfo)
        (case pm_msg msginfo of None \<Rightarrow> [] | Some m \<Rightarrow> m) (of_int (msglen msginfo)) (replicate PTZ_PACKAGE_MAX_LEN 0);
     (calls, _) \<leftarrow> udp_socket_send ret (\<lambda>_. sUdpCfg s) (sUdpSocket s) pac retlen;
     Some (s\<lparr>pl_calls := pl_calls s @ calls\<rparr>, 0) }"

subsection \<open>Receiving\<close>

fun dispatch_walk ::
  "('f, 'w) run_ptz \<Rightarrow> 'f msg_handle_info list \<Rightarrow> ptz_protocol_msg \<Rightarrow> ('f, 'w) ptz_link \<Rightarrow> ('f, 'w) ptz_link option" where
  "dispatch_walk run [] lmsg s = Some s"
| "dispatch_walk run (e # es) lmsg s =
     (if msg_id e = pm_command lmsg then
        (case mh_cbk e of Some f \<Rightarrow> run f lmsg s | None \<Rightarrow> dispatch_walk run es lmsg s)
      else dispatch_walk run es lmsg s)"

definition eth_protocol_handler ::
  "('f, 'w) run_ptz \<Rightarrow> bool \<Rightarrow> bytes \<Rightarrow> u32 \<Rightarrow> ('f, 'w) ptz_link \<Rightarrow> ('f, 'w) ptz_link option" where
  "eth_protocol_handler run avail msg n s = do {
     (lmsg, cnt, ret) \<leftarrow> ptz_protocol_network_data_analysis avail msg n ptz_msg_zero (pl_cnt s);
     if ret \<noteq> 0 then Some (s\<lparr>pl_cnt := snd (ptz_protocol_msg_destory lmsg cnt)\<rparr>)
     else do {
       s' \<leftarrow> dispatch_walk run (ptz_list_obj s) lmsg (s\<lparr>pl_cnt := cnt\<rparr>);
       Some (s'\<lparr>pl_cnt := snd (ptz_protocol_msg_destory lmsg (pl_cnt s'))\<rparr>) } }"

text \<open>
  The data callback. While the handler runs, answers go to the sender's subnet; afterwards the address is
  the broadcast address again.
\<close>

definition set_send_ip :: "u32 \<Rightarrow> ('f, 'w) ptz_link \<Rightarrow> ('f, 'w) ptz_link" where
  "set_send_ip ip s = s\<lparr>sUdpCfg := (sUdpCfg s)\<lparr>uSendIp := ip\<rparr>\<rparr>"

definition eth_link_udp_cbk_data ::
  "('f, 'w) run_ptz \<Rightarrow> bool \<Rightarrow> i32 \<times> bytes \<times> u32 \<Rightarrow> ('f, 'w) ptz_link \<Rightarrow> ('f, 'w) ptz_link option" where
  "eth_link_udp_cbk_data run avail answer s =
     (case udp_socket_recv answer (sUdpSocket s) of
        (sk, iLength, bs, ip) \<Rightarrow> do {
          abyBuffer \<leftarrow> storen (replicate 512 0) 0 bs;
          let uIp = (case ip of None \<Rightarrow> 0xFFFFFFFF | Some a \<Rightarrow> a);
          s' \<leftarrow> eth_protocol_handler run avail abyBuffer (of_int iLength)
             (set_send_ip (uIp OR 0xFF) (s\<lparr>sUdpSocket := sk\<rparr>));
          Some (set_send_ip 0xFFFFFFFF s') })"

subsection \<open>Tearing down\<close>

text \<open>
  The socket is closed and its thread joined, see \<open>udp_socket_join\<close>: on its last turn, \<open>Some (avail, answer)\<close>, it may still handle a datagram.
  Then the handlers are freed.
\<close>

definition ptz_last_turn ::
  "('f, 'w) run_ptz \<Rightarrow> bool \<times> i32 \<times> bytes \<times> u32 \<Rightarrow> udp_socket \<times> ('f, 'w) ptz_link \<Rightarrow> (udp_socket \<times> ('f, 'w) ptz_link) option" where
  "ptz_last_turn run turn sks =
     map_option (\<lambda>s'. (sUdpSocket s', s')) (eth_link_udp_cbk_data run (fst turn) (snd turn) ((snd sks)\<lparr>sUdpSocket := fst sks\<rparr>))"

definition eth_link_ptz_uninit ::
  "('f, 'w) run_ptz \<Rightarrow> (bool \<times> i32 \<times> bytes \<times> u32) option \<Rightarrow> ('f, 'w) ptz_link \<Rightarrow> (('f, 'w) ptz_link \<times> i32) option" where
  "eth_link_ptz_uninit run turn s =
     (case udp_socket_close (Some (sUdpSocket s)) of
        (sk, _) \<Rightarrow> do {
          ((sk1, s1), calls) \<leftarrow> udp_socket_join (map_option (ptz_last_turn run) turn) (the sk, s);
          Some (s1\<lparr>sUdpSocket := sk1, pl_calls := pl_calls s1 @ calls, pl_cnt := free_nodes (ptz_list_obj s1) (pl_cnt s1),
            ptz_list_obj := []\<rparr>, 0) })"

subsection \<open>Lemmas\<close>

text \<open>The handler a command reaches: the first registered one that is not null.\<close>

definition ptz_handler :: "('f, 'w) ptz_link \<Rightarrow> u32 \<Rightarrow> 'f option" where
  "ptz_handler s cmd = Option.bind (List.find (\<lambda>e. msg_id e = cmd \<and> mh_cbk e \<noteq> None) (ptz_list_obj s)) mh_cbk"

lemma dispatch_walk_find:
  "dispatch_walk run es lmsg s =
     (case Option.bind (List.find (\<lambda>e. msg_id e = pm_command lmsg \<and> mh_cbk e \<noteq> None) es) mh_cbk of
        None \<Rightarrow> Some s
      | Some f \<Rightarrow> run f lmsg s)"
  by (induction es) (auto split: option.splits)

lemma free_nodes_length: "free_nodes ns cnt = cnt - int (length ns)"
  by (induction ns arbitrary: cnt) (simp_all add: skyfend_safefree_def)

lemma ptz_handler_register:
  assumes "eth_ptz_command_register True msgid (Some f) s = (s', e)"
  shows "e = 0" "ptz_handler s' cmd = (case ptz_handler s cmd of Some g \<Rightarrow> Some g | None \<Rightarrow> if cmd = msgid then Some f else None)"
proof -
  have s': "e = 0" "ptz_list_obj s' = ptz_list_obj s @ [\<lparr>msg_id = msgid, mh_cbk = Some f\<rparr>]"
    using assms by (auto simp: eth_ptz_command_register_def skyfend_malloc_def)
  then show "e = 0" by simp
  have "Option.bind (List.find P (es @ [\<lparr>msg_id = msgid, mh_cbk = Some f\<rparr>])) mh_cbk =
      (case Option.bind (List.find P es) mh_cbk of Some g \<Rightarrow> Some g | None \<Rightarrow> if cmd = msgid then Some f else None)"
    if "P = (\<lambda>e. msg_id e = cmd \<and> mh_cbk e \<noteq> None)" for P and es :: "'a msg_handle_info list"
    using that by (induction es) (auto split: option.splits)
  then show "ptz_handler s' cmd = (case ptz_handler s cmd of Some g \<Rightarrow> Some g | None \<Rightarrow> if cmd = msgid then Some f else None)"
    by (simp add: ptz_handler_def s')
qed

text \<open>Whatever the datagram: the analysis accounts for what it allocates.\<close>

lemma analysis_count:
  assumes "ptz_protocol_network_data_analysis avail pac n ptz_msg_zero cnt = Some (lm, cnt', e)"
  shows "snd (ptz_protocol_msg_destory lm cnt') = cnt \<and> cnt' - cnt = (if pm_msg lm = None then 0 else 1)"
  using assms
  by (auto simp: ptz_protocol_network_data_analysis_def Let_def skyfend_malloc_def skyfend_safefree_def
      ptz_protocol_msg_destory_def ptz_msg_zero_def split: if_splits bind_splits option.splits)

lemma eth_protocol_handler_frame:
  assumes "pac = ptz_frame cmd ts msg @ rest" "length msg < 100000"
    "lm = \<lparr>pm_command = cmd, msglen = int (length msg), pm_msg = (if msg = [] then None else Some msg)\<rparr>"
    "k = (if msg = [] then 0 else 1)"
  shows "eth_protocol_handler run True pac n s =
    map_option (\<lambda>s'. s'\<lparr>pl_cnt := pl_cnt s' - k\<rparr>)
      (case ptz_handler s cmd of
         None \<Rightarrow> Some (s\<lparr>pl_cnt := pl_cnt s + k\<rparr>)
       | Some f \<Rightarrow> run f lm (s\<lparr>pl_cnt := pl_cnt s + k\<rparr>))"
proof -
  have a: "ptz_protocol_network_data_analysis True pac n ptz_msg_zero (pl_cnt s) = Some (lm, pl_cnt s + k, 0)"
    using analysis_frame [OF assms(1,2), of True n "pl_cnt s"] assms(3,4) by simp
  have d: "snd (ptz_protocol_msg_destory lm c) = c - k" for c
    using assms(3,4) by (simp add: ptz_protocol_msg_destory_def skyfend_safefree_def)
  have h: "ptz_handler s cmd =
      Option.bind (List.find (\<lambda>e. msg_id e = pm_command lm \<and> mh_cbk e \<noteq> None) (ptz_list_obj s)) mh_cbk"
    using assms(3) by (simp add: ptz_handler_def)
  show ?thesis
    unfolding eth_protocol_handler_def a dispatch_walk_find h
    by (simp add: d split: option.split) (simp add: bind_eq_Some_conv map_option_case split: option.splits)
qed

lemma udp_dispatch_frame:
  assumes "F = ptz_frame cmd ts msg" "length msg \<le> 476"
    "lm = \<lparr>pm_command = cmd, msglen = int (length msg), pm_msg = (if msg = [] then None else Some msg)\<rparr>"
    "k = (if msg = [] then 0 else 1)" "s1 = set_send_ip (ip OR 0xFF) (s\<lparr>pl_cnt := pl_cnt s + k\<rparr>)"
  shows "eth_link_udp_cbk_data run True (int (length F), F, ip) s =
    map_option (\<lambda>s'. set_send_ip 0xFFFFFFFF (s'\<lparr>pl_cnt := pl_cnt s' - k\<rparr>))
      (case ptz_handler s cmd of None \<Rightarrow> Some s1 | Some f \<Rightarrow> run f lm s1)"
proof -
  have b: "storen (replicate 512 0) 0 F = Some (F @ replicate (512 - length F) 0)"
    using assms(1,2) by (simp add: storen_def)
  have st: "(set_send_ip (ip OR 0xFF) s)\<lparr>pl_cnt := pl_cnt (set_send_ip (ip OR 0xFF) s) + k\<rparr> = s1"
    "ptz_handler (set_send_ip (ip OR 0xFF) s) cmd = ptz_handler s cmd"
    by (simp_all add: assms(5) set_send_ip_def ptz_handler_def)
  have e: "eth_protocol_handler run True (F @ replicate (512 - length F) 0) n (set_send_ip (ip OR 0xFF) s) =
      map_option (\<lambda>s'. s'\<lparr>pl_cnt := pl_cnt s' - k\<rparr>)
        (case ptz_handler s cmd of None \<Rightarrow> Some s1 | Some f \<Rightarrow> run f lm s1)" for n
    using eth_protocol_handler_frame [OF _ _ assms(3,4), of "F @ replicate (512 - length F) 0" ts
        "replicate (512 - length F) 0" run n "set_send_ip (ip OR 0xFF) s", unfolded st] assms(1,2) by simp
  show ?thesis
    using b e by (simp add: eth_link_udp_cbk_data_def udp_socket_recv_def Let_def option.map_comp o_def bind_map_option
        split: option.splits) (simp add: map_option_case bind_eq_Some_conv split: option.splits)
qed

lemma of_le_zero: "of_le (replicate n 0) = 0"
  by (induction n) simp_all

subsection \<open>An instance for the witnesses\<close>

definition ex_ptz_link :: "(string, (string \<times> ptz_protocol_msg) list) ptz_link" where
  "ex_ptz_link = \<lparr>sUdpCfg = ptz_cfg,
     sUdpSocket = \<lparr>us_bFlagInit = True, us_bFlagClose = False, us_iSocket = 3, us_pid = True, us_psCfg = Some 0, us_psCbk = Some 0\<rparr>,
     ptz_list_obj = [\<lparr>msg_id = 1, mh_cbk = None\<rparr>, \<lparr>msg_id = 1, mh_cbk = Some ''status''\<rparr>], pl_cnt = 2, pl_calls = [],
     pl_world = []\<rparr>"

definition log_ptz :: "(string, (string \<times> ptz_protocol_msg) list) run_ptz" where
  "log_ptz f m s = Some (s\<lparr>pl_world := pl_world s @ [(f, m)]\<rparr>)"

subsection \<open>Properties\<close>

text \<open>
  From the datagram to the handler: a package of the protocol in a datagram of at most 512 bytes runs
  exactly the first handler registered for its command, once, with the message of the package; during the
  call answers go to the sender's subnet, afterwards the socket sends to everybody again; the block of the
  message is freed; a command without a handler is ignored.
\<close>
theorem eth_link_udp_dispatches:
  assumes "F = ptz_frame cmd ts msg" "length msg \<le> 476"
    "lm = \<lparr>pm_command = cmd, msglen = int (length msg), pm_msg = (if msg = [] then None else Some msg)\<rparr>"
    "k = (if msg = [] then 0 else 1)" "s1 = set_send_ip (ip OR 0xFF) (s\<lparr>pl_cnt := pl_cnt s + k\<rparr>)"
  shows "eth_link_udp_cbk_data run True (int (length F), F, ip) s =
    map_option (\<lambda>s'. set_send_ip 0xFFFFFFFF (s'\<lparr>pl_cnt := pl_cnt s' - k\<rparr>))
      (case ptz_handler s cmd of None \<Rightarrow> Some s1 | Some f \<Rightarrow> run f lm s1)"
  by (rule udp_dispatch_frame [OF assms])

theorem eth_link_udp_dispatches_witness:
  "eth_link_udp_cbk_data log_ptz True (int (length (ptz_frame 1 77 [5, 6])), ptz_frame 1 77 [5, 6], 0xC0A80104) ex_ptz_link =
    Some (ex_ptz_link\<lparr>pl_world := [(''status'', \<lparr>pm_command = 1, msglen = 2, pm_msg = Some [5, 6]\<rparr>)]\<rparr>)"
proof -
  have h: "ptz_handler ex_ptz_link 1 = Some ''status''" by (simp add: ptz_handler_def ex_ptz_link_def)
  show ?thesis
    using eth_link_udp_dispatches [of "ptz_frame 1 77 [5, 6]" 1 77 "[5, 6]" _ 1 _ "0xC0A80104" ex_ptz_link log_ptz,
        OF refl _ refl _ refl] unfolding h
    by (simp add: log_ptz_def set_send_ip_def) (simp add: ex_ptz_link_def ptz_cfg_def)
qed

text \<open>
  No datagram makes the program leak or free twice: whatever arrives, if the callback returns at all
  the allocation counter is what it was, provided the handlers keep it.
\<close>
theorem eth_link_udp_keeps_count:
  assumes "eth_link_udp_cbk_data run avail answer s = Some s'"
    "\<And>f m t t'. run f m t = Some t' \<Longrightarrow> pl_cnt t' = pl_cnt t"
  shows "pl_cnt s' = pl_cnt s \<and> uSendIp (sUdpCfg s') = 0xFFFFFFFF"
proof -
  obtain sk l bs ip where r: "udp_socket_recv answer (sUdpSocket s) = (sk, l, bs, ip)" by (cases "udp_socket_recv answer (sUdpSocket s)")
  define s0 where "s0 = set_send_ip ((case ip of None \<Rightarrow> 0xFFFFFFFF | Some a \<Rightarrow> a) OR 0xFF) (s\<lparr>sUdpSocket := sk\<rparr>)"
  obtain buf s1 where h: "eth_protocol_handler run avail buf (of_int l) s0 = Some s1" "s' = set_send_ip 0xFFFFFFFF s1"
    using assms(1) r by (auto simp: eth_link_udp_cbk_data_def s0_def Let_def split: bind_splits)
  from h(1) obtain lm cnt e where a: "ptz_protocol_network_data_analysis avail buf (of_int l) ptz_msg_zero (pl_cnt s0) = Some (lm, cnt, e)"
    by (auto simp: eth_protocol_handler_def split: bind_splits)
  have "pl_cnt s1 = pl_cnt s0"
  proof (cases "e = 0")
    case True
    then obtain s2 where d: "dispatch_walk run (ptz_list_obj s0) lm (s0\<lparr>pl_cnt := cnt\<rparr>) = Some s2"
      "s1 = s2\<lparr>pl_cnt := snd (ptz_protocol_msg_destory lm (pl_cnt s2))\<rparr>"
      using h(1) a by (auto simp: eth_protocol_handler_def split: bind_splits)
    have "pl_cnt s2 = cnt"
      using d(1) assms(2) unfolding dispatch_walk_find by (auto split: option.splits)
    with d(2) analysis_count [OF a] show ?thesis by simp
  next
    case False
    with h(1) a analysis_count [OF a] show ?thesis by (auto simp: eth_protocol_handler_def)
  qed
  then show ?thesis by (simp add: h(2) s0_def set_send_ip_def)
qed

theorem eth_link_udp_keeps_count_witness:
  "\<exists>s'. eth_link_udp_cbk_data log_ptz True (-1, [], 0) ex_ptz_link = Some s' \<and>
    pl_cnt s' = pl_cnt ex_ptz_link \<and> uSendIp (sUdpCfg s') = 0xFFFFFFFF"
proof -
  have "load32 (replicate 512 0) 0 = Some 0" by (simp add: load32_def loadn_def of_le_zero)
  then have a: "ptz_protocol_network_data_analysis True (replicate 512 0) 0 ptz_msg_zero cnt = Some (ptz_msg_zero, cnt, 0)" for cnt
    by (simp add: ptz_protocol_network_data_analysis_def PTZ_PACKAGE_HEAD_def)
  have h: "\<exists>s'. eth_protocol_handler log_ptz True (replicate 512 0) 0 s = Some s'" for s
    by (simp add: eth_protocol_handler_def a dispatch_walk_find log_ptz_def split: option.split)
  let ?s = "set_send_ip (0xFFFFFFFF OR 0xFF) (ex_ptz_link\<lparr>sUdpSocket := (sUdpSocket ex_ptz_link)\<lparr>us_bFlagClose := True\<rparr>\<rparr>)"
  obtain s1 where "eth_protocol_handler log_ptz True (replicate 512 0) 0 ?s = Some s1" using h [of ?s] by (elim exE)
  then have s': "eth_link_udp_cbk_data log_ptz True (-1, [], 0) ex_ptz_link = Some (set_send_ip 0xFFFFFFFF s1)"
    by (simp add: eth_link_udp_cbk_data_def udp_socket_recv_def Let_def storen_def)
  with eth_link_udp_keeps_count [OF s'] show ?thesis by (auto simp: log_ptz_def)
qed

text \<open>
  Tearing down, when no datagram comes in between, returns exactly if the receive thread was created and has not been joined: doing it twice, or after
  a set-up that failed, joins a thread that does not exist. Afterwards no handler is left, every node is freed, and nothing is sent any
  more.
\<close>
theorem eth_link_ptz_uninit_once:
  "if us_pid (sUdpSocket s)
   then \<exists>s'. eth_link_ptz_uninit run None s = Some (s', 0) \<and> ptz_list_obj s' = [] \<and> pl_cnt s' = pl_cnt s - int (length (ptz_list_obj s)) \<and>
     \<not> us_bFlagInit (sUdpSocket s') \<and> eth_link_ptz_uninit run turn s' = None
   else eth_link_ptz_uninit run turn s = None"
proof (cases "us_pid (sUdpSocket s)")
  case True
  then show ?thesis
    by (cases "us_bFlagInit (sUdpSocket s)")
      (auto simp: eth_link_ptz_uninit_def udp_socket_close_def udp_socket_join_def udp_task_end_def free_nodes_length)
next
  case False
  then show ?thesis by (simp add: eth_link_ptz_uninit_def udp_socket_close_def udp_socket_join_def)
qed

end
