(* ===== verification/Ptz_Control.thy ===== *)
theory Ptz_Control
  imports Eth_Link_Ptz
begin

text \<open>
  The commands to the pan-tilt head: the structs of \<^verbatim>\<open>ptz_control.h\<close> that the AGX sends and the functions of
  \<^verbatim>\<open>srv/eth_link/ptz_protocol/ptz_control.c\<close>. Every function but one follows the same contract, stated by
  the locale \<open>ptz_sender\<close>: refuse a null pointer, fill in the members the link knows better, and broadcast the
  struct as one package of the function's command. What the receiving side makes of it is proved once,
  inside the locale.

  \<open>tv\<close> is the time the function reads, \<open>tv'\<close> the time \<^verbatim>\<open>ptz_protocol_package\<close> reads afterwards; \<open>ret\<close> is
  the answer of \<^verbatim>\<open>sendto\<close>.
\<close>

subsection \<open>Structs\<close>

definition ptz_msgid_0x03_addr :: layout where
  "ptz_msgid_0x03_addr = [(''photoelectricity_no'', 4), (''sys_no'', 4), (''sys_timesmap'', 8),
     (''target_longitude'', 8), (''target_latitude'', 8), (''target_altitude'', 8), (''distance'', 8),
     (''horizatal_angle'', 8), (''pitch_angle'', 8), (''user_id'', 2), (''guidance_mode'', 1),
     (''target_motion_direction'', 1)]"

definition ptz_msg_direction_ctrl :: layout where
  "ptz_msg_direction_ctrl = [(''photoelectricity_no'', 4), (''sys_timesmap'', 8), (''control_cmd'', 4),
     (''motion_level'', 4), (''motion_way'', 4), (''reserver'', 4)]"

definition ptz_msg_addr_external :: layout where
  "ptz_msg_addr_external = [(''photoelectricity_no'', 4), (''sys_no'', 4), (''sys_timesmap'', 8),
     (''target_longitude'', 8), (''target_altitude'', 8), (''target_height'', 8), (''distance'', 8),
     (''horizatal_angle'', 8), (''pitch_angle'', 8), (''user_id'', 2), (''guidance_mode'', 1),
     (''target_motion_direction'', 1), (''search_mode'', 4), (''right_left_search_eara'', 4),
     (''up_down_search_eara'', 4), (''reserver'', 4)]"

definition ptz_msg_ctrl_pack :: layout where
  "ptz_msg_ctrl_pack = [(''photoelectricity_no'', 4), (''sys_no'', 4), (''sys_timesmap'', 8),
     (''ctrl_cmd'', 4), (''focal'', 4), (''zoom'', 4), (''focus'', 4), (''reserver'', 4)]"

definition ptz_msg_track :: layout where
  "ptz_msg_track = [(''photoelectricity_no'', 4), (''sys_timesmap'', 8), (''ctrl_cmd'', 4),
     (''horizatal_search_begin'', 4), (''horizatal_search_end'', 4), (''pitching_search_begin'', 4),
     (''pitching_search_end'', 4), (''reserver'', 4)]"

definition ptz_msg_manual_lock_target :: layout where
  "ptz_msg_manual_lock_target = [(''photoelectricity_no'', 4), (''sys_timesmap'', 8),
     (''track_vedio_source'', 4), (''target_cor_x'', 4), (''targegt_cor_y'', 4), (''reserver'', 4)]"

definition ptz_msg_scan_ext :: layout where
  "ptz_msg_scan_ext = [(''photoelectricity_no'', 4), (''sys_timesmap'', 8), (''ctrl_cmd'', 4),
     (''horizatal_search_begin'', 4), (''horizatal_search_end'', 4), (''pitching_search_begin'', 4),
     (''pitching_search_end'', 4), (''scan_speed'', 4), (''reserver'', 4)]"

definition ptz_msg_peripheral_ctrl :: layout where
  "ptz_msg_peripheral_ctrl = [(''photoelectricity_no'', 4), (''sys_timesmap'', 8), (''ctrl_cmd'', 4),
     (''ctrl_param'', 4), (''reserver'', 4)]"

definition ptz_msg_ai_ctrl :: layout where
  "ptz_msg_ai_ctrl = [(''photoelectricity_no'', 4), (''sys_timesmap'', 8), (''config_cmd'', 4),
     (''param_len'', 4), (''param'', 8)]"

definition ptz_msg_config_focal_mode :: layout where
  "ptz_msg_config_focal_mode = [(''photoelectricity_no'', 4), (''sys_timesmap'', 8), (''focal_mode'', 4),
     (''channel'', 1), (''reserver'', 3)]"

definition ptz_msg_config_track_param :: layout where
  "ptz_msg_config_track_param = [(''photoelectricity_no'', 4), (''sys_timesmap'', 8),
     (''enable_focal_auto'', 4), (''focal_magnifying_limit'', 4), (''focal_reduce_limit'', 4),
     (''reserver'', 32)]"

lemmas ptz_out_defs = ptz_msgid_0x03_addr_def ptz_msg_direction_ctrl_def ptz_msg_addr_external_def
  ptz_msg_ctrl_pack_def ptz_msg_track_def ptz_msg_manual_lock_target_def ptz_msg_scan_ext_def
  ptz_msg_peripheral_ctrl_def ptz_msg_ai_ctrl_def ptz_msg_config_focal_mode_def ptz_msg_config_track_param_def

lemma ptz_out_sizes [simp]:
  "packed_size ptz_msgid_0x03_addr = 68"
  "packed_size ptz_msg_direction_ctrl = 28"
  "packed_size ptz_msg_addr_external = 84"
  "packed_size ptz_msg_ctrl_pack = 36"
  "packed_size ptz_msg_track = 36"
  "packed_size ptz_msg_manual_lock_target = 28"
  "packed_size ptz_msg_scan_ext = 40"
  "packed_size ptz_msg_peripheral_ctrl = 24"
  "packed_size ptz_msg_ai_ctrl = 28"
  "packed_size ptz_msg_config_focal_mode = 20"
  "packed_size ptz_msg_config_track_param = 56"
  by (simp_all add: packed_size_def ptz_out_defs)

subsection \<open>Commands\<close>

definition PTZ_USER_ID :: u16 where "PTZ_USER_ID = 0xff11"
definition PTZ_PHOTOELECTRICITY_NO :: u32 where "PTZ_PHOTOELECTRICITY_NO = 1"
definition PTZ_SYS_NO :: u32 where "PTZ_SYS_NO = 1"

definition PTZ_COMMAND_SERACH_TRACK :: u32 where "PTZ_COMMAND_SERACH_TRACK = 0x04"
definition PTZ_COMMAND_ADDR :: u32 where "PTZ_COMMAND_ADDR = 0x03"
definition PTZ_COMMAND_CONTROL_PACKAGE :: u32 where "PTZ_COMMAND_CONTROL_PACKAGE = 0x09"
definition PTZ_COMMAND_SCAN_EXT :: u32 where "PTZ_COMMAND_SCAN_EXT = 0x0A"
definition PTZ_COMMAND_DIRECTION_CONTROL :: u32 where "PTZ_COMMAND_DIRECTION_CONTROL = 0x0D"
definition PTZ_COMMAND_LOCK_TARGET_MANUAL :: u32 where "PTZ_COMMAND_LOCK_TARGET_MANUAL = 0x10"
definition PTZ_COMMAND_PERIPHERAL_CTRL :: u32 where "PTZ_COMMAND_PERIPHERAL_CTRL = 0x11"
definition PTZ_COMMAND_AI_CTRL :: u32 where "PTZ_COMMAND_AI_CTRL = 0x12"
definition PTZ_COMMAND_CONFIG_FOCAL_MODE :: u32 where "PTZ_COMMAND_CONFIG_FOCAL_MODE = 0x13"
definition PTZ_COMMAND_CONFIG_TRACK_PARAM :: u32 where "PTZ_COMMAND_CONFIG_TRACK_PARAM = 0x14"
definition PTZ_COMMAND_ADDR_EXT :: u32 where "PTZ_COMMAND_ADDR_EXT = 0x16"

lemmas ptz_command_defs = PTZ_COMMAND_SERACH_TRACK_def PTZ_COMMAND_ADDR_def PTZ_COMMAND_CONTROL_PACKAGE_def PTZ_COMMAND_SCAN_EXT_def PTZ_COMMAND_DIRECTION_CONTROL_def
  PTZ_COMMAND_LOCK_TARGET_MANUAL_def PTZ_COMMAND_PERIPHERAL_CTRL_def PTZ_COMMAND_AI_CTRL_def PTZ_COMMAND_CONFIG_FOCAL_MODE_def PTZ_COMMAND_CONFIG_TRACK_PARAM_def PTZ_COMMAND_ADDR_EXT_def

subsection \<open>Operations\<close>

text \<open>
  The tail all functions share: copy the struct into the 128-byte buffer on the stack, describe it, and send
  the package.
\<close>

definition send_ptz_struct ::
  "timeval \<Rightarrow> i32 \<Rightarrow> u32 \<Rightarrow> nat \<Rightarrow> bytes \<Rightarrow> ('f, 'w) ptz_link \<Rightarrow> (('f, 'w) ptz_link \<times> i32) option" where
  "send_ptz_struct tv' ret cmd n m s = do {
     bs \<leftarrow> loadn m 0 n;
     dat \<leftarrow> storen (replicate 128 0) 0 bs;
     send_ptz_package tv' ret \<lparr>pm_command = cmd, msglen = int n, pm_msg = Some dat\<rparr> s }"

text \<open>A function takes a pointer that may be null and returns the struct it leaves behind, the state and the result.\<close>

type_synonym ('f, 'w) ptz_op =
  "timeval \<Rightarrow> timeval \<Rightarrow> i32 \<Rightarrow> bytes option \<Rightarrow> ('f, 'w) ptz_link \<Rightarrow> (bytes option \<times> ('f, 'w) ptz_link \<times> i32) option"

definition send_ptz_control_addr :: "('f, 'w) ptz_op" where
  "send_ptz_control_addr tv tv' ret p s =
     (case p of
        None \<Rightarrow> Some (None, s, -1)
      | Some m \<Rightarrow> do {
          m1 \<leftarrow> set_field ptz_msgid_0x03_addr ''photoelectricity_no'' (le_bytes 4 PTZ_PHOTOELECTRICITY_NO) m;
          m2 \<leftarrow> set_field ptz_msgid_0x03_addr ''user_id'' (le_bytes 2 PTZ_USER_ID) m1;
          m3 \<leftarrow> set_field ptz_msgid_0x03_addr ''sys_no'' (le_bytes 4 PTZ_SYS_NO) m2;
          m4 \<leftarrow> set_field ptz_msgid_0x03_addr ''sys_timesmap'' (le_bytes 8 (timesmap_of tv)) m3;
          (s', r) \<leftarrow> send_ptz_struct tv' ret PTZ_COMMAND_ADDR (packed_size ptz_msgid_0x03_addr) m4 s;
          Some (Some m4, s', r) })"

definition send_ptz_control_direction :: "('f, 'w) ptz_op" where
  "send_ptz_control_direction tv tv' ret p s =
     (case p of
        None \<Rightarrow> Some (None, s, -1)
      | Some m \<Rightarrow> do {
          (s', r) \<leftarrow> send_ptz_struct tv' ret PTZ_COMMAND_DIRECTION_CONTROL (packed_size ptz_msg_direction_ctrl) m s;
          Some (Some m, s', r) })"

definition send_ptz_control_add_ext :: "('f, 'w) ptz_op" where
  "send_ptz_control_add_ext tv tv' ret p s =
     (case p of
        None \<Rightarrow> Some (None, s, -1)
      | Some m \<Rightarrow> do {
          (s', r) \<leftarrow> send_ptz_struct tv' ret PTZ_COMMAND_ADDR_EXT (packed_size ptz_msg_addr_external) m s;
          Some (Some m, s', r) })"

definition send_ptz_control_pack :: "('f, 'w) ptz_op" where
  "send_ptz_control_pack tv tv' ret p s =
     (case p of
        None \<Rightarrow> Some (None, s, -1)
      | Some m \<Rightarrow> do {
          m1 \<leftarrow> set_field ptz_msg_ctrl_pack ''photoelectricity_no'' (le_bytes 4 PTZ_PHOTOELECTRICITY_NO) m;
          m2 \<leftarrow> set_field ptz_msg_ctrl_pack ''sys_no'' (le_bytes 4 PTZ_SYS_NO) m1;
          m3 \<leftarrow> set_field ptz_msg_ctrl_pack ''sys_timesmap'' (le_bytes 8 (timesmap_of tv)) m2;
          (s', r) \<leftarrow> send_ptz_struct tv' ret PTZ_COMMAND_CONTROL_PACKAGE (packed_size ptz_msg_ctrl_pack) m3 s;
          Some (Some m3, s', r) })"

definition send_ptz_control_track :: "('f, 'w) ptz_op" where
  "send_ptz_control_track tv tv' ret p s =
     (case p of
        None \<Rightarrow> Some (None, s, -1)
      | Some m \<Rightarrow> do {
          m1 \<leftarrow> set_field ptz_msg_track ''photoelectricity_no'' (le_bytes 4 PTZ_PHOTOELECTRICITY_NO) m;
          m2 \<leftarrow> set_field ptz_msg_track ''sys_timesmap'' (le_bytes 8 (timesmap_of tv)) m1;
          (s', r) \<leftarrow> send_ptz_struct tv' ret PTZ_COMMAND_SERACH_TRACK (packed_size ptz_msg_track) m2 s;
          Some (Some m2, s', r) })"

definition send_ptz_control_manual_lock_target :: "('f, 'w) ptz_op" where
  "send_ptz_control_manual_lock_target tv tv' ret p s =
     (case p of
        None \<Rightarrow> Some (None, s, -1)
      | Some m \<Rightarrow> do {
          m1 \<leftarrow> set_field ptz_msg_manual_lock_target ''photoelectricity_no'' (le_bytes 4 PTZ_PHOTOELECTRICITY_NO) m;
          m2 \<leftarrow> set_field ptz_msg_manual_lock_target ''sys_timesmap'' (le_bytes 8 (timesmap_of tv)) m1;
          (s', r) \<leftarrow> send_ptz_struct tv' ret PTZ_COMMAND_LOCK_TARGET_MANUAL (packed_size ptz_msg_manual_lock_target) m2 s;
          Some (Some m2, s', r) })"

definition send_ptz_control_scan_ext :: "('f, 'w) ptz_op" where
  "send_ptz_control_scan_ext tv tv' ret p s =
     (case p of
        None \<Rightarrow> Some (None, s, -1)
      | Some m \<Rightarrow> do {
          m1 \<leftarrow> set_field ptz_msg_scan_ext ''photoelectricity_no'' (le_bytes 4 PTZ_PHOTOELECTRICITY_NO) m;
          m2 \<leftarrow> set_field ptz_msg_scan_ext ''sys_timesmap'' (le_bytes 8 (timesmap_of tv)) m1;
          (s', r) \<leftarrow> send_ptz_struct tv' ret PTZ_COMMAND_SCAN_EXT (packed_size ptz_msg_scan_ext) m2 s;
          Some (Some m2, s', r) })"

definition send_ptz_peripheral_ctrl :: "('f, 'w) ptz_op" where
  "send_ptz_peripheral_ctrl tv tv' ret p s =
     (case p of
        None \<Rightarrow> Some (None, s, -1)
      | Some m \<Rightarrow> do {
          m1 \<leftarrow> set_field ptz_msg_peripheral_ctrl ''photoelectricity_no'' (le_bytes 4 PTZ_PHOTOELECTRICITY_NO) m;
          m2 \<leftarrow> set_field ptz_msg_peripheral_ctrl ''sys_timesmap'' (le_bytes 8 (timesmap_of tv)) m1;
          (s', r) \<leftarrow> send_ptz_struct tv' ret PTZ_COMMAND_PERIPHERAL_CTRL (packed_size ptz_msg_peripheral_ctrl) m2 s;
          Some (Some m2, s', r) })"

definition send_ptz_config_focal_mode :: "('f, 'w) ptz_op" where
  "send_ptz_config_focal_mode tv tv' ret p s =
     (case p of
        None \<Rightarrow> Some (None, s, -1)
      | Some m \<Rightarrow> do {
          m1 \<leftarrow> set_field ptz_msg_config_focal_mode ''photoelectricity_no'' (le_bytes 4 PTZ_PHOTOELECTRICITY_NO) m;
          m2 \<leftarrow> set_field ptz_msg_config_focal_mode ''sys_timesmap'' (le_bytes 8 (timesmap_of tv)) m1;
          (s', r) \<leftarrow> send_ptz_struct tv' ret PTZ_COMMAND_CONFIG_FOCAL_MODE (packed_size ptz_msg_config_focal_mode) m2 s;
          Some (Some m2, s', r) })"

definition send_ptz_config_track_param :: "('f, 'w) ptz_op" where
  "send_ptz_config_track_param tv tv' ret p s =
     (case p of
        None \<Rightarrow> Some (None, s, -1)
      | Some m \<Rightarrow> do {
          m1 \<leftarrow> set_field ptz_msg_config_track_param ''photoelectricity_no'' (le_bytes 4 PTZ_PHOTOELECTRICITY_NO) m;
          m2 \<leftarrow> set_field ptz_msg_config_track_param ''sys_timesmap'' (le_bytes 8 (timesmap_of tv)) m1;
          (s', r) \<leftarrow> send_ptz_struct tv' ret PTZ_COMMAND_CONFIG_TRACK_PARAM (packed_size ptz_msg_config_track_param) m2 s;
          Some (Some m2, s', r) })"

text \<open>
  \<^verbatim>\<open>send_ptz_ai_ctrl\<close>: the struct ends in a pointer to the parameters, here \<open>param\<close>. The sizes are those of
  \<^verbatim>\<open>ptz_msg_peripheral_ctrl_t\<close>, as in the source; the block is allocated and freed, so \<open>pl_cnt\<close> moves.
\<close>

definition send_ptz_ai_ctrl ::
  "bool \<Rightarrow> timeval \<Rightarrow> timeval \<Rightarrow> i32 \<Rightarrow> (bytes \<times> bytes option) option \<Rightarrow> ('f, 'w) ptz_link \<Rightarrow>
   (bytes option \<times> ('f, 'w) ptz_link \<times> i32) option" where
  "send_ptz_ai_ctrl avail tv tv' ret p s =
     (case p of
        None \<Rightarrow> Some (None, s, -1)
      | Some (m, param) \<Rightarrow> do {
          n \<leftarrow> map_option of_le (get_field ptz_msg_ai_ctrl ''param_len'' m);
          if 0 < unat (n :: u32) \<and> param = None then Some (Some m, s, -1)
          else do {
            m1 \<leftarrow> set_field ptz_msg_ai_ctrl ''photoelectricity_no'' (le_bytes 4 PTZ_PHOTOELECTRICITY_NO) m;
            m2 \<leftarrow> set_field ptz_msg_ai_ctrl ''sys_timesmap'' (le_bytes 8 (timesmap_of tv)) m1;
            (case skyfend_malloc avail (packed_size ptz_msg_ai_ctrl + unat n) (pl_cnt s) of
               (None, cnt) \<Rightarrow> Some (Some m2, s\<lparr>pl_cnt := cnt\<rparr>, -1)
             | (Some dat, cnt) \<Rightarrow> do {
                 h \<leftarrow> loadn m2 0 (packed_size ptz_msg_peripheral_ctrl);
                 d1 \<leftarrow> storen dat 0 h;
                 bs \<leftarrow> loadn (case param of None \<Rightarrow> [] | Some b \<Rightarrow> b) 0 (unat n);
                 d2 \<leftarrow> storen d1 (packed_size ptz_msg_peripheral_ctrl - 8) bs;
                 (s', r) \<leftarrow> send_ptz_package tv' ret
                    \<lparr>pm_command = PTZ_COMMAND_AI_CTRL,
                     msglen = int (packed_size ptz_msg_peripheral_ctrl) - 8 + int (unat n), pm_msg = Some d2\<rparr>
                    (s\<lparr>pl_cnt := cnt\<rparr>);
                 Some (Some m2, s'\<lparr>pl_cnt := snd (skyfend_safefree (Some d2) (pl_cnt s'))\<rparr>, r) }) } })"

subsection \<open>What goes out\<close>

definition ptz_connected :: "('f, 'w) ptz_link \<Rightarrow> bool" where
  "ptz_connected s \<longleftrightarrow> us_bFlagInit (sUdpSocket s) \<and> us_psCfg (sUdpSocket s) \<noteq> None"

definition ptz_broadcast :: "bytes \<Rightarrow> ('f, 'w) ptz_link \<Rightarrow> ('f, 'w) ptz_link" where
  "ptz_broadcast bs s = s\<lparr>pl_calls := pl_calls s @
     [Call_sendto (us_iSocket (sUdpSocket s)) bs (uSendIp (sUdpCfg s)) (wSendPort (sUdpCfg s))]\<rparr>"

lemma send_ptz_package_frame:
  assumes "ptz_connected s" "length msg \<le> 2012"
  shows "send_ptz_package tv' ret \<lparr>pm_command = cmd, msglen = int (length msg), pm_msg = Some (msg @ rest)\<rparr> s =
    Some (ptz_broadcast (ptz_frame cmd (timesmap_of tv') msg) s, 0)"
proof -
  have p: "ptz_protocol_package tv' cmd (msg @ rest) (of_nat (length msg)) (replicate PTZ_PACKAGE_MAX_LEN 0) =
      Some (ptz_frame cmd (timesmap_of tv') msg @ drop (length msg + 36) (replicate PTZ_PACKAGE_MAX_LEN 0), of_nat (length msg + 36))"
    using assms(2) by (intro ptz_protocol_package_frame) (simp_all add: PTZ_PACKAGE_MAX_LEN_def)
  have u: "unat (of_nat (length msg + 36) :: u32) = length msg + 36"
    using assms(2) by (intro unat_of_nat_small) simp
  have l: "loadn (ptz_frame cmd (timesmap_of tv') msg @ r) 0 (length msg + 36) = Some (ptz_frame cmd (timesmap_of tv') msg)" for r
    by (simp add: loadn_def)
  show ?thesis
    using assms(1) p l u
    by (auto simp: send_ptz_package_def udp_socket_send_def ptz_connected_def ptz_broadcast_def simp del: of_nat_add drop_replicate)
qed

lemma send_ptz_struct_frame:
  assumes "ptz_connected s" "n \<le> 128" "length m = n"
  shows "send_ptz_struct tv' ret cmd n m s = Some (ptz_broadcast (ptz_frame cmd (timesmap_of tv') m) s, 0)"
  using send_ptz_package_frame [OF assms(1), of m tv' ret cmd "replicate (128 - n) 0"] assms(2,3)
  by (simp add: send_ptz_struct_def mem_simps)

subsection \<open>The contract of the senders\<close>

text \<open>
  What a sender promises end to end: on a connected link, a struct is sent as one package, from which any
  receiver reads the command and the struct, with the members outside \<open>stamped\<close> as the caller set them.
\<close>

definition delivers :: "('f, 'w) ptz_op \<Rightarrow> u32 \<Rightarrow> layout \<Rightarrow> string set \<Rightarrow> bool" where
  "delivers op cmd l stamped \<longleftrightarrow>
     (\<forall>s m tv tv' ret received cnt. ptz_connected s \<longrightarrow> length m = packed_size l \<longrightarrow>
        (\<exists>m' F. op tv tv' ret (Some m) s = Some (Some m', ptz_broadcast F s, 0) \<and>
          (\<forall>f. f \<notin> stamped \<longrightarrow> get_field l f m' = get_field l f m) \<and>
          ptz_protocol_network_data_analysis True F received ptz_msg_zero cnt =
            Some (\<lparr>pm_command = cmd, msglen = int (packed_size l), pm_msg = Some m'\<rparr>, cnt + 1, 0)))"

text \<open>
  \<open>stamped\<close> are the members the function fills in itself. The laws: null is refused without any effect;
  otherwise exactly one package goes out, with the struct as its message, and the caller's members are sent
  as they are.
\<close>

locale ptz_sender =
  fixes op :: "('f, 'w) ptz_op" and cmd :: u32 and l :: layout and stamped :: "string set"
  assumes null: "op tv tv' ret None s = Some (None, s, -1)"
    and fits: "0 < packed_size l" "packed_size l \<le> 128"
    and sends: "ptz_connected s \<Longrightarrow> length m = packed_size l \<Longrightarrow>
      \<exists>m'. op tv tv' ret (Some m) s = Some (Some m', ptz_broadcast (ptz_frame cmd (timesmap_of tv') m') s, 0) \<and>
        length m' = packed_size l \<and> (\<forall>f. f \<notin> stamped \<longrightarrow> get_field l f m' = get_field l f m)"
begin

text \<open>Whoever receives what was sent sees the command with the struct as its message.\<close>

lemma received:
  assumes "ptz_connected s" "length m = packed_size l"
  shows "\<exists>m' F. op tv tv' ret (Some m) s = Some (Some m', ptz_broadcast F s, 0) \<and>
    (\<forall>f. f \<notin> stamped \<longrightarrow> get_field l f m' = get_field l f m) \<and>
    ptz_protocol_network_data_analysis True F received ptz_msg_zero cnt =
      Some (\<lparr>pm_command = cmd, msglen = int (packed_size l), pm_msg = Some m'\<rparr>, cnt + 1, 0)"
proof -
  obtain m' where m': "op tv tv' ret (Some m) s = Some (Some m', ptz_broadcast (ptz_frame cmd (timesmap_of tv') m') s, 0)"
    "length m' = packed_size l" "\<forall>f. f \<notin> stamped \<longrightarrow> get_field l f m' = get_field l f m"
    using sends [OF assms] by blast
  have "m' \<noteq> []" using m'(2) fits by auto
  then have "ptz_protocol_network_data_analysis True (ptz_frame cmd (timesmap_of tv') m') received ptz_msg_zero cnt =
      Some (\<lparr>pm_command = cmd, msglen = int (packed_size l), pm_msg = Some m'\<rparr>, cnt + 1, 0)"
    using analysis_frame [of "ptz_frame cmd (timesmap_of tv') m'" cmd "timesmap_of tv'" m' "[]" True] m'(2) fits by simp
  with m' show ?thesis by blast
qed

lemma delivered: "delivers op cmd l stamped"
  unfolding delivers_def by (intro allI impI) (rule received)

end

text \<open>What the functions have in common, as one function of the assignments they make.\<close>

definition stamp_send ::
  "u32 \<Rightarrow> layout \<Rightarrow> (timeval \<Rightarrow> (string \<times> bytes) list) \<Rightarrow> ('f, 'w) ptz_op" where
  "stamp_send cmd l fs tv tv' ret p s =
     (case p of
        None \<Rightarrow> Some (None, s, -1)
      | Some m \<Rightarrow> do {
          m' \<leftarrow> set_fields l (fs tv) m;
          (s', r) \<leftarrow> send_ptz_struct tv' ret cmd (packed_size l) m' s;
          Some (Some m', s', r) })"

lemma stamp_send_sender:
  assumes "0 < packed_size l" "packed_size l \<le> 128" "\<And>tv. \<forall>(f, v) \<in> set (fs tv). map_of l f = Some (length v)"
    "\<And>tv. fst ` set (fs tv) = stamped"
  shows "ptz_sender (stamp_send cmd l fs) cmd l stamped"
proof
  show "stamp_send cmd l fs tv tv' ret None s = Some (None, s, -1)" for tv tv' ret s
    by (simp add: stamp_send_def)
  show "0 < packed_size l" "packed_size l \<le> 128" by fact+
  fix s :: "('f, 'w) ptz_link" and m :: bytes and tv tv' ret assume s: "ptz_connected s" "length m = packed_size l"
  obtain m' where m': "set_fields l (fs tv) m = Some m'" "length m' = length m"
    "\<forall>g. g \<notin> stamped \<longrightarrow> get_field l g m' = get_field l g m"
    using set_fields_total [of l m "fs tv"] s(2) assms(3,4) by auto
  have "stamp_send cmd l fs tv tv' ret (Some m) s = Some (Some m', ptz_broadcast (ptz_frame cmd (timesmap_of tv') m') s, 0)"
    using m'(1,2) s send_ptz_struct_frame [OF s(1) assms(2)] by (simp add: stamp_send_def)
  with m' s(2) show "\<exists>m'. stamp_send cmd l fs tv tv' ret (Some m) s =
      Some (Some m', ptz_broadcast (ptz_frame cmd (timesmap_of tv') m') s, 0) \<and>
      length m' = packed_size l \<and> (\<forall>f. f \<notin> stamped \<longrightarrow> get_field l f m' = get_field l f m)"
    by auto
qed

lemma senders_stamp:
  "send_ptz_control_addr = stamp_send PTZ_COMMAND_ADDR ptz_msgid_0x03_addr
     (\<lambda>tv. [(''photoelectricity_no'', le_bytes 4 PTZ_PHOTOELECTRICITY_NO), (''user_id'', le_bytes 2 PTZ_USER_ID), (''sys_no'', le_bytes 4 PTZ_SYS_NO), (''sys_timesmap'', le_bytes 8 (timesmap_of tv))])"
  "send_ptz_control_direction = stamp_send PTZ_COMMAND_DIRECTION_CONTROL ptz_msg_direction_ctrl
     (\<lambda>tv. [])"
  "send_ptz_control_add_ext = stamp_send PTZ_COMMAND_ADDR_EXT ptz_msg_addr_external
     (\<lambda>tv. [])"
  "send_ptz_control_pack = stamp_send PTZ_COMMAND_CONTROL_PACKAGE ptz_msg_ctrl_pack
     (\<lambda>tv. [(''photoelectricity_no'', le_bytes 4 PTZ_PHOTOELECTRICITY_NO), (''sys_no'', le_bytes 4 PTZ_SYS_NO), (''sys_timesmap'', le_bytes 8 (timesmap_of tv))])"
  "send_ptz_control_track = stamp_send PTZ_COMMAND_SERACH_TRACK ptz_msg_track
     (\<lambda>tv. [(''photoelectricity_no'', le_bytes 4 PTZ_PHOTOELECTRICITY_NO), (''sys_timesmap'', le_bytes 8 (timesmap_of tv))])"
  "send_ptz_control_manual_lock_target = stamp_send PTZ_COMMAND_LOCK_TARGET_MANUAL ptz_msg_manual_lock_target
     (\<lambda>tv. [(''photoelectricity_no'', le_bytes 4 PTZ_PHOTOELECTRICITY_NO), (''sys_timesmap'', le_bytes 8 (timesmap_of tv))])"
  "send_ptz_control_scan_ext = stamp_send PTZ_COMMAND_SCAN_EXT ptz_msg_scan_ext
     (\<lambda>tv. [(''photoelectricity_no'', le_bytes 4 PTZ_PHOTOELECTRICITY_NO), (''sys_timesmap'', le_bytes 8 (timesmap_of tv))])"
  "send_ptz_peripheral_ctrl = stamp_send PTZ_COMMAND_PERIPHERAL_CTRL ptz_msg_peripheral_ctrl
     (\<lambda>tv. [(''photoelectricity_no'', le_bytes 4 PTZ_PHOTOELECTRICITY_NO), (''sys_timesmap'', le_bytes 8 (timesmap_of tv))])"
  "send_ptz_config_focal_mode = stamp_send PTZ_COMMAND_CONFIG_FOCAL_MODE ptz_msg_config_focal_mode
     (\<lambda>tv. [(''photoelectricity_no'', le_bytes 4 PTZ_PHOTOELECTRICITY_NO), (''sys_timesmap'', le_bytes 8 (timesmap_of tv))])"
  "send_ptz_config_track_param = stamp_send PTZ_COMMAND_CONFIG_TRACK_PARAM ptz_msg_config_track_param
     (\<lambda>tv. [(''photoelectricity_no'', le_bytes 4 PTZ_PHOTOELECTRICITY_NO), (''sys_timesmap'', le_bytes 8 (timesmap_of tv))])"
  by (auto intro!: ext simp: stamp_send_def send_ptz_control_addr_def send_ptz_control_direction_def send_ptz_control_add_ext_def send_ptz_control_pack_def send_ptz_control_track_def send_ptz_control_manual_lock_target_def send_ptz_control_scan_ext_def send_ptz_peripheral_ctrl_def send_ptz_config_focal_mode_def send_ptz_config_track_param_def
      split: option.split)

interpretation snd_addr: ptz_sender send_ptz_control_addr PTZ_COMMAND_ADDR ptz_msgid_0x03_addr
  "{''photoelectricity_no'', ''user_id'', ''sys_no'', ''sys_timesmap''}"
  unfolding senders_stamp by (rule stamp_send_sender) (simp_all add: packed_size_def ptz_msgid_0x03_addr_def)

interpretation snd_direction: ptz_sender send_ptz_control_direction PTZ_COMMAND_DIRECTION_CONTROL ptz_msg_direction_ctrl
  "{}"
  unfolding senders_stamp by (rule stamp_send_sender) (simp_all add: packed_size_def ptz_msg_direction_ctrl_def)

interpretation snd_add_ext: ptz_sender send_ptz_control_add_ext PTZ_COMMAND_ADDR_EXT ptz_msg_addr_external
  "{}"
  unfolding senders_stamp by (rule stamp_send_sender) (simp_all add: packed_size_def ptz_msg_addr_external_def)

interpretation snd_pack: ptz_sender send_ptz_control_pack PTZ_COMMAND_CONTROL_PACKAGE ptz_msg_ctrl_pack
  "{''photoelectricity_no'', ''sys_no'', ''sys_timesmap''}"
  unfolding senders_stamp by (rule stamp_send_sender) (simp_all add: packed_size_def ptz_msg_ctrl_pack_def)

interpretation snd_track: ptz_sender send_ptz_control_track PTZ_COMMAND_SERACH_TRACK ptz_msg_track
  "{''photoelectricity_no'', ''sys_timesmap''}"
  unfolding senders_stamp by (rule stamp_send_sender) (simp_all add: packed_size_def ptz_msg_track_def)

interpretation snd_lock: ptz_sender send_ptz_control_manual_lock_target PTZ_COMMAND_LOCK_TARGET_MANUAL ptz_msg_manual_lock_target
  "{''photoelectricity_no'', ''sys_timesmap''}"
  unfolding senders_stamp by (rule stamp_send_sender) (simp_all add: packed_size_def ptz_msg_manual_lock_target_def)

interpretation snd_scan_ext: ptz_sender send_ptz_control_scan_ext PTZ_COMMAND_SCAN_EXT ptz_msg_scan_ext
  "{''photoelectricity_no'', ''sys_timesmap''}"
  unfolding senders_stamp by (rule stamp_send_sender) (simp_all add: packed_size_def ptz_msg_scan_ext_def)

interpretation snd_peripheral: ptz_sender send_ptz_peripheral_ctrl PTZ_COMMAND_PERIPHERAL_CTRL ptz_msg_peripheral_ctrl
  "{''photoelectricity_no'', ''sys_timesmap''}"
  unfolding senders_stamp by (rule stamp_send_sender) (simp_all add: packed_size_def ptz_msg_peripheral_ctrl_def)

interpretation snd_focal_mode: ptz_sender send_ptz_config_focal_mode PTZ_COMMAND_CONFIG_FOCAL_MODE ptz_msg_config_focal_mode
  "{''photoelectricity_no'', ''sys_timesmap''}"
  unfolding senders_stamp by (rule stamp_send_sender) (simp_all add: packed_size_def ptz_msg_config_focal_mode_def)

interpretation snd_track_param: ptz_sender send_ptz_config_track_param PTZ_COMMAND_CONFIG_TRACK_PARAM ptz_msg_config_track_param
  "{''photoelectricity_no'', ''sys_timesmap''}"
  unfolding senders_stamp by (rule stamp_send_sender) (simp_all add: packed_size_def ptz_msg_config_track_param_def)

subsection \<open>Properties\<close>

text \<open>
  C27. Each of the ten command functions delivers its struct under its own command number, changing only
  the device number, the system number, the user and the time stamp, and the last two of them only where
  the source does.
\<close>
theorem ptz_commands_delivered:
  "delivers send_ptz_control_addr 0x03 ptz_msgid_0x03_addr
     {''photoelectricity_no'', ''user_id'', ''sys_no'', ''sys_timesmap''} \<and>
   delivers send_ptz_control_track 0x04 ptz_msg_track {''photoelectricity_no'', ''sys_timesmap''} \<and>
   delivers send_ptz_control_pack 0x09 ptz_msg_ctrl_pack {''photoelectricity_no'', ''sys_no'', ''sys_timesmap''} \<and>
   delivers send_ptz_control_scan_ext 0x0A ptz_msg_scan_ext {''photoelectricity_no'', ''sys_timesmap''} \<and>
   delivers send_ptz_control_direction 0x0D ptz_msg_direction_ctrl {} \<and>
   delivers send_ptz_control_manual_lock_target 0x10 ptz_msg_manual_lock_target {''photoelectricity_no'', ''sys_timesmap''} \<and>
   delivers send_ptz_peripheral_ctrl 0x11 ptz_msg_peripheral_ctrl {''photoelectricity_no'', ''sys_timesmap''} \<and>
   delivers send_ptz_config_focal_mode 0x13 ptz_msg_config_focal_mode {''photoelectricity_no'', ''sys_timesmap''} \<and>
   delivers send_ptz_config_track_param 0x14 ptz_msg_config_track_param {''photoelectricity_no'', ''sys_timesmap''} \<and>
   delivers send_ptz_control_add_ext 0x16 ptz_msg_addr_external {}"
  using snd_addr.delivered snd_track.delivered snd_pack.delivered snd_scan_ext.delivered snd_direction.delivered
    snd_lock.delivered snd_peripheral.delivered snd_focal_mode.delivered snd_track_param.delivered snd_add_ext.delivered
  unfolding ptz_command_defs by (intro conjI)

text \<open>
  \<^verbatim>\<open>send_ptz_ai_ctrl\<close> loses the length of its parameters: the sizes are those of another struct, so the
  parameters are copied over the member \<^verbatim>\<open>param_len\<close> and the message is four bytes short.
\<close>
theorem send_ptz_ai_ctrl_drops_length:
  assumes "ptz_connected s" "length m = packed_size ptz_msg_ai_ctrl" "0 < length param" "length param \<le> 1996"
    "get_field ptz_msg_ai_ctrl ''param_len'' m = Some (le_bytes 4 (of_nat (length param) :: u32))"
  shows "\<exists>m'. send_ptz_ai_ctrl True tv tv' ret (Some (m, Some param)) s =
      Some (Some m', ptz_broadcast (ptz_frame PTZ_COMMAND_AI_CTRL (timesmap_of tv') (take 16 m' @ param)) s, 0) \<and>
    get_field ptz_msg_ai_ctrl ''param_len'' m' = get_field ptz_msg_ai_ctrl ''param_len'' m"
proof -
  let ?n = "of_nat (length param) :: u32"
  have n: "unat ?n = length param" using assms(4) by (intro unat_of_nat_small) simp
  have tot: "map_of ptz_msg_ai_ctrl ''photoelectricity_no'' = Some 4" "map_of ptz_msg_ai_ctrl ''sys_timesmap'' = Some 8"
    by (simp_all add: ptz_msg_ai_ctrl_def)
  obtain m1 where m1: "set_field ptz_msg_ai_ctrl ''photoelectricity_no'' (le_bytes 4 PTZ_PHOTOELECTRICITY_NO) m = Some m1"
    "length m1 = 28"
    using set_field_total [of ptz_msg_ai_ctrl m "''photoelectricity_no''" "le_bytes 4 PTZ_PHOTOELECTRICITY_NO"] assms(2) tot by auto
  obtain m2 where m2: "set_field ptz_msg_ai_ctrl ''sys_timesmap'' (le_bytes 8 (timesmap_of tv)) m1 = Some m2" "length m2 = 28"
    using set_field_total [of ptz_msg_ai_ctrl m1 "''sys_timesmap''" "le_bytes 8 (timesmap_of tv)"] m1(2) tot by auto
  define s0 where "s0 = s\<lparr>pl_cnt := pl_cnt s + 1\<rparr>"
  define msg where "msg = take 16 m2 @ param"
  have lm: "length msg = 16 + length param" using m2(2) by (simp add: msg_def)
  have d1: "storen (replicate (28 + length param) 0) 0 (take 24 m2) = Some (take 24 m2 @ replicate (4 + length param) 0)"
    using m2(2) by (simp add: storen_def)
  have "storen (take 24 m2 @ replicate (4 + length param) 0) 16 param =
      Some (take 16 m2 @ param @ drop (16 + length param) (take 24 m2 @ replicate (4 + length param) 0))"
    using m2(2) by (simp add: storen_def min_def)
  then have d2: "storen (take 24 m2 @ replicate (4 + length param) 0) 16 param =
      Some (msg @ drop (16 + length param) (take 24 m2 @ replicate (4 + length param) 0))" by (simp add: msg_def)
  have c: "ptz_connected s0" using assms(1) by (simp add: ptz_connected_def s0_def)
  have snt: "send_ptz_package tv' ret \<lparr>pm_command = PTZ_COMMAND_AI_CTRL, msglen = 16 + int (length param),
        pm_msg = Some (msg @ rest)\<rparr> s0 =
      Some (ptz_broadcast (ptz_frame PTZ_COMMAND_AI_CTRL (timesmap_of tv') msg) s0, 0)" for rest
    using send_ptz_package_frame [OF c, of msg tv' ret PTZ_COMMAND_AI_CTRL rest] assms(4) lm by simp
  have fin: "(ptz_broadcast F s0)\<lparr>pl_cnt := pl_cnt (ptz_broadcast F s0) - 1\<rparr> = ptz_broadcast F s" for F
    by (simp add: ptz_broadcast_def s0_def)
  have "send_ptz_ai_ctrl True tv tv' ret (Some (m, Some param)) s =
      Some (Some m2, ptz_broadcast (ptz_frame PTZ_COMMAND_AI_CTRL (timesmap_of tv') msg) s, 0)"
    using assms(5) m1(1) m2 n d1 d2 snt fin
    by (simp add: send_ptz_ai_ctrl_def of_le_le_bytes skyfend_malloc_def skyfend_safefree_def s0_def [symmetric] loadn_def)
  moreover have "get_field ptz_msg_ai_ctrl ''param_len'' m2 = get_field ptz_msg_ai_ctrl ''param_len'' m"
    using get_set_other [OF m1(1)] get_set_other [OF m2(1)] by simp
  ultimately show ?thesis unfolding msg_def by blast
qed

theorem send_ptz_ai_ctrl_drops_length_witness:
  "\<exists>m'. send_ptz_ai_ctrl True \<lparr>tv_sec = 1, tv_usec = 0\<rparr> \<lparr>tv_sec = 1, tv_usec = 0\<rparr> 0
      (Some (replicate 16 0 @ le_bytes 4 (2 :: u32) @ replicate 8 0, Some [7, 8])) ex_ptz_link =
    Some (Some m', ptz_broadcast (ptz_frame PTZ_COMMAND_AI_CTRL (timesmap_of \<lparr>tv_sec = 1, tv_usec = 0\<rparr>)
      (take 16 m' @ [7, 8])) ex_ptz_link, 0) \<and>
    get_field ptz_msg_ai_ctrl ''param_len'' m' =
      get_field ptz_msg_ai_ctrl ''param_len'' (replicate 16 0 @ le_bytes 4 (2 :: u32) @ replicate 8 0)"
proof (rule send_ptz_ai_ctrl_drops_length)
  show "ptz_connected ex_ptz_link" by (simp add: ptz_connected_def ex_ptz_link_def)
  show "get_field ptz_msg_ai_ctrl ''param_len'' (replicate 16 0 @ le_bytes 4 (2 :: u32) @ replicate 8 0) =
      Some (le_bytes 4 (of_nat (length [7, 8 :: u8]) :: u32))"
    by (simp add: get_field_def ptz_msg_ai_ctrl_def loadn_def)
qed simp_all

end
