(* ===== verification/Ptz_Handlers.thy ===== *)
theory Ptz_Handlers
  imports Ptz_Control
begin

text \<open>
  What the AGX does with the messages of the pan-tilt head: the handlers of \<^verbatim>\<open>srv/algs/ai_alg/ai_main.cpp\<close>
  and \<^verbatim>\<open>app/ptz/ptz_app.cpp\<close>, the table of handlers, and their registration. A handler copies the structs of a
  message into global variables that the tracking code reads; the members it prints are read, too, so
  printing beyond the message is an access outside the block.
\<close>

subsection \<open>Structs\<close>

definition ptz_msg_status :: layout where
  "ptz_msg_status = [(''photoelectricity_no'', 4), (''photoelectricity_status_timesmap'', 8),
     (''work_status'', 4), (''work_mode'', 4), (''bitcode'', 8), (''reserver'', 4)]"

definition ptz_msg_target_info :: layout where
  "ptz_msg_target_info = [(''target_no'', 4), (''target_type'', 4), (''similarty'', 4), (''width'', 4),
     (''height'', 4), (''phy_width'', 4), (''phy_height'', 4), (''motion_drirection'', 1), (''ai_mode'', 1),
     (''reserver'', 2), (''horizatal_speed'', 2), (''vertical_speed'', 2), (''target_position_x'', 2),
     (''target_position_y'', 2), (''target_azimuth'', 8), (''target_pitching'', 8), (''target_distance'', 4)]"

definition ptz_msg_target_pac :: layout where
  "ptz_msg_target_pac = [(''last_time'', 4), (''target_num'', 4), (''data_len'', 4), (''targets'', 8)]"

definition ptz_msg_pitch_azimuth :: layout where
  "ptz_msg_pitch_azimuth = [(''photoelectricity_no'', 4), (''photoelectricity_status_timesmap'', 8),
     (''horizatal_angle'', 8), (''pitching_angle'', 8), (''distance'', 8), (''horizatal_angle_speed'', 8),
     (''pitch_angle_speed'', 8), (''target_height'', 2), (''lens_magnification'', 1), (''reserver'', 1)]"

definition ptz_msg_dev_target_info :: layout where
  "ptz_msg_dev_target_info = [(''targt_no'', 4), (''target_type'', 4), (''similarity'', 4),
     (''target_width'', 4), (''target_height'', 4), (''target_azimuth'', 8), (''target_pitching_angle'', 8)]"

definition ptz_msg_dev_status_search :: layout where
  "ptz_msg_dev_status_search = [(''time'', 4), (''target_num'', 4), (''data_len'', 4)]"

definition ptz_msg_dev_status_track :: layout where
  "ptz_msg_dev_status_track = [(''time'', 4), (''user_id'', 2), (''target_status'', 2),
     (''target'', packed_size ptz_msg_dev_target_info)]"

definition ptz_msg_dev_ext_info :: layout where
  "ptz_msg_dev_ext_info = [(''photoelectricity_no'', 4), (''sys_timesmap'', 8), (''work_status'', 4),
     (''data_len'', 4)]"

definition ptz_msg_lense_ext_info :: layout where
  "ptz_msg_lense_ext_info = [(''photoelectricity_no'', 4), (''cur_status_timesmap'', 8),
     (''visable_horizatal_angle'', 4), (''visable_vertical_angle'', 4), (''thermal_horization_angle'', 4),
     (''thermal_vertical_angle'', 4), (''visable_zoom'', 4), (''thermal_zoom'', 4), (''visable_focal'', 4),
     (''thermal_focal'', 4)]"

definition ptz_msg_sys_ext_info :: layout where
  "ptz_msg_sys_ext_info = [(''photoelectricity_no'', 4), (''cur_status_timesmap'', 8),
     (''laser_rangefinder_status'', 4), (''laser_measuring_status'', 4), (''laser_fill_state'', 4),
     (''heater_condition'', 4), (''thermal_imaging_status'', 4), (''visible_focusing_mode'', 4),
     (''thermal_focusing_mode'', 4), (''power_status_ext_device'', 1), (''reserver'', 31)]"

lemmas ptz_in_defs = ptz_msg_status_def ptz_msg_target_info_def ptz_msg_target_pac_def ptz_msg_pitch_azimuth_def ptz_msg_dev_target_info_def
  ptz_msg_dev_status_search_def ptz_msg_dev_status_track_def ptz_msg_dev_ext_info_def ptz_msg_lense_ext_info_def ptz_msg_sys_ext_info_def

lemma ptz_in_sizes [simp]:
  "packed_size ptz_msg_status = 32"
  "packed_size ptz_msg_target_info = 60"
  "packed_size ptz_msg_target_pac = 20"
  "packed_size ptz_msg_pitch_azimuth = 56"
  "packed_size ptz_msg_dev_target_info = 36"
  "packed_size ptz_msg_dev_status_search = 12"
  "packed_size ptz_msg_dev_status_track = 44"
  "packed_size ptz_msg_dev_ext_info = 20"
  "packed_size ptz_msg_lense_ext_info = 44"
  "packed_size ptz_msg_sys_ext_info = 72"
  by (simp_all add: packed_size_def ptz_in_defs)

subsection \<open>Handlers\<close>

record ptz_realtime =
  realtime_pa_t :: bytes
  realtime_status :: bytes
  realtime_dev_ext :: bytes
  realtime_sserach :: bytes
  realtime_target :: bytes
  realtime_strack :: bytes
  realtime_targets :: bytes

text \<open>A null message is an access outside every block.\<close>

type_synonym ptz_fun = "ptz_protocol_msg \<Rightarrow> ptz_realtime \<Rightarrow> (ptz_realtime \<times> i32) option"

definition ptz_pitch_azimuth :: ptz_fun where
  "ptz_pitch_azimuth msg rt = do {
     m \<leftarrow> pm_msg msg;
     b \<leftarrow> loadn m 0 (packed_size ptz_msg_pitch_azimuth);
     Some (rt\<lparr>realtime_pa_t := b\<rparr>, 0) }"

text \<open>\<^verbatim>\<open>sizeof(ptz_msg_status_t) >= msg->msglen\<close> compares unsigned: a negative length is large.\<close>

definition ptz_dev_status :: ptz_fun where
  "ptz_dev_status msg rt = do {
     _ \<leftarrow> (if 0 < msglen msg then Option.bind (pm_msg msg) (\<lambda>m. loadn m 0 (nat (msglen msg))) else Some []);
     if unat (of_int (msglen msg) :: u64) \<le> packed_size ptz_msg_status then do {
       m \<leftarrow> pm_msg msg;
       b \<leftarrow> loadn m 0 (packed_size ptz_msg_status);
       Some (rt\<lparr>realtime_status := b\<rparr>, 0) }
     else Some (rt, 0) }"

text \<open>Printing the members of \<open>k\<close> consecutive structs of \<open>n\<close> bytes from offset \<open>i\<close>.\<close>

fun read_items :: "bytes \<Rightarrow> nat \<Rightarrow> nat \<Rightarrow> nat \<Rightarrow> unit option" where
  "read_items m i n 0 = Some ()"
| "read_items m i n (Suc k) = Option.bind (loadn m i n) (\<lambda>_. read_items m (i + n) n k)"

definition ptz_dev_ext_info_0x08 :: ptz_fun where
  "ptz_dev_ext_info_0x08 msg rt = do {
     m \<leftarrow> pm_msg msg;
     dev_ext \<leftarrow> loadn m 0 (packed_size ptz_msg_dev_ext_info);
     let rt1 = rt\<lparr>realtime_dev_ext := dev_ext\<rparr>;
     let ofs = packed_size ptz_msg_dev_ext_info;
     work_status \<leftarrow> load32 m 12;
     data_len \<leftarrow> load32 m 16;
     if work_status = 0 then do {
       _ \<leftarrow> (if 4 \<le> unat data_len then loadn m ofs 4 else Some []);
       Some (rt1, 0) }
     else if work_status = 1 then do {
       sserach \<leftarrow> loadn m ofs (packed_size ptz_msg_dev_status_search);
       let rt2 = rt1\<lparr>realtime_sserach := sserach\<rparr>;
       n \<leftarrow> load32 m (ofs + 8);
       let size = packed_size ptz_msg_dev_target_info;
       if size \<le> unat n then do {
         let tgt = ofs + packed_size ptz_msg_dev_status_search;
         _ \<leftarrow> read_items m tgt size (unat n div size);
         b \<leftarrow> loadn m tgt size;
         Some (rt2\<lparr>realtime_target := b\<rparr>, 0) }
       else Some (rt2, 0) }
     else if work_status = 2 then do {
       strack \<leftarrow> loadn m ofs (packed_size ptz_msg_dev_status_track);
       Some (rt1\<lparr>realtime_strack := strack\<rparr>, 0) }
     else Some (rt1, 0) }"

definition ptz_target_info :: ptz_fun where
  "ptz_target_info msg rt = do {
     m \<leftarrow> pm_msg msg;
     b \<leftarrow> loadn m 0 (packed_size ptz_msg_target_pac);
     target_num \<leftarrow> load32 m 4;
     _ \<leftarrow> read_items m 12 (packed_size ptz_msg_target_info) (unat target_num);
     Some (rt\<lparr>realtime_targets := b\<rparr>, 0) }"

definition ptz_lense_ext_info_0x0c :: ptz_fun where
  "ptz_lense_ext_info_0x0c msg rt =
     (case pm_msg msg of
        None \<Rightarrow> Some (rt, 0)
      | Some m \<Rightarrow> map_option (\<lambda>_. (rt, 0)) (loadn m 0 (packed_size ptz_msg_lense_ext_info)))"

text \<open>The reserved bytes at the end are not printed.\<close>

definition ptz_sys_ext_info_0x15 :: ptz_fun where
  "ptz_sys_ext_info_0x15 msg rt =
     (case pm_msg msg of
        None \<Rightarrow> Some (rt, 0)
      | Some m \<Rightarrow> map_option (\<lambda>_. (rt, 0)) (loadn m 0 (packed_size ptz_msg_sys_ext_info - 31)))"

subsection \<open>Registration\<close>

datatype ptz_fn =
    F_ptz_dev_status | F_ptz_target_info | F_ptz_pitch_azimuth
  | F_ptz_dev_ext_info_0x08 | F_ptz_lense_ext_info_0x0c | F_ptz_sys_ext_info_0x15

fun ptz_fun_of :: "ptz_fn \<Rightarrow> ptz_fun" where
  "ptz_fun_of F_ptz_dev_status = ptz_dev_status"
| "ptz_fun_of F_ptz_target_info = ptz_target_info"
| "ptz_fun_of F_ptz_pitch_azimuth = ptz_pitch_azimuth"
| "ptz_fun_of F_ptz_dev_ext_info_0x08 = ptz_dev_ext_info_0x08"
| "ptz_fun_of F_ptz_lense_ext_info_0x0c = ptz_lense_ext_info_0x0c"
| "ptz_fun_of F_ptz_sys_ext_info_0x15 = ptz_sys_ext_info_0x15"

definition call_ptz :: "(ptz_fn, ptz_realtime) run_ptz" where
  "call_ptz f msg s = map_option (\<lambda>(rt, _). s\<lparr>pl_world := rt\<rparr>) (ptz_fun_of f msg (pl_world s))"

definition PTZ_COMMAND_DEV_STATUS :: u32 where "PTZ_COMMAND_DEV_STATUS = 0x01"
definition PTZ_COMMAND_ATT_MSG :: u32 where "PTZ_COMMAND_ATT_MSG = 0x02"
definition PTZ_COMMAND_DEV_EXT_INFO :: u32 where "PTZ_COMMAND_DEV_EXT_INFO = 0x08"
definition PTZ_COMMAND_TARGET_INFO :: u32 where "PTZ_COMMAND_TARGET_INFO = 0x0B"
definition PTZ_COMMAND_LENSE_EXT_INFO :: u32 where "PTZ_COMMAND_LENSE_EXT_INFO = 0x0C"
definition PTZ_COMMAND_SYS_EXT_INFO :: u32 where "PTZ_COMMAND_SYS_EXT_INFO = 0x15"

text \<open>The six registrations go on after a failed one; \<^verbatim>\<open>ret |=\<close> of results 0 and -1 is -1 when one failed.\<close>

fun register_ptz_list ::
  "bool list \<Rightarrow> (u32 \<times> 'f) list \<Rightarrow> ('f, 'w) ptz_link \<Rightarrow> i32 \<Rightarrow> ('f, 'w) ptz_link \<times> i32" where
  "register_ptz_list (a # as) ((c, f) # fs) s ret =
     (case eth_ptz_command_register a c (Some f) s of
        (s', r) \<Rightarrow> register_ptz_list as fs s' (if r = 0 then ret else -1))"
| "register_ptz_list _ _ s ret = (s, ret)"

definition register_control_ptz_comands ::
  "bool list \<Rightarrow> (ptz_fn, 'w) ptz_link \<Rightarrow> (ptz_fn, 'w) ptz_link \<times> i32" where
  "register_control_ptz_comands avail s =
     register_ptz_list avail
       [(PTZ_COMMAND_DEV_STATUS, F_ptz_dev_status), (PTZ_COMMAND_TARGET_INFO, F_ptz_target_info),
        (PTZ_COMMAND_ATT_MSG, F_ptz_pitch_azimuth), (PTZ_COMMAND_DEV_EXT_INFO, F_ptz_dev_ext_info_0x08),
        (PTZ_COMMAND_LENSE_EXT_INFO, F_ptz_lense_ext_info_0x0c), (PTZ_COMMAND_SYS_EXT_INFO, F_ptz_sys_ext_info_0x15)]
       s 0"

text \<open>\<open>thread\<close> is the answer of \<^verbatim>\<open>pthread_create\<close> for the camera thread.\<close>

definition load_ptz ::
  "udp_os \<Rightarrow> bool list \<Rightarrow> i32 \<Rightarrow> (ptz_fn, 'w) ptz_link \<Rightarrow> (ptz_fn, 'w) ptz_link \<times> i32" where
  "load_ptz os avail thread s =
     (case eth_link_ptz_init os s of
        (s1, ret) \<Rightarrow>
          if 0 \<noteq> ret then (s1, ret)
          else
            case register_control_ptz_comands avail s1 of
              (s2, ret2) \<Rightarrow>
                if 0 \<noteq> ret2 then (s2, ret2) else (s2, if 0 \<noteq> thread then -1 else 0))"

subsection \<open>Lemmas\<close>

lemma read_items_iff: "0 < n \<Longrightarrow> read_items m i n k \<noteq> None \<longleftrightarrow> k = 0 \<or> i + n * k \<le> length m"
proof (induction k arbitrary: i)
  case (Suc k)
  show ?case
  proof (cases "i + n \<le> length m")
    case True
    then show ?thesis using Suc.IH [of "i + n"] Suc.prems by (cases k) (auto simp: loadn_def)
  next
    case False
    moreover have "i + n \<le> i + n * Suc k" by simp
    ultimately show ?thesis by (auto simp: loadn_def)
  qed
qed simp

lemma unat64_msglen: "0 \<le> i \<Longrightarrow> i < 2147483648 \<Longrightarrow> unat (of_int i :: u64) = nat i"
  using unat_of_nat_small [of "nat i", where 'a = 64] by simp

text \<open>The table after a successful start.\<close>

definition ptz_table :: "u32 \<Rightarrow> ptz_fn option" where
  "ptz_table = map_of
     [(PTZ_COMMAND_DEV_STATUS, F_ptz_dev_status), (PTZ_COMMAND_TARGET_INFO, F_ptz_target_info),
      (PTZ_COMMAND_ATT_MSG, F_ptz_pitch_azimuth), (PTZ_COMMAND_DEV_EXT_INFO, F_ptz_dev_ext_info_0x08),
      (PTZ_COMMAND_LENSE_EXT_INFO, F_ptz_lense_ext_info_0x0c), (PTZ_COMMAND_SYS_EXT_INFO, F_ptz_sys_ext_info_0x15)]"

lemmas ptz_in_commands = PTZ_COMMAND_DEV_STATUS_def PTZ_COMMAND_ATT_MSG_def PTZ_COMMAND_DEV_EXT_INFO_def
  PTZ_COMMAND_TARGET_INFO_def PTZ_COMMAND_LENSE_EXT_INFO_def PTZ_COMMAND_SYS_EXT_INFO_def

lemma register_ptz_list_table:
  assumes "length as = length fs" "\<forall>a \<in> set as. a" "register_ptz_list as fs s ret = (s', r)"
  shows "r = ret \<and> ptz_handler s' cmd = (case ptz_handler s cmd of Some g \<Rightarrow> Some g | None \<Rightarrow> map_of fs cmd)"
  using assms
proof (induction as fs s ret rule: register_ptz_list.induct)
  case (1 a as c f fs s ret)
  have a: a using "1.prems" by simp
  obtain s1 e where e: "eth_ptz_command_register a c (Some f) s = (s1, e)"
    by (cases "eth_ptz_command_register a c (Some f) s")
  have e': "eth_ptz_command_register True c (Some f) s = (s1, e)" using e a by simp
  note h = ptz_handler_register(1) [OF e'] ptz_handler_register(2) [OF e', of cmd]
  have "r = ret \<and> ptz_handler s' cmd = (case ptz_handler s1 cmd of Some g \<Rightarrow> Some g | None \<Rightarrow> map_of fs cmd)"
    using "1.IH" [OF e [symmetric]] "1.prems" e h(1) by auto
  then show ?case using h(2) by (auto split: option.splits)
qed (auto split: option.splits)

lemma load_ptz_table:
  assumes "load_ptz os (replicate 6 True) thread s = (s', 0)" "ptz_list_obj s = []"
  shows "ptz_handler s' cmd = ptz_table cmd"
proof -
  obtain s1 e where i: "eth_link_ptz_init os s = (s1, e)" by (cases "eth_link_ptz_init os s")
  have l: "ptz_list_obj s1 = []" using i assms(2) by (auto simp: eth_link_ptz_init_def split: prod.splits)
  obtain s2 r where g: "register_control_ptz_comands (replicate 6 True) s1 = (s2, r)"
    by (cases "register_control_ptz_comands (replicate 6 True) s1")
  have "s' = s2" using assms(1) i g by (auto simp: load_ptz_def split: if_splits)
  moreover have "ptz_handler s2 cmd = ptz_table cmd"
    using register_ptz_list_table [OF _ _ g [unfolded register_control_ptz_comands_def], of cmd] l
    by (auto simp: ptz_table_def ptz_handler_def split: option.splits)
  ultimately show ?thesis by simp
qed

subsection \<open>Properties\<close>

text \<open>
  C28. From the head to the tracker: once the link is up, a datagram with an attitude message leaves exactly
  that message in \<^verbatim>\<open>realtime_pa_t\<close> and changes nothing else.
\<close>
theorem ptz_attitude_arrives:
  assumes "load_ptz os (replicate 6 True) 0 s = (s', 0)" "ptz_list_obj s = []"
    "length msg = packed_size ptz_msg_pitch_azimuth" "F = ptz_frame PTZ_COMMAND_ATT_MSG ts msg"
  shows "eth_link_udp_cbk_data call_ptz True (int (length F), F, ip) s' =
    Some (set_send_ip 0xFFFFFFFF (s'\<lparr>pl_world := (pl_world s')\<lparr>realtime_pa_t := msg\<rparr>\<rparr>))"
proof -
  have h: "ptz_handler s' PTZ_COMMAND_ATT_MSG = Some F_ptz_pitch_azimuth"
    using load_ptz_table [OF assms(1,2)] by (simp add: ptz_table_def ptz_in_commands)
  have "msg \<noteq> []" using assms(3) by auto
  then show ?thesis
    using udp_dispatch_frame [OF assms(4) _ refl refl refl, of call_ptz ip s'] assms(3) unfolding h
    by (simp add: call_ptz_def ptz_pitch_azimuth_def loadn_def set_send_ip_def)
qed

definition ex_realtime :: ptz_realtime where
  "ex_realtime = \<lparr>realtime_pa_t = replicate 56 0, realtime_status = replicate 32 0, realtime_dev_ext = replicate 20 0,
     realtime_sserach = replicate 12 0, realtime_target = replicate 36 0, realtime_strack = replicate 44 0,
     realtime_targets = replicate 20 0\<rparr>"

definition ex_ptz_start :: "(ptz_fn, ptz_realtime) ptz_link" where
  "ex_ptz_start = \<lparr>sUdpCfg = ptz_cfg,
     sUdpSocket = \<lparr>us_bFlagInit = False, us_bFlagClose = False, us_iSocket = 0, us_pid = False, us_psCfg = None, us_psCbk = None\<rparr>,
     ptz_list_obj = [], pl_cnt = 0, pl_calls = [], pl_world = ex_realtime\<rparr>"

definition ex_os :: udp_os where
  "ex_os = \<lparr>ret_socket = 5, ret_bind = 0, ret_setsockopt = 0, ret_mutex_init = 0, ret_pthread_create = 0\<rparr>"

lemma ex_ptz_loads: "snd (load_ptz ex_os (replicate 6 True) 0 ex_ptz_start) = 0"
  by (simp add: load_ptz_def eth_link_ptz_init_def udp_socket_crate_def udp_socket_open_def ex_os_def ex_ptz_start_def
      ptz_cfg_def register_control_ptz_comands_def eth_ptz_command_register_def skyfend_malloc_def numeral_eq_Suc)

theorem ptz_attitude_arrives_witness:
  "let s' = fst (load_ptz ex_os (replicate 6 True) 0 ex_ptz_start); F = ptz_frame PTZ_COMMAND_ATT_MSG 5 (replicate 56 1)
   in eth_link_udp_cbk_data call_ptz True (int (length F), F, 7) s' =
    Some (set_send_ip 0xFFFFFFFF (s'\<lparr>pl_world := (pl_world s')\<lparr>realtime_pa_t := replicate 56 1\<rparr>\<rparr>))"
proof -
  have l: "load_ptz ex_os (replicate 6 True) 0 ex_ptz_start = (fst (load_ptz ex_os (replicate 6 True) 0 ex_ptz_start), 0)"
    by (rule prod_eqI) (simp_all only: fst_conv snd_conv ex_ptz_loads)
  show ?thesis
    unfolding Let_def by (rule ptz_attitude_arrives [OF l]) (simp_all add: ex_ptz_start_def)
qed

text \<open>
  The guard of the status handler is the wrong way round: only a message of exactly the size of the
  struct is handled; a shorter one is read beyond its end, a longer one is dropped.
\<close>
theorem ptz_dev_status_guard:
  assumes "pm_msg msg = Some m" "msglen msg = int (length m)" "0 < length m" "length m < 2147483648"
  shows "ptz_dev_status msg rt =
    (if length m < 32 then None else if length m = 32 then Some (rt\<lparr>realtime_status := m\<rparr>, 0) else Some (rt, 0))"
  using assms unat64_msglen [of "int (length m)"] by (auto simp: ptz_dev_status_def loadn_def)

theorem ptz_dev_status_guard_witness:
  "ptz_dev_status \<lparr>pm_command = 1, msglen = 4, pm_msg = Some [1, 2, 3, 4]\<rparr> ex_realtime = None"
  using ptz_dev_status_guard [of "\<lparr>pm_command = 1, msglen = 4, pm_msg = Some [1, 2, 3, 4]\<rparr>" "[1, 2, 3, 4]" ex_realtime]
  by simp

text \<open>
  The target handler believes the number of targets in the message: it stays inside the block exactly
  when that many targets fit behind the header, and never with fewer than twenty bytes.
\<close>
theorem ptz_target_info_bound:
  assumes "pm_msg msg = Some m" "8 \<le> length m"
    "n = unat (of_le (take 4 (drop 4 m)) :: u32)"
  shows "ptz_target_info msg rt =
    (if 20 \<le> length m \<and> (n = 0 \<or> 12 + 60 * n \<le> length m) then Some (rt\<lparr>realtime_targets := take 20 m\<rparr>, 0) else None)"
proof (cases "read_items m 12 60 n")
  case None
  then show ?thesis using assms read_items_iff [of 60 m 12 n] by (simp add: ptz_target_info_def mem_simps)
next
  case (Some u)
  then show ?thesis
    using assms read_items_iff [of 60 m 12 n] by (simp add: ptz_target_info_def loadn_def load32_in)
qed

theorem ptz_target_info_bound_witness:
  "ptz_target_info \<lparr>pm_command = 11, msglen = 20, pm_msg = Some ([0, 0, 0, 0, 1] @ replicate 15 0)\<rparr> ex_realtime = None"
  using ptz_target_info_bound [of "\<lparr>pm_command = 11, msglen = 20, pm_msg = Some ([0, 0, 0, 0, 1] @ replicate 15 0)\<rparr>"
      "[0, 0, 0, 0, 1] @ replicate 15 0" 1 ex_realtime]
  by (simp add: numeral_eq_Suc)

end
