(* ===== verification/Machine_Float.thy ===== *)
theory Machine_Float
  imports Ptz_Prelude Complex_Main
begin

text \<open>
  Floating-point arithmetic. The tracking code computes with \<^verbatim>\<open>double\<close> and \<^verbatim>\<open>float\<close>; its definitions take the
  operations they use as one argument, a record \<open>'f fp\<close> over any representation \<open>'f\<close> of the numbers, so that
  what is proved about them holds for IEEE 754 as for any other arithmetic. Where a property is about
  the geometry and not about rounding, it is stated for \<open>real_fp\<close>, the arithmetic of the real numbers.
\<close>

text \<open>
  \<open>f_lit m d\<close> is the literal \<open>m / 10 ^ d\<close>; \<open>f_single\<close> rounds a \<^verbatim>\<open>double\<close> to a \<^verbatim>\<open>float\<close>, whose values are \<^verbatim>\<open>double\<close>s;
  \<open>f_u32\<close> and \<open>f_i32\<close> are the conversions to \<^verbatim>\<open>uint32_t\<close> and \<^verbatim>\<open>int\<close>; \<open>f_bytes\<close> are the eight bytes of a \<^verbatim>\<open>double\<close> in
  memory and \<open>f_of_bytes\<close> the \<^verbatim>\<open>double\<close> they stand for.
\<close>

record 'f fp =
  f_int :: "int \<Rightarrow> 'f"
  f_lit :: "int \<Rightarrow> nat \<Rightarrow> 'f"
  f_add :: "'f \<Rightarrow> 'f \<Rightarrow> 'f"
  f_sub :: "'f \<Rightarrow> 'f \<Rightarrow> 'f"
  f_mul :: "'f \<Rightarrow> 'f \<Rightarrow> 'f"
  f_div :: "'f \<Rightarrow> 'f \<Rightarrow> 'f"
  f_less :: "'f \<Rightarrow> 'f \<Rightarrow> bool"
  f_le :: "'f \<Rightarrow> 'f \<Rightarrow> bool"
  f_abs :: "'f \<Rightarrow> 'f"
  f_sqrt :: "'f \<Rightarrow> 'f"
  f_sin :: "'f \<Rightarrow> 'f"
  f_cos :: "'f \<Rightarrow> 'f"
  f_atan2 :: "'f \<Rightarrow> 'f \<Rightarrow> 'f"
  f_single :: "'f \<Rightarrow> 'f"
  f_u32 :: "'f \<Rightarrow> u32"
  f_i32 :: "'f \<Rightarrow> i32"
  f_bytes :: "'f \<Rightarrow> bytes"
  f_of_bytes :: "bytes \<Rightarrow> 'f"

definition f_sq :: "('f, 'z) fp_scheme \<Rightarrow> 'f \<Rightarrow> 'f" where
  "f_sq F x = f_mul F x x"

text \<open>\<^verbatim>\<open>pow(x, 2)\<close> is \<open>f_sq\<close>: the square is exact before rounding in both. \<^verbatim>\<open>CV_PI\<close> and \<^verbatim>\<open>M_PI\<close> are the same literal up to \<^verbatim>\<open>double\<close> precision.\<close>

definition f_pi :: "('f, 'z) fp_scheme \<Rightarrow> 'f" where
  "f_pi F = f_lit F 31415926535897932384626433832795 31"

text \<open>The law of memory: a stored \<^verbatim>\<open>double\<close> has eight bytes and is read back.\<close>

definition fp_stores :: "('f, 'z) fp_scheme \<Rightarrow> bool" where
  "fp_stores F \<longleftrightarrow> (\<forall>x. length (f_bytes F x) = 8 \<and> f_of_bytes F (f_bytes F x) = x)"

subsection \<open>Integers as numbers\<close>

text \<open>
  A concrete arithmetic that computes: the numbers are 64-bit integers in two's complement, counted in millionths. It is an instance
  to evaluate definitions on, not a model of \<^verbatim>\<open>double\<close>.
\<close>

definition fixed_fp :: "64 word fp" where
  "fixed_fp = \<lparr>f_int = (\<lambda>i. of_int (i * 1000000)), f_lit = (\<lambda>m d. of_int (m * 1000000 div 10 ^ d)),
     f_add = (+), f_sub = (-), f_mul = (\<lambda>x y. of_int (sint x * sint y div 1000000)),
     f_div = (\<lambda>x y. of_int (sint x * 1000000 div sint y)), f_less = (\<lambda>x y. sint x < sint y), f_le = (\<lambda>x y. sint x \<le> sint y),
     f_abs = (\<lambda>x. of_int \<bar>sint x\<bar>), f_sqrt = id, f_sin = id, f_cos = id, f_atan2 = (\<lambda>x y. x),
     f_single = id, f_u32 = (\<lambda>x. of_int (sint x div 1000000)), f_i32 = (\<lambda>x. sint x div 1000000),
     f_bytes = le_bytes 8, f_of_bytes = of_le\<rparr>"

lemma fixed_fp_stores: "fp_stores fixed_fp"
  by (simp add: fp_stores_def fixed_fp_def of_le_le_bytes del: le_bytes.simps)

subsection \<open>The real numbers\<close>

text \<open>
  \<open>\<pi>\<close> is the literal's value, \<open>atan2\<close> the argument of a complex number, and the conversions to integers truncate.
  The bytes of a real number are not used.
\<close>

definition real_fp :: "real fp" where
  "real_fp = \<lparr>f_int = real_of_int, f_lit = (\<lambda>m d. real_of_int m / 10 ^ d), f_add = (+), f_sub = (-), f_mul = (*),
     f_div = (/), f_less = (<), f_le = (\<le>), f_abs = abs, f_sqrt = sqrt, f_sin = sin, f_cos = cos,
     f_atan2 = (\<lambda>y x. Arg (Complex x y)), f_single = id, f_u32 = (\<lambda>x. of_int \<lfloor>x\<rfloor>),
     f_i32 = (\<lambda>x. if 0 \<le> x then \<lfloor>x\<rfloor> else \<lceil>x\<rceil>), f_bytes = (\<lambda>_. replicate 8 0), f_of_bytes = (\<lambda>_. 0)\<rparr>"

lemma real_fp_simps [simp]:
  "f_int real_fp i = real_of_int i" "f_lit real_fp m d = real_of_int m / 10 ^ d" "f_add real_fp x y = x + y"
  "f_sub real_fp x y = x - y" "f_mul real_fp x y = x * y" "f_div real_fp x y = x / y" "f_less real_fp x y \<longleftrightarrow> x < y"
  "f_le real_fp x y \<longleftrightarrow> x \<le> y" "f_abs real_fp x = \<bar>x\<bar>" "f_sqrt real_fp x = sqrt x" "f_sin real_fp x = sin x"
  "f_cos real_fp x = cos x" "f_atan2 real_fp y x = Arg (Complex x y)" "f_sq real_fp x = x\<^sup>2"
  by (simp_all add: real_fp_def f_sq_def power2_eq_square)

end
