(* ===== verification/Alink_Commands.thy ===== *)
theory Alink_Commands
  imports Alink_Upload Sysport_Task C_Struct
begin

text \<open>
  The commands and packages of the program: \<^verbatim>\<open>command/system/alink_system.c\<close>, \<^verbatim>\<open>command/target/alink_target.c\<close>
  and \<^verbatim>\<open>command/track/alink_track.c\<close> under \<^verbatim>\<open>srv/alink\<close>, with \<^verbatim>\<open>srv/algs/alg_interface.c\<close>, which posts
  messages to the algorithm's task, and \<^verbatim>\<open>alink_init\<close>.

  The structs of the headers are layouts: field names with their sizes in bytes, in order; all but the
  three outermost are packed. Every \<^verbatim>\<open>memcpy\<close> is a store into the bytes of the object it writes to, so a
  copy that leaves the object is \<open>None\<close>.
\<close>

subsection \<open>Struct layouts\<close>

definition ALINK_TARGET_MAX :: nat where "ALINK_TARGET_MAX = 128"

definition alink_sys_set_status :: layout where
  "alink_sys_set_status = [(''type'', 1), (''param1'', 1), (''param2'', 1)]"

definition alink_sys_get_info_ack :: layout where
  "alink_sys_get_info_ack = [(''type'', 1), (''value'', 16)]"

definition alink_sys_set_sn :: layout where
  "alink_sys_set_sn = [(''sn'', 15)]"

definition alink_targets_item :: layout where
  "alink_targets_item = [(''id'', 2), (''classification'', 1), (''rectX'', 2), (''rectY'', 2), (''rectW'', 2),
     (''rectH'', 2), (''rectXV'', 2), (''rectYV'', 2), (''classfyProb'', 1), (''reserve'', 8)]"

definition alink_taget_info :: layout where
  "alink_taget_info = [(''timestamp'', 4), (''objNum'', 1),
     (''targets'', ALINK_TARGET_MAX * packed_size alink_targets_item)]"

definition user_track_target :: layout where
  "user_track_target = [(''type'', 1), (''objid'', 1), (''x'', 4), (''y'', 4), (''z'', 4), (''sn'', 25),
     (''latitude'', 4), (''longitde'', 4)]"

definition user_track_target_packages :: layout where
  "user_track_target_packages = [(''track_pack_type'', 4), (''utt'', packed_size user_track_target)]"

definition alink_track_tracked_item :: layout where
  "alink_track_tracked_item =
     [(''id'', 1), (''classification'', 1), (''classfyProb'', 1), (''existingProb'', 1), (''ambiguous'', 1),
      (''twsTasFlag'', 1), (''stateType'', 1), (''motionType'', 1), (''azimuth'', 2), (''range'', 4),
      (''elevation'', 2), (''velocity'', 2), (''dopplerChn'', 2), (''mag'', 2), (''absVel'', 2),
      (''orientationAngle'', 2), (''alive'', 2), (''x'', 4), (''y'', 4), (''z'', 4), (''vx'', 2), (''vy'', 2),
      (''vz'', 2), (''ax'', 2), (''ay'', 2), (''az'', 2), (''x_variance'', 2), (''y_variance'', 2),
      (''z_variance'', 2), (''vx_variance'', 2), (''vy_variance'', 2), (''vz_variance'', 2),
      (''ax_variance'', 2), (''ay_variance'', 2), (''az_variance'', 2), (''forcastFrameNum'', 2),
      (''associationNum'', 2), (''assocBit0'', 4), (''assocBit1'', 4), (''threatLevel'', 2), (''reserve'', 6)]"

definition alink_track_tracked :: layout where
  "alink_track_tracked = [(''reserved'', 1), (''trackObjNum'', 1), (''trackTwsNum'', 1), (''trackTasNum'', 1),
     (''trackObjByte'', 1), (''trackPoint'', ALINK_TARGET_MAX * packed_size alink_track_tracked_item)]"

definition alink_track_attitude :: layout where
  "alink_track_attitude = [(''reserved'', 1), (''heading'', 4), (''pitching'', 4), (''rolling'', 4),
     (''longitude'', 4), (''latitude'', 4), (''altitude'', 4), (''velocityNavi'', 4), (''targetTimeMark'', 12),
     (''sigProcRelativeTime'', 4)]"

definition alink_drone_id_items :: layout where
  "alink_drone_id_items = [(''productType'', 1), (''droneName'', 25), (''serialNum'', 32),
     (''droneLongitude'', 4), (''droneLatitude'', 4), (''droneHeight'', 2), (''droneDirection'', 2),
     (''droneSpeed'', 2), (''Speedderection'', 1), (''droneVerticalSpeed'', 2), (''droneSailLongitude'', 4),
     (''droneSailLatitude'', 4), (''uFreq'', 4), (''uDistance'', 2), (''uDangerLevels'', 2)]"

definition alink_drone_id_track :: layout where
  "alink_drone_id_track = [(''sn_name'', 25), (''uDroneNum'', 1),
     (''items'', ALINK_TARGET_MAX * packed_size alink_drone_id_items)]"

definition alink_remote_id_items :: layout where
  "alink_remote_id_items = [(''productType'', 1), (''droneName'', 25), (''serialNum'', 32),
     (''droneLongitude'', 4), (''droneLatitude'', 4), (''droneHeight'', 2), (''droneDirection'', 2),
     (''droneSpeed'', 2), (''Speedderection'', 1), (''droneVerticalSpeed'', 2), (''droneSailLongitude'', 4),
     (''droneSailLatitude'', 4), (''uFreq'', 4), (''uDistance'', 2), (''uDangerLevels'', 2)]"

definition alink_remote_id_track :: layout where
  "alink_remote_id_track = [(''sn_name'', 25), (''uDroneNum'', 1),
     (''items'', ALINK_TARGET_MAX * packed_size alink_remote_id_items)]"

definition radar_track_info_packages :: layout where
  "radar_track_info_packages = [(''track_pack_type'', 4), (''track_tracked'', packed_size alink_track_tracked),
     (''track_attitude'', packed_size alink_track_attitude)]"

definition remoteid_track_info_packages :: layout where
  "remoteid_track_info_packages = [(''track_pack_type'', 4), (''remote_id'', packed_size alink_remote_id_track)]"

definition droneid_track_info_packages :: layout where
  "droneid_track_info_packages = [(''track_pack_type'', 4), (''drone_id'', packed_size alink_drone_id_track)]"

lemmas layout_defs = packed_size_def padded_size_def ALINK_TARGET_MAX_def alink_targets_item_def
  alink_taget_info_def user_track_target_def user_track_target_packages_def alink_track_tracked_item_def
  alink_track_tracked_def alink_track_attitude_def alink_drone_id_items_def alink_drone_id_track_def
  alink_remote_id_items_def alink_remote_id_track_def radar_track_info_packages_def
  remoteid_track_info_packages_def droneid_track_info_packages_def

lemma layout_sizes [simp]:
  "packed_size alink_targets_item = 24" "packed_size alink_taget_info = 3077"
  "packed_size user_track_target = 47" "padded_size user_track_target_packages = 52"
  "packed_size alink_track_tracked = 11525" "packed_size alink_track_attitude = 45"
  "packed_size radar_track_info_packages = 11574"
  "padded_size droneid_track_info_packages = 11680" "padded_size remoteid_track_info_packages = 11680"
  by (simp_all add: layout_defs)

subsection \<open>Messages to the algorithm (\<^verbatim>\<open>alg_interface.c\<close>)\<close>

datatype track_info_package_type =
  TRACK_INFO_RADAR | TRACK_INFO_TRACER_P_REMOTE_ID | TRACK_INFO_TRACER_P_DRONE_ID | TRACK_INFO_FROM_USER

fun track_type_word :: "track_info_package_type \<Rightarrow> u32" where
  "track_type_word TRACK_INFO_RADAR = 0"
| "track_type_word TRACK_INFO_TRACER_P_REMOTE_ID = 1"
| "track_type_word TRACK_INFO_TRACER_P_DRONE_ID = 2"
| "track_type_word TRACK_INFO_FROM_USER = 3"

datatype alg_fn = Alg_thread_handler

text \<open>
  What the handlers change: the upload object, the static \<^verbatim>\<open>pack\<close> of \<^verbatim>\<open>alink_track.c\<close>, the algorithm's task
  and the allocation counter; and what the environment answers to \<^verbatim>\<open>malloc\<close> and \<^verbatim>\<open>mq_send\<close>.
\<close>

record alink_env =
  en_upload :: alink_upload
  en_pack :: bytes
  en_pvalgtask :: "alg_fn sysport_task_module option"
  en_cnt :: int
  en_avail :: bool
  en_mq_ret :: i32

definition msg_send_to_alg :: "alink_env \<Rightarrow> bytes \<Rightarrow> nat \<Rightarrow> (alink_env \<times> i32) option" where
  "msg_send_to_alg e pack n =
     (case sysport_task_malloc (en_avail e) (en_pvalgtask e) (of_nat n) (en_cnt e) of
        (None, cnt) \<Rightarrow> Some (e\<lparr>en_cnt := cnt\<rparr>, -1)
      | (Some pvInfo, cnt) \<Rightarrow> do {
          bs \<leftarrow> loadn pack 0 n;
          let (m, cnt', r) = sysport_task_func (en_mq_ret e) (en_pvalgtask e) (Some Alg_thread_handler)
                (Some (pvInfo\<lparr>acInfo := bs\<rparr>)) cnt;
          Some (e\<lparr>en_pvalgtask := m, en_cnt := cnt'\<rparr>, 0) })"

subsection \<open>System commands (\<^verbatim>\<open>alink_system.c\<close>)\<close>

text \<open>Writing \<open>bs\<close> at offset \<open>i\<close> of \<^verbatim>\<open>psResp->pbyBuffer\<close> and setting the response length.\<close>

definition resp_store :: "nat \<Rightarrow> bytes \<Rightarrow> 's alink_resp \<Rightarrow> 's alink_resp option" where
  "resp_store i bs r = map_option (\<lambda>b. r\<lparr>rs_buf := b\<rparr>) (storen (rs_buf r) (9 + i) bs)"

definition resp_ack :: "bytes \<Rightarrow> u32 \<Rightarrow> 's alink_resp \<Rightarrow> 's alink_resp option" where
  "resp_ack bs n r = map_option (\<lambda>r'. r'\<lparr>rs_wCount := n\<rparr>) (resp_store 0 bs r)"

type_synonym 's handler =
  "heap \<Rightarrow> alink_payload \<Rightarrow> 's alink_resp \<Rightarrow> alink_env \<Rightarrow> ('s alink_resp \<times> alink_env) option"

definition system_set_status :: "'s handler" where
  "system_set_status h psPayload psResp e = do {
     m \<leftarrow> deref h (pbyData psPayload);
     type \<leftarrow> load8 m 0;
     if type = 0 \<or> type = 1 \<or> type = 2 \<or> type = 3
     then map_option (\<lambda>r. (r, e)) (resp_ack [0] 1 psResp)
     else if type = 4 then do {
       param1 \<leftarrow> load8 m 1;
       let (up, eRet) = alink_set_upload_dev_id (en_upload e) param1;
       map_option (\<lambda>r. (r, e\<lparr>en_upload := up\<rparr>)) (resp_ack [if eRet = 0 then 0 else 1] 1 psResp) }
     else Some (psResp, e) }"

text \<open>\<^verbatim>\<open>"RADAR_12345678"\<close> with its terminating zero.\<close>

definition radar_name :: bytes where
  "radar_name = [0x52, 0x41, 0x44, 0x41, 0x52, 0x5F, 0x31, 0x32, 0x33, 0x34, 0x35, 0x36, 0x37, 0x38, 0]"

definition system_get_info :: "'s handler" where
  "system_get_info h psPayload psResp e = do {
     m \<leftarrow> deref h (pbyData psPayload);
     type \<leftarrow> load8 m 0;
     if type = 0 then map_option (\<lambda>r. (r, e)) (resp_ack [0, 0] 17 psResp)
     else if type = 1 then do {
       r1 \<leftarrow> resp_ack ([1, 0] @ replicate 15 0) 17 psResp;
       map_option (\<lambda>r. (r, e)) (resp_store 2 radar_name r1) }
     else if type = 2 then map_option (\<lambda>r. (r, e)) (resp_ack (2 # le_bytes 4 (3 :: u32)) 17 psResp)
     else Some (psResp, e) }"

definition system_heartbeat_ext :: "'s handler" where
  "system_heartbeat_ext h psPayload psResp e = Some (psResp, e)"

text \<open>\<^verbatim>\<open>eRet\<close> is the constant -1, which the code answers with status zero.\<close>

definition system_set_sn :: "'s handler" where
  "system_set_sn h psPayload psResp e =
     (let eRet = - 1 :: i32 in
      map_option (\<lambda>r. (r, e)) (resp_ack [if 0 > eRet then 0 else 1] 1 psResp))"

text \<open>The packer of the heartbeat; its fault loop runs \<^verbatim>\<open>faultnum\<close> times, which was just set to zero.\<close>

fun fault_loop :: "nat \<Rightarrow> nat \<Rightarrow> bytes \<Rightarrow> (bytes \<times> nat) option" where
  "fault_loop i 0 buf = Some (buf, i)"
| "fault_loop i (Suc n) buf = do { b \<leftarrow> storen buf (3 + 4 * i) (le_bytes 4 (0 :: u32)); fault_loop (Suc i) n b }"

definition system_pkg_heartbeat :: "bytes \<Rightarrow> u16 \<Rightarrow> bytes option \<Rightarrow> (bytes \<times> u16) option" where
  "system_pkg_heartbeat buf wSize psStatus = do {
     b \<leftarrow> storen buf 0 [100, 0, 0];
     faultnum \<leftarrow> load8 b 2;
     (b', i) \<leftarrow> fault_loop 0 (unat faultnum) b;
     Some (b', of_nat (3 + i * 4)) }"

subsection \<open>Targets (\<^verbatim>\<open>alink_target.c\<close>)\<close>

text \<open>One iteration copies all fields of an item but \<^verbatim>\<open>reserve\<close>: its first sixteen bytes.\<close>

fun target_loop :: "bytes \<Rightarrow> nat \<Rightarrow> nat \<Rightarrow> bytes \<Rightarrow> (bytes \<times> nat) option" where
  "target_loop ob i 0 buf = Some (buf, i)"
| "target_loop ob i (Suc n) buf = do {
     item \<leftarrow> loadn ob (5 + 24 * i) 16;
     b \<leftarrow> storen buf (5 + 24 * i) item;
     target_loop ob (Suc i) n b }"

definition track_pkg_target_info :: "bytes \<Rightarrow> u16 \<Rightarrow> bytes option \<Rightarrow> (bytes \<times> u16) option" where
  "track_pkg_target_info buf wSize pvObjTarget = do {
     ob \<leftarrow> pvObjTarget;
     timestamp \<leftarrow> loadn ob 0 4;
     b1 \<leftarrow> storen buf 0 timestamp;
     objNum \<leftarrow> load8 ob 4;
     b2 \<leftarrow> storen b1 4 [objNum];
     (b', i) \<leftarrow> target_loop ob 0 (unat objNum) b2;
     Some (b', of_nat (5 + i * 24)) }"

text \<open>\<^verbatim>\<open>memcpy(&object.member, psPayload->pbyData, psPayload->wLength)\<close>.\<close>

definition copy_payload :: "heap \<Rightarrow> alink_payload \<Rightarrow> bytes \<Rightarrow> nat \<Rightarrow> bytes option" where
  "copy_payload h psPayload object i = do {
     m \<leftarrow> deref h (pbyData psPayload);
     bs \<leftarrow> loadn m 0 (unat (wLength psPayload));
     storen object i bs }"

definition user_custom_track_target :: "'s handler" where
  "user_custom_track_target h psPayload psResp e = do {
     let utt_pack = replicate (padded_size user_track_target_packages) 0;
     u1 \<leftarrow> storen utt_pack 0 (le_bytes 4 (track_type_word TRACK_INFO_FROM_USER));
     u2 \<leftarrow> copy_payload h psPayload u1 4;
     (e', _) \<leftarrow> msg_send_to_alg e u2 (padded_size user_track_target_packages);
     Some (psResp, e') }"

subsection \<open>Radar tracks (\<^verbatim>\<open>alink_track.c\<close>)\<close>

definition track_pkg_tracked :: "'s handler" where
  "track_pkg_tracked h psPayload psResp e = do {
     p1 \<leftarrow> copy_payload h psPayload (en_pack e) 4;
     p2 \<leftarrow> storen p1 0 (le_bytes 4 (track_type_word TRACK_INFO_RADAR));
     (e', _) \<leftarrow> msg_send_to_alg (e\<lparr>en_pack := p2\<rparr>) p2 (packed_size radar_track_info_packages);
     Some (psResp, e') }"

definition track_pkg_attitude :: "'s handler" where
  "track_pkg_attitude h psPayload psResp e = do {
     p1 \<leftarrow> copy_payload h psPayload (en_pack e) (4 + packed_size alink_track_tracked);
     Some (psResp, e\<lparr>en_pack := p1\<rparr>) }"

definition track_pkg_drone_id :: "'s handler" where
  "track_pkg_drone_id h psPayload psResp e = do {
     let droneid_pack = replicate (padded_size droneid_track_info_packages) 0;
     d1 \<leftarrow> storen droneid_pack 0 (le_bytes 4 (track_type_word TRACK_INFO_TRACER_P_DRONE_ID));
     d2 \<leftarrow> copy_payload h psPayload d1 4;
     (e', _) \<leftarrow> msg_send_to_alg e d2 (padded_size droneid_track_info_packages);
     Some (psResp, e') }"

definition track_pkg_remote_id :: "'s handler" where
  "track_pkg_remote_id h psPayload psResp e = do {
     let remoteid_pack = replicate (padded_size remoteid_track_info_packages) 0;
     d1 \<leftarrow> storen remoteid_pack 0 (le_bytes 4 (track_type_word TRACK_INFO_TRACER_P_REMOTE_ID));
     d2 \<leftarrow> copy_payload h psPayload d1 4;
     (e', _) \<leftarrow> msg_send_to_alg e d2 (4 + unat (wLength psPayload));
     Some (psResp, e') }"

subsection \<open>Function tables\<close>

datatype cmd_fn =
    F_system_set_status | F_system_get_info | F_system_heartbeat_ext | F_system_set_sn
  | F_user_custom_track_target
  | F_track_pkg_tracked | F_track_pkg_attitude | F_track_pkg_drone_id | F_track_pkg_remote_id

datatype pack_fn = P_system_pkg_heartbeat | P_track_pkg_target_info

fun call_cmd :: "(cmd_fn, 's, alink_env) run_cmd" where
  "call_cmd F_system_set_status = system_set_status"
| "call_cmd F_system_get_info = system_get_info"
| "call_cmd F_system_heartbeat_ext = system_heartbeat_ext"
| "call_cmd F_system_set_sn = system_set_sn"
| "call_cmd F_user_custom_track_target = user_custom_track_target"
| "call_cmd F_track_pkg_tracked = track_pkg_tracked"
| "call_cmd F_track_pkg_attitude = track_pkg_attitude"
| "call_cmd F_track_pkg_drone_id = track_pkg_drone_id"
| "call_cmd F_track_pkg_remote_id = track_pkg_remote_id"

fun call_pack :: "(pack_fn, bytes option) run_pack" where
  "call_pack P_system_pkg_heartbeat = system_pkg_heartbeat"
| "call_pack P_track_pkg_target_info = track_pkg_target_info"

subsection \<open>Registration at start (\<^verbatim>\<open>alink_init\<close>)\<close>

text \<open>The state of the whole protocol stack, with the addresses of its static nodes.\<close>

record 's alink_state =
  al_cmds :: "cmd_fn alink_cmds"
  al_ups :: "(pack_fn, 's) alink_uploads"

definition sAlinkPackage_Tracked :: nat where "sAlinkPackage_Tracked = 1"
definition sAlinkPackage_Attitude :: nat where "sAlinkPackage_Attitude = 2"
definition sAlinkPackage_droneid :: nat where "sAlinkPackage_droneid = 3"
definition sAlinkPackage_remoteid :: nat where "sAlinkPackage_remoteid = 4"
definition sAlinkPackage_user_target :: nat where "sAlinkPackage_user_target = 5"
definition sAlinkCmd_SystemSetStatus :: nat where "sAlinkCmd_SystemSetStatus = 6"
definition sAlinkCmd_SystemGetInfo :: nat where "sAlinkCmd_SystemGetInfo = 7"
definition sAlinkCmd_SystemHeartBeatExt :: nat where "sAlinkCmd_SystemHeartBeatExt = 8"
definition sAlinkCmd_SystemSetSn :: nat where "sAlinkCmd_SystemSetSn = 9"
definition sAlinkPackage_TargetInfo :: nat where "sAlinkPackage_TargetInfo = 1"
definition sAlinkPackage_HeartBeat :: nat where "sAlinkPackage_HeartBeat = 2"

lemmas node_defs = sAlinkPackage_Tracked_def sAlinkPackage_Attitude_def sAlinkPackage_droneid_def
  sAlinkPackage_remoteid_def sAlinkPackage_user_target_def sAlinkCmd_SystemSetStatus_def
  sAlinkCmd_SystemGetInfo_def sAlinkCmd_SystemHeartBeatExt_def sAlinkCmd_SystemSetSn_def
  sAlinkPackage_TargetInfo_def sAlinkPackage_HeartBeat_def

definition set_cmd_type :: "nat \<Rightarrow> u8 \<Rightarrow> 't alink_cmds \<Rightarrow> 't alink_cmds" where
  "set_cmd_type a t s = s\<lparr>cmd_nodes := (cmd_nodes s)(a := (cmd_nodes s a)\<lparr>cmd_type := t\<rparr>)\<rparr>"

definition alink_track_init :: "cmd_fn alink_cmds \<Rightarrow> cmd_fn alink_cmds option" where
  "alink_track_init s0 = do {
     let s = set_cmd_type sAlinkPackage_droneid ALINK_USER_TYPE_DEVICE
            (set_cmd_type sAlinkPackage_remoteid ALINK_USER_TYPE_DEVICE
            (set_cmd_type sAlinkPackage_Attitude ALINK_USER_TYPE_DEVICE
            (set_cmd_type sAlinkPackage_Tracked ALINK_USER_TYPE_DEVICE s0)));
     (s1, _) \<leftarrow> alink_register_cmd s sAlinkPackage_Tracked 0x12 1 (Some F_track_pkg_tracked);
     (s2, _) \<leftarrow> alink_register_cmd s1 sAlinkPackage_Attitude 0x13 1 (Some F_track_pkg_attitude);
     (s3, _) \<leftarrow> alink_register_cmd s2 sAlinkPackage_droneid 0xE0 1 (Some F_track_pkg_drone_id);
     (s4, _) \<leftarrow> alink_register_cmd s3 sAlinkPackage_remoteid 0xE1 1 (Some F_track_pkg_remote_id);
     Some s4 }"

definition alink_target_init :: "'s alink_state \<Rightarrow> 's alink_state option" where
  "alink_target_init a = do {
     let s = set_cmd_type sAlinkPackage_user_target ALINK_USER_TYPE_C2 (al_cmds a);
     (u, _) \<leftarrow> alink_register_package (al_ups a) sAlinkPackage_TargetInfo 0x80 0 (Some P_track_pkg_target_info);
     (s1, _) \<leftarrow> alink_register_cmd s sAlinkPackage_user_target 0x81 4 (Some F_user_custom_track_target);
     Some (a\<lparr>al_cmds := s1, al_ups := u\<rparr>) }"

definition alink_system_init :: "'s alink_state \<Rightarrow> 's alink_state option" where
  "alink_system_init a = do {
     let s = set_cmd_type sAlinkCmd_SystemSetSn ALINK_USER_TYPE_C2
            (set_cmd_type sAlinkCmd_SystemHeartBeatExt ALINK_USER_TYPE_C2
            (set_cmd_type sAlinkCmd_SystemGetInfo ALINK_USER_TYPE_C2
            (set_cmd_type sAlinkCmd_SystemSetStatus ALINK_USER_TYPE_C2 (al_cmds a))));
     (s1, _) \<leftarrow> alink_register_cmd s sAlinkCmd_SystemSetStatus 0xD1 (of_nat (packed_size alink_sys_set_status))
                 (Some F_system_set_status);
     (s2, _) \<leftarrow> alink_register_cmd s1 sAlinkCmd_SystemGetInfo 0xD2 1 (Some F_system_get_info);
     (s3, _) \<leftarrow> alink_register_cmd s2 sAlinkCmd_SystemHeartBeatExt 0xD3 1 (Some F_system_heartbeat_ext);
     (s4, _) \<leftarrow> alink_register_cmd s3 sAlinkCmd_SystemSetSn 0xD4 (of_nat (packed_size alink_sys_set_sn))
                 (Some F_system_set_sn);
     (u, _) \<leftarrow> alink_register_package (al_ups a) sAlinkPackage_HeartBeat 0xD0 0 (Some P_system_pkg_heartbeat);
     Some (a\<lparr>al_cmds := s4, al_ups := u\<rparr>) }"

text \<open>The arguments are the results of the three mutex initialisations, which \<^verbatim>\<open>alink_init\<close> ignores.\<close>

definition alink_init :: "bool \<Rightarrow> bool \<Rightarrow> bool \<Rightarrow> 's alink_state \<Rightarrow> ('s alink_state \<times> i32) option" where
  "alink_init ok1 ok2 ok3 a = do {
     let c = al_cmds a;
     let u = al_ups a;
     let o1 = fst (alink_order_init ok1 (sOrder c) (replicate 16384 0) 16384);
     let o2 = fst (alink_order_init ok2 (sOrder_server c) (replicate 16384 0) 16384);
     let up = fst (alink_upload_init ok3 (sUpload u) ALINK_DEV_ID_AGX (replicate 6144 0) 6144);
     c1 \<leftarrow> alink_track_init (c\<lparr>sOrder := o1, sOrder_server := o2\<rparr>);
     a2 \<leftarrow> alink_target_init (a\<lparr>al_cmds := c1, al_ups := u\<lparr>sUpload := up\<rparr>\<rparr>);
     a3 \<leftarrow> alink_system_init a2;
     Some (a3, 0) }"

definition alink_upload_heartbeat ::
  "('s, 'w) run_send \<Rightarrow> (pack_fn, 's) alink_uploads \<Rightarrow> 'w \<Rightarrow> ((pack_fn, 's) alink_uploads \<times> 'w \<times> i32) option" where
  "alink_upload_heartbeat send u w =
     map_option (\<lambda>(u', w', _). (u', w', 0)) (alink_upload_package call_pack send u sAlinkPackage_HeartBeat None w)"

definition alink_upload_target_info ::
  "('s, 'w) run_send \<Rightarrow> (pack_fn, 's) alink_uploads \<Rightarrow> bytes option \<Rightarrow> 'w \<Rightarrow>
   ((pack_fn, 's) alink_uploads \<times> 'w \<times> i32) option" where
  "alink_upload_target_info send u psObjTargetInfo w =
     alink_upload_package call_pack send u sAlinkPackage_TargetInfo psObjTargetInfo w"

text \<open>The statics of the program as C initialises them.\<close>

definition zero_order :: alink_order where
  "zero_order = \<lparr>od_wBufferSize = 0, od_pbyBuffer = [], psCmdList = None\<rparr>"

definition alink_zero :: "'s alink_state" where
  "alink_zero = \<lparr>
     al_cmds = \<lparr>cmd_nodes = (\<lambda>_. \<lparr>byCmd = 0, wPayloadLen = 0, pv_cmd_task = None, psNext = None, cmd_type = 0\<rparr>),
                sOrder = zero_order, sOrder_server = zero_order\<rparr>,
     al_ups = \<lparr>packages = (\<lambda>_. \<lparr>byMsgId = 0, byAns = 0, pw_package_task = None, psSendList = None, pk_psNext = None\<rparr>),
               sends = (\<lambda>_. \<lparr>byRemoteId = 0, sd_handle = 0, sd_pe_send = None, sd_psNext = None\<rparr>),
               sUpload = \<lparr>byDevId = 0, byReq = 0, up_wBufferSize = 0, up_pbyBuffer = [], psPackageList = None\<rparr>\<rparr>\<rparr>"

lemma set_cmd_type_abs [simp]: "cmds_abs (set_cmd_type a t s) c2 dev = cmds_abs s c2 dev"
proof -
  let ?st = "cmd_nodes (set_cmd_type a t s)"
  have nx: "psNext (?st x) = psNext (cmd_nodes s x)" and en: "cmd_entry (?st x) = cmd_entry (cmd_nodes s x)" for x
    by (simp_all add: set_cmd_type_def cmd_entry_def)
  have "hlist psNext ?st p xs = hlist psNext (cmd_nodes s) p xs" for p xs
    by (induction xs arbitrary: p) (simp_all add: nx)
  then show ?thesis by (simp add: cmds_abs_def order_abs_def en) (simp add: set_cmd_type_def)
qed

lemma cmd_type_set [simp]:
  "cmd_type (cmd_nodes (set_cmd_type a t s) x) = (if x = a then t else cmd_type (cmd_nodes s x))"
  by (simp add: set_cmd_type_def)

text \<open>Registering several nodes of one side in a row.\<close>

fun register_all :: "'t alink_cmds \<Rightarrow> (nat \<times> 't entry) list \<Rightarrow> 't alink_cmds option" where
  "register_all s [] = Some s"
| "register_all s ((a, mid, plen, task) # es) =
     Option.bind (alink_register_cmd s a mid plen task) (\<lambda>(s', _). register_all s' es)"

lemma register_all_device:
  assumes "cmds_abs s c2 dev" "distinct (map fst es)" "fst ` set es \<inter> fst ` set c2 = {}"
    "fst ` set es \<inter> fst ` set dev = {}" "\<forall>x \<in> set es. cmd_type (cmd_nodes s (fst x)) = ALINK_USER_TYPE_DEVICE"
  shows "\<exists>s'. register_all s es = Some s' \<and> cmds_abs s' c2 (dev @ es) \<and>
    (\<forall>x. cmd_type (cmd_nodes s' x) = cmd_type (cmd_nodes s x))"
  using assms
proof (induction es arbitrary: s dev)
  case (Cons x es)
  obtain a mid plen task where x: "x = (a, mid, plen, task)" by (cases x) auto
  have ne: "ALINK_USER_TYPE_DEVICE \<noteq> ALINK_USER_TYPE_C2"
    by (simp add: ALINK_USER_TYPE_DEVICE_def ALINK_USER_TYPE_C2_def)
  obtain s1 where s1: "alink_register_cmd s a mid plen task = Some (s1, 0)" "cmds_abs s1 c2 (dev @ [x])"
    "\<forall>x. cmd_type (cmd_nodes s1 x) = cmd_type (cmd_nodes s x)"
    using alink_register_cmd_abs [OF Cons.prems(1), of a mid plen task] Cons.prems(3-5) x ne by auto
  have "\<exists>s'. register_all s1 es = Some s' \<and> cmds_abs s' c2 ((dev @ [x]) @ es) \<and>
      (\<forall>x. cmd_type (cmd_nodes s' x) = cmd_type (cmd_nodes s1 x))"
    using Cons.prems s1(3) by (intro Cons.IH [OF s1(2)]) auto
  with s1 x show ?case by auto
qed simp

lemma register_all_c2:
  assumes "cmds_abs s c2 dev" "distinct (map fst es)" "fst ` set es \<inter> fst ` set c2 = {}"
    "fst ` set es \<inter> fst ` set dev = {}" "\<forall>x \<in> set es. cmd_type (cmd_nodes s (fst x)) = ALINK_USER_TYPE_C2"
  shows "\<exists>s'. register_all s es = Some s' \<and> cmds_abs s' (c2 @ es) dev \<and>
    (\<forall>x. cmd_type (cmd_nodes s' x) = cmd_type (cmd_nodes s x))"
  using assms
proof (induction es arbitrary: s c2)
  case (Cons x es)
  obtain a mid plen task where x: "x = (a, mid, plen, task)" by (cases x) auto
  obtain s1 where s1: "alink_register_cmd s a mid plen task = Some (s1, 0)" "cmds_abs s1 (c2 @ [x]) dev"
    "\<forall>x. cmd_type (cmd_nodes s1 x) = cmd_type (cmd_nodes s x)"
    using alink_register_cmd_abs [OF Cons.prems(1), of a mid plen task] Cons.prems(3-5) x by auto
  have "\<exists>s'. register_all s1 es = Some s' \<and> cmds_abs s' ((c2 @ [x]) @ es) dev \<and>
      (\<forall>x. cmd_type (cmd_nodes s' x) = cmd_type (cmd_nodes s1 x))"
    using Cons.prems s1(3) by (intro Cons.IH [OF s1(2)]) auto
  with s1 x show ?case by auto
qed simp

definition device_cmds :: "(nat \<times> cmd_fn entry) list" where
  "device_cmds =
     [(1, 0x12, 1, Some F_track_pkg_tracked), (2, 0x13, 1, Some F_track_pkg_attitude),
      (3, 0xE0, 1, Some F_track_pkg_drone_id), (4, 0xE1, 1, Some F_track_pkg_remote_id)]"

definition c2_cmds :: "(nat \<times> cmd_fn entry) list" where
  "c2_cmds =
     [(5, 0x81, 4, Some F_user_custom_track_target), (6, 0xD1, 3, Some F_system_set_status),
      (7, 0xD2, 1, Some F_system_get_info), (8, 0xD3, 1, Some F_system_heartbeat_ext),
      (9, 0xD4, 15, Some F_system_set_sn)]"

lemma bind_pair: "Option.bind m (\<lambda>(x, y). f x) = Option.bind m (\<lambda>p. f (fst p))"
  by (simp add: split_def)

lemma alink_track_init_abs:
  assumes "cmds_abs s [] []"
  shows "\<exists>s'. alink_track_init s = Some s' \<and> cmds_abs s' [] device_cmds"
proof -
  let ?s = "set_cmd_type 3 ALINK_USER_TYPE_DEVICE (set_cmd_type 4 ALINK_USER_TYPE_DEVICE
      (set_cmd_type 2 ALINK_USER_TYPE_DEVICE (set_cmd_type 1 ALINK_USER_TYPE_DEVICE s)))"
  have "alink_track_init s = register_all ?s device_cmds"
    by (simp add: alink_track_init_def device_cmds_def node_defs Let_def split_def)
  moreover have "\<exists>s'. register_all ?s device_cmds = Some s' \<and> cmds_abs s' [] ([] @ device_cmds) \<and>
      (\<forall>x. cmd_type (cmd_nodes s' x) = cmd_type (cmd_nodes ?s x))"
    by (rule register_all_device) (use assms in \<open>simp_all add: device_cmds_def\<close>)
  ultimately show ?thesis by auto
qed

lemma alink_target_init_abs:
  assumes "cmds_abs (al_cmds a) [] device_cmds" "uploads_abs (al_ups a) []"
    "\<forall>x. psSendList (packages (al_ups a) x) = None"
  shows "\<exists>a'. alink_target_init a = Some a' \<and> cmds_abs (al_cmds a') (take 1 c2_cmds) device_cmds \<and>
    uploads_abs (al_ups a') [(1, 0x80, [])] \<and>
    pw_package_task (packages (al_ups a') 1) = Some P_track_pkg_target_info \<and>
    (\<forall>x. psSendList (packages (al_ups a') x) = None) \<and> sends (al_ups a') = sends (al_ups a) \<and>
    (\<exists>p. sUpload (al_ups a') = (sUpload (al_ups a))\<lparr>psPackageList := p\<rparr>)"
proof -
  let ?s = "set_cmd_type 5 ALINK_USER_TYPE_C2 (al_cmds a)"
  obtain u where u: "alink_register_package (al_ups a) 1 0x80 0 (Some P_track_pkg_target_info) = Some (u, 0)"
    "uploads_abs u ([] @ [(1, 0x80, [])])" "pw_package_task (packages u 1) = Some P_track_pkg_target_info"
    "\<forall>x. psSendList (packages u x) = None" "sends u = sends (al_ups a)"
    "\<exists>p. sUpload u = (sUpload (al_ups a))\<lparr>psPackageList := p\<rparr>"
    using alink_register_package_abs [OF assms(2), of 1 "0x80" 0 "Some P_track_pkg_target_info"] assms(3) by auto
  have "\<exists>s'. register_all ?s (take 1 c2_cmds) = Some s' \<and> cmds_abs s' ([] @ take 1 c2_cmds) device_cmds \<and>
      (\<forall>x. cmd_type (cmd_nodes s' x) = cmd_type (cmd_nodes ?s x))"
    by (rule register_all_c2) (use assms(1) in \<open>simp_all add: device_cmds_def c2_cmds_def\<close>)
  then obtain s' where s': "register_all ?s (take 1 c2_cmds) = Some s'" "cmds_abs s' (take 1 c2_cmds) device_cmds" by auto
  then have "alink_target_init a = Some (a\<lparr>al_cmds := s', al_ups := u\<rparr>)"
    using u(1) by (auto simp: alink_target_init_def node_defs Let_def c2_cmds_def Option.bind_eq_Some_conv)
  with s' u show ?thesis by simp
qed

lemma alink_system_init_abs:
  assumes "cmds_abs (al_cmds a) (take 1 c2_cmds) device_cmds" "uploads_abs (al_ups a) [(1, 0x80, [])]"
    "\<forall>x. psSendList (packages (al_ups a) x) = None"
  shows "\<exists>a'. alink_system_init a = Some a' \<and> cmds_abs (al_cmds a') c2_cmds device_cmds \<and>
    uploads_abs (al_ups a') [(1, 0x80, []), (2, 0xD0, [])] \<and>
    pw_package_task (packages (al_ups a') 2) = Some P_system_pkg_heartbeat \<and>
    pw_package_task (packages (al_ups a') 1) = pw_package_task (packages (al_ups a) 1) \<and>
    sends (al_ups a') = sends (al_ups a) \<and> (\<exists>p. sUpload (al_ups a') = (sUpload (al_ups a))\<lparr>psPackageList := p\<rparr>)"
proof -
  let ?s = "set_cmd_type 9 ALINK_USER_TYPE_C2 (set_cmd_type 8 ALINK_USER_TYPE_C2
      (set_cmd_type 7 ALINK_USER_TYPE_C2 (set_cmd_type 6 ALINK_USER_TYPE_C2 (al_cmds a))))"
  have fresh: "2 \<notin> fst ` set [(1 :: nat, 0x80 :: u8, [] :: nat list)]" by simp
  obtain u where u: "alink_register_package (al_ups a) 2 0xD0 0 (Some P_system_pkg_heartbeat) = Some (u, 0)"
    "uploads_abs u ([(1, 0x80, [])] @ [(2, 0xD0, [])])" "pw_package_task (packages u 2) = Some P_system_pkg_heartbeat"
    "\<forall>x. x \<noteq> 2 \<longrightarrow> pw_package_task (packages u x) = pw_package_task (packages (al_ups a) x)"
    "sends u = sends (al_ups a)" "\<exists>p. sUpload u = (sUpload (al_ups a))\<lparr>psPackageList := p\<rparr>"
    using alink_register_package_abs [OF assms(2) fresh, of "0xD0" 0 "Some P_system_pkg_heartbeat"] assms(3) by auto
  have "\<exists>s'. register_all ?s (drop 1 c2_cmds) = Some s' \<and>
      cmds_abs s' (take 1 c2_cmds @ drop 1 c2_cmds) device_cmds \<and>
      (\<forall>x. cmd_type (cmd_nodes s' x) = cmd_type (cmd_nodes ?s x))"
    by (rule register_all_c2) (use assms(1) in \<open>simp_all add: device_cmds_def c2_cmds_def\<close>)
  then obtain s' where s': "register_all ?s (drop 1 c2_cmds) = Some s'" "cmds_abs s' c2_cmds device_cmds"
    by (auto simp: append_take_drop_id)
  have "alink_system_init a = Some (a\<lparr>al_cmds := s', al_ups := u\<rparr>)"
    using s'(1) u(1)
    by (auto simp: alink_system_init_def node_defs Let_def c2_cmds_def Option.bind_eq_Some_conv
        packed_size_def alink_sys_set_status_def alink_sys_set_sn_def)
  with s' u show ?thesis by simp
qed

subsection \<open>Handlers\<close>

lemma resp_store_length: "resp_store i bs r = Some r' \<Longrightarrow> length (rs_buf r') = length (rs_buf r)"
  by (auto simp: resp_store_def dest: storen_length)

lemma resp_ack_length: "resp_ack bs n r = Some r' \<Longrightarrow> length (rs_buf r') = length (rs_buf r)"
  by (auto simp: resp_ack_def dest: resp_store_length)

lemma call_cmd_keeps_size:
  assumes "call_cmd t h p r e = Some (r', e')"
  shows "length (rs_buf r') = length (rs_buf r)"
proof (cases t)
  case F_system_set_status
  with assms show ?thesis
    by (auto simp: system_set_status_def split_def Let_def Option.bind_eq_Some_conv split: if_splits
        dest!: resp_ack_length)
next
  case F_system_get_info
  with assms show ?thesis
    by (auto simp: system_get_info_def Option.bind_eq_Some_conv split: if_splits
        dest!: resp_ack_length resp_store_length)
next
  case F_system_set_sn
  with assms show ?thesis by (auto simp: system_set_sn_def dest!: resp_ack_length)
qed (use assms in \<open>auto simp: system_heartbeat_ext_def user_custom_track_target_def track_pkg_tracked_def
    track_pkg_attitude_def track_pkg_drone_id_def track_pkg_remote_id_def Let_def Option.bind_eq_Some_conv\<close>)

interpretation handlers: cmd_handlers call_cmd
  by unfold_locales (rule call_cmd_keeps_size)

text \<open>The payload a handler is given: readable bytes \<open>bs\<close> of the length it is told.\<close>

definition payload_is :: "heap \<Rightarrow> alink_payload \<Rightarrow> bytes \<Rightarrow> bool" where
  "payload_is h p bs \<longleftrightarrow>
     unat (wLength p) = length bs \<and> (\<exists>m. deref h (pbyData p) = Some m \<and> length bs \<le> length m \<and> take (length bs) m = bs)"

lemma copy_payload_eq: "payload_is h p bs \<Longrightarrow> copy_payload h p object i = storen object i bs"
  by (auto simp: payload_is_def copy_payload_def loadn_def)

lemma msg_send_to_alg_eq:
  assumes "en_pvalgtask e = Some m" "en_avail e" "0 \<le> en_mq_ret e" "n \<le> length pack" "n < 2 ^ 32"
  shows "msg_send_to_alg e pack n =
    Some (e\<lparr>en_pvalgtask := Some (m\<lparr>mq := mq m @ [\<lparr>pv_func = Some Alg_thread_handler, uSize = of_nat n,
        acInfo = take n pack\<rparr>]\<rparr>), en_cnt := en_cnt e + 1\<rparr>, 0)"
  using assms
  by (simp add: msg_send_to_alg_def sysport_task_malloc_def skyfend_malloc_def sysport_task_func_def loadn_def Let_def)

lemma slice_eqI:
  assumes "length a = length b" "i + n \<le> length a" "\<And>k. i \<le> k \<Longrightarrow> k < i + n \<Longrightarrow> a ! k = b ! k"
  shows "take n (drop i a) = take n (drop i b)"
  using assms by (intro nth_equalityI) auto

lemma target_loop_copies:
  assumes "5 + 24 * (i + n) \<le> length buf" "5 + 24 * (i + n) \<le> length ob"
  shows "\<exists>b. target_loop ob i n buf = Some (b, i + n) \<and> length b = length buf \<and>
    (\<forall>k < 5 + 24 * i. b ! k = buf ! k) \<and>
    (\<forall>j. i \<le> j \<longrightarrow> j < i + n \<longrightarrow> take 16 (drop (5 + 24 * j) b) = take 16 (drop (5 + 24 * j) ob))"
  using assms
proof (induction n arbitrary: i buf)
  case (Suc n)
  let ?o = "5 + 24 * i"
  let ?item = "take 16 (drop ?o ob)"
  let ?b = "take ?o buf @ ?item @ drop (?o + 16) buf"
  have o: "?o + 16 \<le> length buf" "?o + 16 \<le> length ob" using Suc.prems by simp_all
  then have l: "length ?b = length buf" by simp
  have ld: "loadn ob ?o 16 = Some ?item" using o by (simp add: loadn_def)
  have st: "storen buf ?o ?item = Some ?b" using o by (simp add: storen_def)
  have more: "5 + 24 * (Suc i + n) \<le> length ?b" "5 + 24 * (Suc i + n) \<le> length ob"
    unfolding l using Suc.prems by simp_all
  obtain b where b: "target_loop ob (Suc i) n ?b = Some (b, Suc i + n)" "length b = length ?b"
    "\<forall>k < 5 + 24 * Suc i. b ! k = ?b ! k"
    "\<forall>j. Suc i \<le> j \<longrightarrow> j < Suc i + n \<longrightarrow> take 16 (drop (5 + 24 * j) b) = take 16 (drop (5 + 24 * j) ob)"
    using Suc.IH [OF more] by (elim exE conjE)
  have "take 16 (drop ?o b) = take 16 (drop ?o ?b)"
    using b(2,3) l o by (intro slice_eqI) auto
  also have "\<dots> = ?item" using o by simp
  finally have here: "take 16 (drop ?o b) = ?item" .
  have low: "\<forall>k < ?o. b ! k = buf ! k" using b(3) o by (simp add: nth_append)
  have "\<forall>j. i \<le> j \<longrightarrow> j < i + Suc n \<longrightarrow> take 16 (drop (5 + 24 * j) b) = take 16 (drop (5 + 24 * j) ob)"
  proof (intro allI impI)
    fix j assume "i \<le> j" "j < i + Suc n"
    then show "take 16 (drop (5 + 24 * j) b) = take 16 (drop (5 + 24 * j) ob)"
      using here b(4) by (cases "j = i") simp_all
  qed
  with b(1,2) l low show ?case by (simp add: ld st)
qed simp

lemma target_loop_overreads:
  "length ob < 5 + 24 * (i + n) - 8 \<Longrightarrow> 0 < n \<Longrightarrow> target_loop ob i n buf = None"
proof (induction n arbitrary: i buf)
  case (Suc n)
  show ?case
  proof (cases "n = 0")
    case True
    with Suc.prems show ?thesis by (simp add: loadn_def)
  next
    case False
    with Suc.IH [of "Suc i"] Suc.prems show ?thesis by (simp split: Option.bind_split)
  qed
qed simp

subsection \<open>A concrete environment\<close>

definition ex_alg :: "alg_fn sysport_task_module" where
  "ex_alg = \<lparr>strName = ''/alg_task'', pvArg = 0, mq = []\<rparr>"

definition ex_env :: alink_env where
  "ex_env = \<lparr>en_upload = \<lparr>byDevId = 8, byReq = 0, up_wBufferSize = 0, up_pbyBuffer = [], psPackageList = None\<rparr>,
     en_pack = replicate 11574 0, en_pvalgtask = Some ex_alg, en_cnt = 1, en_avail = True, en_mq_ret = 0\<rparr>"

definition ex_payload :: "u32 \<Rightarrow> alink_payload" where
  "ex_payload n = \<lparr>pl_ePortId = 1, eRemoteId = 3, wLength = n, pbyData = \<lparr>obj = 3, off = 9\<rparr>\<rparr>"

definition ex_resp :: "unit alink_resp" where
  "ex_resp = \<lparr>rs_wCount = 1, rs_wSize = 21, rs_buf = replicate 32 0,
     psArg = \<lparr>oi_ePortId = 1, oi_pbyMsg = \<lparr>obj = 3, off = 0\<rparr>, oi_handle = 0, oi_pe_send = None\<rparr>\<rparr>"

lemma ex_payload_is: "payload_is [3 \<mapsto> replicate 9 0 @ [1, 2] @ [0, 0]] (ex_payload 2) [1, 2]"
  by (simp add: payload_is_def ex_payload_def deref_def)

lemma ex_long_payload_is:
  "payload_is [3 \<mapsto> replicate 9 0 @ replicate 49 7 @ [0, 0]] (ex_payload 49) (replicate 49 7)"
  by (simp add: payload_is_def ex_payload_def deref_def)

lemma alink_init_state:
  "\<exists>a. alink_init True True True (alink_zero :: 's alink_state) = Some (a, 0) \<and> cmds_abs (al_cmds a) c2_cmds device_cmds \<and>
    uploads_abs (al_ups a) [(sAlinkPackage_TargetInfo, 0x80, []), (sAlinkPackage_HeartBeat, 0xD0, [])] \<and>
    pw_package_task (packages (al_ups a) sAlinkPackage_TargetInfo) = Some P_track_pkg_target_info \<and>
    pw_package_task (packages (al_ups a) sAlinkPackage_HeartBeat) = Some P_system_pkg_heartbeat \<and>
    byDevId (sUpload (al_ups a)) = ALINK_DEV_ID_AGX \<and> byReq (sUpload (al_ups a)) = 0"
proof -
  let ?a = "alink_zero :: 's alink_state"
  define c where "c = (al_cmds ?a)\<lparr>
    sOrder := fst (alink_order_init True (sOrder (al_cmds ?a)) (replicate 16384 0) 16384),
    sOrder_server := fst (alink_order_init True (sOrder_server (al_cmds ?a)) (replicate 16384 0) 16384)\<rparr>"
  define u where "u = (al_ups ?a)\<lparr>
    sUpload := fst (alink_upload_init True (sUpload (al_ups ?a)) ALINK_DEV_ID_AGX (replicate 6144 0) 6144)\<rparr>"
  have "cmds_abs c [] []"
    by (simp add: c_def alink_zero_def alink_order_init_def cmds_abs_def order_abs_def)
  then obtain c1 where c1: "alink_track_init c = Some c1" "cmds_abs c1 [] device_cmds"
    using alink_track_init_abs by blast
  have u0: "uploads_abs u []" "\<forall>x. psSendList (packages u x) = None" "byDevId (sUpload u) = ALINK_DEV_ID_AGX"
    "byReq (sUpload u) = 0"
    by (simp_all add: u_def alink_zero_def alink_upload_init_def uploads_abs_def)
  obtain a2 where a2: "alink_target_init (?a\<lparr>al_cmds := c1, al_ups := u\<rparr>) = Some a2"
    "cmds_abs (al_cmds a2) (take 1 c2_cmds) device_cmds" "uploads_abs (al_ups a2) [(1, 0x80, [])]"
    "pw_package_task (packages (al_ups a2) 1) = Some P_track_pkg_target_info"
    "\<forall>x. psSendList (packages (al_ups a2) x) = None" "\<exists>p. sUpload (al_ups a2) = (sUpload u)\<lparr>psPackageList := p\<rparr>"
    using alink_target_init_abs [of "?a\<lparr>al_cmds := c1, al_ups := u\<rparr>"] c1(2) u0(1,2) by auto
  obtain a3 where "alink_system_init a2 = Some a3" "cmds_abs (al_cmds a3) c2_cmds device_cmds"
    "uploads_abs (al_ups a3) [(1, 0x80, []), (2, 0xD0, [])]"
    "pw_package_task (packages (al_ups a3) 2) = Some P_system_pkg_heartbeat"
    "pw_package_task (packages (al_ups a3) 1) = Some P_track_pkg_target_info"
    "\<exists>p. sUpload (al_ups a3) = (sUpload (al_ups a2))\<lparr>psPackageList := p\<rparr>"
    using alink_system_init_abs [OF a2(2,3,5)] a2(4) by auto
  moreover from this have "byDevId (sUpload (al_ups a3)) = ALINK_DEV_ID_AGX" "byReq (sUpload (al_ups a3)) = 0"
    using a2(6) u0(3,4) by auto
  ultimately show ?thesis
    using c1(1) a2(1)
    by (simp add: alink_init_def Let_def node_defs flip: c_def u_def)
qed

subsection \<open>Properties\<close>

text \<open>
  Start-up: from the zero-initialised statics \<^verbatim>\<open>alink_init\<close> registers exactly the program's nine
  commands, each on its side, in this order and with these minimal payload lengths, and its two package
  kinds without receivers; it reports success and the device starts as the AGX with sequence number zero.
\<close>
theorem alink_init_registers:
  "\<exists>a. alink_init True True True (alink_zero :: 's alink_state) = Some (a, 0) \<and> cmds_abs (al_cmds a) c2_cmds device_cmds \<and>
    uploads_abs (al_ups a) [(sAlinkPackage_TargetInfo, 0x80, []), (sAlinkPackage_HeartBeat, 0xD0, [])] \<and>
    pw_package_task (packages (al_ups a) sAlinkPackage_TargetInfo) = Some P_track_pkg_target_info \<and>
    pw_package_task (packages (al_ups a) sAlinkPackage_HeartBeat) = Some P_system_pkg_heartbeat \<and>
    byDevId (sUpload (al_ups a)) = ALINK_DEV_ID_AGX \<and> byReq (sUpload (al_ups a)) = 0"
  by (rule alink_init_state)

text \<open>
  Dispatching to the program's handlers keeps an order well formed, whatever the message: its
  registry, the size it was given and the length of its send buffer never change.
\<close>
theorem alink_order_task_keeps_order:
  assumes "alink_order_task call_cmd st h ord imp e = Some (ord', e', r)"
  shows "psCmdList ord' = psCmdList ord \<and> od_wBufferSize ord' = od_wBufferSize ord \<and>
    length (od_pbyBuffer ord') = length (od_pbyBuffer ord) \<and> r = 0"
  using handlers.alink_order_task_keeps [OF assms] by simp

theorem alink_order_task_keeps_order_witness:
  "psCmdList (ex_order None) = psCmdList (ex_order None) \<and> od_wBufferSize (ex_order None) = od_wBufferSize (ex_order None) \<and>
    length ((replicate 32 (0 :: u8))[9 := 0xFF]) = length (od_pbyBuffer (ex_order None)) \<and> (0 :: int) = 0"
proof -
  have "alink_order_task call_cmd (cmd_nodes (al_cmds (alink_zero :: unit alink_state))) Map.empty (ex_order None)
      (psArg ex_resp) ex_env = Some ((ex_order None)\<lparr>od_pbyBuffer := (replicate 32 0)[9 := 0xFF]\<rparr>, ex_env, 0)"
    by (simp add: alink_order_task_def order_dispatch_def ex_order_def storen_def upd_conv_take_nth_drop)
  from alink_order_task_keeps_order [OF this] show ?thesis by simp
qed

text \<open>
  A radar track message whose payload fits the track structure is handed to the algorithm exactly
  once: the message tagged as radar data, the payload, and the attitude stored last, and it is the new
  content of the static buffer.
\<close>
theorem track_pkg_tracked_posts:
  assumes "payload_is h p bs" "length bs \<le> packed_size alink_track_tracked"
    "length (en_pack e) = packed_size radar_track_info_packages" "en_pvalgtask e = Some m" "en_avail e"
    "0 \<le> en_mq_ret e" "pk = le_bytes 4 (track_type_word TRACK_INFO_RADAR) @ bs @ drop (4 + length bs) (en_pack e)"
  shows "track_pkg_tracked h p r e =
    Some (r, e\<lparr>en_pack := pk, en_pvalgtask := Some (m\<lparr>mq := mq m @ [\<lparr>pv_func = Some Alg_thread_handler,
      uSize = 11574, acInfo = pk\<rparr>]\<rparr>), en_cnt := en_cnt e + 1\<rparr>)"
proof -
  have "copy_payload h p (en_pack e) 4 = Some (take 4 (en_pack e) @ bs @ drop (4 + length bs) (en_pack e))"
    using assms(1-3) by (simp add: copy_payload_eq storen_def)
  moreover have "storen (take 4 (en_pack e) @ bs @ drop (4 + length bs) (en_pack e)) 0
      (le_bytes 4 (track_type_word TRACK_INFO_RADAR)) = Some pk"
    using assms(2,3,7) by (simp add: storen_def del: le_bytes.simps)
  moreover have "length pk = 11574" using assms(2,3,7) by simp
  ultimately show ?thesis
    using msg_send_to_alg_eq [of "e\<lparr>en_pack := pk\<rparr>" m 11574 pk] assms(4-6)
    by (simp add: track_pkg_tracked_def del: le_bytes.simps)
qed

theorem track_pkg_tracked_posts_witness:
  "\<exists>e. track_pkg_tracked [3 \<mapsto> replicate 9 0 @ [1, 2] @ [0, 0]] (ex_payload 2) ex_resp ex_env = Some (ex_resp, e) \<and>
     en_pack e = le_bytes 4 (0 :: u32) @ [1, 2] @ replicate 11568 0"
  using track_pkg_tracked_posts [OF ex_payload_is, of ex_env ex_alg _ ex_resp, OF _ _ _ _ _ refl]
  by (simp add: ex_env_def del: le_bytes.simps)

text \<open>
  C37. An attitude message is stored only if its payload fits: from 46 bytes on the copy, whose length is
  the sender's length field and is never compared with the size of the structure, runs past the end of
  the static buffer.
\<close>
theorem track_pkg_attitude_bound:
  assumes "payload_is h p bs" "length (en_pack e) = packed_size radar_track_info_packages"
  shows "track_pkg_attitude h p r e =
    (if length bs \<le> packed_size alink_track_attitude
     then Some (r, e\<lparr>en_pack := take 11529 (en_pack e) @ bs @ drop (11529 + length bs) (en_pack e)\<rparr>)
     else None)"
  using assms by (simp add: track_pkg_attitude_def copy_payload_eq storen_def)

theorem track_pkg_attitude_bound_witness:
  "track_pkg_attitude [3 \<mapsto> replicate 9 0 @ replicate 49 7 @ [0, 0]] (ex_payload 49) ex_resp ex_env = None"
  using track_pkg_attitude_bound [OF ex_long_payload_is, of ex_env ex_resp] by (simp add: ex_env_def)

text \<open>
  A target chosen by the user is handed to the algorithm, tagged as the user's, exactly once if its
  payload is at most 48 bytes; a longer payload, which the dispatcher lets through, overruns the handler's
  local structure.
\<close>
theorem user_custom_track_target_bound:
  assumes "payload_is h p bs" "en_pvalgtask e = Some m" "en_avail e" "0 \<le> en_mq_ret e"
  shows "user_custom_track_target h p r e =
    (if length bs \<le> 48
     then Some (r, e\<lparr>en_pvalgtask := Some (m\<lparr>mq := mq m @ [\<lparr>pv_func = Some Alg_thread_handler, uSize = 52,
            acInfo = le_bytes 4 (track_type_word TRACK_INFO_FROM_USER) @ bs @ replicate (48 - length bs) 0\<rparr>]\<rparr>),
            en_cnt := en_cnt e + 1\<rparr>)
     else None)"
proof -
  let ?t = "le_bytes 4 (track_type_word TRACK_INFO_FROM_USER)"
  have s1: "storen (replicate 52 0) 0 ?t = Some (?t @ replicate 48 0)"
    by (simp add: storen_def del: le_bytes.simps)
  have s2: "storen (?t @ replicate 48 0) 4 bs =
      (if length bs \<le> 48 then Some (?t @ bs @ replicate (48 - length bs) 0) else None)"
    by (simp add: storen_def del: le_bytes.simps)
  show ?thesis
    using msg_send_to_alg_eq [OF assms(2-4), of 52 "?t @ bs @ replicate (48 - length bs) 0"] assms(1)
    by (simp add: user_custom_track_target_def Let_def s1 s2 copy_payload_eq del: le_bytes.simps track_type_word.simps)
qed

theorem user_custom_track_target_bound_witness:
  "user_custom_track_target [3 \<mapsto> replicate 9 0 @ replicate 49 7 @ [0, 0]] (ex_payload 49) ex_resp ex_env = None"
  using user_custom_track_target_bound [OF ex_long_payload_is, of ex_env ex_alg ex_resp] by (simp add: ex_env_def)

text \<open>
  Target upload: the packer copies the time stamp, the number of targets and, for every target, all
  its fields, keeps the rest of the send buffer in place and returns exactly the length of what it wrote,
  provided the object and the buffer have room for that many targets; with a count above 128, which
  nothing excludes, it reads past the end of the target structure.
\<close>
theorem track_pkg_target_info_packs:
  assumes "length ob = packed_size alink_taget_info" "k = unat (ob ! 4)" "5 + 24 * k \<le> length buf"
  shows "(k \<le> ALINK_TARGET_MAX \<longrightarrow>
      (\<exists>b. track_pkg_target_info buf wSize (Some ob) = Some (b, of_nat (5 + 24 * k)) \<and> length b = length buf \<and>
         take 5 b = take 5 ob \<and>
         (\<forall>j < k. take 16 (drop (5 + 24 * j) b) = take 16 (drop (5 + 24 * j) ob)))) \<and>
    (ALINK_TARGET_MAX < k \<longrightarrow> track_pkg_target_info buf wSize (Some ob) = None)"
proof -
  let ?b1 = "take 4 ob @ drop 4 buf"
  let ?b2 = "take 4 ?b1 @ [ob ! 4] @ drop 5 ?b1"
  have l: "4 < length ob" "5 \<le> length buf" "length ob = 3077" using assms(1,3) by simp_all
  then have l1: "length ?b1 = length buf" and l2: "length ?b2 = length buf" by simp_all
  have pre: "track_pkg_target_info buf wSize (Some ob) =
      Option.bind (target_loop ob 0 k ?b2) (\<lambda>(b, i). Some (b, of_nat (5 + i * 24)))"
    using l l1 assms(2)
    by (simp add: track_pkg_target_info_def loadn_def load8_def storen_def min_def)
  have head: "take 5 ?b2 = take 5 ob" using l by (simp add: take_Suc_conv_app_nth numeral_eq_Suc)
  have "\<exists>b. track_pkg_target_info buf wSize (Some ob) = Some (b, of_nat (5 + 24 * k)) \<and> length b = length buf \<and>
      take 5 b = take 5 ob \<and> (\<forall>j < k. take 16 (drop (5 + 24 * j) b) = take 16 (drop (5 + 24 * j) ob))"
    if "k \<le> ALINK_TARGET_MAX"
  proof -
    have room: "5 + 24 * (0 + k) \<le> length ?b2" "5 + 24 * (0 + k) \<le> length ob"
      unfolding l2 using that assms(3) l(3) by (simp_all add: ALINK_TARGET_MAX_def)
    obtain b where b: "target_loop ob 0 k ?b2 = Some (b, 0 + k)" "length b = length ?b2"
      "\<forall>j < 5 + 24 * 0. b ! j = ?b2 ! j"
      "\<forall>j. 0 \<le> j \<longrightarrow> j < 0 + k \<longrightarrow> take 16 (drop (5 + 24 * j) b) = take 16 (drop (5 + 24 * j) ob)"
      using target_loop_copies [OF room] by (elim exE conjE)
    have "take 5 (drop 0 b) = take 5 (drop 0 ?b2)" using b(2,3) l l2 by (intro slice_eqI) auto
    then have "take 5 b = take 5 ob" using head by simp
    moreover have "track_pkg_target_info buf wSize (Some ob) = Some (b, of_nat (5 + 24 * k))"
      unfolding pre b(1) by (simp add: mult.commute [of k])
    moreover have "length b = length buf" using b(2) l2 by simp
    moreover have "\<forall>j < k. take 16 (drop (5 + 24 * j) b) = take 16 (drop (5 + 24 * j) ob)"
      using b(4) by simp
    ultimately show ?thesis by (intro exI [of _ b] conjI)
  qed
  moreover have "track_pkg_target_info buf wSize (Some ob) = None" if "ALINK_TARGET_MAX < k"
    using target_loop_overreads [of ob 0 k ?b2] that l(3) pre by (simp add: ALINK_TARGET_MAX_def)
  ultimately show ?thesis by blast
qed

theorem track_pkg_target_info_packs_witness:
  "\<exists>b. track_pkg_target_info (replicate 100 0) 100 (Some (replicate 4 0 @ [1] @ replicate 3072 9)) = Some (b, 29) \<and>
     length b = 100 \<and> take 16 (drop 5 b) = replicate 16 9"
  using track_pkg_target_info_packs [of "replicate 4 0 @ [1] @ replicate 3072 9" 1 "replicate 100 0" 100]
  by (auto simp: ALINK_TARGET_MAX_def nth_append)

end
