(* ===== verification/Guide_Targets.thy ===== *)
theory Guide_Targets
  imports Machine_Float Alink_Commands
begin

text \<open>
  Choosing the target that the pan-tilt head is guided to, \<^verbatim>\<open>srv/algs/ai_alg/guide.cpp\<close>, and the geometry from two positions
  to an azimuth and an elevation, \<^verbatim>\<open>srv/algs/ai_alg/tf.cpp\<close>.

  The track messages are the byte blocks that \<^verbatim>\<open>Alink_Commands\<close> posts; a read outside the block or past an array
  is \<open>None\<close>. \<^verbatim>\<open>std::sort\<close> is an argument with the two properties the standard promises: equal elements may
  come in any order. The program runs on an ARM processor, where \<^verbatim>\<open>char\<close> is unsigned. Output to the terminal is left out.
\<close>

subsection \<open>Reading the messages\<close>

text \<open>Member \<open>f\<close> of the struct with layout \<open>l\<close> at offset \<open>base\<close> of a block.\<close>

definition pack_field :: "nat \<Rightarrow> layout \<Rightarrow> string \<Rightarrow> bytes \<Rightarrow> bytes option" where
  "pack_field base l f pack = do {
     i \<leftarrow> field_off l f;
     n \<leftarrow> map_of l f;
     loadn pack (base + i) n }"

definition pack_u :: "nat \<Rightarrow> layout \<Rightarrow> string \<Rightarrow> bytes \<Rightarrow> i32 option" where
  "pack_u base l f pack = map_option (\<lambda>b. uint (of_le b :: u64)) (pack_field base l f pack)"

definition pack_i16 :: "nat \<Rightarrow> layout \<Rightarrow> string \<Rightarrow> bytes \<Rightarrow> i32 option" where
  "pack_i16 base l f pack = map_option (\<lambda>b. sint (of_le b :: u16)) (pack_field base l f pack)"

definition pack_i32 :: "nat \<Rightarrow> layout \<Rightarrow> string \<Rightarrow> bytes \<Rightarrow> i32 option" where
  "pack_i32 base l f pack = map_option (\<lambda>b. sint (of_le b :: u32)) (pack_field base l f pack)"

text \<open>A \<^verbatim>\<open>std::string\<close> made from a \<^verbatim>\<open>char\<close> array ends at the first zero, wherever that is.\<close>

definition pack_str :: "nat \<Rightarrow> layout \<Rightarrow> string \<Rightarrow> bytes \<Rightarrow> bytes option" where
  "pack_str base l f pack = do {
     i \<leftarrow> field_off l f;
     (if 0 \<in> set (drop (base + i) pack) then Some (takeWhile (\<lambda>c. c \<noteq> 0) (drop (base + i) pack)) else None) }"

subsection \<open>Radar targets\<close>

record 'f radar_obj =
  ro_id :: i32
  ro_alive :: i32
  ro_stateType :: i32
  ro_threatLevel :: i32
  ro_azimuth :: 'f
  ro_elevation :: 'f
  ro_range :: u32
  ro_x :: 'f
  ro_y :: 'f
  ro_z :: 'f

definition RadarObj :: "('f, 'z) fp_scheme \<Rightarrow> i32 \<Rightarrow> i32 \<Rightarrow> i32 \<Rightarrow> i32 \<Rightarrow> 'f radar_obj" where
  "RadarObj F i alive stateType threatLevel =
     \<lparr>ro_id = i, ro_alive = alive, ro_stateType = stateType, ro_threatLevel = threatLevel, ro_azimuth = f_lit F 0 1,
      ro_elevation = f_lit F 0 1, ro_range = 0, ro_x = f_lit F 0 1, ro_y = f_lit F 0 1, ro_z = f_lit F 0 1\<rparr>"

definition radar_compare :: "'f radar_obj \<Rightarrow> 'f radar_obj \<Rightarrow> bool" where
  "radar_compare a b \<longleftrightarrow> ro_threatLevel a < ro_threatLevel b"

definition g_dScale :: "('f, 'z) fp_scheme \<Rightarrow> 'f" where
  "g_dScale F = f_div F (f_lit F 10 1) (f_int F 64)"

definition radar_point :: "('f, 'z) fp_scheme \<Rightarrow> bytes \<Rightarrow> nat \<Rightarrow> 'f radar_obj option" where
  "radar_point F pack i =
     (if i < ALINK_TARGET_MAX then do {
        let base = 9 + i * packed_size alink_track_tracked_item;
        let l = alink_track_tracked_item;
        d \<leftarrow> pack_u base l ''id'' pack;
        alive \<leftarrow> pack_u base l ''alive'' pack;
        st \<leftarrow> pack_u base l ''stateType'' pack;
        th \<leftarrow> pack_u base l ''threatLevel'' pack;
        az \<leftarrow> pack_i16 base l ''azimuth'' pack;
        el \<leftarrow> pack_i16 base l ''elevation'' pack;
        x \<leftarrow> pack_i32 base l ''x'' pack;
        y \<leftarrow> pack_i32 base l ''y'' pack;
        z \<leftarrow> pack_i32 base l ''y'' pack;
        rg \<leftarrow> pack_u base l ''range'' pack;
        let sc = (\<lambda>v. f_mul F (f_int F v) (g_dScale F));
        Some ((RadarObj F d alive st th)\<lparr>ro_azimuth := sc az, ro_elevation := sc el, ro_x := sc x, ro_y := sc y,
          ro_z := sc z, ro_range := f_u32 F (sc rg)\<rparr>) }
      else None)"

definition radar_read :: "('f, 'z) fp_scheme \<Rightarrow> bytes \<Rightarrow> 'f radar_obj list option" where
  "radar_read F pack = do {
     n \<leftarrow> pack_u 4 alink_track_tracked ''trackObjNum'' pack;
     those (map (radar_point F pack) [0..<nat n]) }"

text \<open>The result is \<^verbatim>\<open>g_nID\<close>, the chosen object and the returned number.\<close>

definition radar_2ptz ::
  "('f radar_obj list \<Rightarrow> 'f radar_obj list) \<Rightarrow> 'f radar_obj list \<Rightarrow> 'f radar_obj \<Rightarrow> i32 \<Rightarrow> i32 \<Rightarrow> i32 \<times> 'f radar_obj \<times> i32" where
  "radar_2ptz srt objs obj_to_ptz ptz_id g_nID =
     (let useful_obj = filter (\<lambda>it. ro_stateType it = 1 \<and> ro_alive it \<ge> 10) objs;
          settle = (\<lambda>ob. if ro_id ob \<noteq> ptz_id then -1 else g_nID)
      in case useful_obj of
           [] \<Rightarrow> (-1, obj_to_ptz, 0)
         | [ob] \<Rightarrow> (settle ob, ob, 1)
         | _ \<Rightarrow>
             let sorted_obj = srt useful_obj;
                 ob = (if ptz_id > -1
                       then fold (\<lambda>it ob. if ptz_id = ro_id it then it else ob) sorted_obj obj_to_ptz
                       else hd sorted_obj)
             in (settle ob, ob, 2))"

text \<open>What \<^verbatim>\<open>std::sort\<close> promises.\<close>

definition sorts :: "('f radar_obj list \<Rightarrow> 'f radar_obj list) \<Rightarrow> bool" where
  "sorts srt \<longleftrightarrow> (\<forall>xs. set (srt xs) = set xs \<and> length (srt xs) = length xs \<and> sorted_wrt (\<lambda>a b. \<not> radar_compare b a) (srt xs))"

subsection \<open>Tracer targets\<close>

record 'f tracer_obj =
  to_uDroneNum :: i32
  to_droneName :: bytes
  to_droneLongitude :: 'f
  to_droneLatitude :: 'f
  to_droneHeight :: 'f
  to_droneYawAngle :: 'f
  to_droneSpeed :: 'f
  to_droneVerticalSpeed :: 'f
  to_pilotLongitude :: 'f
  to_pilotLatitude :: 'f
  to_uFreq :: i32
  to_uDistance :: 'f
  to_uDangerLevels :: i32

definition TracerObj :: "('f, 'z) fp_scheme \<Rightarrow> i32 \<Rightarrow> i32 \<Rightarrow> 'f tracer_obj" where
  "TracerObj F n d = \<lparr>to_uDroneNum = n, to_droneName = [], to_droneLongitude = f_lit F 0 1, to_droneLatitude = f_lit F 0 1,
     to_droneHeight = f_lit F 0 1, to_droneYawAngle = f_lit F 0 1, to_droneSpeed = f_lit F 0 1, to_droneVerticalSpeed = f_lit F 0 1,
     to_pilotLongitude = f_lit F 0 1, to_pilotLatitude = f_lit F 0 1, to_uFreq = 0, to_uDistance = f_lit F 0 1,
     to_uDangerLevels = d\<rparr>"

text \<open>The two readers differ in the scale of the position: degrees times ten million, or radians times ten million.\<close>

definition remote_angle :: "('f, 'z) fp_scheme \<Rightarrow> i32 \<Rightarrow> 'f" where
  "remote_angle F v = f_div F (f_int F v) (f_lit F 10000000 0)"

definition drone_angle :: "('f, 'z) fp_scheme \<Rightarrow> i32 \<Rightarrow> 'f" where
  "drone_angle F v = f_mul F (f_div F (f_int F v) (f_mul F (f_lit F 10000000 0) (f_pi F))) (f_int F 180)"

definition tracer_item ::
  "('f, 'z) fp_scheme \<Rightarrow> layout \<Rightarrow> (i32 \<Rightarrow> 'f) \<Rightarrow> i32 \<Rightarrow> bytes \<Rightarrow> nat \<Rightarrow> 'f tracer_obj option" where
  "tracer_item F l angle n pack i =
     (if i < ALINK_TARGET_MAX then do {
        let base = 30 + i * packed_size l;
        danger \<leftarrow> pack_i16 base l ''uDangerLevels'' pack;
        name \<leftarrow> pack_str base l ''droneName'' pack;
        dist \<leftarrow> pack_i16 base l ''uDistance'' pack;
        lon \<leftarrow> pack_i32 base l ''droneLongitude'' pack;
        lat \<leftarrow> pack_i32 base l ''droneLatitude'' pack;
        h \<leftarrow> pack_i16 base l ''droneHeight'' pack;
        v \<leftarrow> pack_i16 base l ''droneSpeed'' pack;
        vv \<leftarrow> pack_i16 base l ''droneVerticalSpeed'' pack;
        Some ((TracerObj F n danger)\<lparr>to_droneName := name, to_uDistance := f_int F dist, to_droneLongitude := angle lon,
          to_droneLatitude := angle lat, to_droneHeight := f_mul F (f_int F h) (f_lit F 1 1),
          to_droneSpeed := f_mul F (f_int F v) (f_lit F 1 2), to_droneVerticalSpeed := f_mul F (f_int F vv) (f_lit F 1 2)\<rparr>) }
      else None)"

definition tracerR_read :: "('f, 'z) fp_scheme \<Rightarrow> bytes \<Rightarrow> 'f tracer_obj list option" where
  "tracerR_read F pack = do {
     n \<leftarrow> pack_u 4 alink_remote_id_track ''uDroneNum'' pack;
     those (map (tracer_item F alink_remote_id_items (remote_angle F) n pack) [0..<nat n]) }"

definition tracerD_read :: "('f, 'z) fp_scheme \<Rightarrow> bytes \<Rightarrow> 'f tracer_obj list option" where
  "tracerD_read F pack = do {
     n \<leftarrow> pack_u 4 alink_drone_id_track ''uDroneNum'' pack;
     those (map (tracer_item F alink_drone_id_items (drone_angle F) n pack) [0..<nat n]) }"

definition tracer_2ptz :: "'f tracer_obj list \<Rightarrow> 'f tracer_obj \<Rightarrow> 'f tracer_obj \<times> i32" where
  "tracer_2ptz objs obj_to_ptz =
     (case objs of [] \<Rightarrow> (obj_to_ptz, 0) | [ob] \<Rightarrow> (ob, 1) | ob # _ \<Rightarrow> (ob, 2))"

subsection \<open>Geometry\<close>

definition degree2radian :: "('f, 'z) fp_scheme \<Rightarrow> 'f \<Rightarrow> 'f" where
  "degree2radian F degree = f_div F (f_mul F degree (f_pi F)) (f_lit F 1800 1)"

definition radian2degree :: "('f, 'z) fp_scheme \<Rightarrow> 'f \<Rightarrow> 'f" where
  "radian2degree F radian = f_div F (f_mul F radian (f_lit F 1800 1)) (f_pi F)"

definition distanceBetween :: "('f, 'z) fp_scheme \<Rightarrow> 'f \<Rightarrow> 'f \<Rightarrow> 'f \<Rightarrow> 'f \<Rightarrow> 'f" where
  "distanceBetween F startLatitude startLongitude endLatitude endLongitude =
     (let dLat = degree2radian F (f_sub F endLatitude startLatitude);
          dLon = degree2radian F (f_sub F endLongitude startLongitude);
          a = f_add F (f_sq F (f_sin F (f_div F dLat (f_int F 2))))
                (f_mul F (f_mul F (f_sq F (f_sin F (f_div F dLon (f_int F 2)))) (f_cos F (degree2radian F startLatitude)))
                   (f_cos F (degree2radian F endLatitude)));
          c = f_mul F (f_int F 2) (f_atan2 F (f_sqrt F a) (f_sqrt F (f_sub F (f_int F 1) a)))
      in f_mul F (f_lit F 63781370 1) c)"

definition bearingBetween :: "('f, 'z) fp_scheme \<Rightarrow> 'f \<Rightarrow> 'f \<Rightarrow> 'f \<Rightarrow> 'f \<Rightarrow> 'f" where
  "bearingBetween F startLatitude startLongitude endLatitude endLongitude =
     (let slon = degree2radian F startLongitude; elon = degree2radian F endLongitude;
          slat = degree2radian F startLatitude; elat = degree2radian F endLatitude;
          y = f_mul F (f_sin F (f_sub F elon slon)) (f_cos F elat);
          x = f_sub F (f_mul F (f_cos F slat) (f_sin F elat))
                (f_mul F (f_mul F (f_sin F slat) (f_cos F elat)) (f_cos F (f_sub F elon slon)))
      in radian2degree F (f_atan2 F y x))"

text \<open>The arrays \<^verbatim>\<open>out\<close> and \<^verbatim>\<open>angle\<close>.\<close>

definition calculateCoordinate :: "('f, 'z) fp_scheme \<Rightarrow> 'f \<times> 'f \<Rightarrow> 'f \<times> 'f \<Rightarrow> 'f \<Rightarrow> ('f \<times> 'f \<times> 'f) \<times> 'f \<times> 'f" where
  "calculateCoordinate F startLatLng endLatLng high =
     (let dist = distanceBetween F (fst startLatLng) (snd startLatLng) (fst endLatLng) (snd endLatLng);
          bearing = bearingBetween F (fst startLatLng) (snd startLatLng) (fst endLatLng) (snd endLatLng);
          x0 = f_mul F dist (f_cos F (degree2radian F bearing));
          y0 = f_mul F dist (f_sin F (degree2radian F bearing));
          x = (if f_less F (f_abs F x0) (f_lit F 1 2) then f_int F 0 else x0);
          y = (if f_less F (f_abs F y0) (f_lit F 1 2) then f_int F 0 else y0)
      in ((x, y, high), radian2degree F (f_atan2 F y x),
          radian2degree F (f_atan2 F high (f_sqrt F (f_add F (f_mul F x x) (f_mul F y y))))))"

record 'f calib =
  res_x :: 'f
  res_y :: 'f
  res_z :: 'f
  res_a :: 'f
  res_e :: 'f
  res_range :: 'f

definition calibPTZ :: "('f, 'z) fp_scheme \<Rightarrow> 'f \<Rightarrow> 'f \<Rightarrow> 'f \<Rightarrow> 'f \<Rightarrow> 'f \<Rightarrow> 'f calib" where
  "calibPTZ F startLat startLng endLat endLng high =
     (case calculateCoordinate F (startLat, startLng) (endLat, endLng) high of
        ((x, y, z), a, e) \<Rightarrow>
          \<lparr>res_x = x, res_y = y, res_z = z, res_a = a, res_e = e,
           res_range = f_sqrt F (f_add F (f_add F (f_mul F x x) (f_mul F y y)) (f_mul F high high))\<rparr>)"

subsection \<open>Lemmas\<close>

lemma pack_field_total:
  assumes "map_of l f = Some n" "base + packed_size l \<le> length pack"
  shows "\<exists>b. pack_field base l f pack = Some b"
proof -
  obtain i where i: "field_off l f = Some i" using assms(1) field_off_iff [of l f] by auto
  from field_in_struct [OF i assms(1)] assms(2) i assms(1) show ?thesis by (simp add: pack_field_def loadn_def)
qed

lemma pack_total:
  assumes "map_of l f = Some n" "base + packed_size l \<le> length pack"
  shows "\<exists>v. pack_u base l f pack = Some v" "\<exists>v. pack_i16 base l f pack = Some v" "\<exists>v. pack_i32 base l f pack = Some v"
  using pack_field_total [OF assms] by (auto simp: pack_u_def pack_i16_def pack_i32_def)

lemma those_map_Some: "\<forall>x \<in> set xs. f x = Some (g x) \<Longrightarrow> those (map f xs) = Some (map g xs)"
  by (induction xs) auto

lemma those_map_None: "x \<in> set xs \<Longrightarrow> f x = None \<Longrightarrow> those (map f xs) = None"
  by (induction xs) (auto split: option.split)

lemma those_map_total:
  assumes "\<forall>x \<in> set xs. \<exists>y. f x = Some y"
  shows "\<exists>ys. those (map f xs) = Some ys \<and> length ys = length xs \<and> (\<forall>i < length xs. f (xs ! i) = Some (ys ! i))"
proof -
  have "\<forall>x \<in> set xs. f x = Some (the (f x))" using assms by auto
  from those_map_Some [OF this] assms show ?thesis by (intro exI [of _ "map (the \<circ> f) xs"]) (auto simp: comp_def)
qed

lemma track_item_size [simp]: "packed_size alink_track_tracked_item = 90"
  by (simp add: packed_size_def alink_track_tracked_item_def)

lemma radar_point_total:
  assumes "i < 128" "length pack = packed_size radar_track_info_packages"
  shows "\<exists>ob. radar_point F pack i = Some ob \<and> ro_z ob = ro_y ob"
proof -
  let ?l = alink_track_tracked_item and ?b = "9 + i * packed_size alink_track_tracked_item"
  have room: "?b + packed_size ?l \<le> length pack" using assms by simp
  have f: "map_of ?l ''id'' = Some 1" "map_of ?l ''alive'' = Some 2" "map_of ?l ''stateType'' = Some 1"
    "map_of ?l ''threatLevel'' = Some 2" "map_of ?l ''azimuth'' = Some 2" "map_of ?l ''elevation'' = Some 2"
    "map_of ?l ''x'' = Some 4" "map_of ?l ''y'' = Some 4" "map_of ?l ''range'' = Some 4"
    by (simp_all add: alink_track_tracked_item_def)
  obtain a b c d where "pack_u ?b ?l ''id'' pack = Some a" "pack_u ?b ?l ''alive'' pack = Some b"
    "pack_u ?b ?l ''stateType'' pack = Some c" "pack_u ?b ?l ''threatLevel'' pack = Some d"
    using pack_total(1) [OF f(1) room] pack_total(1) [OF f(2) room] pack_total(1) [OF f(3) room] pack_total(1) [OF f(4) room]
    by blast
  moreover obtain az el x y rg where "pack_i16 ?b ?l ''azimuth'' pack = Some az" "pack_i16 ?b ?l ''elevation'' pack = Some el"
    "pack_i32 ?b ?l ''x'' pack = Some x" "pack_i32 ?b ?l ''y'' pack = Some y" "pack_u ?b ?l ''range'' pack = Some rg"
    using pack_total(2) [OF f(5) room] pack_total(2) [OF f(6) room] pack_total(3) [OF f(7) room] pack_total(3) [OF f(8) room]
      pack_total(1) [OF f(9) room] by blast
  moreover have "i < ALINK_TARGET_MAX" using assms(1) by (simp add: ALINK_TARGET_MAX_def)
  ultimately show ?thesis unfolding radar_point_def Let_def by (simp add: RadarObj_def)
qed

lemma track_count:
  assumes "length pack = packed_size radar_track_info_packages"
  shows "pack_u 4 alink_track_tracked ''trackObjNum'' pack = Some (uint (pack ! 5))"
proof -
  have "pack_field 4 alink_track_tracked ''trackObjNum'' pack = Some [pack ! 5]"
    using assms by (simp add: pack_field_def alink_track_tracked_def loadn_def take_Suc_conv_app_nth)
  moreover have "uint (b :: u8) < 2 ^ 64" for b
    using uint_lt2p [of b] by simp
  then have "take_bit 64 (uint b) = uint (b :: u8)" for b
    by (simp add: take_bit_int_eq_self)
  ultimately show ?thesis by (simp add: pack_u_def unsigned_ucast_eq)
qed

lemma real_rad [simp]: "degree2radian real_fp x = x * f_pi real_fp / 180"
  by (simp add: degree2radian_def)

lemma real_rad_deg: "degree2radian real_fp (radian2degree real_fp x) = x"
  by (simp add: radian2degree_def degree2radian_def f_pi_def)

lemma arg_one [simp]: "Arg (Complex 1 0) = 0"
  by (rule cis_Arg_unique) (simp_all flip: one_complex.code)

subsection \<open>The sphere\<close>

text \<open>
  The reference the geometry is compared with. A place of latitude \<open>\<phi>\<close> and longitude \<open>\<lambda>\<close> as a point of the unit sphere; and the point that is reached
  from it by the angle \<open>\<delta>\<close> along the great circle that leaves it with bearing \<open>\<theta>\<close>, from the directions to the north and to the east.
\<close>

definition on_sphere :: "real \<Rightarrow> real \<Rightarrow> real \<times> real \<times> real" where
  "on_sphere ph la = (cos ph * cos la, cos ph * sin la, sin ph)"

definition destination :: "real \<Rightarrow> real \<Rightarrow> real \<Rightarrow> real \<Rightarrow> real \<times> real \<times> real" where
  "destination ph la de th =
     (cos de * (cos ph * cos la) + sin de * (cos th * (- sin ph * cos la) + sin th * (- sin la)),
      cos de * (cos ph * sin la) + sin de * (cos th * (- sin ph * sin la) + sin th * cos la),
      cos de * sin ph + sin de * (cos th * cos ph))"

definition snap :: "real \<Rightarrow> real" where
  "snap v = (if \<bar>v\<bar> < 1 / 100 then 0 else v)"

lemma polar: "sqrt (x\<^sup>2 + y\<^sup>2) * cos (Arg (Complex x y)) = x" "sqrt (x\<^sup>2 + y\<^sup>2) * sin (Arg (Complex x y)) = y"
proof -
  have "rcis (sqrt (x\<^sup>2 + y\<^sup>2)) (Arg (Complex x y)) = Complex x y"
    using rcis_cmod_Arg [of "Complex x y"] by (simp add: cmod_def)
  then show "sqrt (x\<^sup>2 + y\<^sup>2) * cos (Arg (Complex x y)) = x" "sqrt (x\<^sup>2 + y\<^sup>2) * sin (Arg (Complex x y)) = y"
    by (simp_all add: rcis_def complex_eq_iff)
qed

text \<open>The dot product of the two points, and what is left of the second one in the plane of the horizon of the first.\<close>

lemma sphere_square:
  fixes a b c d e f :: real
  assumes "a\<^sup>2 + b\<^sup>2 = 1" "c\<^sup>2 + d\<^sup>2 = 1" "e\<^sup>2 + f\<^sup>2 = 1"
  shows "(b * c - a * d * e)\<^sup>2 + (f * d)\<^sup>2 + (a * c + b * d * e)\<^sup>2 = 1"
proof -
  have "(b * c - a * d * e)\<^sup>2 + (f * d)\<^sup>2 + (a * c + b * d * e)\<^sup>2 = (a\<^sup>2 + b\<^sup>2) * c\<^sup>2 + (a\<^sup>2 + b\<^sup>2) * (d\<^sup>2 * e\<^sup>2) + d\<^sup>2 * f\<^sup>2"
    by (simp add: power2_eq_square algebra_simps)
  also have "\<dots> = c\<^sup>2 + d\<^sup>2 * (e\<^sup>2 + f\<^sup>2)" using assms(1) by (simp add: algebra_simps)
  finally show ?thesis using assms(2,3) by simp
qed

lemma half_sine: "(sin (x / 2))\<^sup>2 = (1 - cos x) / (2 :: real)"
  using cos_double_sin [of "x / 2"] by simp

lemma haversine_angle:
  fixes a :: real
  assumes "0 \<le> a" "a \<le> 1"
  defines "c \<equiv> 2 * Arg (Complex (sqrt (1 - a)) (sqrt a))"
  shows "0 \<le> c" "c \<le> pi" "cos c = 1 - 2 * a" "sin c = sqrt (1 - (1 - 2 * a)\<^sup>2)"
proof -
  let ?al = "Arg (Complex (sqrt (1 - a)) (sqrt a))"
  have p: "cos ?al = sqrt (1 - a)" "sin ?al = sqrt a"
    using polar [of "sqrt (1 - a)" "sqrt a"] assms(1,2) by simp_all
  have b: "- pi < ?al" "?al \<le> pi" using Arg_bounded by auto
  have "0 \<le> ?al"
  proof (rule ccontr)
    assume "\<not> 0 \<le> ?al"
    with b have "sin ?al < 0" using sin_lt_zero [of "?al + 2 * pi"] by simp
    with p(2) assms(1) show False by simp
  qed
  moreover have "?al \<le> pi / 2"
  proof (rule ccontr)
    assume "\<not> ?al \<le> pi / 2"
    then have "cos ?al < 0" using b cos_gt_zero_pi [of "pi - ?al"] by simp
    with p(1) assms(2) show False by simp
  qed
  ultimately show "0 \<le> c" "c \<le> pi" by (simp_all add: c_def)
  show "cos c = 1 - 2 * a" using assms(1) p(2) by (simp add: c_def cos_double_sin)
  have "sin c = 2 * (sqrt a * sqrt (1 - a))" by (simp add: c_def sin_double p)
  also have "\<dots> = sqrt 4 * sqrt (a * (1 - a))" by (simp add: real_sqrt_mult)
  also have "\<dots> = sqrt (4 * (a * (1 - a)))" by (simp only: real_sqrt_mult)
  also have "4 * (a * (1 - a)) = 1 - (1 - 2 * a)\<^sup>2" by (simp add: power2_eq_square algebra_simps)
  finally show "sin c = sqrt (1 - (1 - 2 * a)\<^sup>2)" .
qed

lemma distance_bearing:
  "0 \<le> distanceBetween real_fp la lo la' lo' \<and> distanceBetween real_fp la lo la' lo' \<le> 6378137 * pi \<and>
   destination (degree2radian real_fp la) (degree2radian real_fp lo) (distanceBetween real_fp la lo la' lo' / 6378137)
     (degree2radian real_fp (bearingBetween real_fp la lo la' lo')) = on_sphere (degree2radian real_fp la') (degree2radian real_fp lo')"
proof -
  define p1 l1 p2 l2 where "p1 = degree2radian real_fp la" "l1 = degree2radian real_fp lo" "p2 = degree2radian real_fp la'" "l2 = degree2radian real_fp lo'"
  note defs = this
  define D where "D = sin p1 * sin p2 + cos p1 * cos p2 * cos (l2 - l1)"
  define a where "a = (sin ((p2 - p1) / 2))\<^sup>2 + (sin ((l2 - l1) / 2))\<^sup>2 * cos p1 * cos p2"
  define x where "x = cos p1 * sin p2 - sin p1 * cos p2 * cos (l2 - l1)"
  define y where "y = sin (l2 - l1) * cos p2"
  have a: "1 - 2 * a = D"
    by (simp add: a_def D_def half_sine cos_diff [of p2 p1] field_simps)
  have sq: "x\<^sup>2 + y\<^sup>2 + D\<^sup>2 = 1"
    using sphere_square [of "sin p1" "cos p1" "sin p2" "cos p2" "cos (l2 - l1)" "sin (l2 - l1)"]
    by (simp add: x_def y_def D_def)
  then have "D\<^sup>2 \<le> 1" by (smt (verit) zero_le_power2)
  then have "\<bar>D\<bar> \<le> 1" by (simp add: abs_square_le_1)
  then have a01: "0 \<le> a" "a \<le> 1" using a by linarith+
  note h = haversine_angle [OF a01, unfolded a]
  let ?c = "2 * Arg (Complex (sqrt (1 - a)) (sqrt a))"
  have dd: "degree2radian real_fp (u - v) = degree2radian real_fp u - degree2radian real_fp v" for u v
    by (simp add: left_diff_distrib diff_divide_distrib)
  have d: "distanceBetween real_fp la lo la' lo' = 6378137 * ?c"
    unfolding distanceBetween_def Let_def real_fp_simps dd defs [symmetric] by (simp add: a_def)
  have b: "degree2radian real_fp (bearingBetween real_fp la lo la' lo') = Arg (Complex x y)"
    unfolding bearingBetween_def Let_def real_rad_deg unfolding real_fp_simps defs [symmetric] x_def y_def by simp
  have r: "sin ?c * cos (Arg (Complex x y)) = x" "sin ?c * sin (Arg (Complex x y)) = y"
  proof -
    have "1 - D\<^sup>2 = x\<^sup>2 + y\<^sup>2" using sq by simp
    then show "sin ?c * cos (Arg (Complex x y)) = x" "sin ?c * sin (Arg (Complex x y)) = y"
      unfolding h(4) using polar [of x y] by simp_all
  qed
  have one: "(sin p1)\<^sup>2 + (cos p1)\<^sup>2 = 1" by simp
  have z: "D * sin p1 + x * cos p1 = sin p2"
  proof -
    have "D * sin p1 + x * cos p1 = sin p2 * ((sin p1)\<^sup>2 + (cos p1)\<^sup>2)"
      by (simp add: D_def x_def power2_eq_square algebra_simps del: sin_cos_squared_add sin_cos_squared_add2 sin_cos_squared_add3)
    then show ?thesis by simp
  qed
  have w: "D * cos p1 - x * sin p1 = cos p2 * cos (l2 - l1)"
  proof -
    have "D * cos p1 - x * sin p1 = cos p2 * cos (l2 - l1) * ((sin p1)\<^sup>2 + (cos p1)\<^sup>2)"
      by (simp add: D_def x_def power2_eq_square algebra_simps del: sin_cos_squared_add sin_cos_squared_add2 sin_cos_squared_add3)
    then show ?thesis by simp
  qed
  have l2: "cos l2 = cos (l2 - l1) * cos l1 - sin (l2 - l1) * sin l1" "sin l2 = sin (l2 - l1) * cos l1 + cos (l2 - l1) * sin l1"
    using cos_add [of "l2 - l1" l1] sin_add [of "l2 - l1" l1] by simp_all
  have X: "D * (cos p1 * cos l1) + (x * (- sin p1 * cos l1) + y * (- sin l1)) = cos p2 * cos l2"
  proof -
    have "D * (cos p1 * cos l1) + (x * (- sin p1 * cos l1) + y * (- sin l1)) = (D * cos p1 - x * sin p1) * cos l1 - y * sin l1"
      by (simp add: algebra_simps)
    also have "\<dots> = cos p2 * cos l2" unfolding w y_def l2(1) by (simp add: algebra_simps)
    finally show ?thesis .
  qed
  have Y: "D * (cos p1 * sin l1) + (x * (- sin p1 * sin l1) + y * cos l1) = cos p2 * sin l2"
  proof -
    have "D * (cos p1 * sin l1) + (x * (- sin p1 * sin l1) + y * cos l1) = (D * cos p1 - x * sin p1) * sin l1 + y * cos l1"
      by (simp add: algebra_simps)
    also have "\<dots> = cos p2 * sin l2" unfolding w y_def l2(2) by (simp add: algebra_simps)
    finally show ?thesis .
  qed
  have split: "s * (ct * u + st * v) = s * ct * u + s * st * v" for s ct st u v :: real by (simp add: algebra_simps)
  have "destination p1 l1 ?c (Arg (Complex x y)) = on_sphere p2 l2"
    unfolding destination_def on_sphere_def split mult.assoc [symmetric, of "sin ?c" "cos (Arg (Complex x y))" "cos p1"] r h(3)
    using X Y z by simp
  then show ?thesis using h(1,2) unfolding d b defs [symmetric] by simp
qed

lemma calib_polar:
  "res_x (calibPTZ real_fp la lo la' lo' high) =
     snap (distanceBetween real_fp la lo la' lo' * cos (degree2radian real_fp (bearingBetween real_fp la lo la' lo'))) \<and>
   res_y (calibPTZ real_fp la lo la' lo' high) =
     snap (distanceBetween real_fp la lo la' lo' * sin (degree2radian real_fp (bearingBetween real_fp la lo la' lo'))) \<and>
   res_z (calibPTZ real_fp la lo la' lo' high) = high \<and>
   (let r = calibPTZ real_fp la lo la' lo' high; h = sqrt ((res_x r)\<^sup>2 + (res_y r)\<^sup>2)
    in h * cos (degree2radian real_fp (res_a r)) = res_x r \<and> h * sin (degree2radian real_fp (res_a r)) = res_y r \<and>
      res_range r * cos (degree2radian real_fp (res_e r)) = h \<and> res_range r * sin (degree2radian real_fp (res_e r)) = high)"
proof -
  define X Y where "X = snap (distanceBetween real_fp la lo la' lo' * cos (degree2radian real_fp (bearingBetween real_fp la lo la' lo')))"
    "Y = snap (distanceBetween real_fp la lo la' lo' * sin (degree2radian real_fp (bearingBetween real_fp la lo la' lo')))"
  note XY = this
  have r: "calibPTZ real_fp la lo la' lo' high = \<lparr>res_x = X, res_y = Y, res_z = high, res_a = radian2degree real_fp (Arg (Complex X Y)),
      res_e = radian2degree real_fp (Arg (Complex (sqrt (X\<^sup>2 + Y\<^sup>2)) high)), res_range = sqrt (X\<^sup>2 + Y\<^sup>2 + high\<^sup>2)\<rparr>"
    unfolding calibPTZ_def calculateCoordinate_def Let_def XY snap_def by (simp add: power2_eq_square)
  have "(sqrt (X\<^sup>2 + Y\<^sup>2))\<^sup>2 = X\<^sup>2 + Y\<^sup>2" by simp
  then show ?thesis unfolding XY [symmetric]
    using polar [of X Y] polar [of "sqrt (X\<^sup>2 + Y\<^sup>2)" high] by (simp only: r Let_def calib.simps real_rad_deg simp_thms)
qed

text \<open>What \<^verbatim>\<open>radar_2ptz\<close> chooses when no number is asked for.\<close>

lemma radar_2ptz_best:
  assumes "sorts srt" "radar_2ptz srt objs ob0 (-1) g = (g', ob, ret)"
    "useful = {it \<in> set objs. ro_stateType it = 1 \<and> ro_alive it \<ge> 10}"
  shows "(ret > 0 \<longleftrightarrow> useful \<noteq> {}) \<and> (ret > 0 \<longrightarrow> ob \<in> useful \<and> (\<forall>it \<in> useful. ro_threatLevel ob \<le> ro_threatLevel it))"
proof -
  let ?us = "filter (\<lambda>it. ro_stateType it = 1 \<and> ro_alive it \<ge> 10) objs"
  have u: "useful = set ?us" using assms(3) by auto
  consider "?us = []" | x where "?us = [x]" | x y zs where "?us = x # y # zs"
    by (cases ?us rule: remdups_adj.cases) auto
  then show ?thesis
  proof cases
    case 3
    let ?s = "srt ?us"
    have s: "set ?s = set ?us" "length ?s = length ?us" "sorted_wrt (\<lambda>a b. \<not> radar_compare b a) ?s"
      using assms(1) by (auto simp: sorts_def)
    from s(2) 3 obtain h t where h: "?s = h # t" by (cases ?s) auto
    with s(3) have "\<forall>it \<in> set ?s. ro_threatLevel h \<le> ro_threatLevel it" by (auto simp: radar_compare_def)
    moreover have "ob = h" "ret = 2" using assms(2) 3 h by (auto simp: radar_2ptz_def Let_def)
    moreover have "h \<in> set ?us" using h s(1) by (metis list.set_intros(1))
    ultimately show ?thesis using u s(1) by auto
  qed (use assms(2) u in \<open>auto simp: radar_2ptz_def Let_def\<close>)
qed

subsection \<open>Properties\<close>

text \<open>
  Guiding by radar: the head gets a target exactly when one is confirmed, that is of state 1 and at least ten frames
  old, and then a confirmed one whose threat level no other undercuts, the level 1 being the most dangerous; for every
  sorting function the standard allows.
\<close>
theorem radar_2ptz_most_dangerous:
  assumes "sorts srt" "radar_2ptz srt objs ob0 (-1) g = (g', ob, ret)"
    "useful = {it \<in> set objs. ro_stateType it = 1 \<and> ro_alive it \<ge> 10}"
  shows "(ret > 0 \<longleftrightarrow> useful \<noteq> {}) \<and> (ret > 0 \<longrightarrow> ob \<in> useful \<and> (\<forall>it \<in> useful. ro_threatLevel ob \<le> ro_threatLevel it))"
  by (rule radar_2ptz_best [OF assms])

definition ex_obj :: "i32 \<Rightarrow> i32 \<Rightarrow> i32 \<Rightarrow> 64 word radar_obj" where
  "ex_obj i alive th = RadarObj fixed_fp i alive 1 th"

definition insertion_sort :: "64 word radar_obj list \<Rightarrow> 64 word radar_obj list" where
  "insertion_sort = sort_key ro_threatLevel"

lemma insertion_sort_sorts: "sorts insertion_sort"
proof -
  have "sorted_wrt (\<lambda>a b. \<not> radar_compare b a) (insertion_sort xs)" for xs
    using sorted_sort_key [of ro_threatLevel xs] unfolding sorted_map insertion_sort_def radar_compare_def not_less .
  then show ?thesis by (simp add: sorts_def) (simp add: insertion_sort_def)
qed

theorem radar_2ptz_most_dangerous_witness:
  "ro_threatLevel (ex_obj 2 10 1) \<le> ro_threatLevel (ex_obj 1 20 3) \<and> ro_threatLevel (ex_obj 2 10 1) \<le> ro_threatLevel (ex_obj 4 11 2)"
proof -
  let ?objs = "[ex_obj 1 20 3, ex_obj 2 10 1, ex_obj 3 9 0, ex_obj 4 11 2]"
  have r: "radar_2ptz insertion_sort ?objs (ex_obj 0 0 0) (-1) 5 = (-1, ex_obj 2 10 1, 2)"
    by (simp add: radar_2ptz_def insertion_sort_def ex_obj_def RadarObj_def)
  have u: "{ex_obj 1 20 3, ex_obj 2 10 1, ex_obj 4 11 2} = {it \<in> set ?objs. ro_stateType it = 1 \<and> ro_alive it \<ge> 10}"
    by (auto simp: ex_obj_def RadarObj_def)
  from radar_2ptz_most_dangerous [OF insertion_sort_sorts r u] show ?thesis by simp
qed

text \<open>
  When the user follows a target by its number and two or more other targets are confirmed, a lost target is replaced by
  whatever the caller's object held before: a fresh object, with azimuth and elevation zero, counts as found.
\<close>
theorem radar_2ptz_lost_target:
  assumes "sorts srt" "filter (\<lambda>it. ro_stateType it = 1 \<and> ro_alive it \<ge> 10) objs = x # y # zs"
    "\<forall>it \<in> set (x # y # zs). ro_id it \<noteq> ptz_id" "0 \<le> ptz_id"
  shows "\<exists>g'. radar_2ptz srt objs ob0 ptz_id g = (g', ob0, 2)"
proof -
  have keep: "\<forall>it \<in> set l. ro_id it \<noteq> ptz_id \<Longrightarrow> fold (\<lambda>it ob. if ptz_id = ro_id it then it else ob) l ob0 = ob0" for l
    by (induction l) auto
  have "set (srt (x # y # zs)) = set (x # y # zs)" using assms(1) by (simp add: sorts_def)
  with assms(3) have "fold (\<lambda>it ob. if ptz_id = ro_id it then it else ob) (srt (x # y # zs)) ob0 = ob0"
    by (intro keep) auto
  with assms(2,4) show ?thesis by (simp add: radar_2ptz_def Let_def)
qed

theorem radar_2ptz_lost_target_witness:
  "\<exists>g'. radar_2ptz insertion_sort [ex_obj 1 20 3, ex_obj 2 10 1] (RadarObj fixed_fp 0 0 0 0) 7 7 = (g', RadarObj fixed_fp 0 0 0 0, 2)"
  by (rule radar_2ptz_lost_target [OF insertion_sort_sorts, of _ "ex_obj 1 20 3" "ex_obj 2 10 1" "[]"])
    (simp_all add: ex_obj_def RadarObj_def)

text \<open>
  Reading a radar message: with at most 128 targets every one is read, in order, with its height taken from the \<^verbatim>\<open>y\<close> coordinate;
  a larger count, which the byte in the message allows, reads past the array.
\<close>
theorem radar_read_targets:
  assumes "length pack = packed_size radar_track_info_packages" "n = nat (uint (pack ! 5))"
  shows "if n \<le> 128
    then \<exists>objs. radar_read F pack = Some objs \<and> length objs = n \<and>
      (\<forall>i < n. radar_point F pack i = Some (objs ! i) \<and> ro_z (objs ! i) = ro_y (objs ! i))
    else radar_read F pack = None"
proof (cases "n \<le> 128")
  case True
  have "\<exists>ob. radar_point F pack i = Some ob" if "i \<in> set [0..<n]" for i
    using radar_point_total [OF _ assms(1), of i F] that True by auto
  then have "\<forall>i \<in> set [0..<n]. \<exists>ob. radar_point F pack i = Some ob" by blast
  from those_map_total [OF this] obtain objs where objs: "those (map (radar_point F pack) [0..<n]) = Some objs"
    "length objs = n" "\<forall>i < n. radar_point F pack i = Some (objs ! i)" by auto
  moreover have "ro_z (objs ! i) = ro_y (objs ! i)" if "i < n" for i
    using radar_point_total [OF _ assms(1), of i F] objs(3) that True by auto
  ultimately show ?thesis
    using True track_count [OF assms(1)] assms(2) by (auto simp: radar_read_def)
next
  case False
  then have "128 \<in> set [0..<n]" by simp
  moreover have "radar_point F pack 128 = None" by (simp add: radar_point_def ALINK_TARGET_MAX_def)
  ultimately have "those (map (radar_point F pack) [0..<n]) = None" by (rule those_map_None)
  with False track_count [OF assms(1)] assms(2) show ?thesis by (simp add: radar_read_def)
qed

theorem radar_read_targets_witness:
  "radar_read fixed_fp (replicate 5 0 @ [200] @ replicate 11568 0) = None"
proof -
  have n: "nat (uint ((replicate 5 0 @ [200 :: u8] @ replicate 11568 0) ! 5)) = 200" by (simp add: nth_append)
  have l: "length (replicate 5 0 @ [200 :: u8] @ replicate 11568 0) = packed_size radar_track_info_packages" by simp
  from radar_read_targets [OF l refl, of fixed_fp] show ?thesis unfolding n by simp
qed

text \<open>
  Tracer targets are not ranked: of several, the first is chosen, whatever its danger level, although the comment
  promises the most dangerous.
\<close>
theorem tracer_2ptz_takes_first:
  "tracer_2ptz (x # y # zs) ob0 = (x, 2) \<and> tracer_2ptz [x] ob0 = (x, 1) \<and> tracer_2ptz [] ob0 = (ob0, 0)"
  by (simp add: tracer_2ptz_def)

text \<open>
  C21. The geometry, in the exact arithmetic of the real numbers on a sphere of radius 6378137 m, so without the rounding of \<^verbatim>\<open>double\<close>:
  \<^verbatim>\<open>distanceBetween\<close> and \<^verbatim>\<open>bearingBetween\<close> are right, for any two places: whoever starts at the first place in the direction of the bearing and goes the
  distance along the great circle, which is at most half of it, arrives at the second place. \<^verbatim>\<open>calibPTZ\<close> turns them into
  coordinates north and east of the camera, in which less than a centimetre becomes zero, takes over the height, and gives as azimuth,
  elevation and range the polar coordinates of that point.
\<close>
theorem geometry_is_spherical:
  "let rad = degree2radian real_fp; d = distanceBetween real_fp la lo la' lo'; b = rad (bearingBetween real_fp la lo la' lo');
     r = calibPTZ real_fp la lo la' lo' high; h = sqrt ((res_x r)\<^sup>2 + (res_y r)\<^sup>2)
   in 0 \<le> d \<and> d \<le> 6378137 * pi \<and> destination (rad la) (rad lo) (d / 6378137) b = on_sphere (rad la') (rad lo') \<and>
     res_x r = snap (d * cos b) \<and> res_y r = snap (d * sin b) \<and> res_z r = high \<and>
     h * cos (rad (res_a r)) = res_x r \<and> h * sin (rad (res_a r)) = res_y r \<and>
     res_range r * cos (rad (res_e r)) = h \<and> res_range r * sin (rad (res_e r)) = high"
  unfolding Let_def using distance_bearing [of la lo la' lo'] calib_polar [of la lo la' lo' high, unfolded Let_def] by blast

text \<open>One degree to the east on the equator is the 360th part of it, up to the precision of the literal for \<open>\<pi>\<close>.\<close>

theorem geometry_is_spherical_witness:
  "distanceBetween real_fp 0 0 0 1 = 6378137 * (f_pi real_fp / 180)"
proof -
  let ?d = "distanceBetween real_fp 0 0 0 1" and ?t = "f_pi real_fp / 180"
  have "0 \<le> ?d \<and> ?d \<le> 6378137 * pi \<and> destination (degree2radian real_fp 0) (degree2radian real_fp 0) (?d / 6378137)
      (degree2radian real_fp (bearingBetween real_fp 0 0 0 1)) = on_sphere (degree2radian real_fp 0) (degree2radian real_fp 1)"
    using geometry_is_spherical [of 0 0 0 1 0] by (simp only: Let_def simp_thms)
  then have d: "0 \<le> ?d / 6378137" "?d / 6378137 \<le> pi" "cos (?d / 6378137) = cos ?t"
    by (simp_all add: destination_def on_sphere_def)
  have "0 \<le> ?t" "?t \<le> 2" by (simp_all add: f_pi_def)
  with pi_ge_two have t: "0 \<le> ?t" "?t \<le> pi" by simp_all
  from cos_inj_pi [OF d(1,2) t d(3)] show ?thesis by simp
qed

end
