(* ===== verification/Skyfend_Tools.thy ===== *)
theory Skyfend_Tools
  imports Sysport_Task
begin

text \<open>
  The helpers of \<^verbatim>\<open>common/tools/skyfend_tools.c\<close> (the allocator is in \<open>Sysport_Task\<close>): byte order, BCD,
  strings and numbers, directories, and threads.

  A C string is a list of characters without the terminating zero. The file system and the thread library
  are arguments, as functions of their state or as the answers they give.
\<close>

subsection \<open>Numbers\<close>

definition u32_reverse_byte_order :: "u32 \<Rightarrow> u32" where
  "u32_reverse_byte_order num =
     drop_bit 24 (push_bit 0 (num AND 0xFF000000)) + drop_bit 16 (push_bit 8 (num AND 0xFF0000))
     + drop_bit 8 (push_bit 16 (num AND 0xFF00)) + drop_bit 0 (push_bit 24 (num AND 0xFF))"

text \<open>The operands are promoted to \<^verbatim>\<open>int\<close>; each assignment truncates to 16 bits.\<close>

definition u16_reverse_byte_order :: "u16 \<Rightarrow> u16" where
  "u16_reverse_byte_order num =
     (let t = ucast num :: u32; n = ucast (drop_bit 8 (t AND 0xFF00)) :: u16
      in ucast ((ucast n :: u32) + push_bit 8 (t AND 0xFF)))"

definition bcd_to_decimal :: "u8 \<Rightarrow> u8" where
  "bcd_to_decimal data = drop_bit 4 data * 10 + (data AND 0x0F)"

definition decimal_to_bcd :: "u8 \<Rightarrow> u8" where
  "decimal_to_bcd data = push_bit 4 (data div 10) + data mod 10"

text \<open>A union of a word and a byte at the same address, on a little-endian CPU.\<close>

definition check_cpu_little_endian :: bool where
  "check_cpu_little_endian \<longleftrightarrow> hd (le_bytes 4 (1 :: u32)) = 1"

subsection \<open>Strings\<close>

definition is_digit :: "char \<Rightarrow> bool" where
  "is_digit c \<longleftrightarrow> 48 \<le> (of_char c :: nat) \<and> (of_char c :: nat) \<le> 57"

definition digit_val :: "char \<Rightarrow> int" where
  "digit_val c = int (of_char c) - 48"

text \<open>\<open>None\<close> is the overflow of the \<^verbatim>\<open>int\<close> accumulator.\<close>

fun atoi_digits :: "string \<Rightarrow> int \<Rightarrow> int option" where
  "atoi_digits [] numb = Some numb"
| "atoi_digits (c # s) numb =
     (if is_digit c then
        (let n = numb * 10 + digit_val c in if n < 2147483648 then atoi_digits s n else None)
      else Some numb)"

definition skyfend_atoi :: "string option \<Rightarrow> int option" where
  "skyfend_atoi str =
     (case str of
        None \<Rightarrow> Some 0
      | Some s \<Rightarrow>
          (case dropWhile (\<lambda>c. CHR ''-'' \<noteq> c \<and> CHR ''+'' \<noteq> c \<and> \<not> is_digit c) s of
             [] \<Rightarrow> Some 0
           | c # s' \<Rightarrow>
               if c = CHR ''-'' then map_option (\<lambda>n. - n) (atoi_digits s' 0)
               else if c = CHR ''+'' then atoi_digits s' 0
               else atoi_digits (c # s') 0))"

text \<open>\<^verbatim>\<open>char\<close> is signed: bytes from 128 on are negative. Every three of them count as two.\<close>

definition skyfend_strlen :: "string \<Rightarrow> nat" where
  "skyfend_strlen str =
     (if 0 < length str then length str - length (filter (\<lambda>c. 128 \<le> (of_char c :: nat)) str) div 3 else 0)"

definition tolower_c :: "u8 \<Rightarrow> u8" where
  "tolower_c c = (if 65 \<le> c \<and> c \<le> 90 then c + 32 else c)"

fun strnlwr_loop :: "bytes \<Rightarrow> bytes \<Rightarrow> nat \<Rightarrow> nat \<Rightarrow> bytes option" where
  "strnlwr_loop dest src i 0 = Some dest"
| "strnlwr_loop dest src i (Suc k) = do {
     c \<leftarrow> load8 src i;
     d \<leftarrow> storen dest i [tolower_c c];
     strnlwr_loop d src (Suc i) k }"

definition skyfend_strnlwr :: "bytes option \<Rightarrow> bytes option \<Rightarrow> nat \<Rightarrow> (bytes option \<times> i32) option" where
  "skyfend_strnlwr dest src n =
     (case (dest, src) of
        (Some d, Some s) \<Rightarrow> map_option (\<lambda>d'. (Some d', 0)) (strnlwr_loop d s 0 n)
      | _ \<Rightarrow> Some (dest, -1))"

subsection \<open>Directories\<close>

definition MAX_LEN_PATH :: nat where "MAX_LEN_PATH = 512"

text \<open>
  \<^verbatim>\<open>mkdir_p\<close>: \<open>acc\<close> is \<^verbatim>\<open>access(path, F_OK) == 0\<close>, \<open>mk\<close> is \<^verbatim>\<open>mkdir\<close>. The loop visits each slash of the
  path, which ends in one, and creates the directory in front of it. An empty path is indexed at -1.
\<close>

fun mkdir_loop :: "('d \<Rightarrow> string \<Rightarrow> bool) \<Rightarrow> ('d \<Rightarrow> string \<Rightarrow> 'd \<times> i32) \<Rightarrow> string \<Rightarrow> string \<Rightarrow> 'd \<Rightarrow> 'd \<times> i32" where
  "mkdir_loop acc mk pre [] fs = (fs, 0)"
| "mkdir_loop acc mk pre (c # s) fs =
     (if c = CHR ''/'' \<and> \<not> acc fs pre then
        (case mk fs pre of (fs', r) \<Rightarrow> if r \<noteq> 0 then (fs', -1) else mkdir_loop acc mk (pre @ [c]) s fs')
      else mkdir_loop acc mk (pre @ [c]) s fs)"

definition mkdir_p :: "('d \<Rightarrow> string \<Rightarrow> bool) \<Rightarrow> ('d \<Rightarrow> string \<Rightarrow> 'd \<times> i32) \<Rightarrow> string option \<Rightarrow> 'd \<Rightarrow> ('d \<times> i32) option" where
  "mkdir_p acc mk path fs =
     (case path of
        None \<Rightarrow> Some (fs, -1)
      | Some p \<Rightarrow>
          if acc fs p then Some (fs, 0)
          else if MAX_LEN_PATH \<le> length p then Some (fs, -1)
          else if p = [] then None
          else Some (mkdir_loop acc mk [] (if last p \<noteq> CHR ''/'' then p @ ''/'' else p) fs))"

text \<open>
  Directory trees for the two recursive walks: a directory lists its entries in the order \<^verbatim>\<open>readdir\<close> gives
  them; names that start with a dot are skipped. Paths are assumed to fit into the 512-byte buffer.
\<close>

datatype ftree = File | Dir "(string \<times> ftree) list"

definition hidden :: "string \<Rightarrow> bool" where
  "hidden name \<longleftrightarrow> name \<noteq> [] \<and> hd name = CHR ''.''"

fun count_files :: "(string \<times> ftree) list \<Rightarrow> nat" where
  "count_files [] = 0"
| "count_files ((name, t) # es) =
     (if hidden name then 0 else case t of File \<Rightarrow> 1 | Dir ds \<Rightarrow> count_files ds) + count_files es"

fun list_files :: "string \<Rightarrow> (string \<times> ftree) list \<Rightarrow> string list" where
  "list_files src_dir [] = []"
| "list_files src_dir ((name, t) # es) =
     (if hidden name then []
      else case t of File \<Rightarrow> [src_dir @ ''/'' @ name] | Dir ds \<Rightarrow> list_files (src_dir @ ''/'' @ name) ds)
     @ list_files src_dir es"

text \<open>
  \<^verbatim>\<open>get_all_filename_from_dir\<close> when every allocation succeeds: the first walk adds to the caller's \<^verbatim>\<open>*num\<close>,
  the second starts from zero and fills the array; writing past its end is \<open>None\<close>. The result is the new
  \<^verbatim>\<open>*num\<close>, the array if it was set, and the return value.
\<close>

definition get_all_filename_from_dir ::
  "(string \<Rightarrow> (string \<times> ftree) list option) \<Rightarrow> string option \<Rightarrow> nat \<Rightarrow> (nat \<times> string list option \<times> i32) option" where
  "get_all_filename_from_dir opendir src_dir num =
     (case src_dir of
        None \<Rightarrow> Some (num, None, -1)
      | Some d \<Rightarrow>
          case opendir d of
            None \<Rightarrow> Some (num, None, -1)
          | Some es \<Rightarrow>
              let n = num + count_files es in
              if n = 0 then Some (n, None, 0)
              else
                let fs = list_files d es in
                if length fs \<le> n then Some (length fs, Some fs, 0) else None)"

text \<open>
  \<^verbatim>\<open>rm_all_file\<close> on the entries of a directory. \<open>unlink_ok\<close> says which files can be removed; \<^verbatim>\<open>rmdir\<close> removes
  an empty directory. The result is what is left and the return value \<^verbatim>\<open>ret\<close>, which the loop carries along:
  a failed subdirectory does not stop it.
\<close>

fun rm_entries :: "(string \<Rightarrow> bool) \<Rightarrow> (string \<times> ftree) list \<Rightarrow> i32 \<Rightarrow> (string \<times> ftree) list \<times> i32" where
  "rm_entries unlink_ok [] ret = ([], ret)"
| "rm_entries unlink_ok ((name, t) # es) ret =
     (if hidden name then (case rm_entries unlink_ok es ret of (l, r) \<Rightarrow> ((name, t) # l, r))
      else case t of
        File \<Rightarrow>
          if unlink_ok name then rm_entries unlink_ok es ret
          else ((name, t) # es, -1)
      | Dir ds \<Rightarrow>
          case rm_entries unlink_ok ds 0 of
            (ds', r) \<Rightarrow>
              if r = 0 then
                (if ds' = [] then rm_entries unlink_ok es 0 else ((name, Dir ds') # es, -1))
              else (case rm_entries unlink_ok es r of (l, r') \<Rightarrow> ((name, Dir ds') # l, r')))"

definition rm_all_file_in_dir :: "(string \<Rightarrow> bool) \<Rightarrow> (string \<times> ftree) list \<Rightarrow> bool \<Rightarrow> (string \<times> ftree) list option \<times> i32" where
  "rm_all_file_in_dir unlink_ok es flg_rmdir =
     (case rm_entries unlink_ok es 0 of
        (l, r) \<Rightarrow>
          if r \<noteq> 0 then (Some l, r)
          else if flg_rmdir then (if l = [] then (None, 0) else (Some l, -1))
          else (Some l, 0))"

subsection \<open>Threads and time\<close>

datatype task_opt = TASK_OPT_CREATE | TASK_OPT_CHECK_ALIVE | TASK_OPT_WAIT

definition ESRCH :: i32 where "ESRCH = 3"

text \<open>
  \<open>answers\<close> are the results of \<^verbatim>\<open>pthread_create\<close>, \<^verbatim>\<open>pthread_kill\<close> or \<^verbatim>\<open>pthread_join\<close>, one per task. The result
  of \<^verbatim>\<open>pthread_create\<close> is not assigned to \<^verbatim>\<open>ret\<close>.
\<close>

fun check_alive :: "i32 list \<Rightarrow> i32 \<Rightarrow> i32" where
  "check_alive [] ret = ret"
| "check_alive (a # as) ret = check_alive as (if a = ESRCH then -1 else 0)"

fun create_tasks :: "i32 list \<Rightarrow> i32 \<Rightarrow> i32" where
  "create_tasks [] ret = ret"
| "create_tasks (a # as) ret = (if 0 \<noteq> ret then -1 else create_tasks as ret)"

definition opt_thread_task :: "i32 list \<Rightarrow> task_opt \<Rightarrow> i32" where
  "opt_thread_task answers opt =
     (case opt of
        TASK_OPT_CHECK_ALIVE \<Rightarrow> check_alive answers 0
      | TASK_OPT_CREATE \<Rightarrow> create_tasks answers 0
      | TASK_OPT_WAIT \<Rightarrow> 0)"

text \<open>\<open>sel\<close> is the answer of \<^verbatim>\<open>select\<close> for the seconds and microseconds it is given.\<close>

definition skyfend_msleep :: "(nat \<Rightarrow> nat \<Rightarrow> i32) \<Rightarrow> u64 \<Rightarrow> i32" where
  "skyfend_msleep sel ms = (if sel (unat (ms div 1000)) (unat ((ms mod 1000) * 1000)) \<noteq> 0 then -1 else 0)"

text \<open>
  \<^verbatim>\<open>read_file\<close>: \<open>contents\<close> is the file, if it can be opened. When the allocation fails the code still reads
  into the null pointer, which is \<open>None\<close>.
\<close>

definition read_file :: "bool \<Rightarrow> bytes option \<Rightarrow> int \<Rightarrow> (bytes option \<times> int) option" where
  "read_file avail contents cnt =
     (case contents of
        None \<Rightarrow> Some (None, cnt)
      | Some f \<Rightarrow>
          if 0 < length f then
            (case skyfend_malloc avail (length f) cnt of
               (None, cnt') \<Rightarrow> None
             | (Some data, cnt') \<Rightarrow> map_option (\<lambda>d. (Some d, cnt')) (storen data 0 f))
          else Some (None, cnt))"

subsection \<open>Lemmas\<close>

lemma byte_masks:
  "(0xFF000000 :: u32) = push_bit 24 (mask 8)" "(0xFF0000 :: u32) = push_bit 16 (mask 8)"
  "(0xFF00 :: u32) = push_bit 8 (mask 8)" "(0xFF :: u32) = mask 8"
  by (simp_all add: mask_eq_exp_minus_1 push_bit_eq_mult)

lemma bit_byte_part:
  "bit (drop_bit 24 (push_bit 0 (w AND 0xFF000000)) :: u32) n \<longleftrightarrow> n < 8 \<and> bit w (24 + n)"
  "bit (drop_bit 16 (push_bit 8 (w AND 0xFF0000)) :: u32) n \<longleftrightarrow> 8 \<le> n \<and> n < 16 \<and> bit w (8 + n)"
  "bit (drop_bit 8 (push_bit 16 (w AND 0xFF00)) :: u32) n \<longleftrightarrow> 16 \<le> n \<and> n < 24 \<and> bit w (n - 8)"
  "bit (drop_bit 0 (push_bit 24 (w AND 0xFF)) :: u32) n \<longleftrightarrow> 24 \<le> n \<and> n < 32 \<and> bit w (n - 24)"
  unfolding byte_masks by (auto simp: bit_simps not_le dest: bit_imp_le_length)

lemma u32_reverse_or:
  "u32_reverse_byte_order w =
     ((drop_bit 24 (push_bit 0 (w AND 0xFF000000)) OR drop_bit 16 (push_bit 8 (w AND 0xFF0000)))
      OR drop_bit 8 (push_bit 16 (w AND 0xFF00))) OR drop_bit 0 (push_bit 24 (w AND 0xFF))"
  unfolding u32_reverse_byte_order_def
  by (subst disjunctive_add, force simp only: bit_byte_part bit_or_iff)+ simp

lemma bit_u32_reverse_parts:
  "bit (u32_reverse_byte_order w) n \<longleftrightarrow> n < 8 \<and> bit w (24 + n) \<or> 8 \<le> n \<and> n < 16 \<and> bit w (8 + n) \<or>
     16 \<le> n \<and> n < 24 \<and> bit w (n - 8) \<or> 24 \<le> n \<and> n < 32 \<and> bit w (n - 24)"
  unfolding u32_reverse_or bit_or_iff bit_byte_part by blast

lemma bit_u32_reverse:
  "bit (u32_reverse_byte_order w) n \<longleftrightarrow> n < 32 \<and> bit w (8 * (3 - n div 8) + n mod 8)"
proof (cases "n < 32")
  case True
  have "n div 8 \<in> {0, 1, 2, 3}" "n = 8 * (n div 8) + n mod 8" using True by auto
  then consider "n < 8" | "8 \<le> n" "n < 16" | "16 \<le> n" "n < 24" | "24 \<le> n" by linarith
  then show ?thesis
  proof cases
    case 1
    then show ?thesis by (simp add: bit_u32_reverse_parts)
  next
    case 2
    then have "n div 8 = 1" by (simp add: div_nat_eqI)
    moreover from this have "8 + n = 16 + n mod 8" using div_mult_mod_eq [of n 8] by linarith
    then have "bit w (8 + n) = bit w (16 + n mod 8)" by (rule arg_cong)
    ultimately show ?thesis using 2 by (simp add: bit_u32_reverse_parts)
  next
    case 3
    then have "n div 8 = 2" by (simp add: div_nat_eqI)
    moreover from this have "n - 8 = 8 + n mod 8" using div_mult_mod_eq [of n 8] by simp
    ultimately show ?thesis using 3 by (simp add: bit_u32_reverse_parts)
  next
    case 4
    with True have "n div 8 = 3" by (simp add: div_nat_eqI)
    moreover from this have "n - 24 = n mod 8" using div_mult_mod_eq [of n 8] by simp
    ultimately show ?thesis using 4 True by (simp add: bit_u32_reverse_parts)
  qed
next
  case False
  then show ?thesis using bit_imp_le_length [of "u32_reverse_byte_order w" n] by auto
qed

lemma u32_reverse_bytes: "le_bytes 4 (u32_reverse_byte_order w) = rev (le_bytes 4 w)"
proof (rule nth_equalityI)
  fix i assume "i < length (le_bytes 4 (u32_reverse_byte_order w))"
  then have i: "i < 4" by simp
  show "le_bytes 4 (u32_reverse_byte_order w) ! i = rev (le_bytes 4 w) ! i"
  proof (rule bit_word_eqI)
    fix k assume "k < LENGTH(8)"
    then have k: "k < 8" by simp
    have "(8 * i + k) div 8 = i" "(8 * i + k) mod 8 = k" "8 * i + k < 32" using i k by simp_all
    then show "bit (le_bytes 4 (u32_reverse_byte_order w) ! i) k = bit (rev (le_bytes 4 w) ! i) k"
      using i k by (simp add: rev_nth nth_le_bytes bit_simps bit_u32_reverse)
  qed
qed simp

lemma bcd_roundtrip_all:
  "\<forall>k \<in> set [0..<100]. bcd_to_decimal (decimal_to_bcd (of_nat k)) = of_nat k"
  by code_simp

text \<open>Decimal numerals.\<close>

definition digits_val :: "string \<Rightarrow> int" where
  "digits_val ds = foldl (\<lambda>n c. n * 10 + digit_val c) 0 ds"

lemma digit_val_nonneg: "is_digit c \<Longrightarrow> 0 \<le> digit_val c \<and> digit_val c \<le> 9"
  unfolding is_digit_def digit_val_def by linarith

lemma foldl_digits_ge:
  "\<forall>c \<in> set ds. is_digit c \<Longrightarrow> 0 \<le> n \<Longrightarrow> n \<le> foldl (\<lambda>n c. n * 10 + digit_val c) n ds"
proof (induction ds arbitrary: n)
  case (Cons c ds)
  then have "0 \<le> digit_val c" by (simp add: digit_val_nonneg)
  with Cons.prems have n: "n \<le> n * 10 + digit_val c" "0 \<le> n * 10 + digit_val c" by linarith+
  note n(1)
  also have "n * 10 + digit_val c \<le> foldl (\<lambda>n c. n * 10 + digit_val c) (n * 10 + digit_val c) ds"
    using Cons n(2) by simp
  finally show ?case by simp
qed simp

lemma atoi_digits_val:
  assumes "\<forall>c \<in> set ds. is_digit c" "rest = [] \<or> \<not> is_digit (hd rest)" "0 \<le> n"
    "foldl (\<lambda>n c. n * 10 + digit_val c) n ds < 2147483648"
  shows "atoi_digits (ds @ rest) n = Some (foldl (\<lambda>n c. n * 10 + digit_val c) n ds)"
  using assms
proof (induction ds arbitrary: n)
  case Nil
  then show ?case by (cases rest) auto
next
  case (Cons c ds)
  let ?n = "n * 10 + digit_val c"
  have "0 \<le> ?n" using Cons.prems digit_val_nonneg [of c] by simp
  moreover from this have "?n < 2147483648"
    using foldl_digits_ge [of ds ?n] Cons.prems by (simp add: order_le_less_trans)
  ultimately show ?case using Cons by (simp add: Let_def)
qed

lemma skyfend_atoi_number:
  assumes "\<forall>c \<in> set pre. CHR ''-'' \<noteq> c \<and> CHR ''+'' \<noteq> c \<and> \<not> is_digit c" "ds \<noteq> []" "\<forall>c \<in> set ds. is_digit c"
    "rest = [] \<or> \<not> is_digit (hd rest)" "digits_val ds < 2147483648"
  shows "skyfend_atoi (Some (pre @ ds @ rest)) = Some (digits_val ds)"
    "skyfend_atoi (Some (pre @ CHR ''-'' # ds @ rest)) = Some (- digits_val ds)"
proof -
  let ?P = "\<lambda>c. CHR ''-'' \<noteq> c \<and> CHR ''+'' \<noteq> c \<and> \<not> is_digit c"
  have d: "dropWhile ?P (pre @ xs) = dropWhile ?P xs" for xs using assms(1) by (induction pre) auto
  obtain c ds' where c: "ds = c # ds'" using assms(2) by (cases ds) auto
  have "c \<noteq> CHR ''-''" "c \<noteq> CHR ''+''" using assms(3) by (auto simp: c is_digit_def)
  moreover have "atoi_digits (ds @ rest) 0 = Some (digits_val ds)"
    unfolding digits_val_def using assms by (intro atoi_digits_val) (simp_all add: digits_val_def)
  ultimately show "skyfend_atoi (Some (pre @ ds @ rest)) = Some (digits_val ds)"
    "skyfend_atoi (Some (pre @ CHR ''-'' # ds @ rest)) = Some (- digits_val ds)"
    using assms(3) by (simp_all add: skyfend_atoi_def d c)
qed

text \<open>Directories.\<close>

lemma length_list_files: "length (list_files d es) = count_files es"
  by (induction d es rule: list_files.induct) (auto split: ftree.split)

fun visible :: "(string \<Rightarrow> bool) \<Rightarrow> (string \<times> ftree) list \<Rightarrow> bool" where
  "visible unlink_ok [] \<longleftrightarrow> True"
| "visible unlink_ok ((name, t) # es) \<longleftrightarrow> \<not> hidden name \<and>
     (case t of File \<Rightarrow> unlink_ok name | Dir ds \<Rightarrow> visible unlink_ok ds) \<and> visible unlink_ok es"

lemma rm_entries_visible: "visible unlink_ok es \<Longrightarrow> rm_entries unlink_ok es 0 = ([], 0)"
proof (induction unlink_ok es rule: visible.induct)
  case (2 unlink_ok name t es)
  then show ?case by (cases t) auto
qed simp

lemma mkdir_loop_mono:
  assumes "\<And>fs p fs' r q. mk fs p = (fs', r) \<Longrightarrow> acc fs q \<Longrightarrow> acc fs' q"
  shows "mkdir_loop acc mk pre s fs = (fs', r) \<Longrightarrow> acc fs q \<Longrightarrow> acc fs' q"
proof (induction s arbitrary: pre fs)
  case (Cons c s)
  show ?case
  proof (cases "c = CHR ''/'' \<and> \<not> acc fs pre")
    case True
    obtain fs1 r1 where m: "mk fs pre = (fs1, r1)" by (cases "mk fs pre")
    have "acc fs1 q" using assms [OF m] Cons.prems(2) by simp
    with Cons True m show ?thesis by (auto split: if_splits)
  next
    case False
    with Cons show ?thesis by auto
  qed
qed simp

lemma mkdir_loop_creates:
  assumes "\<And>fs p fs' r q. mk fs p = (fs', r) \<Longrightarrow> acc fs q \<Longrightarrow> acc fs' q"
    "\<And>fs p fs'. mk fs p = (fs', 0) \<Longrightarrow> acc fs' p"
  shows "mkdir_loop acc mk pre s fs = (fs', 0) \<Longrightarrow> i < length s \<Longrightarrow> s ! i = CHR ''/'' \<Longrightarrow> acc fs' (pre @ take i s)"
proof (induction s arbitrary: pre fs i)
  case (Cons c s)
  obtain fs1 where fs1: "mkdir_loop acc mk (pre @ [c]) s fs1 = (fs', 0)" "c = CHR ''/'' \<Longrightarrow> acc fs1 pre"
  proof (cases "c = CHR ''/'' \<and> \<not> acc fs pre")
    case True
    obtain fs1 r1 where m: "mk fs pre = (fs1, r1)" by (cases "mk fs pre")
    with True Cons.prems have "r1 = 0" "mkdir_loop acc mk (pre @ [c]) s fs1 = (fs', 0)" by (auto split: if_splits)
    with assms(2) m that show ?thesis by blast
  next
    case False
    with Cons.prems that show ?thesis by auto
  qed
  show ?case
  proof (cases i)
    case 0
    with Cons.prems fs1 mkdir_loop_mono [OF assms(1) fs1(1)] show ?thesis by auto
  next
    case (Suc j)
    with Cons.IH [OF fs1(1), of j] Cons.prems show ?thesis by simp
  qed
qed simp

subsection \<open>Properties\<close>

text \<open>
  \<^verbatim>\<open>u32_reverse_byte_order\<close> reverses the bytes of a word, whatever the additions and shifts look like,
  and so undoes itself; the BCD conversions undo each other on two-digit numbers.
\<close>
theorem byte_order_and_bcd_roundtrip:
  "le_bytes 4 (u32_reverse_byte_order w) = rev (le_bytes 4 w) \<and>
   u32_reverse_byte_order (u32_reverse_byte_order w) = w \<and>
   (k < 100 \<longrightarrow> bcd_to_decimal (decimal_to_bcd (of_nat k)) = of_nat k)"
proof (intro conjI impI)
  show "le_bytes 4 (u32_reverse_byte_order w) = rev (le_bytes 4 w)" by (rule u32_reverse_bytes)
  have "le_bytes 4 (u32_reverse_byte_order (u32_reverse_byte_order w)) = le_bytes 4 w"
    by (simp only: u32_reverse_bytes rev_rev_ident)
  then have "of_le (le_bytes 4 (u32_reverse_byte_order (u32_reverse_byte_order w))) = (of_le (le_bytes 4 w) :: u32)"
    by (rule arg_cong)
  then show "u32_reverse_byte_order (u32_reverse_byte_order w) = w"
    by (simp only: of_le_le_bytes [where 'a = 32 and n = 4, simplified])
  show "bcd_to_decimal (decimal_to_bcd (of_nat k)) = of_nat k" if "k < 100"
    using bcd_roundtrip_all that by simp
qed

theorem byte_order_and_bcd_roundtrip_witness:
  "u32_reverse_byte_order (u32_reverse_byte_order 0x11223344) = 0x11223344 \<and>
   bcd_to_decimal (decimal_to_bcd (of_nat 59)) = of_nat 59"
  using byte_order_and_bcd_roundtrip [of "0x11223344" 59] by simp

text \<open>
  A directory path that starts with a slash cannot be created: the loop first asks for the directory
  with the empty name, which no file system has, and gives up.
\<close>
theorem mkdir_p_absolute_fails:
  assumes "\<not> acc fs (CHR ''/'' # p)" "length p < 511" "\<not> acc fs []" "snd (mk fs []) \<noteq> 0"
  shows "mkdir_p acc mk (Some (CHR ''/'' # p)) fs = Some (fst (mk fs []), -1)"
  using assms by (auto simp: mkdir_p_def MAX_LEN_PATH_def split: prod.split)

theorem mkdir_p_absolute_fails_witness:
  "mkdir_p (\<lambda>fs q. q \<in> set fs) (\<lambda>fs q. if q = [] then (fs, -1) else (q # fs, 0)) (Some ''/data/log'') [] = Some ([], -1)"
  using mkdir_p_absolute_fails [of "\<lambda>fs q. q \<in> set fs" "[]" "''data/log''"
      "\<lambda>fs q. if q = [] then (fs, -1) else (q # fs, 0)"] by simp

text \<open>
  When \<^verbatim>\<open>mkdir_p\<close> reports success for a path that did not exist, the directory and every directory on the
  way to it exist, in every file system where a created directory exists and creating one removes none.
\<close>
theorem mkdir_p_creates:
  assumes "mkdir_p acc mk (Some p) fs = Some (fs', 0)" "\<not> acc fs p" "last p \<noteq> CHR ''/''"
    "\<And>fs p fs' r q. mk fs p = (fs', r) \<Longrightarrow> acc fs q \<Longrightarrow> acc fs' q"
    "\<And>fs p fs'. mk fs p = (fs', 0) \<Longrightarrow> acc fs' p"
  shows "acc fs' p \<and> (\<forall>i < length p. p ! i = CHR ''/'' \<longrightarrow> acc fs' (take i p))"
proof -
  have l: "mkdir_loop acc mk [] (p @ ''/'') fs = (fs', 0)"
    using assms(1-3) by (auto simp: mkdir_p_def split: if_splits)
  show ?thesis
    using mkdir_loop_creates [OF assms(4,5) l, where i = "length p"] mkdir_loop_creates [OF assms(4,5) l]
    by (auto simp: nth_append)
qed

theorem mkdir_p_creates_witness:
  "mkdir_p (\<lambda>fs q. q \<in> set fs) (\<lambda>fs q. if q = [] then (fs, -1) else (q # fs, 0)) (Some ''a/b'') [] = Some ([''a/b'', ''a''], 0) \<and>
    ''a/b'' \<in> set [''a/b'', ''a''] \<and> take 1 ''a/b'' \<in> set [''a/b'', ''a'']"
proof -
  let ?mk = "\<lambda>fs q. if q = [] then (fs, -1) else (q # fs, 0)"
  have m: "mkdir_p (\<lambda>fs q. q \<in> set fs) ?mk (Some ''a/b'') [] = Some ([''a/b'', ''a''], 0)"
    by (simp add: mkdir_p_def MAX_LEN_PATH_def)
  have "(''a/b'' \<in> set [''a/b'', ''a'']) \<and> (\<forall>i < length ''a/b''. ''a/b'' ! i = CHR ''/'' \<longrightarrow> take i ''a/b'' \<in> set [''a/b'', ''a''])"
    by (rule mkdir_p_creates [OF m]) (auto split: if_splits)
  with m show ?thesis by (auto simp: numeral_eq_Suc)
qed

text \<open>
  Starting threads never reports a failure: the result of \<^verbatim>\<open>pthread_create\<close> is dropped. Checking them
  reports the state of the last one only.
\<close>
theorem opt_thread_task_reports:
  "opt_thread_task answers TASK_OPT_CREATE = 0 \<and>
   opt_thread_task (answers @ [a]) TASK_OPT_CHECK_ALIVE = (if a = ESRCH then -1 else 0)"
proof -
  have "create_tasks as 0 = 0" for as by (induction as) auto
  moreover have "check_alive (as @ [a]) r = (if a = ESRCH then -1 else 0)" for as r by (induction as arbitrary: r) auto
  ultimately show ?thesis by (simp add: opt_thread_task_def)
qed

text \<open>
  Listing a directory: the array counted in the first walk is filled exactly by the second, with the
  path of every visible file; but with nothing to list the function reports success and leaves the
  caller's array unset.
\<close>
theorem get_all_filename_lists:
  assumes "opendir d = Some es"
  shows "get_all_filename_from_dir opendir (Some d) 0 =
    Some (count_files es, if count_files es = 0 then None else Some (list_files d es), 0)"
  using assms length_list_files [of d es] by (simp add: get_all_filename_from_dir_def Let_def)

theorem get_all_filename_lists_witness:
  "get_all_filename_from_dir (\<lambda>d. Some [(''a'', File), (''.x'', File), (''s'', Dir [(''b'', File)])]) (Some ''d'') 0 =
    Some (2, Some [''d/a'', ''d/s/b''], 0)"
  using get_all_filename_lists [of "\<lambda>d. Some [(''a'', File), (''.x'', File), (''s'', Dir [(''b'', File)])]" "''d''"]
  by (simp add: hidden_def)

text \<open>
  Removing a directory: when nothing in the tree is hidden and every file can be unlinked, the whole
  tree goes; a hidden file in a subdirectory keeps it and is reported.
\<close>
theorem rm_all_file_in_dir_removes:
  assumes "visible unlink_ok es"
  shows "rm_all_file_in_dir unlink_ok es True = (None, 0) \<and>
    rm_all_file_in_dir unlink_ok ((''sub'', Dir [(''.keep'', File)]) # es) True =
      (Some ((''sub'', Dir [(''.keep'', File)]) # es), -1)"
  using rm_entries_visible [OF assms] by (simp add: rm_all_file_in_dir_def hidden_def)

theorem rm_all_file_in_dir_removes_witness:
  "rm_all_file_in_dir (\<lambda>_. True) [(''a'', File), (''s'', Dir [(''b'', File)])] True = (None, 0)"
  using rm_all_file_in_dir_removes [of "\<lambda>_. True" "[(''a'', File), (''s'', Dir [(''b'', File)])]"]
  by (simp add: hidden_def)

end
