(* ===== verification/Alg_Targets.thy ===== *)
theory Alg_Targets
  imports Alink_Commands Skyfend_Tools
begin

text \<open>
  The way of a target from the link to the tracking algorithm: \<^verbatim>\<open>srv/algs/alg_interface.c\<close>, which posts track messages to
  the algorithm's task, and \<^verbatim>\<open>app/alg_app/alg_app.cpp\<close>, which keeps the targets for the inference thread: the device
  targets in a short list, oldest first, and the target of the user in a place of its own.

  The list is one of nodes in a store, as in the C++ program. Every operation runs under one mutex, so it is a function;
  the answer of \<^verbatim>\<open>pthread_mutex_lock\<close>, the addresses of new nodes and whether an allocation succeeds are arguments.
  \<open>None\<close> is undefined behaviour.
\<close>

subsection \<open>State\<close>

text \<open>\<^verbatim>\<open>target_pack_info_t\<close> as an argument: \<open>tp_pack\<close> is the object \<^verbatim>\<open>target_pack\<close> points to.\<close>

record target_pack_info =
  tp_data_dev_type :: i32
  tp_pack :: bytes
  tp_pack_len :: i32

text \<open>\<^verbatim>\<open>targets_t\<close>, whose \<^verbatim>\<open>target_pack\<close> points to an allocation of its own.\<close>

record target_node =
  tn_data_dev_type :: i32
  tn_target_pack :: "bytes option"
  tn_pack_len :: i32
  tn_next :: "nat option"

record alg_app_res =
  ar_task_list :: "nat list option"
  ar_head :: "nat option"
  ar_user_target :: "nat option"
  ar_targets_num :: i32
  ar_release :: bool
  ar_nodes :: "target_node store"
  ar_cnt :: int

definition TARGET_NODE_MAX_NUMBER :: int where "TARGET_NODE_MAX_NUMBER = 3"

definition RET_VALUE_INVALID_PARM :: i32 where "RET_VALUE_INVALID_PARM = -4"
definition RET_VALUE_MALLOC_FAIL :: i32 where "RET_VALUE_MALLOC_FAIL = -3"
definition RET_VALUE_FUNCTION_CALL_FAIL :: i32 where "RET_VALUE_FUNCTION_CALL_FAIL = -2"
definition RET_VALUE_PARAMETER_NULL :: i32 where "RET_VALUE_PARAMETER_NULL = -1"

subsection \<open>The target list\<close>

text \<open>\<^verbatim>\<open>skyfend_free(node->target.target_pack)\<close> if it is set, then \<^verbatim>\<open>skyfend_free(node)\<close>: the change of the allocation counter.\<close>

definition free_node :: "target_node \<Rightarrow> int \<Rightarrow> int" where
  "free_node n cnt =
     (let cnt1 = (case tn_target_pack n of None \<Rightarrow> cnt | Some p \<Rightarrow> snd (skyfend_safefree (Some p) cnt))
      in snd (skyfend_safefree (Some n) cnt1))"

text \<open>Making room: when more than \<^verbatim>\<open>TARGET_NODE_MAX_NUMBER\<close> targets wait, the oldest is dropped.\<close>

definition drop_oldest :: "nat \<Rightarrow> alg_app_res \<Rightarrow> alg_app_res" where
  "drop_oldest tmp a =
     (if ar_targets_num a > TARGET_NODE_MAX_NUMBER then
        a\<lparr>ar_head := tn_next (ar_nodes a tmp), ar_cnt := free_node (ar_nodes a tmp) (ar_cnt a),
          ar_targets_num := ar_targets_num a - 1\<rparr>
      else a)"

definition link_target :: "nat \<Rightarrow> bool \<Rightarrow> alg_app_res \<Rightarrow> (alg_app_res \<times> i32) option" where
  "link_target node user a =
     (if user then
        let cnt = (case ar_user_target a of None \<Rightarrow> ar_cnt a | Some u \<Rightarrow> snd (skyfend_safefree (Some u) (ar_cnt a)))
        in Some (a\<lparr>ar_user_target := Some node, ar_cnt := cnt\<rparr>, 0)
      else
        case ar_head a of
          None \<Rightarrow> Some (a\<lparr>ar_head := Some node, ar_targets_num := ar_targets_num a + 1\<rparr>, 0)
        | Some tmp \<Rightarrow> do {
            let a1 = drop_oldest tmp a;
            h \<leftarrow> ar_head a1;
            st \<leftarrow> append_walk tn_next (\<lambda>p n. n\<lparr>tn_next := p\<rparr>) (ar_nodes a1) h node;
            Some (a1\<lparr>ar_nodes := st, ar_targets_num := ar_targets_num a1 + 1\<rparr>, 0) })"

definition insert_target_to_head ::
  "i32 \<Rightarrow> bool \<Rightarrow> bool \<Rightarrow> nat \<Rightarrow> target_pack_info option \<Rightarrow> alg_app_res \<Rightarrow> (alg_app_res \<times> i32) option" where
  "insert_target_to_head lock avail1 avail2 node pack a =
     (if 0 \<noteq> lock then Some (a, RET_VALUE_FUNCTION_CALL_FAIL)
      else case pack of
        None \<Rightarrow> Some (a, RET_VALUE_INVALID_PARM)
      | Some p \<Rightarrow>
          if tp_pack_len p \<le> 0 then Some (a, RET_VALUE_INVALID_PARM)
          else case skyfend_malloc avail1 32 (ar_cnt a) of
            (None, cnt) \<Rightarrow> Some (a\<lparr>ar_cnt := cnt\<rparr>, RET_VALUE_PARAMETER_NULL)
          | (Some blk, cnt) \<Rightarrow>
              (case skyfend_malloc avail2 (nat (tp_pack_len p)) cnt of
                 (None, cnt1) \<Rightarrow> Some (a\<lparr>ar_cnt := snd (skyfend_safefree (Some blk) cnt1)\<rparr>, RET_VALUE_PARAMETER_NULL)
               | (Some _, cnt1) \<Rightarrow> do {
                   bs \<leftarrow> loadn (tp_pack p) 0 (nat (tp_pack_len p));
                   link_target node (tp_data_dev_type p = uint (track_type_word TRACK_INFO_FROM_USER))
                     (a\<lparr>ar_cnt := cnt1,
                        ar_nodes := (ar_nodes a)(node := \<lparr>tn_data_dev_type = tp_data_dev_type p, tn_target_pack = Some bs,
                          tn_pack_len = tp_pack_len p, tn_next = None\<rparr>)\<rparr>) }))"

definition get_and_rm_one_target :: "i32 \<Rightarrow> alg_app_res \<Rightarrow> alg_app_res \<times> nat option" where
  "get_and_rm_one_target lock a =
     (if 0 \<noteq> lock then (a, None)
      else case ar_user_target a of
        Some u \<Rightarrow> (a\<lparr>ar_user_target := None\<rparr>, Some u)
      | None \<Rightarrow>
          (case ar_head a of
             None \<Rightarrow> (a, None)
           | Some node \<Rightarrow>
               (a\<lparr>ar_head := tn_next (ar_nodes a node), ar_targets_num := ar_targets_num a - 1,
                  ar_nodes := (ar_nodes a)(node := (ar_nodes a node)\<lparr>tn_next := None\<rparr>)\<rparr>, Some node)))"

definition target_node_destory :: "nat option \<Rightarrow> alg_app_res \<Rightarrow> alg_app_res \<times> i32" where
  "target_node_destory node a =
     (case node of
        None \<Rightarrow> (a, 0)
      | Some n \<Rightarrow> (a\<lparr>ar_cnt := free_node (ar_nodes a n) (ar_cnt a)\<rparr>, 0))"

partial_function (option) free_walk :: "target_node store \<Rightarrow> nat option \<Rightarrow> int \<Rightarrow> int option" where
  "free_walk st p cnt =
     (case p of
        None \<Rightarrow> Some cnt
      | Some tmp \<Rightarrow> free_walk st (tn_next (st tmp)) (free_node (st tmp) cnt))"

definition remove_all_targets :: "alg_app_res \<Rightarrow> (alg_app_res \<times> i32) option" where
  "remove_all_targets a =
     (case ar_head a of
        None \<Rightarrow> Some (a, 0)
      | Some _ \<Rightarrow> do {
          cnt \<leftarrow> free_walk (ar_nodes a) (ar_head a) (ar_cnt a);
          Some (a\<lparr>ar_cnt := cnt, ar_targets_num := 0, ar_head := None\<rparr>, 0) })"

text \<open>
  The function the algorithm's task calls: \<open>pack\<close> is the message, \<open>arg\<close> the size, which it reads as an \<^verbatim>\<open>int\<close>; the first
  four bytes tell where the message comes from.
\<close>

definition algs_handle_multiple_targets ::
  "i32 \<Rightarrow> bool \<Rightarrow> bool \<Rightarrow> nat \<Rightarrow> bytes \<Rightarrow> u32 \<Rightarrow> alg_app_res \<Rightarrow> (alg_app_res \<times> i32) option" where
  "algs_handle_multiple_targets lock avail1 avail2 node pack arg a =
     (let pack_size = sint arg in
      if pack_size \<le> 0 then Some (a, -1)
      else do {
        ty \<leftarrow> loadn pack 0 4;
        insert_target_to_head lock avail1 avail2 node
          (Some \<lparr>tp_data_dev_type = sint (of_le ty :: u32), tp_pack = pack, tp_pack_len = pack_size\<rparr>) a })"

subsection \<open>The algorithm's task\<close>

text \<open>\<^verbatim>\<open>alg_obj\<close>: the function targets are handed to, and the task.\<close>

record 'h alg_ctr =
  mtargets_handle :: "'h option"
  pvalgtask :: "alg_fn sysport_task_module option"

definition load_alg_task ::
  "bool \<Rightarrow> i32 \<Rightarrow> i32 \<Rightarrow> 'h option \<Rightarrow> 'h alg_ctr \<Rightarrow> int \<Rightarrow> 'h alg_ctr \<times> int \<times> i32" where
  "load_alg_task avail mq_ret pthread_ret cbk o1 cnt =
     (case sysport_task_create avail mq_ret pthread_ret ''/alg_task'' 0 cnt of
        (t, cnt') \<Rightarrow>
          let o2 = o1\<lparr>mtargets_handle := cbk, pvalgtask := t\<rparr> in
          (case t of None \<Rightarrow> (o2, cnt', -1) | Some _ \<Rightarrow> (o2, cnt', 0)))"

definition load_multiple_targets_algs ::
  "bool \<Rightarrow> i32 \<Rightarrow> i32 \<Rightarrow> 'h option \<Rightarrow> 'h alg_ctr \<Rightarrow> int \<Rightarrow> 'h alg_ctr \<times> int \<times> i32" where
  "load_multiple_targets_algs avail mq_ret pthread_ret cbk o1 cnt = load_alg_task avail mq_ret pthread_ret cbk o1 cnt"

definition unload_multiple_targets_algs :: "bool \<Rightarrow> i32 \<Rightarrow> 'h alg_ctr \<Rightarrow> int \<Rightarrow> 'h alg_ctr \<times> int \<times> i32" where
  "unload_multiple_targets_algs avail mq_ret o1 cnt =
     (case pvalgtask o1 of
        None \<Rightarrow> (o1, cnt, 0)
      | Some m \<Rightarrow>
          (case sysport_task_delete avail mq_ret (Some m) cnt of
             (m', cnt', _) \<Rightarrow> (o1\<lparr>pvalgtask := m'\<rparr>, cnt', 0)))"

text \<open>The function that is posted with every message: \<open>handle\<close> is what \<^verbatim>\<open>mtargets_handle\<close> does to the program's state.\<close>

definition alg_thread_handler ::
  "('h \<Rightarrow> bytes \<Rightarrow> u32 \<Rightarrow> 'w \<Rightarrow> 'w) \<Rightarrow> 'h option \<Rightarrow> alg_fn \<Rightarrow> nat \<Rightarrow> bytes \<Rightarrow> u32 \<Rightarrow> 'w \<Rightarrow> 'w" where
  "alg_thread_handler handle cbk f arg pvInfo n w =
     (case cbk of None \<Rightarrow> w | Some h \<Rightarrow> handle h pvInfo n w)"

subsection \<open>The inference thread\<close>

text \<open>
  One turn of \<^verbatim>\<open>fusion_ai_alg_thread\<close>: \<open>img\<close> is what \<^verbatim>\<open>capture_ptz_vstream_pic\<close> returns, \<open>run7\<close> the effect of
  \<^verbatim>\<open>ai_alg_run7\<close> on the rest of the program. The tracing behind \<^verbatim>\<open>DEBUG_ALG_TRACK_INFO\<close> is left out.
\<close>

definition fusion_turn ::
  "('i \<Rightarrow> bytes option \<Rightarrow> 'w \<Rightarrow> 'w) \<Rightarrow> 'i option \<Rightarrow> i32 \<Rightarrow> alg_app_res \<Rightarrow> 'w \<Rightarrow> alg_app_res \<times> 'w" where
  "fusion_turn run7 img lock a w =
     (case img of
        None \<Rightarrow> (a, w)
      | Some pic \<Rightarrow>
          (case get_and_rm_one_target lock a of
             (a1, target_node) \<Rightarrow>
               let w1 = run7 pic (case target_node of None \<Rightarrow> None | Some n \<Rightarrow> tn_target_pack (ar_nodes a1 n)) w
               in (fst (target_node_destory target_node a1), w1)))"

text \<open>The thread on its own, for the imgs and locks it gets: it ends when \<^verbatim>\<open>release\<close> is set.\<close>

fun fusion_ai_alg_thread ::
  "('i \<Rightarrow> bytes option \<Rightarrow> 'w \<Rightarrow> 'w) \<Rightarrow> ('i option \<times> i32) list \<Rightarrow> alg_app_res \<Rightarrow> 'w \<Rightarrow> alg_app_res \<times> 'w" where
  "fusion_ai_alg_thread run7 [] a w = (a, w)"
| "fusion_ai_alg_thread run7 ((img, lock) # rest) a w =
     (if ar_release a then (a, w)
      else case fusion_turn run7 img lock a w of (a1, w1) \<Rightarrow> fusion_ai_alg_thread run7 rest a1 w1)"

subsection \<open>Start and end\<close>

text \<open>
  \<open>answer\<close> is the result of \<^verbatim>\<open>pthread_create\<close>, and \<open>tid\<close> the identifier it stores when it succeeds. It goes into the local \<^verbatim>\<open>task_list\<close>
  after the copy to \<^verbatim>\<open>alg_t.task_list\<close> was made. The third component of the result are the threads that now run.
  \<^verbatim>\<open>sizeof(thread_task_t)\<close> is 96.
\<close>

definition alg_init ::
  "bool \<Rightarrow> i32 \<Rightarrow> i32 \<Rightarrow> i32 \<Rightarrow> bool \<Rightarrow> nat \<Rightarrow> i32 \<Rightarrow> 'h \<Rightarrow> 'h alg_ctr \<Rightarrow> alg_app_res \<Rightarrow>
   'h alg_ctr \<times> alg_app_res \<times> nat list \<times> i32" where
  "alg_init avail mq_ret pthread_ret mutex_ret avail2 tid answer cbk o1 a =
     (case load_multiple_targets_algs avail mq_ret pthread_ret (Some cbk) o1 (ar_cnt a) of
        (o2, cnt, ret) \<Rightarrow>
          let a1 = a\<lparr>ar_cnt := cnt\<rparr> in
          if 0 \<noteq> ret then (o2, a1, [], ret)
          else if 0 \<noteq> mutex_ret then (o2, a1, [], mutex_ret)
          else
            let a2 = a1\<lparr>ar_release := False, ar_targets_num := 0, ar_head := None, ar_user_target := None\<rparr> in
            (case skyfend_malloc avail2 96 (ar_cnt a2) of
               (None, cnt2) \<Rightarrow> (o2, a2\<lparr>ar_task_list := None, ar_cnt := cnt2\<rparr>, [], RET_VALUE_MALLOC_FAIL)
             | (Some _, cnt2) \<Rightarrow>
                 let a3 = a2\<lparr>ar_task_list := Some [0], ar_cnt := cnt2\<rparr>;
                     started = (if answer = 0 then [tid] else []);
                     ret1 = opt_thread_task [answer] TASK_OPT_CREATE
                 in if 0 \<noteq> ret1 then
                      (case unload_multiple_targets_algs True 0 o2 (ar_cnt a3) of
                         (o3, cnt3, _) \<Rightarrow> (o3, a3\<lparr>ar_cnt := cnt3\<rparr>, started, ret1))
                    else (o2, a3, started, 0)))"

text \<open>
  \<^verbatim>\<open>opt_thread_task\<close> with \<^verbatim>\<open>TASK_OPT_WAIT\<close> joins the tasks of the list from the last to the first. \<open>threads\<close> are the threads that were created and that
  nobody has joined; to join anything else, such as 0, is undefined.
\<close>

fun join_threads :: "nat list \<Rightarrow> nat list \<Rightarrow> nat list option" where
  "join_threads [] threads = Some threads"
| "join_threads (t # ts) threads = (if t \<in> set threads then join_threads ts (remove1 t threads) else None)"

text \<open>\<open>last_turn\<close> is what the inference thread still does to the targets before it sees \<^verbatim>\<open>release\<close>.\<close>

definition alg_uninit ::
  "bool \<Rightarrow> i32 \<Rightarrow> (alg_app_res \<Rightarrow> alg_app_res) \<Rightarrow> nat list \<Rightarrow> 'h alg_ctr \<Rightarrow> alg_app_res \<Rightarrow>
   ('h alg_ctr \<times> alg_app_res \<times> nat list \<times> i32) option" where
  "alg_uninit avail mq_ret last_turn threads o1 a = do {
     let a1 = a\<lparr>ar_release := True\<rparr>;
     (a2, threads1) \<leftarrow> (case ar_task_list a1 of
        None \<Rightarrow> Some (a1, threads)
      | Some l \<Rightarrow> do {
          threads1 \<leftarrow> join_threads (rev l) threads;
          let a2 = last_turn a1;
          Some (a2\<lparr>ar_task_list := None, ar_cnt := snd (skyfend_safefree (Some l) (ar_cnt a2))\<rparr>, threads1) });
     let (o2, cnt, ret) = unload_multiple_targets_algs avail mq_ret o1 (ar_cnt a2);
     Some (o2, a2\<lparr>ar_cnt := cnt\<rparr>, threads1, ret) }"

subsection \<open>What the target list promises\<close>

text \<open>The waiting targets as a user's target and a queue of at most four device targets, the newest of which drives out the oldest.\<close>

record targets_spec =
  sp_user :: "bytes option"
  sp_queue :: "bytes list"

definition spec_put :: "bool \<Rightarrow> bytes \<Rightarrow> targets_spec \<Rightarrow> targets_spec" where
  "spec_put user bs s =
     (if user then s\<lparr>sp_user := Some bs\<rparr>
      else s\<lparr>sp_queue := (if length (sp_queue s) < 4 then sp_queue s else tl (sp_queue s)) @ [bs]\<rparr>)"

definition spec_take :: "targets_spec \<Rightarrow> targets_spec \<times> bytes option" where
  "spec_take s =
     (case sp_user s of
        Some b \<Rightarrow> (s\<lparr>sp_user := None\<rparr>, Some b)
      | None \<Rightarrow> (case sp_queue s of [] \<Rightarrow> (s, None) | b # q \<Rightarrow> (s\<lparr>sp_queue := q\<rparr>, Some b)))"

datatype target_op = Put bool bytes | Take

fun spec_run :: "target_op list \<Rightarrow> targets_spec \<Rightarrow> targets_spec \<times> bytes option list" where
  "spec_run [] s = (s, [])"
| "spec_run (Put user bs # ops) s = spec_run ops (spec_put user bs s)"
| "spec_run (Take # ops) s =
     (case spec_take s of (s1, out) \<Rightarrow> case spec_run ops s1 of (s2, outs) \<Rightarrow> (s2, out # outs))"

fun ops_run ::
  "(bool \<Rightarrow> bytes \<Rightarrow> 's \<Rightarrow> 's option) \<Rightarrow> ('s \<Rightarrow> 's \<times> bytes option) \<Rightarrow> target_op list \<Rightarrow> 's \<Rightarrow> ('s \<times> bytes option list) option" where
  "ops_run put tk [] a = Some (a, [])"
| "ops_run put tk (Put user bs # ops) a = do { a1 \<leftarrow> put user bs a; ops_run put tk ops a1 }"
| "ops_run put tk (Take # ops) a =
     (case tk a of (a1, out) \<Rightarrow> do { (a2, outs) \<leftarrow> ops_run put tk ops a1; Some (a2, out # outs) })"

text \<open>
  The interface between the algorithm's task, which puts, and the inference thread, which takes: each operation on the
  concrete state does what the specification says, so every sequence of them does.
\<close>

locale target_store =
  fixes put :: "bool \<Rightarrow> bytes \<Rightarrow> 's \<Rightarrow> 's option" and tk :: "'s \<Rightarrow> 's \<times> bytes option"
    and implements :: "'s \<Rightarrow> targets_spec \<Rightarrow> bool"
  assumes put_ok: "implements a s \<Longrightarrow> bs \<noteq> [] \<Longrightarrow> \<exists>a'. put user bs a = Some a' \<and> implements a' (spec_put user bs s)"
    and take_ok: "implements a s \<Longrightarrow> tk a = (a', out) \<Longrightarrow> implements a' (fst (spec_take s)) \<and> out = snd (spec_take s)"
begin

lemma run_ok:
  "implements a s \<Longrightarrow> \<forall>user. Put user [] \<notin> set ops \<Longrightarrow>
    \<exists>a'. ops_run put tk ops a = Some (a', snd (spec_run ops s)) \<and> implements a' (fst (spec_run ops s))"
proof (induction ops arbitrary: a s)
  case (Cons op ops)
  show ?case
  proof (cases op)
    case (Put user bs)
    with Cons.prems(2) have "bs \<noteq> []" by auto
    with put_ok [OF Cons.prems(1), of bs user] obtain a1 where
      a1: "put user bs a = Some a1" "implements a1 (spec_put user bs s)" by blast
    from Cons.IH [OF a1(2)] Cons.prems(2) Put a1(1) show ?thesis by auto
  next
    case Take
    obtain a1 out where t: "tk a = (a1, out)" by (cases "tk a")
    note ok = take_ok [OF Cons.prems(1) t]
    obtain s1 out' where s: "spec_take s = (s1, out')" by (cases "spec_take s")
    obtain s2 outs where r: "spec_run ops s1 = (s2, outs)" by (cases "spec_run ops s1")
    from Cons.IH [of a1 s1] Cons.prems(2) ok s r have
      "\<exists>a'. ops_run put tk ops a1 = Some (a', outs) \<and> implements a' s2" by simp
    with Take t s r ok show ?thesis by auto
  qed
qed simp

end

subsection \<open>The list implements the promise\<close>

abbreviation pack_of :: "alg_app_res \<Rightarrow> nat \<Rightarrow> bytes" where
  "pack_of a x \<equiv> the (tn_target_pack (ar_nodes a x))"

definition targets_abs :: "alg_app_res \<Rightarrow> nat list \<Rightarrow> bool" where
  "targets_abs a xs \<longleftrightarrow> hlist tn_next (ar_nodes a) (ar_head a) xs \<and> ar_targets_num a = int (length xs) \<and> length xs \<le> 4 \<and>
     (\<forall>x \<in> set xs. tn_target_pack (ar_nodes a x) \<noteq> None) \<and>
     (\<forall>u. ar_user_target a = Some u \<longrightarrow> u \<notin> set xs \<and> tn_target_pack (ar_nodes a u) \<noteq> None)"

definition spec_of :: "alg_app_res \<Rightarrow> nat list \<Rightarrow> targets_spec" where
  "spec_of a xs = \<lparr>sp_user = map_option (pack_of a) (ar_user_target a), sp_queue = map (pack_of a) xs\<rparr>"

definition unused :: "nat \<Rightarrow> alg_app_res \<Rightarrow> nat list \<Rightarrow> bool" where
  "unused n a xs \<longleftrightarrow> n \<notin> set xs \<and> ar_user_target a \<noteq> Some n"

interpretation target_nodes: linked_nodes tn_next "\<lambda>p n. n\<lparr>tn_next := p\<rparr>"
  by unfold_locales simp

lemma tl_subset: "x \<in> set (tl xs) \<Longrightarrow> x \<in> set xs"
  by (cases xs) auto

lemma user_tag [simp]: "uint (track_type_word TRACK_INFO_FROM_USER) = 3"
  by simp

lemma drop_oldest_abs:
  assumes "targets_abs a (x # xs)"
  shows "targets_abs (drop_oldest x a) (if length xs < 3 then x # xs else xs)"
    "length (if length xs < 3 then x # xs else xs) \<in> {1, 2, 3}"
    "ar_nodes (drop_oldest x a) = ar_nodes a" "ar_user_target (drop_oldest x a) = ar_user_target a"
proof -
  have "length (x # xs) \<le> 4" using assms unfolding targets_abs_def by blast
  then consider "length xs < 3" | "length xs = 3" by fastforce
  then show "targets_abs (drop_oldest x a) (if length xs < 3 then x # xs else xs)"
    using assms by (cases; force simp: targets_abs_def drop_oldest_def TARGET_NODE_MAX_NUMBER_def)
  show "length (if length xs < 3 then x # xs else xs) \<in> {1, 2, 3}"
    using \<open>length (x # xs) \<le> 4\<close> by (auto simp: numeral_eq_Suc le_Suc_eq)
  show "ar_nodes (drop_oldest x a) = ar_nodes a" "ar_user_target (drop_oldest x a) = ar_user_target a"
    by (simp_all add: drop_oldest_def)
qed

lemma append_target:
  assumes "targets_abs a xs" "xs \<noteq> []" "length xs < 4" "unused n a xs" "ar_head a = Some h"
    "tn_next (ar_nodes a n) = None" "tn_target_pack (ar_nodes a n) = Some bs"
  shows "\<exists>st. append_walk tn_next (\<lambda>p n. n\<lparr>tn_next := p\<rparr>) (ar_nodes a) h n = Some st \<and>
    targets_abs (a\<lparr>ar_nodes := st, ar_targets_num := ar_targets_num a + 1\<rparr>) (xs @ [n]) \<and>
    spec_of (a\<lparr>ar_nodes := st, ar_targets_num := ar_targets_num a + 1\<rparr>) (xs @ [n]) =
      \<lparr>sp_user = sp_user (spec_of a xs), sp_queue = sp_queue (spec_of a xs) @ [bs]\<rparr>"
proof -
  have l: "hlist tn_next (ar_nodes a) (Some h) xs" "n \<notin> set xs"
    using assms(1,4,5) by (auto simp: targets_abs_def unused_def)
  from target_nodes.append_walk_fresh [OF l assms(6)] obtain st x where
    st: "append_walk tn_next (\<lambda>p n. n\<lparr>tn_next := p\<rparr>) (ar_nodes a) h n = Some st" "hlist tn_next st (Some h) (xs @ [n])"
    "x \<in> set xs" "st = (ar_nodes a)(x := (ar_nodes a x)\<lparr>tn_next := Some n\<rparr>)" by blast
  have pack: "tn_target_pack (st y) = tn_target_pack (ar_nodes a y)" for y using st(4) by simp
  have "targets_abs (a\<lparr>ar_nodes := st, ar_targets_num := ar_targets_num a + 1\<rparr>) (xs @ [n])"
    using assms(1,3,4,5,7) st(2) pack by (auto simp: targets_abs_def unused_def)
  moreover have "spec_of (a\<lparr>ar_nodes := st, ar_targets_num := ar_targets_num a + 1\<rparr>) (xs @ [n]) =
      \<lparr>sp_user = sp_user (spec_of a xs), sp_queue = sp_queue (spec_of a xs) @ [bs]\<rparr>"
    using assms(7) pack by (simp add: spec_of_def)
  ultimately show ?thesis using st(1) by blast
qed

lemma link_target_abs:
  assumes "targets_abs a xs" "unused n a xs" "tn_next (ar_nodes a n) = None" "tn_target_pack (ar_nodes a n) = Some bs"
    "xs' = (if user then xs else (if length xs < 4 then xs else tl xs) @ [n])"
  shows "\<exists>a'. link_target n user a = Some (a', 0) \<and> targets_abs a' xs' \<and> spec_of a' xs' = spec_put user bs (spec_of a xs)"
proof (cases user)
  case True
  with assms show ?thesis
    by (auto simp: link_target_def targets_abs_def spec_of_def spec_put_def unused_def Let_def)
next
  case dev: False
  show ?thesis
  proof (cases xs)
    case Nil
    with assms dev show ?thesis
      by (auto simp: link_target_def targets_abs_def spec_of_def spec_put_def unused_def)
  next
    case (Cons x rest)
    let ?a = "drop_oldest x a" and ?ys = "if length rest < 3 then x # rest else rest"
    note abs = assms(1)[unfolded Cons]
    note d = drop_oldest_abs [OF abs]
    have h: "ar_head a = Some x" using abs by (simp add: targets_abs_def)
    have ne: "?ys \<noteq> []" "length ?ys < 4" using d(2) by auto
    then obtain y where y: "ar_head ?a = Some y" using d(1) by (cases ?ys) (auto simp: targets_abs_def)
    have u: "unused n ?a ?ys" using assms(2) Cons d(4) by (auto simp: unused_def)
    have "tn_next (ar_nodes ?a n) = None" "tn_target_pack (ar_nodes ?a n) = Some bs" using assms(3,4) d(3) by simp_all
    from append_target [OF d(1) ne u y this] obtain st where
      st: "append_walk tn_next (\<lambda>p n. n\<lparr>tn_next := p\<rparr>) (ar_nodes ?a) y n = Some st"
      "targets_abs (?a\<lparr>ar_nodes := st, ar_targets_num := ar_targets_num ?a + 1\<rparr>) (?ys @ [n])"
      "spec_of (?a\<lparr>ar_nodes := st, ar_targets_num := ar_targets_num ?a + 1\<rparr>) (?ys @ [n]) =
        \<lparr>sp_user = sp_user (spec_of ?a ?ys), sp_queue = sp_queue (spec_of ?a ?ys) @ [bs]\<rparr>" by blast
    have "link_target n user a = Some (?a\<lparr>ar_nodes := st, ar_targets_num := ar_targets_num ?a + 1\<rparr>, 0)"
      using dev h y st(1) by (simp add: link_target_def Let_def)
    moreover have "xs' = ?ys @ [n]" using assms(5) dev Cons by simp
    moreover have "\<lparr>sp_user = sp_user (spec_of ?a ?ys), sp_queue = sp_queue (spec_of ?a ?ys) @ [bs]\<rparr> =
        spec_put user bs (spec_of a xs)"
      using dev Cons d(3,4) by (auto simp: spec_of_def spec_put_def)
    ultimately show ?thesis using st(2,3) by auto
  qed
qed

lemma insert_abs:
  assumes "targets_abs a xs" "unused n a xs" "0 < tp_pack_len p" "loadn (tp_pack p) 0 (nat (tp_pack_len p)) = Some bs"
    "user \<longleftrightarrow> tp_data_dev_type p = 3" "xs' = (if user then xs else (if length xs < 4 then xs else tl xs) @ [n])"
  shows "\<exists>a'. insert_target_to_head 0 True True n (Some p) a = Some (a', 0) \<and> targets_abs a' xs' \<and>
    spec_of a' xs' = spec_put user bs (spec_of a xs)"
proof -
  let ?a = "a\<lparr>ar_cnt := ar_cnt a + 2, ar_nodes := (ar_nodes a)(n := \<lparr>tn_data_dev_type = tp_data_dev_type p,
    tn_target_pack = Some bs, tn_pack_len = tp_pack_len p, tn_next = None\<rparr>)\<rparr>"
  have "hlist tn_next (ar_nodes ?a) (ar_head ?a) xs"
    by (rule hlist_cong [of _ "ar_nodes a"]) (use assms(1,2) in \<open>auto simp: targets_abs_def unused_def\<close>)
  then have "targets_abs ?a xs" using assms(1,2) by (auto simp: targets_abs_def unused_def)
  moreover have "spec_of ?a xs = spec_of a xs" using assms(2) by (cases "ar_user_target a") (auto simp: spec_of_def unused_def)
  moreover have "unused n ?a xs" using assms(2) by (simp add: unused_def)
  ultimately have "\<exists>a'. link_target n user ?a = Some (a', 0) \<and> targets_abs a' xs' \<and> spec_of a' xs' = spec_put user bs (spec_of a xs)"
    using link_target_abs [of ?a xs n bs xs' user] assms(6) by simp
  moreover have "insert_target_to_head 0 True True n (Some p) a = link_target n user ?a"
    using assms(3-5) by (simp add: insert_target_to_head_def skyfend_malloc_def add.assoc del: track_type_word.simps)
  ultimately show ?thesis by simp
qed

lemma take_abs:
  assumes "targets_abs a xs" "get_and_rm_one_target 0 a = (a', node)" "xs' = (if ar_user_target a = None then tl xs else xs)"
  shows "targets_abs a' xs'" "spec_of a' xs' = fst (spec_take (spec_of a xs))"
    "(case node of None \<Rightarrow> None | Some m \<Rightarrow> tn_target_pack (ar_nodes a' m)) = snd (spec_take (spec_of a xs))"
    "node = None \<Longrightarrow> snd (spec_take (spec_of a xs)) = None"
proof -
  have "targets_abs a' xs' \<and> spec_of a' xs' = fst (spec_take (spec_of a xs)) \<and>
    (case node of None \<Rightarrow> None | Some m \<Rightarrow> tn_target_pack (ar_nodes a' m)) = snd (spec_take (spec_of a xs))"
  proof (cases "ar_user_target a")
    case (Some u)
    with assms show ?thesis
      by (auto simp: get_and_rm_one_target_def targets_abs_def spec_of_def spec_take_def)
  next
    case None
    show ?thesis
    proof (cases xs)
      case Nil
      with assms None show ?thesis
        by (auto simp: get_and_rm_one_target_def targets_abs_def spec_of_def spec_take_def)
    next
      case (Cons x rest)
      have a': "a' = a\<lparr>ar_head := tn_next (ar_nodes a x), ar_targets_num := ar_targets_num a - 1,
          ar_nodes := (ar_nodes a)(x := (ar_nodes a x)\<lparr>tn_next := None\<rparr>)\<rparr>" "node = Some x"
        using assms(1,2) None Cons by (auto simp: get_and_rm_one_target_def targets_abs_def)
      have "hlist tn_next (ar_nodes a) (ar_head a) (x # rest)" using assms(1) Cons by (simp add: targets_abs_def)
      note l = this hlist_distinct [OF this]
      have "hlist tn_next (ar_nodes a') (tn_next (ar_nodes a x)) rest"
        by (rule hlist_cong [of _ "ar_nodes a"]) (use l a' in auto)
      then have "targets_abs a' rest" using assms(1) None Cons a' l by (auto simp: targets_abs_def)
      moreover have "spec_of a' rest = fst (spec_take (spec_of a xs))"
        using None Cons a' l by (auto simp: spec_of_def spec_take_def)
      moreover have "tn_target_pack (ar_nodes a' x) = snd (spec_take (spec_of a xs))"
        using assms(1) None Cons a' by (auto simp: spec_of_def spec_take_def targets_abs_def)
      ultimately show ?thesis using assms(3) None Cons a'(2) by simp
    qed
  qed
  then show "targets_abs a' xs'" "spec_of a' xs' = fst (spec_take (spec_of a xs))"
    "(case node of None \<Rightarrow> None | Some m \<Rightarrow> tn_target_pack (ar_nodes a' m)) = snd (spec_take (spec_of a xs))"
    "node = None \<Longrightarrow> snd (spec_take (spec_of a xs)) = None" by auto
qed

text \<open>
  The two threads' operations, with an allocator that hands out each address once: \<open>k\<close> is the next one.
\<close>

definition put_target :: "bool \<Rightarrow> bytes \<Rightarrow> alg_app_res \<times> nat \<Rightarrow> (alg_app_res \<times> nat) option" where
  "put_target user bs ak =
     (case ak of (a, k) \<Rightarrow> map_option (\<lambda>(a', _). (a', Suc k))
        (insert_target_to_head 0 True True k (Some \<lparr>tp_data_dev_type = (if user then 3 else 0), tp_pack = bs,
           tp_pack_len = int (length bs)\<rparr>) a))"

definition take_target :: "alg_app_res \<times> nat \<Rightarrow> (alg_app_res \<times> nat) \<times> bytes option" where
  "take_target ak =
     (case ak of (a, k) \<Rightarrow>
        (case get_and_rm_one_target 0 a of
           (a1, node) \<Rightarrow> ((fst (target_node_destory node a1), k),
             case node of None \<Rightarrow> None | Some n \<Rightarrow> tn_target_pack (ar_nodes a1 n))))"

definition targets_implement :: "alg_app_res \<times> nat \<Rightarrow> targets_spec \<Rightarrow> bool" where
  "targets_implement ak s \<longleftrightarrow>
     (\<exists>xs. targets_abs (fst ak) xs \<and> s = spec_of (fst ak) xs \<and> (\<forall>x \<in> set xs. x < snd ak) \<and>
        (\<forall>u. ar_user_target (fst ak) = Some u \<longrightarrow> u < snd ak))"

lemma targets_implement_bound: "targets_implement ak s \<Longrightarrow> ar_targets_num (fst ak) \<le> 4"
  by (auto simp: targets_implement_def targets_abs_def)

lemma insert_user: "insert_target_to_head 0 True True n (Some p) a = Some (a', r) \<Longrightarrow>
    ar_user_target a' = (if 0 < tp_pack_len p \<and> tp_data_dev_type p = 3 then Some n else ar_user_target a)"
  by (auto simp: insert_target_to_head_def skyfend_malloc_def link_target_def drop_oldest_def Let_def
      split: if_splits option.splits bind_splits)

lemma targets_abs_cnt [simp]: "targets_abs (a\<lparr>ar_cnt := c\<rparr>) xs = targets_abs a xs"
  "spec_of (a\<lparr>ar_cnt := c\<rparr>) xs = spec_of a xs"
  by (simp_all add: targets_abs_def spec_of_def)

interpretation alg_targets: target_store put_target take_target targets_implement
proof (unfold_locales, goal_cases)
  case (1 ak s bs user)
  obtain a k where ak: "ak = (a, k)" by (cases ak)
  from 1(1) ak obtain xs where xs: "targets_abs a xs" "s = spec_of a xs" "\<forall>x \<in> set xs. x < k"
    "\<forall>u. ar_user_target a = Some u \<longrightarrow> u < k" by (auto simp: targets_implement_def)
  let ?p = "\<lparr>tp_data_dev_type = (if user then 3 else 0), tp_pack = bs, tp_pack_len = int (length bs)\<rparr>"
  let ?xs = "if user then xs else (if length xs < 4 then xs else tl xs) @ [k]"
  have "unused k a xs" using xs(3,4) by (auto simp: unused_def)
  moreover have "user = (tp_data_dev_type ?p = 3)" by simp
  ultimately obtain a' where
    a': "insert_target_to_head 0 True True k (Some ?p) a = Some (a', 0)" "targets_abs a' ?xs"
    "spec_of a' ?xs = spec_put user bs (spec_of a xs)"
    using insert_abs [OF xs(1), of k ?p bs user ?xs] 1(2) by (auto simp: loadn_def)
  from insert_user [OF a'(1)] 1(2) have u: "ar_user_target a' = (if user then Some k else ar_user_target a)" by simp
  have "\<forall>x \<in> set ?xs. x < Suc k" using xs(3) by (auto dest!: tl_subset)
  moreover have "\<forall>u. ar_user_target a' = Some u \<longrightarrow> u < Suc k" using xs(4) u by auto
  ultimately have "targets_implement (a', Suc k) (spec_put user bs s)"
    unfolding targets_implement_def fst_conv snd_conv xs(2) using a'(2,3) by metis
  with a'(1) ak show ?case by (simp add: put_target_def)
next
  case (2 ak s ak' out)
  obtain a k where ak: "ak = (a, k)" by (cases ak)
  from 2(1) ak obtain xs where xs: "targets_abs a xs" "s = spec_of a xs" "\<forall>x \<in> set xs. x < k"
    "\<forall>u. ar_user_target a = Some u \<longrightarrow> u < k" by (auto simp: targets_implement_def)
  obtain a1 node where g: "get_and_rm_one_target 0 a = (a1, node)" by (cases "get_and_rm_one_target 0 a")
  let ?xs = "if ar_user_target a = None then tl xs else xs"
  note t = take_abs [OF xs(1) g refl]
  have d: "fst (target_node_destory node a1) = a1\<lparr>ar_cnt := ar_cnt (fst (target_node_destory node a1))\<rparr>"
    by (simp add: target_node_destory_def split: option.split)
  from 2(2) ak g have ak': "ak' = (fst (target_node_destory node a1), k)"
    "out = (case node of None \<Rightarrow> None | Some n \<Rightarrow> tn_target_pack (ar_nodes a1 n))" by (simp_all add: take_target_def)
  have u: "ar_user_target a1 = Some u \<Longrightarrow> u < k" for u
    using g xs(4) by (auto simp: get_and_rm_one_target_def split: option.splits)
  have "\<forall>x \<in> set ?xs. x < k" using xs(3) by (auto dest: tl_subset)
  moreover have "ar_user_target (fst (target_node_destory node a1)) = ar_user_target a1" by (subst d) simp
  moreover have "targets_abs (fst (target_node_destory node a1)) ?xs" "spec_of (fst (target_node_destory node a1)) ?xs = fst (spec_take s)"
    using t(1,2) xs(2) by (subst d; simp)+
  ultimately have "targets_implement ak' (fst (spec_take s))"
    unfolding targets_implement_def ak'(1) fst_conv snd_conv using u by metis
  with t(3) ak'(2) xs(2) show ?case by simp
qed

lemma free_walk_all:
  "hlist tn_next st p xs \<Longrightarrow> \<forall>x \<in> set xs. tn_target_pack (st x) \<noteq> None \<Longrightarrow> free_walk st p cnt = Some (cnt - 2 * int (length xs))"
  by (induction xs arbitrary: p cnt) (auto simp: free_walk.simps free_node_def skyfend_safefree_def)

subsection \<open>Concrete states\<close>

definition ex_targets :: alg_app_res where
  "ex_targets = \<lparr>ar_task_list = None, ar_head = None, ar_user_target = None, ar_targets_num = 0, ar_release = False,
     ar_nodes = (\<lambda>_. \<lparr>tn_data_dev_type = 0, tn_target_pack = None, tn_pack_len = 0, tn_next = None\<rparr>), ar_cnt = 0\<rparr>"

lemma ex_targets_abs: "targets_abs ex_targets []"
  by (simp add: targets_abs_def ex_targets_def)

lemma ex_targets_implement: "targets_implement (ex_targets, 1) \<lparr>sp_user = None, sp_queue = []\<rparr>"
  unfolding targets_implement_def by (rule exI [of _ "[]"]) (simp add: ex_targets_abs, simp add: spec_of_def ex_targets_def)

definition ex_ops :: "target_op list" where
  "ex_ops = map (\<lambda>i. Put False [i]) [1, 2, 3, 4, 5] @ [Put True [9], Take, Take, Take]"

subsection \<open>Properties\<close>

text \<open>
  C18. Targets reach the inference thread as promised: in every interleaving of arriving targets and the thread's takes, the
  linked list behaves like a place for the user's target, which is taken first, and a queue of the last four device targets,
  taken oldest first; a fifth drives out the oldest.
\<close>
theorem target_list_refines_queue:
  assumes "targets_implement ak s" "\<forall>user. Put user [] \<notin> set ops"
  shows "\<exists>ak'. ops_run put_target take_target ops ak = Some (ak', snd (spec_run ops s)) \<and>
    targets_implement ak' (fst (spec_run ops s)) \<and> ar_targets_num (fst ak') \<le> 4"
  using alg_targets.run_ok [OF assms] targets_implement_bound by blast

theorem target_list_refines_queue_witness:
  "\<exists>ak'. ops_run put_target take_target ex_ops (ex_targets, 1) = Some (ak', [Some [9], Some [2], Some [3]]) \<and>
    ar_targets_num (fst ak') \<le> 4"
proof -
  have "\<forall>user. Put user [] \<notin> set ex_ops" by (auto simp: ex_ops_def)
  moreover have "snd (spec_run ex_ops \<lparr>sp_user = None, sp_queue = []\<rparr>) = [Some [9], Some [2], Some [3]]" by code_simp
  ultimately show ?thesis using target_list_refines_queue [OF ex_targets_implement, of ex_ops] by auto
qed

text \<open>
  Whatever goes wrong when a target arrives, the lock, the argument or one of the two allocations, the caller gets a negative
  code, the waiting targets stay as they are and no memory is lost.
\<close>
theorem insert_target_failure_keeps:
  assumes "insert_target_to_head lock avail1 avail2 n pack a = Some (a', r)" "r \<noteq> 0"
  shows "r < 0 \<and> a' = a"
proof -
  have "r = 0" if "link_target n u b = Some (a', r)" for u b
    using that by (auto simp: link_target_def Let_def split: if_splits option.splits bind_splits)
  with assms show ?thesis
    by (auto simp: insert_target_to_head_def skyfend_malloc_def skyfend_safefree_def RET_VALUE_INVALID_PARM_def
        RET_VALUE_FUNCTION_CALL_FAIL_def RET_VALUE_PARAMETER_NULL_def split: if_splits option.splits bind_splits)
qed

theorem insert_target_failure_keeps_witness:
  "insert_target_to_head 0 True False 1 (Some \<lparr>tp_data_dev_type = 0, tp_pack = [1], tp_pack_len = 1\<rparr>) ex_targets =
    Some (ex_targets, -1) \<and> (-1 :: int) < 0 \<and> ex_targets = ex_targets"
proof -
  have "insert_target_to_head 0 True False 1 (Some \<lparr>tp_data_dev_type = 0, tp_pack = [1], tp_pack_len = 1\<rparr>) ex_targets =
    Some (ex_targets, -1)"
    by (simp add: insert_target_to_head_def skyfend_malloc_def skyfend_safefree_def RET_VALUE_PARAMETER_NULL_def ex_targets_def)
  with insert_target_failure_keeps [OF this] show ?thesis by simp
qed

text \<open>
  A user's target that replaces one nobody has taken yet loses memory: the node is freed but not its package, so that each
  replacement leaves one more allocation outstanding.
\<close>
theorem user_target_replaced_leaks:
  assumes "ar_user_target a = Some u" "tp_data_dev_type p = 3" "0 < tp_pack_len p" "nat (tp_pack_len p) \<le> length (tp_pack p)"
  shows "\<exists>a'. insert_target_to_head 0 True True n (Some p) a = Some (a', 0) \<and> ar_user_target a' = Some n \<and>
    ar_cnt a' = ar_cnt a + 1 \<and> ar_head a' = ar_head a \<and> ar_targets_num a' = ar_targets_num a"
  using assms by (simp add: insert_target_to_head_def skyfend_malloc_def skyfend_safefree_def loadn_def link_target_def
      del: track_type_word.simps)

theorem user_target_replaced_leaks_witness:
  "\<exists>a'. insert_target_to_head 0 True True 2 (Some \<lparr>tp_data_dev_type = 3, tp_pack = [1], tp_pack_len = 1\<rparr>)
      (ex_targets\<lparr>ar_user_target := Some 1\<rparr>) = Some (a', 0) \<and> ar_cnt a' = 1"
  using user_target_replaced_leaks [of "ex_targets\<lparr>ar_user_target := Some 1\<rparr>" 1 "\<lparr>tp_data_dev_type = 3, tp_pack = [1], tp_pack_len = 1\<rparr>" 2]
  by (auto simp: ex_targets_def)

text \<open>
  Removing all targets frees the node and the package of every waiting device target and empties the list; a waiting user
  target is left.
\<close>
theorem remove_all_targets_frees:
  assumes "targets_abs a xs"
  shows "\<exists>a'. remove_all_targets a = Some (a', 0) \<and> targets_abs a' [] \<and> ar_cnt a' = ar_cnt a - 2 * int (length xs) \<and>
    ar_user_target a' = ar_user_target a"
proof (cases xs)
  case Nil
  with assms show ?thesis by (auto simp: remove_all_targets_def targets_abs_def)
next
  case (Cons x ys)
  have "free_walk (ar_nodes a) (ar_head a) (ar_cnt a) = Some (ar_cnt a - 2 * int (length xs))"
    by (rule free_walk_all) (use assms in \<open>auto simp: targets_abs_def\<close>)
  with assms Cons show ?thesis by (auto simp: remove_all_targets_def targets_abs_def)
qed

definition ex_waiting :: alg_app_res where
  "ex_waiting = ex_targets\<lparr>ar_head := Some 5, ar_targets_num := 1, ar_cnt := 2,
     ar_nodes := (\<lambda>_. \<lparr>tn_data_dev_type = 0, tn_target_pack = Some [7], tn_pack_len = 1, tn_next = None\<rparr>)\<rparr>"

lemma ex_waiting_abs: "targets_abs ex_waiting [5]"
  by (simp add: targets_abs_def ex_waiting_def ex_targets_def)

theorem remove_all_targets_frees_witness:
  "\<exists>a'. remove_all_targets ex_waiting = Some (a', 0) \<and> ar_cnt a' = 0 \<and> ar_head a' = None"
  using remove_all_targets_frees [OF ex_waiting_abs] by (auto simp: targets_abs_def ex_waiting_def)

lemma create_one: "opt_thread_task [answer] TASK_OPT_CREATE = 0"
  by (simp add: opt_thread_task_def)

lemma alg_init_started:
  assumes "alg_init avail mq_ret pthread_ret mutex_ret avail2 tid answer cbk o1 a = (o2, a2, started, 0)"
  shows "started = (if answer = 0 then [tid] else []) \<and> ar_task_list a2 = Some [0]"
proof -
  obtain o' cnt ret where l: "load_multiple_targets_algs avail mq_ret pthread_ret (Some cbk) o1 (ar_cnt a) = (o', cnt, ret)"
    by (cases "load_multiple_targets_algs avail mq_ret pthread_ret (Some cbk) o1 (ar_cnt a)")
  obtain blk cnt2 where m: "skyfend_malloc avail2 96 cnt = (blk, cnt2)" by (cases "skyfend_malloc avail2 96 cnt")
  show ?thesis
    using assms l m create_one by (cases blk) (auto simp: alg_init_def RET_VALUE_MALLOC_FAIL_def Let_def split: if_splits)
qed

lemma alg_uninit_wrong:
  assumes "ar_task_list a = Some [0]" "0 \<notin> set threads"
  shows "alg_uninit avail mq_ret last_turn threads o1 a = None"
  using assms by (simp add: alg_uninit_def)

text \<open>
  Shutting down waits for the wrong thread: the copy of the task list that \<^verbatim>\<open>alg_uninit\<close> joins is made before the
  inference thread exists, so its identifier is zero, which is no thread's, and \<^verbatim>\<open>pthread_join\<close> is undefined. With the list of the
  threads that were started, it would return.
\<close>
theorem alg_uninit_joins_wrong_thread:
  assumes "alg_init avail mq_ret pthread_ret mutex_ret avail2 tid answer cbk o1 a = (o2, a2, started, 0)" "0 \<notin> set threads"
  shows "alg_uninit avail' mq_ret' last_turn threads o2 a2 = None \<and>
    (\<exists>r. alg_uninit avail' mq_ret' last_turn started o2 (a2\<lparr>ar_task_list := Some started\<rparr>) = Some r)"
proof -
  note s = alg_init_started [OF assms(1)]
  then have "\<exists>r. alg_uninit avail' mq_ret' last_turn started o2 (a2\<lparr>ar_task_list := Some started\<rparr>) = Some r"
    by (auto simp: alg_uninit_def Let_def split: prod.split)
  with alg_uninit_wrong [OF conjunct2 [OF s] assms(2)] show ?thesis by blast
qed

theorem alg_uninit_joins_wrong_thread_witness:
  "(case alg_init True 3 0 0 True 77 0 () \<lparr>mtargets_handle = None, pvalgtask = None\<rparr> ex_targets of
      (o2, a2, started, _) \<Rightarrow> started = [77] \<and> alg_uninit True 0 id started o2 a2 = None)"
proof -
  let ?i = "alg_init True 3 0 0 True 77 0 () \<lparr>mtargets_handle = None, pvalgtask = None\<rparr> ex_targets"
  obtain o2 a2 started r where i: "?i = (o2, a2, started, r)" by (cases ?i)
  moreover have "snd (snd (snd ?i)) = 0" "fst (snd (snd ?i)) = [77]" by code_simp+
  ultimately have r: "?i = (o2, a2, started, 0)" "started = [77]" by simp_all
  with alg_uninit_joins_wrong_thread [OF r(1), of "[77]" True 0 id] show ?thesis by simp
qed

text \<open>
  A turn of the inference thread costs no memory: the target it takes is freed after the algorithm has seen it, and without an
  image nothing is taken.
\<close>
theorem fusion_turn_takes_one:
  assumes "targets_abs a xs" "fusion_turn run7 (Some pic) 0 a w = (a', w')"
  shows "targets_abs a' (if ar_user_target a = None then tl xs else xs) \<and> w' = run7 pic (snd (spec_take (spec_of a xs))) w \<and>
    ar_cnt a' = ar_cnt a - (if snd (spec_take (spec_of a xs)) = None then 0 else 2) \<and> fusion_turn run7 None 0 a w = (a, w)"
proof -
  obtain a1 node where g: "get_and_rm_one_target 0 a = (a1, node)" by (cases "get_and_rm_one_target 0 a")
  note t = take_abs [OF assms(1) g refl]
  have c: "ar_cnt a1 = ar_cnt a" using g by (auto simp: get_and_rm_one_target_def split: option.splits)
  show ?thesis
  proof (cases node)
    case None
    with assms(2) g t c show ?thesis by (auto simp: fusion_turn_def target_node_destory_def)
  next
    case (Some n)
    then have "tn_target_pack (ar_nodes a1 n) = snd (spec_take (spec_of a xs))" using t(3) by simp
    moreover have "tn_target_pack (ar_nodes a1 n) \<noteq> None"
      using g assms(1) Some by (auto simp: get_and_rm_one_target_def targets_abs_def hlist_Some split: option.splits)
    ultimately show ?thesis
      using assms(2) g t(1) c Some by (auto simp: fusion_turn_def target_node_destory_def free_node_def skyfend_safefree_def)
  qed
qed

theorem fusion_turn_takes_one_witness:
  "snd (fusion_turn (\<lambda>(pic :: nat) t w. t # w) (Some 1) 0 ex_waiting []) = [Some [7]]"
proof -
  let ?r = "fusion_turn (\<lambda>(pic :: nat) t w. t # w) (Some 1) 0 ex_waiting []"
  obtain a' w' where r: "?r = (a', w')" by (cases ?r)
  from fusion_turn_takes_one [OF ex_waiting_abs r] r show ?thesis
    by (simp add: spec_of_def spec_take_def ex_waiting_def ex_targets_def)
qed

text \<open>
  C17. From the link to the tracker: a target chosen by the user, received as a command, goes through the algorithm's task,
  and the next turn of the inference thread that has an image hands its bytes, behind the number that says where they come from, to the
  algorithm, ahead of every device target that waits; those go on waiting.
\<close>
theorem user_target_reaches_tracker:
  assumes "payload_is h p bs" "length bs \<le> 48" "en_pvalgtask e = Some m" "mq m = []" "en_avail e" "0 \<le> en_mq_ret e"
    "targets_abs a xs" "unused n a xs"
  shows "\<exists>e' m' m'' cnt' a1 a2. user_custom_track_target h p r e = Some (r, e') \<and> en_pvalgtask e' = Some m' \<and>
    sysport_task_turn (alg_thread_handler (\<lambda>(_ :: unit) pack sz w. Option.bind w (\<lambda>a. map_option fst
        (algs_handle_multiple_targets 0 True True n pack sz a))) (Some ())) Mq_received m' cnt (Some a) = Some (m'', cnt', Some a1) \<and>
    fusion_turn run7 (Some pic) 0 a1 w = (a2, run7 pic (Some (le_bytes 4 (3 :: u32) @ bs @ replicate (48 - length bs) 0)) w) \<and>
    targets_abs a2 xs"
proof -
  let ?pk = "le_bytes 4 (track_type_word TRACK_INFO_FROM_USER) @ bs @ replicate (48 - length bs) 0"
  let ?m = "m\<lparr>mq := [\<lparr>pv_func = Some Alg_thread_handler, uSize = 52, acInfo = ?pk\<rparr>]\<rparr>"
  let ?e = "e\<lparr>en_pvalgtask := Some ?m, en_cnt := en_cnt e + 1\<rparr>"
  let ?p = "\<lparr>tp_data_dev_type = 3, tp_pack = ?pk, tp_pack_len = 52\<rparr>"
  have posted: "user_custom_track_target h p r e = Some (r, ?e)"
    using user_custom_track_target_bound [OF assms(1,3,5,6), of r] assms(2,4) by (simp del: le_bytes.simps track_type_word.simps)
  have len: "length ?pk = 52" using assms(2) by simp
  have tag: "sint (of_le (take 4 ?pk) :: u32) = 3" by (simp add: of_le_le_bytes del: le_bytes.simps)
  have "loadn (tp_pack ?p) 0 (nat (tp_pack_len ?p)) = Some ?pk" using len by (simp add: loadn_def del: le_bytes.simps)
  from insert_abs [OF assms(7,8) _ this refl refl] obtain a' where
    a': "insert_target_to_head 0 True True n (Some ?p) a = Some (a', 0)" "targets_abs a' xs"
    "spec_of a' xs = spec_put True ?pk (spec_of a xs)" by (auto simp del: le_bytes.simps track_type_word.simps)
  have "algs_handle_multiple_targets 0 True True n ?pk 52 a = Some (a', 0)"
    using a'(1) tag len
    by (simp add: algs_handle_multiple_targets_def loadn_def del: le_bytes.simps track_type_word.simps append_assoc)
  then have turn: "sysport_task_turn (alg_thread_handler (\<lambda>(_ :: unit) pack sz w. Option.bind w (\<lambda>a. map_option fst
      (algs_handle_multiple_targets 0 True True n pack sz a))) (Some ())) Mq_received ?m cnt (Some a) =
      Some (Some (?m\<lparr>mq := []\<rparr>), cnt - 1, Some a')"
    by (simp add: sysport_task_turn_def alg_thread_handler_def skyfend_safefree_def del: le_bytes.simps track_type_word.simps)
  obtain a2 w2 where f: "fusion_turn run7 (Some pic) 0 a' w = (a2, w2)" by (cases "fusion_turn run7 (Some pic) 0 a' w")
  have u: "ar_user_target a' \<noteq> None" using a'(3) by (auto simp: spec_of_def spec_put_def)
  have t: "snd (spec_take (spec_of a' xs)) = Some ?pk"
    using a'(3) by (simp add: spec_put_def spec_take_def del: le_bytes.simps track_type_word.simps)
  have "targets_abs a2 xs" "w2 = run7 pic (Some ?pk) w"
    using fusion_turn_takes_one [OF a'(2) f] u unfolding t by (simp_all del: le_bytes.simps track_type_word.simps)
  then show ?thesis
    using posted turn f by (intro exI [of _ ?e] exI [of _ ?m] exI [of _ "Some (?m\<lparr>mq := []\<rparr>)"] exI [of _ "cnt - 1"] exI [of _ a'] exI [of _ a2])
      (simp del: le_bytes.simps add: track_type_word.simps)
qed

theorem user_target_reaches_tracker_witness:
  "\<exists>e' m' m'' cnt' a1 a2. user_custom_track_target [3 \<mapsto> replicate 9 0 @ [1, 2] @ [0, 0]] (ex_payload 2) ex_resp ex_env = Some (ex_resp, e') \<and>
    en_pvalgtask e' = Some m' \<and>
    sysport_task_turn (alg_thread_handler (\<lambda>(_ :: unit) pack sz w. Option.bind w (\<lambda>a. map_option fst
        (algs_handle_multiple_targets 0 True True 6 pack sz a))) (Some ())) Mq_received m' 2 (Some ex_waiting) = Some (m'', cnt', Some a1) \<and>
    fusion_turn (\<lambda>(pic :: nat) t w. (pic, t) # w) (Some 1) 0 a1 [] = (a2, [(1, Some ([3, 0, 0, 0, 1, 2] @ replicate 46 0))]) \<and> ar_head a2 = Some 5"
proof -
  have e: "en_pvalgtask ex_env = Some ex_alg" "mq ex_alg = []" "en_avail ex_env" "0 \<le> en_mq_ret ex_env"
    by (simp_all add: ex_env_def ex_alg_def)
  have u: "unused 6 ex_waiting [5]" by (simp add: unused_def ex_waiting_def ex_targets_def)
  have tag: "le_bytes 4 (3 :: u32) = [3, 0, 0, 0]" by code_simp
  have l: "length [1 :: u8, 2] \<le> 48" "48 - length [1 :: u8, 2] = 46" by simp_all
  have hd: "ar_head a2 = Some 5" if "targets_abs a2 [5]" for a2 using that by (simp add: targets_abs_def hlist_Some)
  from user_target_reaches_tracker [OF ex_payload_is l(1) e ex_waiting_abs u, of ex_resp 2 "\<lambda>pic t w. (pic, t) # w" "1 :: nat" "[]"] hd
  show ?thesis unfolding tag l(2) append_Cons append_Nil by blast
qed

end
