(* ===== verification/Ai_Main.thy ===== *)
theory Ai_Main
  imports Ptz_Handlers Guide_Targets Alg_Targets "HOL-Library.Signed_Division"
begin

text \<open>
  Guiding the pan-tilt head, \<^verbatim>\<open>srv/algs/ai_alg/ai_main.cpp\<close>: the functions that turn angles and boxes into commands, the
  guidance by radar and by tracer, and \<^verbatim>\<open>ai_alg_run7\<close>, which the inference thread calls once per image.

  The state are the globals of the file and the link to the head. Commands need the time and the answer of
  \<^verbatim>\<open>sendto\<close>: the clock \<open>clk\<close> gives them for the n-th command. What the head reports is read once per image; sleeping, output to the
  terminal and the tracing are left out. The counters are \<^verbatim>\<open>int\<close>: incrementing the largest is undefined. The earlier versions of the loop, which nothing calls, are in \<^verbatim>\<open>Ai_Runs\<close>.
\<close>

subsection \<open>State\<close>

record ai_state =
  ai_link :: "(ptz_fn, ptz_realtime) ptz_link"
  ai_n :: nat
  g_nID :: i32
  firstGuide :: bool
  img_cnt :: i32
  prev_cnt :: i32
  track_cnt :: i32
  prev_mode :: i32

text \<open>\<^verbatim>\<open>++x\<close> on an \<^verbatim>\<open>int\<close>; past the largest it is undefined.\<close>

definition int_inc :: "i32 \<Rightarrow> i32 option" where
  "int_inc x = (if x = 2147483647 then None else Some (x + 1))"

lemma int_inc_Some: "int_inc x = Some y \<longleftrightarrow> x \<noteq> 2147483647 \<and> y = x + 1"
  by (auto simp: int_inc_def)

type_synonym clock = "nat \<Rightarrow> timeval \<times> timeval \<times> i32"

definition ai_send :: "(ptz_fn, ptz_realtime) ptz_op \<Rightarrow> clock \<Rightarrow> bytes \<Rightarrow> ai_state \<Rightarrow> ai_state option" where
  "ai_send op clk m a =
     (case clk (ai_n a) of
        (tv, tv', ret) \<Rightarrow> do {
          (_, s', _) \<leftarrow> op tv tv' ret (Some m) (ai_link a);
          Some (a\<lparr>ai_link := s', ai_n := ai_n a + 1\<rparr>) })"

text \<open>A struct initialised with \<^verbatim>\<open>{0}\<close>.\<close>

definition zero_struct :: "layout \<Rightarrow> bytes" where
  "zero_struct l = replicate (packed_size l) 0"

subsection \<open>Commands\<close>

definition PTZ_ADDR_GUIDANCE_MODE_ANGLE :: u8 where "PTZ_ADDR_GUIDANCE_MODE_ANGLE = 0"

definition setPTZ :: "('f, 'z) fp_scheme \<Rightarrow> clock \<Rightarrow> 'f \<Rightarrow> 'f \<Rightarrow> 'f \<Rightarrow> ai_state \<Rightarrow> ai_state option" where
  "setPTZ F clk ablHor ablVer cameraBS a = do {
     addr_t \<leftarrow> set_fields ptz_msgid_0x03_addr
       [(''guidance_mode'', le_bytes 1 PTZ_ADDR_GUIDANCE_MODE_ANGLE), (''horizatal_angle'', f_bytes F (f_single F ablHor)),
        (''pitch_angle'', f_bytes F (f_single F ablVer)), (''target_motion_direction'', le_bytes 1 (0 :: u8))]
       (zero_struct ptz_msgid_0x03_addr);
     a1 \<leftarrow> ai_send send_ptz_control_addr clk addr_t a;
     ctrl_p \<leftarrow> set_fields ptz_msg_ctrl_pack
       [(''ctrl_cmd'', le_bytes 4 (2 :: u32)), (''focal'', le_bytes 4 (f_u32 F (f_single F cameraBS)))] (zero_struct ptz_msg_ctrl_pack);
     ai_send send_ptz_control_pack clk ctrl_p a1 }"

definition setPTZ0 :: "('f, 'z) fp_scheme \<Rightarrow> clock \<Rightarrow> 'f \<Rightarrow> 'f \<Rightarrow> 'f \<Rightarrow> 'f \<Rightarrow> ai_state \<Rightarrow> ai_state option" where
  "setPTZ0 F clk ablHor ablVer verticalHeight horizontalDistance a = do {
     addr_t \<leftarrow> set_fields ptz_msgid_0x03_addr
       [(''guidance_mode'', le_bytes 1 PTZ_ADDR_GUIDANCE_MODE_ANGLE), (''horizatal_angle'', f_bytes F (f_single F ablHor)),
        (''pitch_angle'', f_bytes F (f_single F ablVer)), (''target_motion_direction'', le_bytes 1 (0 :: u8)),
        (''target_altitude'', f_bytes F (f_single F verticalHeight)), (''distance'', f_bytes F (f_single F horizontalDistance))]
       (zero_struct ptz_msgid_0x03_addr);
     ai_send send_ptz_control_addr clk addr_t a }"

definition setPTZ1 :: "('f, 'z) fp_scheme \<Rightarrow> clock \<Rightarrow> 'f \<Rightarrow> 'f \<Rightarrow> 'f \<Rightarrow> 'f \<Rightarrow> ai_state \<Rightarrow> ai_state option" where
  "setPTZ1 F clk longitude latitude altitude horizontalDistance a = do {
     addr_t \<leftarrow> set_fields ptz_msgid_0x03_addr
       [(''guidance_mode'', le_bytes 1 (1 :: u8)), (''target_longitude'', f_bytes F (f_single F longitude)),
        (''target_latitude'', f_bytes F (f_single F latitude)), (''target_altitude'', f_bytes F (f_single F altitude)),
        (''target_motion_direction'', le_bytes 1 (0 :: u8)), (''distance'', f_bytes F (f_single F horizontalDistance))]
       (zero_struct ptz_msgid_0x03_addr);
     ai_send send_ptz_control_addr clk addr_t a }"

definition SetCameraZoom :: "('f, 'z) fp_scheme \<Rightarrow> clock \<Rightarrow> 'f \<Rightarrow> ai_state \<Rightarrow> ai_state option" where
  "SetCameraZoom F clk cameraBS a = do {
     ctrl_p \<leftarrow> set_fields ptz_msg_ctrl_pack
       [(''ctrl_cmd'', le_bytes 4 (2 :: u32)), (''focal'', le_bytes 4 (f_u32 F (f_single F cameraBS)))] (zero_struct ptz_msg_ctrl_pack);
     ai_send send_ptz_control_pack clk ctrl_p a }"

text \<open>The box of a target in a picture of 640 by 480, mapped to 704 by 576.\<close>

definition PTZTracking :: "('f, 'z) fp_scheme \<Rightarrow> clock \<Rightarrow> i32 \<Rightarrow> i32 \<Rightarrow> i32 \<Rightarrow> i32 \<Rightarrow> ai_state \<Rightarrow> ai_state option" where
  "PTZTracking F clk left right upper lower a = do {
     let fRationX = f_single F (f_div F (f_int F 704) (f_int F 640));
     let fRationY = f_single F (f_div F (f_int F 576) (f_int F 480));
     let cor = (\<lambda>mid ratio. f_u32 F (f_single F (f_mul F (f_single F (f_int F mid)) ratio)));
     track \<leftarrow> set_fields ptz_msg_manual_lock_target
       [(''track_vedio_source'', le_bytes 4 (0 :: u32)), (''targegt_cor_y'', le_bytes 4 (cor ((upper + lower) sdiv 2) fRationY)),
        (''target_cor_x'', le_bytes 4 (cor ((left + right) sdiv 2) fRationX))] (zero_struct ptz_msg_manual_lock_target);
     ai_send send_ptz_control_manual_lock_target clk track a }"

definition StoppingTracking :: "clock \<Rightarrow> ai_state \<Rightarrow> ai_state option" where
  "StoppingTracking clk a = do {
     track \<leftarrow> set_fields ptz_msg_track [(''ctrl_cmd'', le_bytes 4 (3 :: u32))] (zero_struct ptz_msg_track);
     ai_send send_ptz_control_track clk track a }"

definition StartScanRegion :: "clock \<Rightarrow> u32 \<Rightarrow> u32 \<Rightarrow> u32 \<Rightarrow> u32 \<Rightarrow> u32 \<Rightarrow> ai_state \<Rightarrow> ai_state option" where
  "StartScanRegion clk horizatal_begin horizatal_end pitching_begin pitching_end scan_speed a = do {
     scan \<leftarrow> set_fields ptz_msg_scan_ext
       [(''ctrl_cmd'', le_bytes 4 (1 :: u32)), (''horizatal_search_begin'', le_bytes 4 horizatal_begin),
        (''horizatal_search_end'', le_bytes 4 horizatal_end), (''pitching_search_begin'', le_bytes 4 pitching_begin),
        (''pitching_search_end'', le_bytes 4 pitching_end), (''scan_speed'', le_bytes 4 scan_speed)] (zero_struct ptz_msg_scan_ext);
     ai_send send_ptz_control_scan_ext clk scan a }"

definition StopScanRegion :: "clock \<Rightarrow> ai_state \<Rightarrow> ai_state option" where
  "StopScanRegion clk a = do {
     scan \<leftarrow> set_fields ptz_msg_scan_ext [(''ctrl_cmd'', le_bytes 4 (0 :: u32))] (zero_struct ptz_msg_scan_ext);
     ai_send send_ptz_control_scan_ext clk scan a }"

text \<open>The region is ignored.\<close>

definition StartSDT :: "clock \<Rightarrow> u32 \<Rightarrow> u32 \<Rightarrow> u32 \<Rightarrow> u32 \<Rightarrow> u32 \<Rightarrow> ai_state \<Rightarrow> ai_state option" where
  "StartSDT clk horizatal_begin horizatal_end pitching_begin pitching_end scan_speed a = do {
     sdt \<leftarrow> set_fields ptz_msg_track [(''ctrl_cmd'', le_bytes 4 (1 :: u32)), (''reserver'', le_bytes 4 (0 :: u32))] (zero_struct ptz_msg_track);
     ai_send send_ptz_control_track clk sdt a }"

definition StopSDT :: "clock \<Rightarrow> ai_state \<Rightarrow> ai_state option" where
  "StopSDT clk a = do {
     sdt \<leftarrow> set_fields ptz_msg_track [(''ctrl_cmd'', le_bytes 4 (3 :: u32))] (zero_struct ptz_msg_track);
     ai_send send_ptz_control_track clk sdt a }"

definition SearchAndTracking :: "clock \<Rightarrow> ai_state \<Rightarrow> ai_state option" where
  "SearchAndTracking clk a = do {
     track \<leftarrow> set_fields ptz_msg_track [(''ctrl_cmd'', le_bytes 4 (1 :: u32)), (''reserver'', le_bytes 4 (0 :: u32))] (zero_struct ptz_msg_track);
     ai_send send_ptz_control_track clk track a }"

definition GetBSFromDistance :: "('f, 'z) fp_scheme \<Rightarrow> 'f \<Rightarrow> 'f" where
  "GetBSFromDistance F d =
     (let dRatio = f_lit F 6 1;
          below = (\<lambda>n. f_less F d (f_int F n)); from = (\<lambda>n. f_le F (f_int F n) d);
          bs = (\<lambda>v. f_mul F (f_lit F (v * 10) 1) dRatio)
      in if below 100 then bs 14
         else if below 200 \<and> from 100 then bs 17
         else if below 300 \<and> from 200 then bs 24
         else if below 400 \<and> from 300 then bs 34
         else if below 500 \<and> from 400 then bs 40
         else if below 600 \<and> from 500 then bs 44
         else if below 800 \<and> from 600 then bs 46
         else bs 47)"

text \<open>The angles and the magnification the head reported last.\<close>

definition getPTZ :: "('f, 'z) fp_scheme \<Rightarrow> ai_state \<Rightarrow> ('f \<times> 'f \<times> 'f) option" where
  "getPTZ F a = do {
     h \<leftarrow> get_field ptz_msg_pitch_azimuth ''horizatal_angle'' (realtime_pa_t (pl_world (ai_link a)));
     v \<leftarrow> get_field ptz_msg_pitch_azimuth ''pitching_angle'' (realtime_pa_t (pl_world (ai_link a)));
     z \<leftarrow> get_field ptz_msg_pitch_azimuth ''lens_magnification'' (realtime_pa_t (pl_world (ai_link a)));
     Some (f_single F (f_of_bytes F h), f_single F (f_of_bytes F v), f_single F (f_int F (uint (of_le z :: u8)))) }"

subsection \<open>Guidance\<close>

text \<open>
  \<^verbatim>\<open>radarGuide\<close>. The azimuth is passed on only when it is negative, and \<^verbatim>\<open>setPTZ0\<close> takes the height before the distance.
\<close>

definition radarGuide ::
  "('f, 'z) fp_scheme \<Rightarrow> ('f radar_obj list \<Rightarrow> 'f radar_obj list) \<Rightarrow> clock \<Rightarrow> bytes \<Rightarrow> i32 \<Rightarrow> ai_state \<Rightarrow> ai_state option" where
  "radarGuide F srt clk radar_targets ptz_id a = do {
     obj_list \<leftarrow> radar_read F radar_targets;
     (case radar_2ptz srt obj_list (RadarObj F 0 0 0 0) ptz_id (g_nID a) of
        (g, ob, ret) \<Rightarrow>
          let a1 = a\<lparr>g_nID := g\<rparr> in
          if ret > 0 then do {
            a2 \<leftarrow> StoppingTracking clk a1;
            let horAngle = (if f_less F (ro_azimuth ob) (f_int F 0) then f_add F (f_int F 360) (ro_azimuth ob) else f_int F 0);
            setPTZ0 F clk horAngle (ro_elevation ob)
              (f_sqrt F (f_add F (f_mul F (ro_x ob) (ro_x ob)) (f_mul F (ro_y ob) (ro_y ob)))) (ro_z ob) a2 }
          else Some a1) }"

text \<open>The tail of the three tracer guides: from the place of the camera to that of the drone, corrected by the mounting angles.\<close>

definition tracer_aim ::
  "('f, 'z) fp_scheme \<Rightarrow> clock \<Rightarrow> 'f \<Rightarrow> 'f \<Rightarrow> 'f \<Rightarrow> 'f \<Rightarrow> 'f tracer_obj \<Rightarrow> ai_state \<Rightarrow> ai_state option" where
  "tracer_aim F clk startLat startLng p_off t_off ob a =
     (let res = calibPTZ F startLat startLng (to_droneLatitude ob) (to_droneLongitude ob) (to_droneHeight ob);
          p = f_single F (f_add F (res_a res) p_off);
          t = f_single F (f_sub F (res_e res) t_off)
      in setPTZ0 F clk p t (to_droneHeight ob) (res_range res) a)"

definition tracerGuideR :: "('f, 'z) fp_scheme \<Rightarrow> clock \<Rightarrow> bytes \<Rightarrow> ai_state \<Rightarrow> ai_state option" where
  "tracerGuideR F clk tracer_targets a = do {
     obj_list \<leftarrow> tracerR_read F tracer_targets;
     (case tracer_2ptz obj_list (TracerObj F 0 0) of
        (ob, ret) \<Rightarrow>
          if ret > 0 then tracer_aim F clk (f_lit F 22596960 6) (f_lit F 113998050 6) (f_lit F 9786 2) (f_lit F (-16) 2) ob a
          else Some a) }"

definition tracerGuideD :: "('f, 'z) fp_scheme \<Rightarrow> clock \<Rightarrow> bytes \<Rightarrow> ai_state \<Rightarrow> ai_state option" where
  "tracerGuideD F clk tracer_targets a = do {
     obj_list \<leftarrow> tracerD_read F tracer_targets;
     (case tracer_2ptz obj_list (TracerObj F 0 0) of
        (ob, ret) \<Rightarrow>
          if ret > 0 then tracer_aim F clk (f_lit F 22596960 6) (f_lit F 113998050 6) (f_lit F 9786 2) (f_lit F 16 2) ob a
          else Some a) }"

definition tracerGuideD_N :: "('f, 'z) fp_scheme \<Rightarrow> clock \<Rightarrow> bytes \<Rightarrow> ai_state \<Rightarrow> ai_state option" where
  "tracerGuideD_N F clk tracer_targets a = do {
     obj_list \<leftarrow> tracerD_read F tracer_targets;
     (case tracer_2ptz obj_list (TracerObj F 0 0) of
        (ob, ret) \<Rightarrow>
          if ret > 0 then do {
            a1 \<leftarrow> StoppingTracking clk a;
            tracer_aim F clk (f_lit F 22596927 6) (f_lit F 113998072 6) (f_lit F 12683 2) (f_lit F 64 2) ob a1 }
          else Some a) }"

subsection \<open>One image\<close>

text \<open>The switch over the kind of target, which occurs twice in \<^verbatim>\<open>ai_alg_run7\<close>; the targets of users are not used.\<close>

definition guide_by :: "('f, 'z) fp_scheme \<Rightarrow> ('f radar_obj list \<Rightarrow> 'f radar_obj list) \<Rightarrow> clock \<Rightarrow> bytes \<Rightarrow> ai_state \<Rightarrow> ai_state option" where
  "guide_by F srt clk targets a = do {
     data_dev_type \<leftarrow> load32 targets 0;
     if data_dev_type = track_type_word TRACK_INFO_RADAR then radarGuide F srt clk targets (-1) a
     else if data_dev_type = track_type_word TRACK_INFO_TRACER_P_REMOTE_ID then tracerGuideR F clk targets a
     else if data_dev_type = track_type_word TRACK_INFO_TRACER_P_DRONE_ID then tracerGuideD F clk targets a
     else Some a }"

definition work_mode_of :: "ai_state \<Rightarrow> u32 option" where
  "work_mode_of a = map_option of_le (get_field ptz_msg_status ''work_mode'' (realtime_status (pl_world (ai_link a))))"

definition target_num_of :: "ai_state \<Rightarrow> u32 option" where
  "target_num_of a = map_option of_le (get_field ptz_msg_target_pac ''target_num'' (realtime_targets (pl_world (ai_link a))))"

text \<open>
  The condition \<^verbatim>\<open>prev_mode = 2 && realtime_status.work_mode == 0\<close> is an assignment of the conjunction.
\<close>

definition run7_mode :: "u32 \<Rightarrow> ai_state \<Rightarrow> ai_state option" where
  "run7_mode wm a =
     (let a1 = a\<lparr>prev_mode := (if (2 :: int) \<noteq> 0 \<and> wm = 0 then 1 else 0)\<rparr>;
          a2 = (if prev_mode a1 \<noteq> 0 then a1\<lparr>firstGuide := True\<rparr> else a1);
          a3 = a2\<lparr>prev_mode := sint wm\<rparr>
      in map_option (\<lambda>n. a3\<lparr>track_cnt := n\<rparr>) (if wm = 2 then int_inc (track_cnt a3) else Some 0))"

definition run7_guide ::
  "('f, 'z) fp_scheme \<Rightarrow> ('f radar_obj list \<Rightarrow> 'f radar_obj list) \<Rightarrow> clock \<Rightarrow> u32 \<Rightarrow> bytes \<Rightarrow> ai_state \<Rightarrow> ai_state option" where
  "run7_guide F srt clk wm targets a = do {
     a1 \<leftarrow> (if wm = 0 \<and> (firstGuide a \<or> img_cnt a - prev_cnt a \<ge> 6) then do {
         b \<leftarrow> guide_by F srt clk targets a;
         let b1 = b\<lparr>prev_cnt := img_cnt b\<rparr>;
         target_num \<leftarrow> target_num_of b1;
         if target_num \<noteq> 0 then SearchAndTracking clk b1 else Some b1 }
       else Some a);
     if wm = 2 \<and> track_cnt a1 \<noteq> 0 \<and> track_cnt a1 mod 30 = 0 then guide_by F srt clk targets a1 else Some a1 }"

definition ai_alg_run7 ::
  "('f, 'z) fp_scheme \<Rightarrow> ('f radar_obj list \<Rightarrow> 'f radar_obj list) \<Rightarrow> clock \<Rightarrow> bytes option \<Rightarrow> ai_state \<Rightarrow> (ai_state \<times> i32) option" where
  "ai_alg_run7 F srt clk targets a = do {
     k \<leftarrow> int_inc (img_cnt a);
     let a0 = a\<lparr>img_cnt := k\<rparr>;
     wm \<leftarrow> work_mode_of a0;
     a1 \<leftarrow> (if wm = 1 then StoppingTracking clk a0 else Some a0);
     a2 \<leftarrow> run7_mode wm a1;
     a3 \<leftarrow> (case targets of None \<Rightarrow> Some a2 | Some t \<Rightarrow> run7_guide F srt clk wm t a2);
     Some (a3, 0) }"

subsection \<open>What a command does\<close>

text \<open>One datagram with command \<open>cmd\<close> goes out; its message is the struct \<open>m\<close> but for the members the link fills in.\<close>

definition sends_one :: "u32 \<Rightarrow> layout \<Rightarrow> string set \<Rightarrow> bytes \<Rightarrow> ai_state \<Rightarrow> ai_state \<Rightarrow> bool" where
  "sends_one cmd l stamped m a a' \<longleftrightarrow>
     (\<exists>ts m'. a' = a\<lparr>ai_link := ptz_broadcast (ptz_frame cmd ts m') (ai_link a), ai_n := ai_n a + 1\<rparr> \<and>
        length m' = packed_size l \<and> (\<forall>f. f \<notin> stamped \<longrightarrow> get_field l f m' = get_field l f m))"

abbreviation ai_connected :: "ai_state \<Rightarrow> bool" where
  "ai_connected a \<equiv> ptz_connected (ai_link a)"

lemma broadcast_connected [simp]: "ptz_connected (ptz_broadcast bs s) = ptz_connected s" "pl_world (ptz_broadcast bs s) = pl_world s"
  by (simp_all add: ptz_connected_def ptz_broadcast_def)

lemma sends_one_connected: "sends_one cmd l stamped m a a' \<Longrightarrow> ai_connected a' = ai_connected a"
  by (auto simp: sends_one_def)

lemma ai_send_sends:
  assumes "ptz_sender op cmd l stamped" "ai_connected a" "length m = packed_size l"
  shows "\<exists>a'. ai_send op clk m a = Some a' \<and> sends_one cmd l stamped m a a'"
proof -
  obtain tv tv' ret where c: "clk (ai_n a) = (tv, tv', ret)" by (cases "clk (ai_n a)")
  from ptz_sender.sends [OF assms(1,2,3), of tv tv' ret] obtain m' where
    "op tv tv' ret (Some m) (ai_link a) = Some (Some m', ptz_broadcast (ptz_frame cmd (timesmap_of tv') m') (ai_link a), 0)"
    "length m' = packed_size l" "\<forall>f. f \<notin> stamped \<longrightarrow> get_field l f m' = get_field l f m" by blast
  then show ?thesis by (auto simp: ai_send_def sends_one_def c)
qed

lemma set_fields_get:
  "set_fields l fs m = Some m' \<Longrightarrow> distinct (map fst fs) \<Longrightarrow> (f, v) \<in> set fs \<Longrightarrow> get_field l f m' = Some v"
proof (induction fs arbitrary: m)
  case (Cons p fs)
  obtain g w where p: "p = (g, w)" by (cases p)
  from Cons.prems p obtain m1 where m1: "set_field l g w m = Some m1" "set_fields l fs m1 = Some m'"
    by (auto split: bind_splits)
  show ?case
  proof (cases "(f, v) \<in> set fs")
    case True
    with Cons m1 show ?thesis by auto
  next
    case False
    with Cons.prems(3) p have fv: "f = g" "v = w" by auto
    with Cons.prems(2) p have nf: "f \<notin> fst ` set fs" by auto
    have keep: "set_fields l fs m1 = Some m' \<Longrightarrow> f \<notin> fst ` set fs \<Longrightarrow> get_field l f m' = get_field l f m1" for fs m1
      by (induction fs arbitrary: m1) (auto split: bind_splits, metis get_set_other)
    with m1(2) nf fv get_set_same [OF m1(1)] show ?thesis by simp
  qed
qed simp

lemma built:
  assumes "\<forall>(f, v) \<in> set fs. map_of l f = Some (length v)" "distinct (map fst fs)"
  shows "\<exists>m. set_fields l fs (zero_struct l) = Some m \<and> length m = packed_size l \<and> (\<forall>(f, v) \<in> set fs. get_field l f m = Some v)"
proof -
  from set_fields_total [of l "zero_struct l" fs] assms(1) obtain m where
    "set_fields l fs (zero_struct l) = Some m" "length m = packed_size l" by (auto simp: zero_struct_def)
  with set_fields_get [OF _ assms(2)] show ?thesis by blast
qed

text \<open>Building a struct and sending it: the datagram has the members as they were set.\<close>

lemma build_send:
  assumes "ptz_sender op cmd l stamped" "ai_connected a" "\<forall>(f, v) \<in> set fs. map_of l f = Some (length v)" "distinct (map fst fs)"
  shows "\<exists>m a'. Option.bind (set_fields l fs (zero_struct l)) (\<lambda>m. ai_send op clk m a) = Some a' \<and> sends_one cmd l stamped m a a' \<and>
    (\<forall>(f, v) \<in> set fs. get_field l f m = Some v)"
proof -
  from built [OF assms(3,4)] obtain m where m: "set_fields l fs (zero_struct l) = Some m" "length m = packed_size l"
    "\<forall>(f, v) \<in> set fs. get_field l f m = Some v" by blast
  from ai_send_sends [OF assms(1,2) m(2), of clk] m show ?thesis by (intro exI [of _ m]) auto
qed

abbreviation track_sent :: "bytes \<Rightarrow> ai_state \<Rightarrow> ai_state \<Rightarrow> bool" where
  "track_sent \<equiv> sends_one PTZ_COMMAND_SERACH_TRACK ptz_msg_track {''photoelectricity_no'', ''sys_timesmap''}"

abbreviation addr_sent :: "bytes \<Rightarrow> ai_state \<Rightarrow> ai_state \<Rightarrow> bool" where
  "addr_sent \<equiv> sends_one PTZ_COMMAND_ADDR ptz_msgid_0x03_addr {''photoelectricity_no'', ''user_id'', ''sys_no'', ''sys_timesmap''}"

lemma track_command:
  assumes "ai_connected a" "fs = (''ctrl_cmd'', v) # fs'" "\<forall>(f, v) \<in> set fs. map_of ptz_msg_track f = Some (length v)"
    "distinct (map fst fs)"
  shows "\<exists>m a'. Option.bind (set_fields ptz_msg_track fs (zero_struct ptz_msg_track)) (\<lambda>m. ai_send send_ptz_control_track clk m a) = Some a' \<and>
    track_sent m a a' \<and> get_field ptz_msg_track ''ctrl_cmd'' m = Some v"
proof -
  have s: "ptz_sender (send_ptz_control_track :: (ptz_fn, ptz_realtime) ptz_op) PTZ_COMMAND_SERACH_TRACK ptz_msg_track
      {''photoelectricity_no'', ''sys_timesmap''}" by unfold_locales
  from build_send [OF s assms(1,3,4), of clk] obtain m a' where
    "Option.bind (set_fields ptz_msg_track fs (zero_struct ptz_msg_track)) (\<lambda>m. ai_send send_ptz_control_track clk m a) = Some a'"
    "track_sent m a a'" "\<forall>(f, v) \<in> set fs. get_field ptz_msg_track f m = Some v" by blast
  with assms(2) show ?thesis by (intro exI [of _ m] exI [of _ a']) simp
qed

lemma StoppingTracking_sends:
  assumes "ai_connected a"
  shows "\<exists>m a'. StoppingTracking clk a = Some a' \<and> track_sent m a a' \<and> get_field ptz_msg_track ''ctrl_cmd'' m = Some (le_bytes 4 (3 :: u32))"
  unfolding StoppingTracking_def by (rule track_command [OF assms refl]) (simp_all add: ptz_msg_track_def)

lemma SearchAndTracking_sends:
  assumes "ai_connected a"
  shows "\<exists>m a'. SearchAndTracking clk a = Some a' \<and> track_sent m a a' \<and> get_field ptz_msg_track ''ctrl_cmd'' m = Some (le_bytes 4 (1 :: u32))"
  unfolding SearchAndTracking_def by (rule track_command [OF assms refl]) (simp_all add: ptz_msg_track_def)

lemma setPTZ0_sends:
  assumes "ai_connected a" "fp_stores F"
  shows "\<exists>m a'. setPTZ0 F clk h v z d a = Some a' \<and> addr_sent m a a' \<and>
    get_field ptz_msgid_0x03_addr ''horizatal_angle'' m = Some (f_bytes F (f_single F h)) \<and>
    get_field ptz_msgid_0x03_addr ''pitch_angle'' m = Some (f_bytes F (f_single F v)) \<and>
    get_field ptz_msgid_0x03_addr ''target_altitude'' m = Some (f_bytes F (f_single F z)) \<and>
    get_field ptz_msgid_0x03_addr ''distance'' m = Some (f_bytes F (f_single F d))"
proof -
  have s: "ptz_sender (send_ptz_control_addr :: (ptz_fn, ptz_realtime) ptz_op) PTZ_COMMAND_ADDR ptz_msgid_0x03_addr
      {''photoelectricity_no'', ''user_id'', ''sys_no'', ''sys_timesmap''}" by unfold_locales
  let ?fs = "[(''guidance_mode'', le_bytes 1 PTZ_ADDR_GUIDANCE_MODE_ANGLE), (''horizatal_angle'', f_bytes F (f_single F h)),
    (''pitch_angle'', f_bytes F (f_single F v)), (''target_motion_direction'', le_bytes 1 (0 :: u8)),
    (''target_altitude'', f_bytes F (f_single F z)), (''distance'', f_bytes F (f_single F d))]"
  have fs: "\<forall>(f, v) \<in> set ?fs. map_of ptz_msgid_0x03_addr f = Some (length v)" "distinct (map fst ?fs)"
    using assms(2) by (simp_all add: ptz_msgid_0x03_addr_def fp_stores_def)
  from build_send [OF s assms(1) fs, of clk] obtain m a' where
    "Option.bind (set_fields ptz_msgid_0x03_addr ?fs (zero_struct ptz_msgid_0x03_addr)) (\<lambda>m. ai_send send_ptz_control_addr clk m a) = Some a'"
    "addr_sent m a a'" "\<forall>(f, v) \<in> set ?fs. get_field ptz_msgid_0x03_addr f m = Some v" by blast
  then show ?thesis unfolding setPTZ0_def by (intro exI [of _ m] exI [of _ a']) simp
qed

subsection \<open>What the guidance changes\<close>

text \<open>Commands and guidance touch the link, the number of commands and \<^verbatim>\<open>g_nID\<close>, never the counters of \<^verbatim>\<open>ai_alg_run7\<close>.\<close>

definition same_counters :: "ai_state \<Rightarrow> ai_state \<Rightarrow> bool" where
  "same_counters a b \<longleftrightarrow> firstGuide b = firstGuide a \<and> img_cnt b = img_cnt a \<and> prev_cnt b = prev_cnt a \<and>
     track_cnt b = track_cnt a \<and> prev_mode b = prev_mode a"

lemma same_counters_refl [simp]: "same_counters a a"
  by (simp add: same_counters_def)

lemma same_counters_trans: "same_counters a b \<Longrightarrow> same_counters b c \<Longrightarrow> same_counters a c"
  by (simp add: same_counters_def)

lemma ai_send_counters: "ai_send op clk m a = Some b \<Longrightarrow> same_counters a b"
  by (auto simp: ai_send_def same_counters_def split: prod.splits bind_splits)

lemma command_counters:
  "StoppingTracking clk a = Some b \<Longrightarrow> same_counters a b"
  "SearchAndTracking clk a = Some b \<Longrightarrow> same_counters a b"
  "setPTZ0 F clk h v z d a = Some b \<Longrightarrow> same_counters a b"
  by (auto simp: StoppingTracking_def SearchAndTracking_def setPTZ0_def split: bind_splits dest: ai_send_counters)

lemma tracer_aim_counters: "tracer_aim F clk la lo p t ob a = Some b \<Longrightarrow> same_counters a b"
  by (auto simp: tracer_aim_def Let_def dest: command_counters)

definition radar_angle :: "('f, 'z) fp_scheme \<Rightarrow> 'f radar_obj \<Rightarrow> 'f" where
  "radar_angle F ob = (if f_less F (ro_azimuth ob) (f_int F 0) then f_add F (f_int F 360) (ro_azimuth ob) else f_int F 0)"

definition radar_ground :: "('f, 'z) fp_scheme \<Rightarrow> 'f radar_obj \<Rightarrow> 'f" where
  "radar_ground F ob = f_sqrt F (f_add F (f_mul F (ro_x ob) (ro_x ob)) (f_mul F (ro_y ob) (ro_y ob)))"

lemma radarGuide_eq:
  assumes "radar_read F pack = Some objs" "radar_2ptz srt objs (RadarObj F 0 0 0 0) i (g_nID a) = (g, ob, ret)"
  shows "radarGuide F srt clk pack i a =
    (if ret > 0 then Option.bind (StoppingTracking clk (a\<lparr>g_nID := g\<rparr>))
       (\<lambda>a2. setPTZ0 F clk (radar_angle F ob) (ro_elevation ob) (radar_ground F ob) (ro_z ob) a2)
     else Some (a\<lparr>g_nID := g\<rparr>))"
  using assms by (simp add: radarGuide_def Let_def radar_angle_def radar_ground_def)

lemma radarGuide_counters:
  assumes "radarGuide F srt clk pack i a = Some b"
  shows "same_counters a b"
proof -
  obtain objs where o: "radar_read F pack = Some objs"
    using assms by (cases "radar_read F pack") (auto simp: radarGuide_def)
  obtain g ob ret where r: "radar_2ptz srt objs (RadarObj F 0 0 0 0) i (g_nID a) = (g, ob, ret)"
    by (cases "radar_2ptz srt objs (RadarObj F 0 0 0 0) i (g_nID a)")
  have g: "same_counters a (a\<lparr>g_nID := g\<rparr>)" by (simp add: same_counters_def)
  show ?thesis
  proof (cases "ret > 0")
    case True
    with assms radarGuide_eq [OF o r, of clk] obtain a2 where a2: "StoppingTracking clk (a\<lparr>g_nID := g\<rparr>) = Some a2"
      "setPTZ0 F clk (radar_angle F ob) (ro_elevation ob) (radar_ground F ob) (ro_z ob) a2 = Some b"
      by (cases "StoppingTracking clk (a\<lparr>g_nID := g\<rparr>)") auto
    from command_counters(1) [OF a2(1)] command_counters(3) [OF a2(2)] g show ?thesis by (meson same_counters_trans)
  next
    case False
    with assms radarGuide_eq [OF o r, of clk] g show ?thesis by simp
  qed
qed

lemma guide_by_counters: "guide_by F srt clk t a = Some b \<Longrightarrow> same_counters a b"
  by (auto simp: guide_by_def tracerGuideR_def tracerGuideD_def split: bind_splits if_splits prod.splits
      dest: radarGuide_counters tracer_aim_counters)

text \<open>The guidance by radar in two datagrams.\<close>

lemma radarGuide_sends:
  assumes "fp_stores F" "ai_connected a" "radar_read F pack = Some objs"
    "radar_2ptz srt objs (RadarObj F 0 0 0 0) i (g_nID a) = (g, ob, ret)" "ret > 0"
  shows "\<exists>a1 a2 m1 m2. radarGuide F srt clk pack i a = Some a2 \<and> track_sent m1 (a\<lparr>g_nID := g\<rparr>) a1 \<and> addr_sent m2 a1 a2 \<and>
    get_field ptz_msg_track ''ctrl_cmd'' m1 = Some (le_bytes 4 (3 :: u32)) \<and>
    get_field ptz_msgid_0x03_addr ''horizatal_angle'' m2 = Some (f_bytes F (f_single F (radar_angle F ob))) \<and>
    get_field ptz_msgid_0x03_addr ''pitch_angle'' m2 = Some (f_bytes F (f_single F (ro_elevation ob))) \<and>
    get_field ptz_msgid_0x03_addr ''target_altitude'' m2 = Some (f_bytes F (f_single F (radar_ground F ob))) \<and>
    get_field ptz_msgid_0x03_addr ''distance'' m2 = Some (f_bytes F (f_single F (ro_z ob)))"
proof -
  let ?a = "a\<lparr>g_nID := g\<rparr>"
  from StoppingTracking_sends [of ?a clk] assms(2) obtain m1 a1 where
    s: "StoppingTracking clk ?a = Some a1" "track_sent m1 ?a a1" "get_field ptz_msg_track ''ctrl_cmd'' m1 = Some (le_bytes 4 (3 :: u32))"
    by auto
  then have "ai_connected a1" using assms(2) sends_one_connected by fastforce
  from setPTZ0_sends [OF this assms(1), of clk "radar_angle F ob" "ro_elevation ob" "radar_ground F ob" "ro_z ob"]
  obtain m2 a2 where p: "setPTZ0 F clk (radar_angle F ob) (ro_elevation ob) (radar_ground F ob) (ro_z ob) a1 = Some a2" "addr_sent m2 a1 a2"
    "get_field ptz_msgid_0x03_addr ''horizatal_angle'' m2 = Some (f_bytes F (f_single F (radar_angle F ob)))"
    "get_field ptz_msgid_0x03_addr ''pitch_angle'' m2 = Some (f_bytes F (f_single F (ro_elevation ob)))"
    "get_field ptz_msgid_0x03_addr ''target_altitude'' m2 = Some (f_bytes F (f_single F (radar_ground F ob)))"
    "get_field ptz_msgid_0x03_addr ''distance'' m2 = Some (f_bytes F (f_single F (ro_z ob)))" by blast
  have "radarGuide F srt clk pack i a = Some a2" using radarGuide_eq [OF assms(3,4), of clk] assms(5) s(1) p(1) by simp
  with s p show ?thesis by blast
qed

subsection \<open>One image after another\<close>

text \<open>Before each image the head may report: \<open>rt\<close> is what the handlers have stored when \<^verbatim>\<open>ai_alg_run7\<close> runs.\<close>

fun run7_images ::
  "('f, 'z) fp_scheme \<Rightarrow> ('f radar_obj list \<Rightarrow> 'f radar_obj list) \<Rightarrow> clock \<Rightarrow> (ptz_realtime \<times> bytes option) list \<Rightarrow> ai_state \<Rightarrow> ai_state option" where
  "run7_images F srt clk [] a = Some a"
| "run7_images F srt clk ((rt, targets) # rest) a = do {
     (a1, _) \<leftarrow> ai_alg_run7 F srt clk targets (a\<lparr>ai_link := (ai_link a)\<lparr>pl_world := rt\<rparr>\<rparr>);
     run7_images F srt clk rest a1 }"

definition rt_mode :: "ptz_realtime \<Rightarrow> u32 option" where
  "rt_mode rt = map_option of_le (get_field ptz_msg_status ''work_mode'' (realtime_status rt))"

lemma run7_guide_counters:
  assumes "run7_guide F srt clk wm t a = Some b"
  shows "track_cnt b = track_cnt a \<and> img_cnt b = img_cnt a"
proof -
  obtain a1 where a1: "(if wm = 0 \<and> (firstGuide a \<or> img_cnt a - prev_cnt a \<ge> 6) then do {
         b \<leftarrow> guide_by F srt clk t a;
         let b1 = b\<lparr>prev_cnt := img_cnt b\<rparr>;
         target_num \<leftarrow> target_num_of b1;
         if target_num \<noteq> 0 then SearchAndTracking clk b1 else Some b1 }
       else Some a) = Some a1"
    "(if wm = 2 \<and> track_cnt a1 \<noteq> 0 \<and> track_cnt a1 mod 30 = 0 then guide_by F srt clk t a1 else Some a1) = Some b"
    using assms unfolding run7_guide_def by (auto split: bind_split_asm)
  have "track_cnt a1 = track_cnt a \<and> img_cnt a1 = img_cnt a"
    using a1(1) by (auto simp: Let_def same_counters_def split: if_splits bind_splits
        dest!: guide_by_counters command_counters(2))
  moreover have "track_cnt b = track_cnt a1 \<and> img_cnt b = img_cnt a1"
    using a1(2) by (auto simp: same_counters_def split: if_splits dest!: guide_by_counters)
  ultimately show ?thesis by simp
qed

lemma run7_mode_counters:
  "run7_mode wm a = Some b \<Longrightarrow> track_cnt b = (if wm = 2 then track_cnt a + 1 else 0) \<and> img_cnt b = img_cnt a"
  by (auto simp: run7_mode_def Let_def int_inc_Some split: if_splits)

lemma run7_counters:
  assumes "ai_alg_run7 F srt clk t a = Some (a', r)" "work_mode_of a = Some wm"
  shows "track_cnt a' = (if wm = 2 then track_cnt a + 1 else 0) \<and> img_cnt a' = img_cnt a + 1"
proof -
  let ?a = "a\<lparr>img_cnt := img_cnt a + 1\<rparr>"
  have "work_mode_of ?a = Some wm" using assms(2) by (simp add: work_mode_of_def)
  with assms(1) obtain a1 a2 where a1: "(if wm = 1 then StoppingTracking clk ?a else Some ?a) = Some a1" "run7_mode wm a1 = Some a2"
    "(case t of None \<Rightarrow> Some a2 | Some t \<Rightarrow> run7_guide F srt clk wm t a2) = Some a'"
    by (auto simp: ai_alg_run7_def Let_def int_inc_Some split: bind_split_asm)
  have "track_cnt a1 = track_cnt a \<and> img_cnt a1 = img_cnt a + 1"
    using a1(1) by (auto simp: same_counters_def split: if_splits dest!: command_counters(1))
  moreover have "track_cnt a' = track_cnt a2 \<and> img_cnt a' = img_cnt a2"
    using a1(3) by (auto split: option.splits dest: run7_guide_counters)
  ultimately show ?thesis using run7_mode_counters [OF a1(2)] by simp
qed

lemma radar_guides_best:
  assumes "sorts srt" "fp_stores F" "ai_connected a" "radar_read F pack = Some objs"
    "useful = {it \<in> set objs. ro_stateType it = 1 \<and> ro_alive it \<ge> 10}"
  shows "if useful = {} then \<exists>g. radarGuide F srt clk pack (-1) a = Some (a\<lparr>g_nID := g\<rparr>)
    else \<exists>ob \<in> useful. \<exists>g a1 a2 m1 m2. (\<forall>it \<in> useful. ro_threatLevel ob \<le> ro_threatLevel it) \<and>
      radarGuide F srt clk pack (-1) a = Some a2 \<and> track_sent m1 (a\<lparr>g_nID := g\<rparr>) a1 \<and> addr_sent m2 a1 a2 \<and>
      get_field ptz_msg_track ''ctrl_cmd'' m1 = Some (le_bytes 4 (3 :: u32)) \<and>
      get_field ptz_msgid_0x03_addr ''horizatal_angle'' m2 = Some (f_bytes F (f_single F
        (if f_less F (ro_azimuth ob) (f_int F 0) then f_add F (f_int F 360) (ro_azimuth ob) else f_int F 0))) \<and>
      get_field ptz_msgid_0x03_addr ''pitch_angle'' m2 = Some (f_bytes F (f_single F (ro_elevation ob))) \<and>
      get_field ptz_msgid_0x03_addr ''target_altitude'' m2 = Some (f_bytes F (f_single F (radar_ground F ob))) \<and>
      get_field ptz_msgid_0x03_addr ''distance'' m2 = Some (f_bytes F (f_single F (ro_z ob)))"
proof -
  obtain g ob ret where r: "radar_2ptz srt objs (RadarObj F 0 0 0 0) (-1) (g_nID a) = (g, ob, ret)"
    by (cases "radar_2ptz srt objs (RadarObj F 0 0 0 0) (-1) (g_nID a)")
  note best = radar_2ptz_best [OF assms(1) r assms(5)]
  show ?thesis
  proof (cases "ret > 0")
    case True
    with best have ob: "useful \<noteq> {}" "ob \<in> useful" "\<forall>it \<in> useful. ro_threatLevel ob \<le> ro_threatLevel it" by blast+
    show ?thesis unfolding if_not_P [OF ob(1)]
      by (rule bexI [OF _ ob(2)], rule exI [of _ g])
        (use radarGuide_sends [OF assms(2,3,4) r True, of clk] in \<open>simp only: radar_angle_def ob(3) [THEN eqTrueI] simp_thms\<close>)
  next
    case False
    with best radarGuide_eq [OF assms(4) r, of clk] show ?thesis by auto
  qed
qed

lemma idle_head_guided:
  assumes "work_mode_of a = Some 0"
  shows "ai_alg_run7 F srt clk (Some t) a = do {
    k \<leftarrow> int_inc (img_cnt a);
    b \<leftarrow> guide_by F srt clk t (a\<lparr>img_cnt := k, firstGuide := True, prev_mode := 0, track_cnt := 0\<rparr>);
    let b1 = b\<lparr>prev_cnt := img_cnt b\<rparr>;
    n \<leftarrow> target_num_of b1;
    b2 \<leftarrow> (if n \<noteq> 0 then SearchAndTracking clk b1 else Some b1);
    Some (b2, 0) }"
proof (cases "int_inc (img_cnt a)")
  case (Some k)
  have "work_mode_of (a\<lparr>img_cnt := k\<rparr>) = Some 0" using assms by (simp add: work_mode_of_def)
  with Some show ?thesis
    by (simp add: ai_alg_run7_def run7_mode_def run7_guide_def Let_def)
qed (simp add: ai_alg_run7_def)

subsection \<open>Properties\<close>

text \<open>
  C22. The counter that paces the guidance while the head tracks is right after every sequence of images and reports that the program
  gets through: it is the number of images since the head last was in another mode than tracking. The program does not get further when a
  counter is at the largest \<^verbatim>\<open>int\<close>, see \<open>counters_overflow\<close>.
\<close>
theorem track_cnt_counts_tracking:
  assumes "run7_images F srt clk imgs a = Some a'" "\<forall>(rt, t) \<in> set imgs. rt_mode rt \<noteq> None"
  shows "track_cnt a' = int (length (takeWhile (\<lambda>(rt, t). rt_mode rt = Some 2) (rev imgs))) +
    (if \<forall>(rt, t) \<in> set imgs. rt_mode rt = Some 2 then track_cnt a else 0)"
  using assms
proof (induction imgs arbitrary: a)
  case (Cons im imgs)
  obtain rt t where im: "im = (rt, t)" by (cases im)
  let ?a = "a\<lparr>ai_link := (ai_link a)\<lparr>pl_world := rt\<rparr>\<rparr>" and ?P = "\<lambda>(rt, t :: bytes option). rt_mode rt = Some 2"
  from Cons.prems im obtain a1 r wm where a1: "ai_alg_run7 F srt clk t ?a = Some (a1, r)" "run7_images F srt clk imgs a1 = Some a'"
    "rt_mode rt = Some wm" by (auto split: bind_splits)
  have "work_mode_of ?a = Some wm" using a1(3) by (simp add: work_mode_of_def rt_mode_def)
  from run7_counters [OF a1(1) this] have c: "track_cnt a1 = (if wm = 2 then track_cnt a + 1 else 0)" by simp
  note IH = Cons.IH [OF a1(2)]
  show ?case
  proof (cases "\<forall>x \<in> set imgs. ?P x")
    case True
    then have "takeWhile ?P (rev imgs) = rev imgs" by (subst takeWhile_eq_all_conv) simp
    moreover have "takeWhile ?P (rev imgs @ [im]) = rev imgs @ takeWhile ?P [im]"
      by (rule takeWhile_append2) (use True in auto)
    moreover have "track_cnt a' = int (length imgs) + track_cnt a1" using IH Cons.prems(2) True calculation(1) by auto
    ultimately show ?thesis using True c a1(3) im by auto
  next
    case False
    then have "takeWhile ?P (rev imgs @ [im]) = takeWhile ?P (rev imgs)" by (auto simp: takeWhile_append1)
    with IH Cons.prems(2) False show ?thesis by auto
  qed
qed simp

definition ex_ai :: ai_state where
  "ex_ai = \<lparr>ai_link = ex_ptz_start\<lparr>sUdpSocket := (sUdpSocket ex_ptz_start)\<lparr>us_bFlagInit := True, us_psCfg := Some 0\<rparr>\<rparr>, ai_n = 0,
     g_nID = -1, firstGuide = True, img_cnt = 0, prev_cnt = 0, track_cnt = 0, prev_mode = -1\<rparr>"

definition ex_clock :: clock where
  "ex_clock n = (\<lparr>tv_sec = 1, tv_usec = 0\<rparr>, \<lparr>tv_sec = 1, tv_usec = 0\<rparr>, 0)"

text \<open>What a head reports that is idle, or tracks.\<close>

definition ex_report :: "u8 \<Rightarrow> ptz_realtime" where
  "ex_report md = ex_realtime\<lparr>realtime_status := replicate 16 0 @ [md] @ replicate 15 0, realtime_targets := replicate 20 0\<rparr>"

lemma ex_report_mode: "rt_mode (ex_report 2) = Some 2" "rt_mode (ex_report 1) = Some 1" "rt_mode (ex_report 0) = Some 0"
  by code_simp+

theorem track_cnt_counts_tracking_witness:
  "track_cnt (the (run7_images fixed_fp insertion_sort ex_clock [(ex_report 0, None), (ex_report 2, None), (ex_report 2, None)] ex_ai)) = 2"
proof -
  let ?imgs = "[(ex_report 0, None :: bytes option), (ex_report 2, None), (ex_report 2, None)]"
  have m: "work_mode_of (ex_ai\<lparr>ai_link := l\<lparr>pl_world := ex_report md\<rparr>\<rparr>) = rt_mode (ex_report md)" for l md
    by (simp add: work_mode_of_def rt_mode_def)
  have "run7_images fixed_fp insertion_sort ex_clock ?imgs ex_ai \<noteq> None"
    by (simp add: ai_alg_run7_def Let_def work_mode_of_def flip: rt_mode_def) (simp add: ex_report_mode run7_mode_def int_inc_def ex_ai_def Let_def)
  then obtain a' where a': "run7_images fixed_fp insertion_sort ex_clock ?imgs ex_ai = Some a'" by blast
  from track_cnt_counts_tracking [OF a'] a' show ?thesis by (simp add: ex_report_mode)
qed

text \<open>
  C19. Guidance by radar. With no confirmed target in the message nothing is sent. Otherwise the head gets two datagrams: the
  order to stop tracking, and a guidance by angle towards a confirmed target none is more dangerous than. Its pitch is the
  elevation; its horizontal angle is the azimuth only when that is negative, and 0 otherwise; the member for the height
  holds the distance on the ground and the one for the distance the height.
\<close>
theorem radar_guides_head:
  assumes "sorts srt" "fp_stores F" "ai_connected a" "radar_read F pack = Some objs"
    "useful = {it \<in> set objs. ro_stateType it = 1 \<and> ro_alive it \<ge> 10}"
  shows "if useful = {} then \<exists>g. radarGuide F srt clk pack (-1) a = Some (a\<lparr>g_nID := g\<rparr>)
    else \<exists>ob \<in> useful. \<exists>g a1 a2 m1 m2. (\<forall>it \<in> useful. ro_threatLevel ob \<le> ro_threatLevel it) \<and>
      radarGuide F srt clk pack (-1) a = Some a2 \<and> track_sent m1 (a\<lparr>g_nID := g\<rparr>) a1 \<and> addr_sent m2 a1 a2 \<and>
      get_field ptz_msg_track ''ctrl_cmd'' m1 = Some (le_bytes 4 (3 :: u32)) \<and>
      get_field ptz_msgid_0x03_addr ''horizatal_angle'' m2 = Some (f_bytes F (f_single F
        (if f_less F (ro_azimuth ob) (f_int F 0) then f_add F (f_int F 360) (ro_azimuth ob) else f_int F 0))) \<and>
      get_field ptz_msgid_0x03_addr ''pitch_angle'' m2 = Some (f_bytes F (f_single F (ro_elevation ob))) \<and>
      get_field ptz_msgid_0x03_addr ''target_altitude'' m2 = Some (f_bytes F (f_single F (radar_ground F ob))) \<and>
      get_field ptz_msgid_0x03_addr ''distance'' m2 = Some (f_bytes F (f_single F (ro_z ob)))"
  by (rule radar_guides_best [OF assms])

text \<open>Two targets, both confirmed, the second of the higher threat.\<close>

definition ex_radar_item :: "u8 \<Rightarrow> u8 \<Rightarrow> bytes" where
  "ex_radar_item i th = [i] @ replicate 5 0 @ [1] @ replicate 19 0 @ [20, 0] @ replicate 54 0 @ [th, 0] @ replicate 6 0"

definition ex_radar_pack :: bytes where
  "ex_radar_pack = replicate 5 0 @ [2] @ replicate 3 0 @ ex_radar_item 7 3 @ ex_radar_item 8 1"

lemma ex_radar_objs: "map_option (map (\<lambda>it. (ro_id it, ro_threatLevel it, ro_stateType it = 1 \<and> ro_alive it \<ge> 10)))
    (radar_read fixed_fp ex_radar_pack) = Some [(7, 3, True), (8, 1, True)]"
  by code_simp

theorem radar_guides_head_witness:
  "\<exists>a2. radarGuide fixed_fp insertion_sort ex_clock ex_radar_pack (-1) ex_ai = Some a2 \<and> ai_n a2 = 2"
proof -
  from ex_radar_objs obtain u v where o: "radar_read fixed_fp ex_radar_pack = Some [u, v]"
    "ro_stateType u = 1 \<and> ro_alive u \<ge> 10" by auto
  have c: "ai_connected ex_ai" by (simp add: ptz_connected_def ex_ai_def)
  from radar_guides_head [OF insertion_sort_sorts fixed_fp_stores c o(1) refl, of ex_clock] o(2)
  show ?thesis by (auto simp: sends_one_def ex_ai_def split: if_splits)
qed

text \<open>
  C38. While the head is idle, every image that comes with a target guides it: neither the flag \<^verbatim>\<open>firstGuide\<close> nor the pause of
  six images since the last guidance has an effect, because the flag is set on every idle image and never cleared.
\<close>
theorem idle_head_guided_every_image:
  assumes "work_mode_of a = Some 0"
  shows "ai_alg_run7 F srt clk (Some t) a = do {
    k \<leftarrow> int_inc (img_cnt a);
    b \<leftarrow> guide_by F srt clk t (a\<lparr>img_cnt := k, firstGuide := True, prev_mode := 0, track_cnt := 0\<rparr>);
    let b1 = b\<lparr>prev_cnt := img_cnt b\<rparr>;
    n \<leftarrow> target_num_of b1;
    b2 \<leftarrow> (if n \<noteq> 0 then SearchAndTracking clk b1 else Some b1);
    Some (b2, 0) }"
  by (rule idle_head_guided [OF assms])

theorem idle_head_guided_every_image_witness:
  "ai_alg_run7 fixed_fp insertion_sort ex_clock (Some [3, 0, 0, 0])
     (ex_ai\<lparr>ai_link := (ai_link ex_ai)\<lparr>pl_world := ex_report 0\<rparr>, firstGuide := False, prev_cnt := 0\<rparr>) \<noteq> None"
proof -
  let ?a = "ex_ai\<lparr>ai_link := (ai_link ex_ai)\<lparr>pl_world := ex_report 0\<rparr>, firstGuide := False, prev_cnt := 0\<rparr>"
  have "work_mode_of ?a = Some 0" using ex_report_mode(3) by (simp add: work_mode_of_def rt_mode_def)
  note r = idle_head_guided_every_image [OF this, of fixed_fp insertion_sort ex_clock "[3, 0, 0, 0]"]
  have g: "guide_by fixed_fp insertion_sort ex_clock [3, 0, 0, 0] b = Some b" for b
    by (simp add: guide_by_def load32_def loadn_def)
  have "target_num_of (b\<lparr>ai_link := l\<lparr>pl_world := ex_report 0\<rparr>\<rparr>) = Some 0" for b l
    by (simp add: target_num_of_def ex_report_def get_field_def ptz_msg_target_pac_def loadn_def numeral_eq_Suc)
  from this [where b = "ex_ai\<lparr>img_cnt := 1, prev_cnt := 1, track_cnt := 0, prev_mode := 0\<rparr>"]
  show ?thesis unfolding r g by (simp add: ex_ai_def int_inc_def Let_def)
qed

text \<open>
  While the head tracks, only every thirtieth image in a row may guide it; in between nothing is sent. A head that asks
  for release is told to stop on every image.
\<close>
theorem tracking_head_left_alone:
  assumes "work_mode_of a = Some 2" "(track_cnt a + 1) mod 30 \<noteq> 0"
  shows "ai_alg_run7 F srt clk targets a = do {
    k \<leftarrow> int_inc (img_cnt a);
    n \<leftarrow> int_inc (track_cnt a);
    Some (a\<lparr>img_cnt := k, prev_mode := 2, track_cnt := n\<rparr>, 0) }"
proof (cases "int_inc (img_cnt a)")
  case (Some k)
  have "work_mode_of (a\<lparr>img_cnt := k\<rparr>) = Some 2" using assms(1) by (simp add: work_mode_of_def)
  moreover have "n mod 30 \<noteq> 0" if "int_inc (track_cnt a) = Some n" for n using that assms(2) by (simp add: int_inc_Some)
  ultimately show ?thesis using Some
    by (cases targets; cases "int_inc (track_cnt a)") (simp_all add: ai_alg_run7_def run7_mode_def run7_guide_def Let_def)
qed (simp add: ai_alg_run7_def)

theorem tracking_head_left_alone_witness:
  "ai_alg_run7 fixed_fp insertion_sort ex_clock (Some []) (ex_ai\<lparr>ai_link := (ai_link ex_ai)\<lparr>pl_world := ex_report 2\<rparr>\<rparr>) =
    Some (ex_ai\<lparr>ai_link := (ai_link ex_ai)\<lparr>pl_world := ex_report 2\<rparr>, img_cnt := 1, prev_mode := 2, track_cnt := 1\<rparr>, 0)"
proof -
  let ?a = "ex_ai\<lparr>ai_link := (ai_link ex_ai)\<lparr>pl_world := ex_report 2\<rparr>\<rparr>"
  have "work_mode_of ?a = Some 2" using ex_report_mode(1) by (simp add: work_mode_of_def rt_mode_def)
  from tracking_head_left_alone [OF this, of fixed_fp insertion_sort ex_clock "Some []"] show ?thesis
    by (simp add: ex_ai_def int_inc_def)
qed

text \<open>
  The count of images and, while the head tracks, that of images in a row are never reset otherwise: when one of them is the largest \<^verbatim>\<open>int\<close>, which at
  25 images a second the first is after two years and nine months, the next image overflows it.
\<close>
theorem counters_overflow:
  assumes "img_cnt a = 2147483647 \<or> work_mode_of a = Some 2 \<and> track_cnt a = 2147483647"
  shows "ai_alg_run7 F srt clk targets a = None"
proof (cases "img_cnt a = 2147483647")
  case False
  then have k: "int_inc (img_cnt a) = Some (img_cnt a + 1)" by (simp add: int_inc_def)
  have "work_mode_of (a\<lparr>img_cnt := img_cnt a + 1\<rparr>) = Some 2" using assms False by (simp add: work_mode_of_def)
  then show ?thesis using assms False k by (simp add: ai_alg_run7_def run7_mode_def int_inc_def Let_def)
qed (simp add: ai_alg_run7_def int_inc_def)

theorem counters_overflow_witness:
  "ai_alg_run7 fixed_fp insertion_sort ex_clock None (ex_ai\<lparr>img_cnt := 2147483647\<rparr>) = None"
  by (rule counters_overflow) simp

end
