(* ===== verification/Ptz_App.thy ===== *)
theory Ptz_App
  imports Ptz_Handlers "HOL-Library.Sublist"
begin

text \<open>
  The camera side of \<^verbatim>\<open>app/ptz/ptz_app.cpp\<close>: the thread that reads the video stream of the head into a short queue,
  \<^verbatim>\<open>capture_ptz_vstream_pic\<close>, through which the fusion thread takes images from it, and start and end of both with
  the link to the head.

  A \<^verbatim>\<open>cv::Mat\<close> is a handle: copies share the pixels. Images are therefore kept in a store of buffers by address, and the
  queue holds addresses. What the stream answers (whether it opens, whether a read succeeds, the image, and whether \<^verbatim>\<open>read\<close>
  writes into the buffer its argument already has or into a new one, which OpenCV decides) and what
  \<^verbatim>\<open>pthread_mutex_lock\<close> returns are arguments of each turn of the thread; sleeping is not modelled. The interleaving of the
  thread with its users is an explicit sequence of acts.
\<close>

subsection \<open>State\<close>

datatype stream_phase = St_created | St_open | St_read | St_end

record 'i ptz_ctrl =
  ptz_tid :: bool
  stop_capture :: bool
  stop_stream :: bool
  pc_q :: "nat list"
  rtsp_stream_addr :: string
  st_phase :: stream_phase
  st_frame :: "nat option"
  st_count :: i32
  px_bufs :: "nat \<Rightarrow> 'i"
  px_next :: nat

text \<open>One turn of the thread sees: does the stream open, what does a read give (\<open>True\<close>: into the same buffer), does the lock work.\<close>

record 'i stream_ans =
  sa_opened :: bool
  sa_read :: "(bool \<times> 'i) option"
  sa_lock :: i32

definition DEFAULT_PTZ_READ_FRAME_TIME :: i32 where "DEFAULT_PTZ_READ_FRAME_TIME = 20"

definition DEFAULT_RTSP_PTZ :: string where
  "DEFAULT_RTSP_PTZ = ''rtsp://192.168.1.4:554/channel=0,stream=0''"

subsection \<open>The stream thread\<close>

definition stream_start :: "'i ptz_ctrl \<Rightarrow> 'i ptz_ctrl" where
  "stream_start c = c\<lparr>stop_capture := False, stop_stream := False, st_frame := None, st_count := 0, st_phase := St_open\<rparr>"

definition stream_leave :: "'i ptz_ctrl \<Rightarrow> 'i ptz_ctrl" where
  "stream_leave c = c\<lparr>st_phase := (if stop_stream c then St_end else St_open)\<rparr>"

definition stream_open :: "'i stream_ans \<Rightarrow> 'i ptz_ctrl \<Rightarrow> 'i ptz_ctrl" where
  "stream_open a c =
     (if \<not> sa_opened a then
        let c1 = c\<lparr>st_count := st_count c + 1\<rparr>;
            c2 = (if st_count c1 > DEFAULT_PTZ_READ_FRAME_TIME then c1\<lparr>st_count := 0\<rparr> else c1)
        in stream_leave c2
      else c\<lparr>st_phase := St_read\<rparr>)"

text \<open>\<^verbatim>\<open>stream.read(frame)\<close>.\<close>

definition read_frame :: "bool \<Rightarrow> 'i \<Rightarrow> 'i ptz_ctrl \<Rightarrow> 'i ptz_ctrl" where
  "read_frame reuse img c =
     (case (reuse, st_frame c) of
        (True, Some b) \<Rightarrow> c\<lparr>px_bufs := (px_bufs c)(b := img)\<rparr>
      | _ \<Rightarrow> c\<lparr>px_bufs := (px_bufs c)(px_next c := img), st_frame := Some (px_next c), px_next := px_next c + 1\<rparr>)"

definition queue_frame :: "'i ptz_ctrl \<Rightarrow> 'i ptz_ctrl" where
  "queue_frame c =
     (let q = (if length (pc_q c) > 4 then tl (pc_q c) else pc_q c)
      in c\<lparr>pc_q := (case st_frame c of None \<Rightarrow> q | Some b \<Rightarrow> q @ [b])\<rparr>)"

definition stream_read :: "'i stream_ans \<Rightarrow> 'i ptz_ctrl \<Rightarrow> 'i ptz_ctrl" where
  "stream_read a c =
     (if stop_capture c then stream_leave c
      else case sa_read a of
        None \<Rightarrow> stream_leave c
      | Some (reuse, img) \<Rightarrow>
          let c1 = read_frame reuse img c
          in if 0 \<noteq> sa_lock a then c1 else (queue_frame c1)\<lparr>st_count := 0\<rparr>)"

fun ptz_camera_stream_thread :: "'i stream_ans \<Rightarrow> 'i ptz_ctrl \<Rightarrow> 'i ptz_ctrl" where
  "ptz_camera_stream_thread a c =
     (case st_phase c of
        St_created \<Rightarrow> stream_start c
      | St_open \<Rightarrow> stream_open a c
      | St_read \<Rightarrow> stream_read a c
      | St_end \<Rightarrow> c)"

subsection \<open>Its users\<close>

text \<open>The image is the handle at the front of the queue. The code behind the first \<^verbatim>\<open>return\<close> is not reached.\<close>

definition capture_ptz_vstream_pic :: "i32 \<Rightarrow> 'i ptz_ctrl \<Rightarrow> 'i ptz_ctrl \<times> nat option \<times> i32" where
  "capture_ptz_vstream_pic lock_ret c =
     (if 0 \<noteq> lock_ret then (c, None, -1)
      else case pc_q c of
        [] \<Rightarrow> (c, None, -1)
      | b # q \<Rightarrow> (c\<lparr>pc_q := q\<rparr>, Some b, 0))"

definition ptz_thread_load :: "i32 \<Rightarrow> 'i ptz_ctrl \<Rightarrow> 'i ptz_ctrl \<times> i32" where
  "ptz_thread_load ret c = (if 0 \<noteq> ret then (c, -1) else (c\<lparr>ptz_tid := True, st_phase := St_created\<rparr>, 0))"

definition load_ptz_stream ::
  "udp_os \<Rightarrow> bool list \<Rightarrow> i32 \<Rightarrow> (ptz_fn, 'w) ptz_link \<times> 'i ptz_ctrl \<Rightarrow> ((ptz_fn, 'w) ptz_link \<times> 'i ptz_ctrl) \<times> i32" where
  "load_ptz_stream os avail thread sc =
     (case sc of (s, c) \<Rightarrow>
        case eth_link_ptz_init os s of
          (s1, ret) \<Rightarrow>
            if 0 \<noteq> ret then ((s1, c), ret)
            else case register_control_ptz_comands avail s1 of
              (s2, ret2) \<Rightarrow>
                if 0 \<noteq> ret2 then ((s2, c), ret2)
                else case ptz_thread_load thread (c\<lparr>rtsp_stream_addr := DEFAULT_RTSP_PTZ, stop_capture := False\<rparr>) of
                  (c1, ret3) \<Rightarrow> ((s2, c1), ret3))"

definition ptz_comands_unregister ::
  "(ptz_fn, 'w) run_ptz \<Rightarrow> (bool \<times> i32 \<times> bytes \<times> u32) option \<Rightarrow> (ptz_fn, 'w) ptz_link \<Rightarrow> ((ptz_fn, 'w) ptz_link \<times> i32) option" where
  "ptz_comands_unregister run turn s = eth_link_ptz_uninit run turn s"

text \<open>\<^verbatim>\<open>pthread_join\<close>: the thread goes on, turn by turn, until it ends; \<open>ans n\<close> are the answers its \<open>n\<close>-th turn gets.\<close>

partial_function (option) stream_join :: "(nat \<Rightarrow> 'i stream_ans) \<Rightarrow> nat \<Rightarrow> 'i ptz_ctrl \<Rightarrow> 'i ptz_ctrl option" where
  "stream_join ans n c =
     (if st_phase c = St_end then Some c else stream_join ans (n + 1) (ptz_camera_stream_thread (ans n) c))"

text \<open>
  Stop, wait for the camera thread, close the link and wait for its thread; the result says that it returns. \<open>ptz_tid\<close> is whether the identifier is
  that of a thread nobody has joined.
\<close>

definition relase_ptz_resource ::
  "(ptz_fn, 'w) run_ptz \<Rightarrow> (bool \<times> i32 \<times> bytes \<times> u32) option \<Rightarrow> (nat \<Rightarrow> 'i stream_ans) \<Rightarrow> (ptz_fn, 'w) ptz_link \<times> 'i ptz_ctrl \<Rightarrow>
   (((ptz_fn, 'w) ptz_link \<times> 'i ptz_ctrl) \<times> i32) option" where
  "relase_ptz_resource run turn replies sc =
     (case sc of (s, c) \<Rightarrow>
        if \<not> ptz_tid c then None
        else do {
          c1 \<leftarrow> stream_join replies 0 (c\<lparr>stop_capture := True, stop_stream := True\<rparr>);
          (s1, _) \<leftarrow> ptz_comands_unregister run turn s;
          Some ((s1, c1\<lparr>ptz_tid := False\<rparr>), 0) })"

subsection \<open>Interleaving\<close>

datatype 'i ptz_act = Turn "'i stream_ans" | Capture i32

fun ptz_act_do :: "'i ptz_act \<Rightarrow> 'i ptz_ctrl \<Rightarrow> 'i ptz_ctrl" where
  "ptz_act_do (Turn a) c = ptz_camera_stream_thread a c"
| "ptz_act_do (Capture l) c = fst (capture_ptz_vstream_pic l c)"

text \<open>What an act puts into the queue, with the image that was read, and what it takes out.\<close>

fun ptz_put :: "'i ptz_act \<Rightarrow> 'i ptz_ctrl \<Rightarrow> nat list" where
  "ptz_put (Turn a) c =
     (if st_phase c = St_read \<and> \<not> stop_capture c \<and> sa_lock a = 0
      then case sa_read a of None \<Rightarrow> [] | Some (reuse, img) \<Rightarrow> [the (st_frame (read_frame reuse img c))] else [])"
| "ptz_put (Capture l) c = []"

fun ptz_images :: "'i ptz_act \<Rightarrow> 'i ptz_ctrl \<Rightarrow> 'i list" where
  "ptz_images (Turn a) c =
     (if st_phase c = St_read \<and> \<not> stop_capture c \<and> sa_lock a = 0
      then case sa_read a of None \<Rightarrow> [] | Some (reuse, img) \<Rightarrow> [img] else [])"
| "ptz_images (Capture l) c = []"

text \<open>What an act writes: a buffer and the image that \<^verbatim>\<open>read\<close> puts there.\<close>

fun ptz_writes :: "'i ptz_act \<Rightarrow> 'i ptz_ctrl \<Rightarrow> (nat \<times> 'i) list" where
  "ptz_writes (Turn a) c =
     (if st_phase c = St_read \<and> \<not> stop_capture c
      then case sa_read a of None \<Rightarrow> [] | Some (reuse, img) \<Rightarrow> [(the (st_frame (read_frame reuse img c)), img)] else [])"
| "ptz_writes (Capture l) c = []"

definition write_buf :: "nat \<times> 'i \<Rightarrow> (nat \<Rightarrow> 'i) \<Rightarrow> nat \<Rightarrow> 'i" where
  "write_buf w bufs = bufs(fst w := snd w)"

fun ptz_got :: "'i ptz_act \<Rightarrow> 'i ptz_ctrl \<Rightarrow> nat list" where
  "ptz_got (Turn a) c = []"
| "ptz_got (Capture l) c = (case capture_ptz_vstream_pic l c of (_, b, _) \<Rightarrow> case b of None \<Rightarrow> [] | Some b \<Rightarrow> [b])"

text \<open>The record of a run.\<close>

fun gather :: "('a \<Rightarrow> 's \<Rightarrow> 's) \<Rightarrow> ('a \<Rightarrow> 's \<Rightarrow> 'b list) \<Rightarrow> 'a list \<Rightarrow> 's \<Rightarrow> 'b list" where
  "gather step f [] s = []"
| "gather step f (a # as) s = f a s @ gather step f as (step a s)"

text \<open>
  The contract between the stream and whoever takes images from it: one image in, or one out, or nothing; the queue drops its oldest
  image when it is longer than a limit. What follows from it: images come out in order, those that are lost are the older
  ones, and the queue holds the newest.
\<close>

locale frame_source =
  fixes step :: "'a \<Rightarrow> 's \<Rightarrow> 's" and que :: "'s \<Rightarrow> 'b list" and put :: "'a \<Rightarrow> 's \<Rightarrow> 'b list" and got :: "'a \<Rightarrow> 's \<Rightarrow> 'b list" and lim :: nat
  assumes moves: "que (step a s) = que s \<and> put a s = [] \<and> got a s = [] \<or>
    (\<exists>x. que (step a s) = (if lim < length (que s) then tl (que s) else que s) @ [x] \<and> put a s = [x] \<and> got a s = []) \<or>
    (\<exists>x. que s = x # que (step a s) \<and> put a s = [] \<and> got a s = [x])"
begin

lemma taken_in_order: "subseq (gather step got as s @ que (fold step as s)) (que s @ gather step put as s)"
proof (induction as arbitrary: s)
  case (Cons a as)
  note IH = Cons.IH [of "step a s"]
  show ?case using moves [of a s]
  proof (elim disjE exE conjE)
    fix x assume q: "que (step a s) = (if lim < length (que s) then tl (que s) else que s) @ [x]" "put a s = [x]" "got a s = []"
    have "subseq (if lim < length (que s) then tl (que s) else que s) (que s)" by (cases "que s") auto
    then have "subseq (que (step a s) @ gather step put as (step a s)) (que s @ [x] @ gather step put as (step a s))"
      using q(1) by (metis append.assoc list_emb_append_mono subseq_order.refl)
    with IH q(2,3) show ?thesis by (auto intro: subseq_order.trans)
  qed (use IH in auto)
qed simp

lemma queue_newest: "suffix (que (fold step as s)) (que s @ gather step put as s)"
proof (induction as arbitrary: s)
  case (Cons a as)
  note IH = Cons.IH [of "step a s"]
  have s: "suffix (que (step a s) @ ys) (que s @ put a s @ ys)" for ys
    using moves [of a s] by (cases "que s") (auto simp: suffix_def split: if_splits)
  show ?case using suffix_order.trans [OF IH s [of "gather step put as (step a s)"]] by simp
qed simp

lemma queue_bounded: "length (que s) \<le> lim + 1 \<Longrightarrow> length (que (fold step as s)) \<le> lim + 1"
proof (induction as arbitrary: s)
  case (Cons a as)
  have "length (que (step a s)) \<le> lim + 1"
    using moves [of a s] Cons.prems by (auto split: if_splits)
  with Cons.IH show ?case by simp
qed simp

end

lemma queue_read: "pc_q (queue_frame (read_frame reuse img c)) =
    (if 4 < length (pc_q c) then tl (pc_q c) else pc_q c) @ [the (st_frame (read_frame reuse img c))]"
  by (auto simp: read_frame_def queue_frame_def Let_def split: bool.splits option.splits)

lemma read_queue [simp]: "pc_q (read_frame reuse img c) = pc_q c"
  by (simp add: read_frame_def split: bool.split option.split)

interpretation ptz_frames: frame_source "ptz_act_do :: 'i ptz_act \<Rightarrow> _" pc_q ptz_put ptz_got 4
proof
  fix a :: "'i ptz_act" and c :: "'i ptz_ctrl"
  show "pc_q (ptz_act_do a c) = pc_q c \<and> ptz_put a c = [] \<and> ptz_got a c = [] \<or>
    (\<exists>x. pc_q (ptz_act_do a c) = (if 4 < length (pc_q c) then tl (pc_q c) else pc_q c) @ [x] \<and> ptz_put a c = [x] \<and> ptz_got a c = []) \<or>
    (\<exists>x. pc_q c = x # pc_q (ptz_act_do a c) \<and> ptz_put a c = [] \<and> ptz_got a c = [x])"
  proof (cases a)
    case (Turn t)
    show ?thesis
      using Turn by (cases "sa_read t") (auto simp: stream_start_def stream_open_def stream_leave_def stream_read_def queue_read Let_def
          split: stream_phase.splits)
  next
    case (Capture l)
    then show ?thesis by (cases "pc_q c") (auto simp: capture_ptz_vstream_pic_def)
  qed
qed

subsection \<open>Lemmas\<close>

lemma act_keeps_old:
  assumes "\<forall>t r. a = Turn t \<longrightarrow> sa_read t = Some r \<longrightarrow> \<not> fst r"
  shows "px_next c \<le> px_next (ptz_act_do a c) \<and> (\<forall>b < px_next c. px_bufs (ptz_act_do a c) b = px_bufs c b) \<and>
    list_all (\<lambda>b. b < px_next (ptz_act_do a c)) (ptz_put a c) \<and> map (px_bufs (ptz_act_do a c)) (ptz_put a c) = ptz_images a c"
proof (cases a)
  case (Turn t)
  show ?thesis
  proof (cases "sa_read t")
    case (Some r)
    have "\<not> fst r" using assms Turn Some by blast
    then have "r = (False, snd r)" by (cases r) simp
    with Turn Some have "a = Turn t" "sa_read t = Some (False, snd r)" by simp_all
    then show ?thesis
      by (cases "st_phase c") (simp_all add: stream_start_def stream_open_def stream_leave_def stream_read_def queue_frame_def read_frame_def Let_def)
  next
    case None
    with Turn show ?thesis
      by (cases "st_phase c") (simp_all add: stream_start_def stream_open_def stream_leave_def stream_read_def Let_def)
  qed
next
  case (Capture l)
  then show ?thesis by (cases "pc_q c") (simp_all add: capture_ptz_vstream_pic_def)
qed

lemma run_keeps_old:
  assumes "\<forall>t r. Turn t \<in> set as \<longrightarrow> sa_read t = Some r \<longrightarrow> \<not> fst r"
  shows "px_next c \<le> px_next (fold ptz_act_do as c) \<and> (\<forall>b < px_next c. px_bufs (fold ptz_act_do as c) b = px_bufs c b) \<and>
    map (px_bufs (fold ptz_act_do as c)) (gather ptz_act_do ptz_put as c) = gather ptz_act_do ptz_images as c"
  using assms
proof (induction as arbitrary: c)
  case (Cons a as)
  have "\<forall>t r. a = Turn t \<longrightarrow> sa_read t = Some r \<longrightarrow> \<not> fst r" using Cons.prems by auto
  note k = act_keeps_old [OF this, of c]
  have IH: "px_next (ptz_act_do a c) \<le> px_next (fold ptz_act_do as (ptz_act_do a c)) \<and>
    (\<forall>b < px_next (ptz_act_do a c). px_bufs (fold ptz_act_do as (ptz_act_do a c)) b = px_bufs (ptz_act_do a c) b) \<and>
    map (px_bufs (fold ptz_act_do as (ptz_act_do a c))) (gather ptz_act_do ptz_put as (ptz_act_do a c)) = gather ptz_act_do ptz_images as (ptz_act_do a c)"
    by (rule Cons.IH) (use Cons.prems in auto)
  have "map (px_bufs (fold ptz_act_do as (ptz_act_do a c))) (ptz_put a c) = map (px_bufs (ptz_act_do a c)) (ptz_put a c)"
    by (rule map_cong) (use IH k in \<open>auto simp: list_all_iff\<close>)
  with IH k show ?case by auto
qed simp

lemma read_frame_writes:
  "px_bufs (read_frame reuse img c) = (px_bufs c)(the (st_frame (read_frame reuse img c)) := img)"
  by (simp add: read_frame_def split: bool.split option.split)

lemma queue_frame_bufs [simp]: "px_bufs (queue_frame c) = px_bufs c"
  by (simp add: queue_frame_def Let_def)

lemma act_writes:
  "px_bufs (ptz_act_do a c) = fold write_buf (ptz_writes a c) (px_bufs c) \<and>
    subseq (ptz_put a c) (map fst (ptz_writes a c))"
proof (cases a)
  case (Turn t)
  show ?thesis
  proof (cases "sa_read t")
    case (Some r)
    with Turn show ?thesis
      by (cases r; cases "st_phase c") (simp_all add: stream_start_def stream_open_def stream_leave_def stream_read_def read_frame_writes write_buf_def Let_def)
  next
    case None
    with Turn show ?thesis
      by (cases "st_phase c") (simp_all add: stream_start_def stream_open_def stream_leave_def stream_read_def Let_def)
  qed
next
  case (Capture l)
  then show ?thesis by (cases "pc_q c") (simp_all add: capture_ptz_vstream_pic_def)
qed

lemma run_writes:
  "px_bufs (fold ptz_act_do as c) = fold write_buf (gather ptz_act_do ptz_writes as c) (px_bufs c) \<and>
    subseq (gather ptz_act_do ptz_put as c) (map fst (gather ptz_act_do ptz_writes as c))"
proof (induction as arbitrary: c)
  case (Cons a as)
  note IH = Cons.IH [of "ptz_act_do a c"]
  from act_writes [of a c] IH show ?case by (auto intro: list_emb_append_mono)
qed simp

lemma subseq_map_eq: "subseq xs ys \<Longrightarrow> map f ys = zs \<Longrightarrow> subseq (map f xs) zs"
  using subseq_map by blast

text \<open>A thread that has begun and was not told to stop goes on for ever; one that was told ends after two turns at most.\<close>

definition running :: "'i ptz_ctrl \<Rightarrow> bool" where
  "running c \<longleftrightarrow> st_phase c \<noteq> St_end \<and> (st_phase c \<noteq> St_created \<longrightarrow> \<not> stop_stream c)"

lemma read_queue_phase [simp]:
  "st_phase (read_frame reuse img c) = st_phase c" "stop_stream (read_frame reuse img c) = stop_stream c"
  "st_phase (queue_frame c) = st_phase c" "stop_stream (queue_frame c) = stop_stream c"
  by (simp_all add: read_frame_def queue_frame_def Let_def split: bool.split option.split)

lemma running_turn: "running c \<Longrightarrow> running (ptz_camera_stream_thread a c)"
  by (cases "st_phase c"; cases "sa_read a")
    (auto simp: running_def stream_start_def stream_open_def stream_leave_def stream_read_def Let_def split: if_splits)

lemma running_join:
  assumes "stream_join ans n c = Some c'"
  shows "\<not> running c"
proof (rule stream_join.raw_induct [where P = "\<lambda>ans n c c'. \<not> running c", OF _ assms])
  fix join :: "(nat \<Rightarrow> 'a stream_ans) \<Rightarrow> nat \<Rightarrow> 'a ptz_ctrl \<Rightarrow> 'a ptz_ctrl option" and ans n c c'
  assume IH: "\<And>ans n c c'. join ans n c = Some c' \<Longrightarrow> \<not> running c"
    and step: "(if st_phase c = St_end then Some c else join ans (n + 1) (ptz_camera_stream_thread (ans n) c)) = Some c'"
  show "\<not> running c"
  proof (cases "st_phase c = St_end")
    case False
    with step IH have "\<not> running (ptz_camera_stream_thread (ans n) c)" by (simp del: ptz_camera_stream_thread.simps)
    then show ?thesis using running_turn by blast
  qed (simp add: running_def)
qed

lemma stopped_turn:
  assumes "stop_capture c" "stop_stream c" "st_phase c = St_read"
  shows "st_phase (ptz_camera_stream_thread a c) = St_end"
  using assms by (simp add: stream_read_def stream_leave_def)

lemma stopped_join:
  fixes c :: "'a ptz_ctrl"
  assumes "stop_capture c" "stop_stream c" "st_phase c \<noteq> St_created"
  shows "\<exists>c'. stream_join ans n c = Some c'"
proof -
  have ended: "\<exists>c'. stream_join ans n c = Some c'" if "st_phase c = St_end" for n and c :: "'a ptz_ctrl"
    using that by (simp add: stream_join.simps)
  have reading: "\<exists>c'. stream_join ans n c = Some c'" if "st_phase c = St_read" "stop_capture c" "stop_stream c" for n and c :: "'a ptz_ctrl"
    using that ended [OF stopped_turn [OF that(2,3,1), of "ans n"], of "n + 1"] by (subst stream_join.simps) simp
  have opens: "\<exists>c'. stream_join ans n c = Some c'" if "st_phase c = St_open"
  proof (cases "sa_opened (ans n)")
    case True
    then show ?thesis using that assms reading [of "c\<lparr>st_phase := St_read\<rparr>" "n + 1"]
      by (subst stream_join.simps) (simp add: stream_open_def)
  next
    case False
    then have "st_phase (ptz_camera_stream_thread (ans n) c) = St_end"
      using that assms by (simp add: stream_open_def stream_leave_def Let_def)
    from ended [OF this, of "n + 1"] that show ?thesis by (subst stream_join.simps) (simp del: ptz_camera_stream_thread.simps)
  qed
  show ?thesis using assms ended reading opens by (cases "st_phase c") auto
qed

lemma alias_step:
  assumes "\<forall>t. a = Turn t \<longrightarrow> sa_lock t = 0 \<and> (\<forall>r. sa_read t = Some r \<longrightarrow> fst r)" "st_phase c \<noteq> St_created" "st_frame c = Some b"
  shows "st_phase (ptz_act_do a c) \<noteq> St_created \<and> st_frame (ptz_act_do a c) = Some b \<and> list_all (\<lambda>x. x = b) (ptz_put a c) \<and>
    px_bufs (ptz_act_do a c) b = last (px_bufs c b # ptz_images a c)"
proof (cases a)
  case (Turn t)
  show ?thesis
  proof (cases "sa_read t")
    case (Some r)
    have "fst r" using assms(1) Turn Some by blast
    then have "r = (True, snd r)" by (cases r) simp
    with Turn Some have "a = Turn t" "sa_read t = Some (True, snd r)" "sa_lock t = 0" using assms(1) by simp_all
    with assms(2,3) show ?thesis
      by (cases "st_phase c") (simp_all add: stream_open_def stream_leave_def stream_read_def queue_frame_def read_frame_def Let_def)
  next
    case None
    with Turn assms(2,3) show ?thesis
      by (cases "st_phase c") (simp_all add: stream_open_def stream_leave_def stream_read_def Let_def)
  qed
next
  case (Capture l)
  with assms(2,3) show ?thesis by (cases "pc_q c") (simp_all add: capture_ptz_vstream_pic_def)
qed

lemma last_Cons_append: "last (last (x # ys) # zs) = last (x # ys @ zs)"
  by (cases zs) auto

lemma alias_run:
  assumes "\<forall>t. Turn t \<in> set as \<longrightarrow> sa_lock t = 0 \<and> (\<forall>r. sa_read t = Some r \<longrightarrow> fst r)" "st_phase c \<noteq> St_created" "st_frame c = Some b"
  shows "set (gather ptz_act_do ptz_put as c) \<subseteq> {b} \<and>
    px_bufs (fold ptz_act_do as c) b = last (px_bufs c b # gather ptz_act_do ptz_images as c)"
  using assms
proof (induction as arbitrary: c)
  case (Cons a as)
  have "\<forall>t. a = Turn t \<longrightarrow> sa_lock t = 0 \<and> (\<forall>r. sa_read t = Some r \<longrightarrow> fst r)" using Cons.prems(1) by auto
  note k = alias_step [OF this Cons.prems(2,3)]
  have IH: "set (gather ptz_act_do ptz_put as (ptz_act_do a c)) \<subseteq> {b} \<and>
    px_bufs (fold ptz_act_do as (ptz_act_do a c)) b = last (px_bufs (ptz_act_do a c) b # gather ptz_act_do ptz_images as (ptz_act_do a c))"
    by (rule Cons.IH) (use Cons.prems(1) k in auto)
  then show ?case using k by (simp add: last_Cons_append list_all_iff subset_iff)
qed simp

lemma relase_iff_started:
  "(\<exists>r. relase_ptz_resource run turn replies (s, c) = Some r) \<longleftrightarrow>
    ptz_tid c \<and> st_phase c \<noteq> St_created \<and> (\<exists>r. eth_link_ptz_uninit run turn s = Some r)"
proof (cases "st_phase c = St_created")
  case True
  then have "running (c\<lparr>stop_capture := True, stop_stream := True\<rparr>)" by (simp add: running_def)
  then have "stream_join replies 0 (c\<lparr>stop_capture := True, stop_stream := True\<rparr>) = None"
    using running_join by (metis not_None_eq)
  with True show ?thesis by (simp add: relase_ptz_resource_def)
next
  case False
  with stopped_join [of "c\<lparr>stop_capture := True, stop_stream := True\<rparr>" replies 0] show ?thesis
    by (cases "eth_link_ptz_uninit run turn s") (auto simp: relase_ptz_resource_def ptz_comands_unregister_def)
qed

subsection \<open>Properties\<close>

text \<open>
  C24. The images of the camera, in every interleaving of the stream thread with those who take images: the buffers that are taken and
  those that wait are the buffers that were queued, each entry once and in order; at most five wait, and they are the newest. A queue entry
  is a handle: every entry is a buffer that was read into at that moment, and at any time a buffer shows the image of the last
  \<^verbatim>\<open>read\<close> into it. So an entry shows the image it was queued for as long as OpenCV does not write the same buffer again, and a later
  one when it does (see \<open>stream_images_kept\<close> and \<open>stream_images_overwritten\<close>).
\<close>
theorem stream_images_in_order:
  assumes "length (pc_q c) \<le> 5" "c' = fold ptz_act_do as c"
    "queued = pc_q c @ gather ptz_act_do ptz_put as c" "written = gather ptz_act_do ptz_writes as c"
  shows "subseq (gather ptz_act_do ptz_got as c @ pc_q c') queued \<and> suffix (pc_q c') queued \<and> length (pc_q c') \<le> 5 \<and>
    subseq (gather ptz_act_do ptz_put as c) (map fst written) \<and> px_bufs c' = fold write_buf written (px_bufs c)"
  using ptz_frames.taken_in_order [where s = c and as = as] ptz_frames.queue_newest [where s = c and as = as]
    ptz_frames.queue_bounded [where s = c and as = as] run_writes [of as c] assms by simp

definition ex_ctrl :: "stream_phase \<Rightarrow> nat ptz_ctrl" where
  "ex_ctrl p = \<lparr>ptz_tid = True, stop_capture = False, stop_stream = False, pc_q = [], rtsp_stream_addr = DEFAULT_RTSP_PTZ,
     st_phase = p, st_frame = Some 0, st_count = 0, px_bufs = (\<lambda>_. 0), px_next = 1\<rparr>"

definition ex_ans :: "bool \<Rightarrow> nat \<Rightarrow> nat stream_ans" where
  "ex_ans reuse img = \<lparr>sa_opened = True, sa_read = Some (reuse, img), sa_lock = 0\<rparr>"

definition ex_acts :: "bool \<Rightarrow> nat ptz_act list" where
  "ex_acts reuse = [Turn (ex_ans reuse 0), Turn (ex_ans reuse 7), Turn (ex_ans reuse 8), Capture 0, Turn (ex_ans reuse 9)]"

theorem stream_images_in_order_witness:
  "subseq (gather ptz_act_do ptz_got (ex_acts True) (ex_ctrl St_open) @ pc_q (fold ptz_act_do (ex_acts True) (ex_ctrl St_open))) [0, 0, 0] \<and>
    px_bufs (fold ptz_act_do (ex_acts True) (ex_ctrl St_open)) 0 = 9"
proof -
  have g: "[0, 0, 0] = pc_q (ex_ctrl St_open) @ gather ptz_act_do ptz_put (ex_acts True) (ex_ctrl St_open)"
    "[(0, 7), (0, 8), (0, 9)] = gather ptz_act_do ptz_writes (ex_acts True) (ex_ctrl St_open)" by code_simp+
  have "length (pc_q (ex_ctrl St_open)) \<le> 5" by (simp add: ex_ctrl_def)
  from stream_images_in_order [OF this refl g] show ?thesis by (simp add: write_buf_def)
qed

text \<open>
  When each read gives a buffer of its own, what is taken and what waits are images that were read, each once and in order; at most five wait,
  and they are the newest.
\<close>
theorem stream_images_kept:
  assumes "\<forall>t r. Turn t \<in> set as \<longrightarrow> sa_read t = Some r \<longrightarrow> \<not> fst r" "\<forall>b \<in> set (pc_q c). b < px_next c" "length (pc_q c) \<le> 5"
    "c' = fold ptz_act_do as c" "imgs = map (px_bufs c) (pc_q c) @ gather ptz_act_do ptz_images as c"
  shows "subseq (map (px_bufs c') (gather ptz_act_do ptz_got as c @ pc_q c')) imgs \<and>
    suffix (map (px_bufs c') (pc_q c')) imgs \<and> length (pc_q c') \<le> 5"
proof -
  have m: "map (px_bufs c') (pc_q c @ gather ptz_act_do ptz_put as c) = imgs"
    using run_keeps_old [OF assms(1), of c] assms(2,4,5) by auto
  show ?thesis
    using subseq_map_eq [OF ptz_frames.taken_in_order m] map_mono_suffix [OF ptz_frames.queue_newest [where s = c and as = as], of "px_bufs c'"] m
      ptz_frames.queue_bounded [where s = c and as = as] assms(3,4) by auto
qed

theorem stream_images_kept_witness:
  "subseq (map (px_bufs (fold ptz_act_do (ex_acts False) (ex_ctrl St_open))) (gather ptz_act_do ptz_got (ex_acts False) (ex_ctrl St_open) @
      pc_q (fold ptz_act_do (ex_acts False) (ex_ctrl St_open)))) [7, 8, 9]"
proof -
  have a: "\<forall>t r. Turn t \<in> set (ex_acts False) \<longrightarrow> sa_read t = Some r \<longrightarrow> \<not> fst r" by (auto simp: ex_acts_def ex_ans_def)
  have i: "[7, 8, 9] = map (px_bufs (ex_ctrl St_open)) (pc_q (ex_ctrl St_open)) @ gather ptz_act_do ptz_images (ex_acts False) (ex_ctrl St_open)"
    by code_simp
  show ?thesis
    using stream_images_kept [OF a _ _ refl i] by (simp add: ex_ctrl_def)
qed

text \<open>
  When \<^verbatim>\<open>read\<close> writes into the buffer its argument already has, as \<^verbatim>\<open>cv::Mat::create\<close> lets it for images of one size and type,
  the queue holds one image five times: whatever is taken or waits shows the image that was read last.
\<close>
theorem stream_images_overwritten:
  assumes "\<forall>t. Turn t \<in> set as \<longrightarrow> sa_lock t = 0 \<and> (\<forall>r. sa_read t = Some r \<longrightarrow> fst r)" "st_phase c \<noteq> St_created"
    "st_frame c = Some b" "set (pc_q c) \<subseteq> {b}" "c' = fold ptz_act_do as c"
  shows "\<forall>x \<in> set (gather ptz_act_do ptz_got as c) \<union> set (pc_q c').
    px_bufs c' x = last (px_bufs c b # gather ptz_act_do ptz_images as c)"
proof -
  have "set (gather ptz_act_do ptz_got as c @ pc_q c') \<subseteq> set (pc_q c @ gather ptz_act_do ptz_put as c)"
    unfolding assms(5) using list_emb_set [OF ptz_frames.taken_in_order [where s = c and as = as]] by (metis subsetI)
  moreover have "set (pc_q c @ gather ptz_act_do ptz_put as c) \<subseteq> {b}" using alias_run [OF assms(1-3)] assms(4) by simp
  ultimately have "set (gather ptz_act_do ptz_got as c) \<union> set (pc_q c') \<subseteq> {b}"
    unfolding set_append by blast
  moreover have "px_bufs c' b = last (px_bufs c b # gather ptz_act_do ptz_images as c)" using alias_run [OF assms(1-3)] assms(5) by simp
  ultimately show ?thesis by blast
qed

theorem stream_images_overwritten_witness:
  "map (px_bufs (fold ptz_act_do (ex_acts True) (ex_ctrl St_open))) (gather ptz_act_do ptz_got (ex_acts True) (ex_ctrl St_open)) = [9]"
proof -
  have a: "\<forall>t. Turn t \<in> set (ex_acts True) \<longrightarrow> sa_lock t = 0 \<and> (\<forall>r. sa_read t = Some r \<longrightarrow> fst r)"
    by (auto simp: ex_acts_def ex_ans_def)
  have c: "st_phase (ex_ctrl St_open) \<noteq> St_created" "st_frame (ex_ctrl St_open) = Some 0" "set (pc_q (ex_ctrl St_open)) \<subseteq> {0}"
    by (simp_all add: ex_ctrl_def)
  have g: "gather ptz_act_do ptz_got (ex_acts True) (ex_ctrl St_open) = [0]"
    "gather ptz_act_do ptz_images (ex_acts True) (ex_ctrl St_open) = [7, 8, 9]" by code_simp+
  show ?thesis using stream_images_overwritten [OF a c refl] unfolding g by simp
qed

text \<open>
  Shutting down, when no datagram comes in between, returns, whatever the stream answers, exactly if both threads were created and not yet joined and
  the camera thread has begun to run: a stop that comes between its creation and its first statements is undone by them, and
  \<^verbatim>\<open>pthread_join\<close> waits for ever.
\<close>
theorem relase_returns_iff_started:
  "(\<exists>r. relase_ptz_resource run None replies (s, c) = Some r) \<longleftrightarrow> ptz_tid c \<and> st_phase c \<noteq> St_created \<and> us_pid (sUdpSocket s)"
  unfolding relase_iff_started using eth_link_ptz_uninit_once [of s run None] by (cases "us_pid (sUdpSocket s)") auto

text \<open>\<^verbatim>\<open>load_ptz\<close> leaves the link as its model without the camera does, and the thread is created but has not run when it succeeds.\<close>

lemma load_ptz_stream_link:
  "load_ptz_stream os avail thread (s, c) = ((s', c'), r) \<Longrightarrow> load_ptz os avail thread s = (s', r) \<and> (r = 0 \<longrightarrow> st_phase c' = St_created)"
  by (auto simp: load_ptz_stream_def load_ptz_def ptz_thread_load_def split: prod.splits if_splits)

end
