(* ===== verification/Radar_To_Head.thy ===== *)
theory Radar_To_Head
  imports Ai_Main Ptz_App
begin

text \<open>
  The way of a radar track through the whole program: the alink handler puts the message on the algorithm's queue, the task takes
  it into the list of targets, the inference thread takes an image of the camera and the target, and the guidance
  sends two datagrams to the head. Each step is the definition of its component; the theorem composes what was shown of each.
\<close>

text \<open>What the algorithm's task runs, and what the inference thread runs on an image, on states that may be lost to an access outside memory.\<close>

definition task_run :: "nat \<Rightarrow> alg_fn \<Rightarrow> nat \<Rightarrow> bytes \<Rightarrow> u32 \<Rightarrow> alg_app_res option \<Rightarrow> alg_app_res option" where
  "task_run n = alg_thread_handler
     (\<lambda>(_ :: unit) pack sz w. Option.bind w (\<lambda>a. map_option fst (algs_handle_multiple_targets 0 True True n pack sz a))) (Some ())"

definition track_image ::
  "('f, 'z) fp_scheme \<Rightarrow> ('f radar_obj list \<Rightarrow> 'f radar_obj list) \<Rightarrow> clock \<Rightarrow> nat \<Rightarrow> bytes option \<Rightarrow> ai_state option \<Rightarrow> ai_state option" where
  "track_image F srt clk img t w = Option.bind w (\<lambda>a. map_option fst (ai_alg_run7 F srt clk t a))"

text \<open>Reading targets does not depend on what follows the bytes that are read.\<close>

lemma loadn_append: "loadn m i n = Some b \<Longrightarrow> loadn (m @ ys) i n = Some b"
  by (auto simp: loadn_def split: if_splits)

lemma pack_field_append: "pack_field base l f m = Some b \<Longrightarrow> pack_field base l f (m @ ys) = Some b"
  by (auto simp: pack_field_def dest: loadn_append split: bind_splits)

lemma pack_append:
  "pack_u base l f m = Some v \<Longrightarrow> pack_u base l f (m @ ys) = Some v"
  "pack_i16 base l f m = Some v \<Longrightarrow> pack_i16 base l f (m @ ys) = Some v"
  "pack_i32 base l f m = Some v \<Longrightarrow> pack_i32 base l f (m @ ys) = Some v"
  by (auto simp: pack_u_def pack_i16_def pack_i32_def dest: pack_field_append)

lemma pack_append_eq:
  "pack_u base l f m \<noteq> None \<Longrightarrow> pack_u base l f (m @ ys) = pack_u base l f m"
  "pack_i16 base l f m \<noteq> None \<Longrightarrow> pack_i16 base l f (m @ ys) = pack_i16 base l f m"
  "pack_i32 base l f m \<noteq> None \<Longrightarrow> pack_i32 base l f (m @ ys) = pack_i32 base l f m"
  using pack_append by fastforce+

lemma radar_point_append:
  assumes "radar_point F m i = Some ob"
  shows "radar_point F (m @ ys) i = Some ob"
  using assms by (auto simp: radar_point_def Let_def bind_eq_Some_conv pack_append_eq split: if_splits)

lemma those_mono: "those (map f xs) = Some ys \<Longrightarrow> \<forall>x y. f x = Some y \<longrightarrow> g x = Some y \<Longrightarrow> those (map g xs) = Some ys"
  by (induction xs arbitrary: ys) (auto split: option.splits)

lemma radar_read_append:
  assumes "radar_read F m = Some objs"
  shows "radar_read F (m @ ys) = Some objs"
proof -
  from assms obtain n where "pack_u 4 alink_track_tracked ''trackObjNum'' m = Some n" "those (map (radar_point F m) [0..<nat n]) = Some objs"
    by (auto simp: radar_read_def split: bind_splits)
  moreover from this have "those (map (radar_point F (m @ ys)) [0..<nat n]) = Some objs"
    using those_mono [of "radar_point F m" "[0..<nat n]" objs "radar_point F (m @ ys)"] radar_point_append by blast
  ultimately show ?thesis using pack_append(1) by (simp add: radar_read_def)
qed

lemma posted_radar_queued:
  assumes "mq m = [\<lparr>pv_func = Some Alg_thread_handler, uSize = 11574, acInfo = le_bytes 4 (track_type_word TRACK_INFO_RADAR) @ rest\<rparr>]"
    "length rest = 11570" "targets_abs a []" "ar_user_target a = None"
  shows "\<exists>a'. sysport_task_turn (task_run n) Mq_received m cnt (Some a) = Some (Some (m\<lparr>mq := []\<rparr>), cnt - 1, Some a') \<and> targets_abs a' [n] \<and>
    spec_of a' [n] = \<lparr>sp_user = None, sp_queue = [le_bytes 4 (track_type_word TRACK_INFO_RADAR) @ rest]\<rparr>"
proof -
  let ?pk = "le_bytes 4 (track_type_word TRACK_INFO_RADAR) @ rest"
  let ?p = "\<lparr>tp_data_dev_type = 0, tp_pack = ?pk, tp_pack_len = 11574\<rparr>"
  have len: "length ?pk = 11574" using assms(2) by simp
  have tag: "sint (of_le (take 4 ?pk) :: u32) = 0" by (simp add: of_le_le_bytes del: le_bytes.simps)
  have l: "loadn (tp_pack ?p) 0 (nat (tp_pack_len ?p)) = Some ?pk" using len by (simp add: loadn_def del: le_bytes.simps)
  have u: "unused n a []" using assms(4) by (simp add: unused_def)
  obtain a' where a': "insert_target_to_head 0 True True n (Some ?p) a = Some (a', 0)" "targets_abs a' [n]"
    "spec_of a' [n] = spec_put False ?pk (spec_of a [])"
    using insert_abs [OF assms(3) u _ l, of False "[n]"] by (auto simp del: le_bytes.simps track_type_word.simps)
  have "algs_handle_multiple_targets 0 True True n ?pk 11574 a = Some (a', 0)"
    using a'(1) tag len by (simp add: algs_handle_multiple_targets_def loadn_def del: le_bytes.simps track_type_word.simps append_assoc)
  then have "sysport_task_turn (task_run n) Mq_received m cnt (Some a) = Some (Some (m\<lparr>mq := []\<rparr>), cnt - 1, Some a')"
    using assms(1) by (simp add: sysport_task_turn_def task_run_def alg_thread_handler_def skyfend_safefree_def del: le_bytes.simps track_type_word.simps)
  then show ?thesis using a'(2,3) assms(4) by (simp add: spec_of_def spec_put_def del: le_bytes.simps track_type_word.simps)
qed

lemma idle_image_guides:
  assumes "work_mode_of ai = Some 0" "target_num_of ai = Some 0" "img_cnt ai < 2147483647" "ai_connected ai" "sorts srt" "fp_stores F"
    "pk = le_bytes 4 (track_type_word TRACK_INFO_RADAR) @ rest" "radar_read F pk = Some objs"
    "useful = {it \<in> set objs. ro_stateType it = 1 \<and> ro_alive it \<ge> 10}" "useful \<noteq> {}"
  shows "\<exists>ob \<in> useful. \<exists>ai' ts1 ts2 m1 m2. (\<forall>it \<in> useful. ro_threatLevel ob \<le> ro_threatLevel it) \<and>
    ai_alg_run7 F srt clk (Some pk) ai = Some (ai', 0) \<and>
    ai_link ai' = ptz_broadcast (ptz_frame PTZ_COMMAND_ADDR ts2 m2) (ptz_broadcast (ptz_frame PTZ_COMMAND_SERACH_TRACK ts1 m1) (ai_link ai)) \<and>
    get_field ptz_msg_track ''ctrl_cmd'' m1 = Some (le_bytes 4 (3 :: u32)) \<and>
    get_field ptz_msgid_0x03_addr ''horizatal_angle'' m2 = Some (f_bytes F (f_single F
      (if f_less F (ro_azimuth ob) (f_int F 0) then f_add F (f_int F 360) (ro_azimuth ob) else f_int F 0))) \<and>
    get_field ptz_msgid_0x03_addr ''pitch_angle'' m2 = Some (f_bytes F (f_single F (ro_elevation ob))) \<and>
    get_field ptz_msgid_0x03_addr ''target_altitude'' m2 = Some (f_bytes F (f_single F
      (f_sqrt F (f_add F (f_mul F (ro_x ob) (ro_x ob)) (f_mul F (ro_y ob) (ro_y ob)))))) \<and>
    get_field ptz_msgid_0x03_addr ''distance'' m2 = Some (f_bytes F (f_single F (ro_z ob)))"
proof -
  let ?a = "ai\<lparr>img_cnt := img_cnt ai + 1, firstGuide := True, prev_mode := 0, track_cnt := 0\<rparr>"
  have ty: "load32 pk 0 = Some (track_type_word TRACK_INFO_RADAR)"
    unfolding assms(7) by (simp add: load32_def loadn_def of_le_le_bytes del: le_bytes.simps track_type_word.simps)
  then have g: "guide_by F srt clk pk ?a = radarGuide F srt clk pk (-1) ?a" by (simp add: guide_by_def)
  have c: "ai_connected ?a" using assms(4) by simp
  have k: "int_inc (img_cnt ai) = Some (img_cnt ai + 1)" using assms(3) by (simp add: int_inc_def)
  from radar_guides_best [OF assms(5,6) c assms(8,9), of clk] obtain ob gid a1 a2 m1 m2 where
    ob: "ob \<in> useful" "\<forall>it \<in> useful. ro_threatLevel ob \<le> ro_threatLevel it"
    "radarGuide F srt clk pk (-1) ?a = Some a2" "track_sent m1 (?a\<lparr>g_nID := gid\<rparr>) a1" "addr_sent m2 a1 a2"
    "get_field ptz_msg_track ''ctrl_cmd'' m1 = Some (le_bytes 4 (3 :: u32))" and
    fields: "get_field ptz_msgid_0x03_addr ''horizatal_angle'' m2 = Some (f_bytes F (f_single F
      (if f_less F (ro_azimuth ob) (f_int F 0) then f_add F (f_int F 360) (ro_azimuth ob) else f_int F 0))) \<and>
    get_field ptz_msgid_0x03_addr ''pitch_angle'' m2 = Some (f_bytes F (f_single F (ro_elevation ob))) \<and>
    get_field ptz_msgid_0x03_addr ''target_altitude'' m2 = Some (f_bytes F (f_single F
      (f_sqrt F (f_add F (f_mul F (ro_x ob) (ro_x ob)) (f_mul F (ro_y ob) (ro_y ob)))))) \<and>
    get_field ptz_msgid_0x03_addr ''distance'' m2 = Some (f_bytes F (f_single F (ro_z ob)))"
    unfolding if_not_P [OF assms(10)] radar_ground_def by metis
  from ob(4) obtain ts1 n1 where s1: "a1 = ?a\<lparr>g_nID := gid, ai_link := ptz_broadcast (ptz_frame PTZ_COMMAND_SERACH_TRACK ts1 n1) (ai_link ai), ai_n := ai_n ai + 1\<rparr>"
    "get_field ptz_msg_track ''ctrl_cmd'' n1 = get_field ptz_msg_track ''ctrl_cmd'' m1" by (auto simp: sends_one_def)
  from ob(5) obtain ts2 n2 where s2: "a2 = a1\<lparr>ai_link := ptz_broadcast (ptz_frame PTZ_COMMAND_ADDR ts2 n2) (ai_link a1), ai_n := ai_n a1 + 1\<rparr>"
    "\<forall>f. f \<notin> {''photoelectricity_no'', ''user_id'', ''sys_no'', ''sys_timesmap''} \<longrightarrow>
      get_field ptz_msgid_0x03_addr f n2 = get_field ptz_msgid_0x03_addr f m2" by (auto simp: sends_one_def)
  have same: "get_field ptz_msgid_0x03_addr ''horizatal_angle'' n2 = get_field ptz_msgid_0x03_addr ''horizatal_angle'' m2"
    "get_field ptz_msgid_0x03_addr ''pitch_angle'' n2 = get_field ptz_msgid_0x03_addr ''pitch_angle'' m2"
    "get_field ptz_msgid_0x03_addr ''target_altitude'' n2 = get_field ptz_msgid_0x03_addr ''target_altitude'' m2"
    "get_field ptz_msgid_0x03_addr ''distance'' n2 = get_field ptz_msgid_0x03_addr ''distance'' m2"
    by (rule s2(2) [rule_format], simp)+
  have "target_num_of (a2\<lparr>prev_cnt := img_cnt a2\<rparr>) = Some 0" using assms(2) s1(1) s2(1) by (simp add: target_num_of_def)
  then have "ai_alg_run7 F srt clk (Some pk) ai = Some (a2\<lparr>prev_cnt := img_cnt a2\<rparr>, 0)"
    unfolding idle_head_guided [OF assms(1)] k bind.bind_lunit g ob(3) by (simp add: Let_def)
  then show ?thesis using ob(1,2,6) fields s1 s2(1) same by (intro bexI [of _ ob] exI [of _ "a2\<lparr>prev_cnt := img_cnt a2\<rparr>"] exI [of _ ts1] exI [of _ ts2]
      exI [of _ n1] exI [of _ n2]) simp_all
qed

subsection \<open>Property\<close>

text \<open>
  C6. A radar track in, two datagrams out. Let a radar send a track message that holds the targets it announces, a confirmed one among them, while the head is
  idle and reports no target of its own, nothing else waits and an image of the camera is there. Then the handler posts the message, the
  algorithm's task queues it, and the next turn of the inference thread, unless it is the one that overflows the count of images, sends the head the
  order to stop and then a guidance by the data of a confirmed target that none undercuts in its threat level: the pitch is its elevation; the
  horizontal angle is its azimuth plus 360 if that is negative, and 0, whatever its azimuth, if it is not; the member for
  the altitude holds its distance on the ground and the member for the distance its height. The queues are empty again.
\<close>
theorem radar_track_guides_head:
  assumes "payload_is h p bs" "length bs \<le> packed_size alink_track_tracked" "length (en_pack e) = packed_size radar_track_info_packages"
    "en_pvalgtask e = Some m" "mq m = []" "en_avail e" "0 \<le> en_mq_ret e"
    "targets_abs a []" "ar_user_target a = None" "pc_q c = b # q"
    "work_mode_of ai = Some 0" "target_num_of ai = Some 0" "img_cnt ai < 2147483647" "ai_connected ai" "sorts srt" "fp_stores F"
    "radar_read F (le_bytes 4 (track_type_word TRACK_INFO_RADAR) @ bs) = Some objs"
    "useful = {it \<in> set objs. ro_stateType it = 1 \<and> ro_alive it \<ge> 10}" "useful \<noteq> {}"
  shows "\<exists>e' m' m'' a1 a2 ai' ob ts1 ts2 m1 m2.
    track_pkg_tracked h p r e = Some (r, e') \<and> en_pvalgtask e' = Some m' \<and>
    sysport_task_turn (task_run n) Mq_received m' cnt (Some a) = Some (Some m'', cnt - 1, Some a1) \<and> mq m'' = [] \<and>
    capture_ptz_vstream_pic 0 c = (c\<lparr>pc_q := q\<rparr>, Some b, 0) \<and>
    fusion_turn (track_image F srt clk) (Some b) 0 a1 (Some ai) = (a2, Some ai') \<and> targets_abs a2 [] \<and>
    ob \<in> useful \<and> (\<forall>it \<in> useful. ro_threatLevel ob \<le> ro_threatLevel it) \<and>
    ai_link ai' = ptz_broadcast (ptz_frame PTZ_COMMAND_ADDR ts2 m2) (ptz_broadcast (ptz_frame PTZ_COMMAND_SERACH_TRACK ts1 m1) (ai_link ai)) \<and>
    get_field ptz_msg_track ''ctrl_cmd'' m1 = Some (le_bytes 4 (3 :: u32)) \<and>
    get_field ptz_msgid_0x03_addr ''horizatal_angle'' m2 = Some (f_bytes F (f_single F
      (if f_less F (ro_azimuth ob) (f_int F 0) then f_add F (f_int F 360) (ro_azimuth ob) else f_int F 0))) \<and>
    get_field ptz_msgid_0x03_addr ''pitch_angle'' m2 = Some (f_bytes F (f_single F (ro_elevation ob))) \<and>
    get_field ptz_msgid_0x03_addr ''target_altitude'' m2 = Some (f_bytes F (f_single F
      (f_sqrt F (f_add F (f_mul F (ro_x ob) (ro_x ob)) (f_mul F (ro_y ob) (ro_y ob)))))) \<and>
    get_field ptz_msgid_0x03_addr ''distance'' m2 = Some (f_bytes F (f_single F (ro_z ob)))"
proof -
  let ?rest = "bs @ drop (4 + length bs) (en_pack e)"
  let ?pk = "le_bytes 4 (track_type_word TRACK_INFO_RADAR) @ ?rest"
  let ?m = "m\<lparr>mq := mq m @ [\<lparr>pv_func = Some Alg_thread_handler, uSize = 11574, acInfo = ?pk\<rparr>]\<rparr>"
  have posted: "track_pkg_tracked h p r e = Some (r, e\<lparr>en_pack := ?pk, en_pvalgtask := Some ?m, en_cnt := en_cnt e + 1\<rparr>)"
    by (rule track_pkg_tracked_posts [OF assms(1-4,6,7) refl])
  have q: "mq ?m = [\<lparr>pv_func = Some Alg_thread_handler, uSize = 11574, acInfo = ?pk\<rparr>]" using assms(5) by simp
  have len: "length ?rest = 11570" using assms(2,3) by simp
  from posted_radar_queued [OF q len assms(8,9), of n cnt] obtain a1 where
    turn: "sysport_task_turn (task_run n) Mq_received ?m cnt (Some a) = Some (Some (?m\<lparr>mq := []\<rparr>), cnt - 1, Some a1)"
    "targets_abs a1 [n]" "spec_of a1 [n] = \<lparr>sp_user = None, sp_queue = [?pk]\<rparr>" by (auto simp del: le_bytes.simps track_type_word.simps)
  have rd: "radar_read F ?pk = Some objs" unfolding append_assoc [symmetric] by (rule radar_read_append [OF assms(17)])
  obtain ob ai' ts1 ts2 m1 m2 where out: "ob \<in> useful" "\<forall>it \<in> useful. ro_threatLevel ob \<le> ro_threatLevel it"
    "ai_alg_run7 F srt clk (Some ?pk) ai = Some (ai', 0)"
    "ai_link ai' = ptz_broadcast (ptz_frame PTZ_COMMAND_ADDR ts2 m2) (ptz_broadcast (ptz_frame PTZ_COMMAND_SERACH_TRACK ts1 m1) (ai_link ai))"
    "get_field ptz_msg_track ''ctrl_cmd'' m1 = Some (le_bytes 4 (3 :: u32))"
    "get_field ptz_msgid_0x03_addr ''horizatal_angle'' m2 = Some (f_bytes F (f_single F
      (if f_less F (ro_azimuth ob) (f_int F 0) then f_add F (f_int F 360) (ro_azimuth ob) else f_int F 0))) \<and>
    get_field ptz_msgid_0x03_addr ''pitch_angle'' m2 = Some (f_bytes F (f_single F (ro_elevation ob))) \<and>
    get_field ptz_msgid_0x03_addr ''target_altitude'' m2 = Some (f_bytes F (f_single F
      (f_sqrt F (f_add F (f_mul F (ro_x ob) (ro_x ob)) (f_mul F (ro_y ob) (ro_y ob)))))) \<and>
    get_field ptz_msgid_0x03_addr ''distance'' m2 = Some (f_bytes F (f_single F (ro_z ob)))"
    using idle_image_guides [OF assms(11-16) refl rd assms(18,19), of clk] by metis
  obtain a2 w where f: "fusion_turn (track_image F srt clk) (Some b) 0 a1 (Some ai) = (a2, w)"
    by (cases "fusion_turn (track_image F srt clk) (Some b) 0 a1 (Some ai)")
  have u: "ar_user_target a1 = None" using turn(3) by (simp add: spec_of_def)
  from fusion_turn_takes_one [OF turn(2) f] have "targets_abs a2 []" "w = Some ai'"
    unfolding turn(3) using u out(3) by (simp_all add: track_image_def spec_take_def del: le_bytes.simps track_type_word.simps)
  moreover have "capture_ptz_vstream_pic 0 c = (c\<lparr>pc_q := q\<rparr>, Some b, 0)" using assms(10) by (simp add: capture_ptz_vstream_pic_def)
  ultimately show ?thesis using posted turn(1) f out
    by (intro exI [of _ "e\<lparr>en_pack := ?pk, en_pvalgtask := Some ?m, en_cnt := en_cnt e + 1\<rparr>"] exI [of _ ?m] exI [of _ "?m\<lparr>mq := []\<rparr>"]
        exI [of _ a1] exI [of _ a2] exI [of _ ai'] exI [of _ ob] exI [of _ ts1] exI [of _ ts2] exI [of _ m1] exI [of _ m2])
      (simp del: le_bytes.simps track_type_word.simps)
qed

definition ex_track :: bytes where
  "ex_track = drop 4 ex_radar_pack"

definition ex_idle :: ai_state where
  "ex_idle = ex_ai\<lparr>ai_link := (ai_link ex_ai)\<lparr>pl_world := ex_report 0\<rparr>\<rparr>"

lemma ex_track_payload: "payload_is [3 \<mapsto> replicate 9 0 @ ex_track @ [0, 0]] (ex_payload 185) ex_track" "length ex_track = 185"
  by (simp_all add: payload_is_def ex_payload_def deref_def ex_track_def ex_radar_pack_def ex_radar_item_def)

theorem radar_track_guides_head_witness:
  "\<exists>a2 ai'. fusion_turn (track_image fixed_fp insertion_sort ex_clock) (Some 4) 0
      (the (snd (snd (the (sysport_task_turn (task_run 6) Mq_received (the (en_pvalgtask (snd (the
        (track_pkg_tracked [3 \<mapsto> replicate 9 0 @ ex_track @ [0, 0]] (ex_payload 185) ex_resp ex_env))))) 2 (Some ex_targets))))))
      (Some ex_idle) = (a2, Some ai') \<and> ar_head a2 = None"
proof -
  have e: "length (en_pack ex_env) = packed_size radar_track_info_packages" "en_pvalgtask ex_env = Some ex_alg" "mq ex_alg = []" "en_avail ex_env"
    "0 \<le> en_mq_ret ex_env" "en_cnt ex_env = 1" by (simp_all add: ex_env_def ex_alg_def)
  have a: "targets_abs ex_targets []" "ar_user_target ex_targets = None" by (rule ex_targets_abs) (simp add: ex_targets_def)
  have c: "pc_q ((ex_ctrl St_read)\<lparr>pc_q := [4]\<rparr>) = 4 # []" by simp
  have w: "work_mode_of ex_idle = Some 0" using ex_report_mode(3) by (simp add: work_mode_of_def rt_mode_def ex_idle_def)
  have t: "target_num_of ex_idle = Some 0"
    by (simp add: target_num_of_def ex_idle_def ex_report_def get_field_def ptz_msg_target_pac_def loadn_def numeral_eq_Suc)
  have i: "img_cnt ex_idle < 2147483647" by (simp add: ex_idle_def ex_ai_def)
  have k: "ai_connected ex_idle" by (simp add: ptz_connected_def ex_idle_def ex_ai_def)
  have "le_bytes 4 (track_type_word TRACK_INFO_RADAR) @ ex_track = ex_radar_pack" by code_simp
  moreover obtain u v where "radar_read fixed_fp ex_radar_pack = Some [u, v]" "ro_stateType u = 1 \<and> ro_alive u \<ge> 10"
    using ex_radar_objs by auto
  ultimately have o: "radar_read fixed_fp (le_bytes 4 (track_type_word TRACK_INFO_RADAR) @ ex_track) = Some [u, v]"
    "{it \<in> set [u, v]. ro_stateType it = 1 \<and> ro_alive it \<ge> 10} \<noteq> {}" by auto
  have l: "length ex_track \<le> packed_size alink_track_tracked" using ex_track_payload(2) by simp
  from radar_track_guides_head [OF ex_track_payload(1) l e(1-5) a c w t i k insertion_sort_sorts fixed_fp_stores o(1) refl o(2), of ex_resp 6 2 ex_clock]
  obtain e' m' m'' a1 a2 ai' where r: "track_pkg_tracked [3 \<mapsto> replicate 9 0 @ ex_track @ [0, 0]] (ex_payload 185) ex_resp ex_env = Some (ex_resp, e')"
    "en_pvalgtask e' = Some m'" "sysport_task_turn (task_run 6) Mq_received m' 2 (Some ex_targets) = Some (Some m'', 2 - 1, Some a1)"
    "fusion_turn (track_image fixed_fp insertion_sort ex_clock) (Some 4) 0 a1 (Some ex_idle) = (a2, Some ai')" "targets_abs a2 []" by blast
  show ?thesis using r by (simp add: targets_abs_def)
qed

end
