(* ===== verification/Ai_Runs.thy ===== *)
theory Ai_Runs
  imports Ai_Main
begin

text \<open>
  The earlier guidance loops of \<^verbatim>\<open>srv/algs/ai_alg/ai_main.cpp\<close>: \<^verbatim>\<open>ai_alg_run0\<close>, \<^verbatim>\<open>ai_alg_run\<close>, \<^verbatim>\<open>ai_alg_run1\<close>,
  \<^verbatim>\<open>ai_alg_run2\<close>, \<^verbatim>\<open>ai_alg_run2_id\<close>, \<^verbatim>\<open>ai_alg_run3\<close> and \<^verbatim>\<open>ai_alg_run3_nj\<close>, which \<^verbatim>\<open>ai_main.h\<close> exports beside \<^verbatim>\<open>ai_alg_run7\<close>,
  with the scans of a region and the upload of detected targets.

  The neural network and the tracker are third-party code: what \<^verbatim>\<open>postprocess\<close> and \<^verbatim>\<open>update\<close> give for an image is part of
  the argument for the image, and every definition works for all results they may give. Output to the terminal is left out.
  \<open>None\<close> is an access outside an array, or a counter incremented past the largest \<^verbatim>\<open>int\<close>.
\<close>

subsection \<open>State\<close>

text \<open>\<^verbatim>\<open>struct Object\<close> of the detector, and the box of a track: its left and upper edge, its width and height.\<close>

record 'f ai_object =
  ob_rect :: "'f \<times> 'f \<times> 'f \<times> 'f"
  ob_label :: i32
  ob_prob :: 'f

type_synonym 'f tlwh = "'f \<times> 'f \<times> 'f \<times> 'f"

record 'f image_in =
  im_cols :: i32
  im_rows :: i32
  im_objs :: "'f ai_object list"
  im_tracks :: "'f tlwh list"

text \<open>The globals of these loops; \<^verbatim>\<open>g_nID\<close> and the link are those of \<^verbatim>\<open>ai_alg_run7\<close>.\<close>

record run_state =
  rs_ai :: ai_state
  img_count :: i32
  no_obj_count :: i32
  g_bInit :: bool
  isGuide :: bool
  g_bFirst :: bool
  g_count :: i32

definition on_ai :: "(ai_state \<Rightarrow> ai_state option) \<Rightarrow> run_state \<Rightarrow> run_state option" where
  "on_ai f r = map_option (\<lambda>a. r\<lparr>rs_ai := a\<rparr>) (f (rs_ai r))"

subsection \<open>Tracking a box\<close>

text \<open>The corners of a box in a picture of 640 by 480. \<^verbatim>\<open>tlwh\<close> holds values of type \<^verbatim>\<open>float\<close>.\<close>

definition box_corners :: "('f, 'z) fp_scheme \<Rightarrow> 'f image_in \<Rightarrow> 'f tlwh \<Rightarrow> i32 \<times> i32 \<times> i32 \<times> i32" where
  "box_corners F im = (\<lambda>(x, y, w, h).
     let scale_w = f_div F (f_int F 640) (f_int F (im_cols im));
         scale_h = f_div F (f_int F 480) (f_int F (im_rows im));
         px = (\<lambda>v s. f_i32 F (f_mul F v s))
     in (px x scale_w, px (f_single F (f_add F x w)) scale_w, px y scale_h, px (f_single F (f_add F y h)) scale_h))"

definition track_box :: "('f, 'z) fp_scheme \<Rightarrow> clock \<Rightarrow> 'f image_in \<Rightarrow> 'f tlwh \<Rightarrow> ai_state \<Rightarrow> ai_state option" where
  "track_box F clk im t a = (case box_corners F im t of (x1, x2, y1, y2) \<Rightarrow> PTZTracking F clk x1 x2 y1 y2 a)"

text \<open>The same after an order to stop, as \<^verbatim>\<open>ai_alg_run1\<close> and \<^verbatim>\<open>ai_alg_run2\<close> do it twice.\<close>

definition retrack_box :: "('f, 'z) fp_scheme \<Rightarrow> clock \<Rightarrow> 'f image_in \<Rightarrow> 'f tlwh \<Rightarrow> ai_state \<Rightarrow> ai_state option" where
  "retrack_box F clk im t a = do { a1 \<leftarrow> StoppingTracking clk a; track_box F clk im t a1 }"

definition big_box :: "('f, 'z) fp_scheme \<Rightarrow> 'f tlwh \<Rightarrow> bool" where
  "big_box F = (\<lambda>(x, y, w, h). f_less F (f_int F 4) (f_single F (f_mul F w h)))"

definition nth_obj :: "'f ai_object list \<Rightarrow> nat \<Rightarrow> 'f ai_object option" where
  "nth_obj objs i = (if i < length objs then Some (objs ! i) else None)"

text \<open>The body of the loop over the tracks, and the loop. A detected object is looked up under the number of the track.\<close>

definition track_step :: "('f, 'z) fp_scheme \<Rightarrow> clock \<Rightarrow> 'f image_in \<Rightarrow> nat \<Rightarrow> 'f tlwh \<Rightarrow> run_state \<Rightarrow> run_state option" where
  "track_step F clk im i t r =
     (if big_box F t then do {
        ob \<leftarrow> nth_obj (im_objs im) i;
        let frameGuide = (img_count r mod 16 = 0 \<and> ob_label ob = 0);
        r1 \<leftarrow> (if frameGuide then on_ai (retrack_box F clk im t) r else Some r);
        if isGuide r1 \<and> \<not> frameGuide then map_option (\<lambda>r2. r2\<lparr>isGuide := False\<rparr>) (on_ai (retrack_box F clk im t) r1)
        else Some r1 }
      else Some r)"

fun track_loop :: "('f, 'z) fp_scheme \<Rightarrow> clock \<Rightarrow> 'f image_in \<Rightarrow> nat \<Rightarrow> 'f tlwh list \<Rightarrow> run_state \<Rightarrow> run_state option" where
  "track_loop F clk im i [] r = Some r"
| "track_loop F clk im i (t # ts) r = do { r1 \<leftarrow> track_step F clk im i t r; track_loop F clk im (Suc i) ts r1 }"

text \<open>The loop of \<^verbatim>\<open>ai_alg_run3\<close>, which counts tracks and follows the first one ever seen.\<close>

fun track3_loop :: "('f, 'z) fp_scheme \<Rightarrow> clock \<Rightarrow> 'f image_in \<Rightarrow> nat \<Rightarrow> 'f tlwh list \<Rightarrow> run_state \<Rightarrow> run_state option" where
  "track3_loop F clk im i [] r = Some r"
| "track3_loop F clk im i (t # ts) r = do {
     n \<leftarrow> int_inc (img_count r);
     let r0 = r\<lparr>img_count := n\<rparr>;
     r1 \<leftarrow> (if big_box F t then do {
         ob \<leftarrow> nth_obj (im_objs im) i;
         if img_count r0 = 1 then on_ai (track_box F clk im t) r0 else Some r0 }
       else Some r0);
     track3_loop F clk im (Suc i) ts r1 }"

subsection \<open>Targets of the user\<close>

text \<open>\<^verbatim>\<open>g_nID = user_target->utt.objid\<close>.\<close>

definition select_user_target :: "bytes \<Rightarrow> ai_state \<Rightarrow> ai_state option" where
  "select_user_target t a = map_option (\<lambda>objid. a\<lparr>g_nID := objid\<rparr>) (pack_u 4 user_track_target ''objid'' t)"

definition stop_for_user :: "clock \<Rightarrow> bytes \<Rightarrow> ai_state \<Rightarrow> ai_state option" where
  "stop_for_user clk t a = do { a1 \<leftarrow> select_user_target t a; StoppingTracking clk a1 }"

text \<open>The switch of \<^verbatim>\<open>ai_alg_run2\<close>; the answer tells whether it returned from the function.\<close>

definition guide_or_user ::
  "('f, 'z) fp_scheme \<Rightarrow> ('f radar_obj list \<Rightarrow> 'f radar_obj list) \<Rightarrow> clock \<Rightarrow> bytes \<Rightarrow> run_state \<Rightarrow> (run_state \<times> bool) option" where
  "guide_or_user F srt clk t r = do {
     data_dev_type \<leftarrow> load32 t 0;
     if data_dev_type = track_type_word TRACK_INFO_RADAR then
       map_option (\<lambda>r1. (r1, False)) (on_ai (radarGuide F srt clk t (g_nID (rs_ai r))) r)
     else if data_dev_type = track_type_word TRACK_INFO_TRACER_P_REMOTE_ID then
       map_option (\<lambda>r1. (r1, False)) (on_ai (tracerGuideR F clk t) r)
     else if data_dev_type = track_type_word TRACK_INFO_TRACER_P_DRONE_ID then
       map_option (\<lambda>r1. (r1, False)) (on_ai (tracerGuideD F clk t) r)
     else if data_dev_type = track_type_word TRACK_INFO_FROM_USER then
       map_option (\<lambda>r1. (r1, True)) (on_ai (stop_for_user clk t) r)
     else Some (r, False) }"

subsection \<open>The loops\<close>

definition is_pack_type :: "u32 \<Rightarrow> bool" where
  "is_pack_type ty \<longleftrightarrow> ty = track_type_word TRACK_INFO_RADAR \<or> ty = track_type_word TRACK_INFO_TRACER_P_REMOTE_ID \<or>
     ty = track_type_word TRACK_INFO_TRACER_P_DRONE_ID"

definition ai_alg_run0 :: "bytes option \<Rightarrow> i32 option" where
  "ai_alg_run0 targets =
     (case targets of
        None \<Rightarrow> Some (-1)
      | Some t \<Rightarrow> do { ty \<leftarrow> load32 t 0; Some (if is_pack_type ty then 0 else -1) })"

text \<open>The case of a user target has no \<^verbatim>\<open>break\<close>.\<close>

definition ai_alg_run :: "bytes option \<Rightarrow> i32 option" where
  "ai_alg_run targets =
     (case targets of
        None \<Rightarrow> Some (-1)
      | Some t \<Rightarrow> do {
          ty \<leftarrow> load32 t 0;
          Some (if is_pack_type ty then 0 else if ty = track_type_word TRACK_INFO_FROM_USER then -1 else -1) })"

definition count_lost :: "'f image_in \<Rightarrow> run_state \<Rightarrow> run_state option" where
  "count_lost im r = map_option (\<lambda>n. r\<lparr>no_obj_count := n\<rparr>) (if im_tracks im = [] then int_inc (no_obj_count r) else Some 0)"

definition count_image :: "run_state \<Rightarrow> run_state option" where
  "count_image r = map_option (\<lambda>n. r\<lparr>img_count := n\<rparr>) (int_inc (img_count r))"

text \<open>The switch of \<^verbatim>\<open>ai_alg_run1\<close> is that of \<^verbatim>\<open>ai_alg_run7\<close>; a Drone ID falls through to the user's case, which does nothing.\<close>

definition guide_opt ::
  "('f, 'z) fp_scheme \<Rightarrow> ('f radar_obj list \<Rightarrow> 'f radar_obj list) \<Rightarrow> clock \<Rightarrow> bytes option \<Rightarrow> run_state \<Rightarrow> run_state option" where
  "guide_opt F srt clk targets r = (case targets of None \<Rightarrow> Some r | Some t \<Rightarrow> on_ai (guide_by F srt clk t) r)"

definition ai_alg_run1 ::
  "('f, 'z) fp_scheme \<Rightarrow> ('f radar_obj list \<Rightarrow> 'f radar_obj list) \<Rightarrow> clock \<Rightarrow> 'f image_in \<Rightarrow> bytes option \<Rightarrow> run_state \<Rightarrow>
   (run_state \<times> i32) option" where
  "ai_alg_run1 F srt clk im targets r = do {
     r1 \<leftarrow> (if \<not> g_bInit r then guide_opt F srt clk targets (r\<lparr>g_bInit := True\<rparr>) else Some r);
     r2 \<leftarrow> count_lost im r1;
     r3 \<leftarrow> (if no_obj_count r2 > 16 then guide_opt F srt clk targets (r2\<lparr>no_obj_count := 0, isGuide := True\<rparr>) else Some r2);
     r4 \<leftarrow> track_loop F clk im 0 (im_tracks im) r3;
     r5 \<leftarrow> count_image r4;
     Some (r5, 0) }"

definition guide_or_user_opt ::
  "('f, 'z) fp_scheme \<Rightarrow> ('f radar_obj list \<Rightarrow> 'f radar_obj list) \<Rightarrow> clock \<Rightarrow> bytes option \<Rightarrow> run_state \<Rightarrow> (run_state \<times> bool) option" where
  "guide_or_user_opt F srt clk targets r = (case targets of None \<Rightarrow> Some (r, False) | Some t \<Rightarrow> guide_or_user F srt clk t r)"

text \<open>After the first image a user's target is taken up on every image.\<close>

definition run2_user :: "clock \<Rightarrow> bytes option \<Rightarrow> run_state \<Rightarrow> run_state option" where
  "run2_user clk targets r =
     (case targets of
        None \<Rightarrow> Some r
      | Some t \<Rightarrow> do {
          ty \<leftarrow> load32 t 0;
          if ty = track_type_word TRACK_INFO_FROM_USER then on_ai (stop_for_user clk t) r else Some r })"

text \<open>\<^verbatim>\<open>ai_alg_run2\<close> and \<^verbatim>\<open>ai_alg_run2_id\<close> differ only in the number of images without a track, \<open>most\<close>, that they let pass.\<close>

definition run2_lim ::
  "i32 \<Rightarrow> ('f, 'z) fp_scheme \<Rightarrow> ('f radar_obj list \<Rightarrow> 'f radar_obj list) \<Rightarrow> clock \<Rightarrow> 'f image_in \<Rightarrow> bytes option \<Rightarrow> run_state \<Rightarrow>
   (run_state \<times> i32) option" where
  "run2_lim most F srt clk im targets r = do {
     (r1, back1) \<leftarrow> (if \<not> g_bInit r then guide_or_user_opt F srt clk targets (r\<lparr>g_bInit := True\<rparr>)
       else map_option (\<lambda>r1. (r1, False)) (run2_user clk targets r));
     if back1 then Some (r1, 1) else do {
       r2 \<leftarrow> count_lost im r1;
       (r3, back3) \<leftarrow> (if no_obj_count r2 > most then guide_or_user_opt F srt clk targets (r2\<lparr>no_obj_count := 0, isGuide := True\<rparr>)
         else Some (r2, False));
       if back3 then Some (r3, 2) else do {
         r4 \<leftarrow> track_loop F clk im 0 (im_tracks im) r3;
         r5 \<leftarrow> count_image r4;
         Some (r5, 0) } } }"

definition ai_alg_run2 ::
  "('f, 'z) fp_scheme \<Rightarrow> ('f radar_obj list \<Rightarrow> 'f radar_obj list) \<Rightarrow> clock \<Rightarrow> 'f image_in \<Rightarrow> bytes option \<Rightarrow> run_state \<Rightarrow>
   (run_state \<times> i32) option" where
  "ai_alg_run2 = run2_lim 16"

definition ai_alg_run2_id ::
  "('f, 'z) fp_scheme \<Rightarrow> ('f radar_obj list \<Rightarrow> 'f radar_obj list) \<Rightarrow> clock \<Rightarrow> 'f image_in \<Rightarrow> bytes option \<Rightarrow> run_state \<Rightarrow>
   (run_state \<times> i32) option" where
  "ai_alg_run2_id = run2_lim 2"

text \<open>The switch of \<^verbatim>\<open>ai_alg_run3\<close>: a Drone ID falls through to the user's case.\<close>

definition run3_guide ::
  "('f, 'z) fp_scheme \<Rightarrow> ('f radar_obj list \<Rightarrow> 'f radar_obj list) \<Rightarrow> clock \<Rightarrow> bytes \<Rightarrow> run_state \<Rightarrow> (run_state \<times> bool) option" where
  "run3_guide F srt clk t r = do {
     ty \<leftarrow> load32 t 0;
     if ty = track_type_word TRACK_INFO_RADAR then
       map_option (\<lambda>r1. (r1, False)) (on_ai (radarGuide F srt clk t (g_nID (rs_ai r))) r)
     else if ty = track_type_word TRACK_INFO_TRACER_P_REMOTE_ID then map_option (\<lambda>r1. (r1, False)) (on_ai (tracerGuideR F clk t) r)
     else if ty = track_type_word TRACK_INFO_TRACER_P_DRONE_ID \<or> ty = track_type_word TRACK_INFO_FROM_USER then do {
       r1 \<leftarrow> (if ty = track_type_word TRACK_INFO_TRACER_P_DRONE_ID then on_ai (tracerGuideD F clk t) r else Some r);
       r2 \<leftarrow> on_ai (select_user_target t) r1;
       Some (r2, True) }
     else Some (r, False) }"

definition ai_alg_run3 ::
  "('f, 'z) fp_scheme \<Rightarrow> ('f radar_obj list \<Rightarrow> 'f radar_obj list) \<Rightarrow> clock \<Rightarrow> 'f image_in \<Rightarrow> bytes option \<Rightarrow> run_state \<Rightarrow>
   (run_state \<times> i32) option" where
  "ai_alg_run3 F srt clk im targets r = do {
     r1 \<leftarrow> (if \<not> g_bInit r then Some (r\<lparr>g_bInit := True\<rparr>)
       else case targets of
         None \<Rightarrow> Some r
       | Some t \<Rightarrow> do {
           ty \<leftarrow> load32 t 0;
           if ty = track_type_word TRACK_INFO_FROM_USER then on_ai (select_user_target t) r else Some r });
     (r2, back) \<leftarrow> (case targets of
         None \<Rightarrow> Some (r1, False)
       | Some t \<Rightarrow> if g_bFirst r1 then run3_guide F srt clk t (r1\<lparr>g_bFirst := False\<rparr>) else Some (r1, False));
     if back then Some (r2, 1) else do {
       r3 \<leftarrow> track3_loop F clk im 0 (im_tracks im) r2;
       Some (r3, 0) } }"

text \<open>\<^verbatim>\<open>ai_alg_run3_nj\<close> does not look at the image.\<close>

definition ai_alg_run3_nj ::
  "('f, 'z) fp_scheme \<Rightarrow> ('f radar_obj list \<Rightarrow> 'f radar_obj list) \<Rightarrow> clock \<Rightarrow> bytes option \<Rightarrow> run_state \<Rightarrow> (run_state \<times> i32) option" where
  "ai_alg_run3_nj F srt clk targets r = do {
     r1 \<leftarrow> (if g_count r = 0 then on_ai (StopSDT clk) r else Some r);
     (case targets of
        None \<Rightarrow> Some (r1, 0)
      | Some t \<Rightarrow> do {
          r2 \<leftarrow> on_ai (StartSDT clk 100 200 0 10 80) r1;
          n \<leftarrow> int_inc (g_count r2);
          let r3 = r2\<lparr>g_count := n\<rparr>;
          ty \<leftarrow> load32 t 0;
          if ty = track_type_word TRACK_INFO_RADAR then
            map_option (\<lambda>r4. (r4, 0)) (on_ai (radarGuide F srt clk t (g_nID (rs_ai r3))) r3)
          else if ty = track_type_word TRACK_INFO_TRACER_P_REMOTE_ID then map_option (\<lambda>r4. (r4, 0)) (on_ai (tracerGuideR F clk t) r3)
          else if ty = track_type_word TRACK_INFO_TRACER_P_DRONE_ID then map_option (\<lambda>r4. (r4, 0)) (on_ai (tracerGuideD_N F clk t) r3)
          else if ty = track_type_word TRACK_INFO_FROM_USER then map_option (\<lambda>r4. (r4, 1)) (on_ai (stop_for_user clk t) r3)
          else Some (r3, 0) }) }"

subsection \<open>Scanning a region\<close>

text \<open>\<^verbatim>\<open>ScanRegionPoints\<close>; the coordinates are of type \<^verbatim>\<open>float\<close>. Dividing by a step of zero is undefined.\<close>

definition scan_pair :: "('f, 'z) fp_scheme \<Rightarrow> i32 \<Rightarrow> i32 \<Rightarrow> 'f \<times> 'f \<Rightarrow> nat \<Rightarrow> ('f \<times> 'f) list" where
  "scan_pair F region_size step_gap start_point i =
     (let x = f_single F (f_add F (fst start_point) (f_single F (f_int F (int i * step_gap))));
          y1 = snd start_point;
          y2 = f_single F (f_add F (snd start_point) (f_single F (f_int F region_size)))
      in if i mod 2 = 0 then [(x, y1), (x, y2)] else [(x, y2), (x, y1)])"

definition ScanRegionPoints :: "('f, 'z) fp_scheme \<Rightarrow> i32 \<Rightarrow> i32 \<Rightarrow> 'f \<times> 'f \<Rightarrow> ('f \<times> 'f) list option" where
  "ScanRegionPoints F region_size step_gap start_point =
     (if step_gap = 0 then None
      else Some (concat (map (scan_pair F region_size step_gap start_point) [0..<nat (region_size sdiv step_gap + 1)])))"

text \<open>
  \<^verbatim>\<open>scan_region\<close>: the loop with \<open>n\<close> rounds left of ten, from the azimuth \<open>a\<close>; an even round goes up, an odd one down.
  The function ends without the value it announces, so only what it sends is modelled.
\<close>

fun scan_rounds :: "('f, 'z) fp_scheme \<Rightarrow> clock \<Rightarrow> 'f \<Rightarrow> 'f \<Rightarrow> nat \<Rightarrow> 'f \<Rightarrow> ai_state \<Rightarrow> ai_state option" where
  "scan_rounds F clk fV z 0 az a = Some a"
| "scan_rounds F clk fV z (Suc n) az a = do {
     let half = f_single F (f_div F (f_int F 30) (f_int F 2));
     let e = (if (10 - Suc n) mod 2 = 0 then f_single F (f_add F fV half) else f_single F (f_sub F fV half));
     let az' = f_single F (f_add F az (f_int F 3));
     a1 \<leftarrow> setPTZ F clk az e z a;
     a2 \<leftarrow> setPTZ F clk az' e z a1;
     scan_rounds F clk fV z n az' a2 }"

definition scan_region :: "('f, 'z) fp_scheme \<Rightarrow> clock \<Rightarrow> 'f \<Rightarrow> 'f \<Rightarrow> ai_state \<Rightarrow> ai_state option" where
  "scan_region F clk fH fV a = do {
     let z = f_single F (f_lit F 79 1);
     a1 \<leftarrow> setPTZ F clk fH fV z a;
     let az = f_single F (f_sub F fH (f_lit F 15 1));
     let e = f_single F (f_sub F fV (f_int F 0));
     a2 \<leftarrow> setPTZ F clk az e z a1;
     scan_rounds F clk fV z 10 az a2 }"

subsection \<open>Uploading targets\<close>

definition nth_int :: "i32 list \<Rightarrow> nat \<Rightarrow> i32 option" where
  "nth_int xs i = (if i < length xs then Some (xs ! i) else None)"

definition upload_item ::
  "('f, 'z) fp_scheme \<Rightarrow> i32 list \<Rightarrow> i32 list \<Rightarrow> 'f list \<Rightarrow> nat \<Rightarrow> bytes \<Rightarrow> bytes option" where
  "upload_item F classIndexs boxes conf i info = do {
     let base = 5 + i * packed_size alink_targets_item;
     cl \<leftarrow> nth_int classIndexs i;
     x \<leftarrow> nth_int boxes (4 * i);
     y \<leftarrow> nth_int boxes (4 * i + 1);
     w \<leftarrow> nth_int boxes (4 * i + 2);
     h \<leftarrow> nth_int boxes (4 * i + 3);
     c \<leftarrow> (if i < length conf then Some (conf ! i) else None);
     item \<leftarrow> loadn info base (packed_size alink_targets_item);
     item' \<leftarrow> set_fields alink_targets_item
       [(''id'', le_bytes 2 (1 :: u16)), (''classification'', le_bytes 1 (of_int cl :: u8)), (''rectX'', le_bytes 2 (of_int x :: u16)),
        (''rectY'', le_bytes 2 (of_int y :: u16)), (''rectW'', le_bytes 2 (of_int w :: u16)), (''rectH'', le_bytes 2 (of_int h :: u16)),
        (''rectXV'', le_bytes 2 (0x77 :: u16)), (''rectYV'', le_bytes 2 (0x88 :: u16)),
        (''classfyProb'', le_bytes 1 (of_int (f_i32 F (f_single F (f_mul F c (f_int F 100)))) :: u8))] item;
     storen info base item' }"

fun upload_items ::
  "('f, 'z) fp_scheme \<Rightarrow> i32 list \<Rightarrow> i32 list \<Rightarrow> 'f list \<Rightarrow> nat \<Rightarrow> nat \<Rightarrow> bytes \<Rightarrow> bytes option" where
  "upload_items F cl bx cf i 0 info = Some info"
| "upload_items F cl bx cf i (Suc n) info = do { info' \<leftarrow> upload_item F cl bx cf i info; upload_items F cl bx cf (Suc i) n info' }"

text \<open>The struct on the stack, \<open>junk\<close> before it is filled.\<close>

definition target_info_struct ::
  "('f, 'z) fp_scheme \<Rightarrow> i32 \<Rightarrow> i32 list \<Rightarrow> i32 list \<Rightarrow> 'f list \<Rightarrow> u32 \<Rightarrow> bytes \<Rightarrow> bytes option" where
  "target_info_struct F boxNum classIndexs boxes conf timestamp junk = do {
     info \<leftarrow> set_fields alink_taget_info [(''timestamp'', le_bytes 4 timestamp), (''objNum'', le_bytes 1 (of_int boxNum :: u8))] junk;
     upload_items F classIndexs boxes conf 0 (nat boxNum) info }"

definition upload_target_info ::
  "('f, 'z) fp_scheme \<Rightarrow> ('s, 'w) run_send \<Rightarrow> i32 \<Rightarrow> i32 list \<Rightarrow> i32 list \<Rightarrow> 'f list \<Rightarrow> u32 \<Rightarrow> bytes \<Rightarrow>
   (pack_fn, 's) alink_uploads \<Rightarrow> 'w \<Rightarrow> ((pack_fn, 's) alink_uploads \<times> 'w) option" where
  "upload_target_info F send boxNum classIndexs boxes conf timestamp junk u w =
     (if boxNum \<le> 0 then Some (u, w)
      else do {
        info \<leftarrow> target_info_struct F boxNum classIndexs boxes conf timestamp junk;
        map_option (\<lambda>(u', w', _). (u', w')) (alink_upload_target_info send u (Some info) w) })"

text \<open>The arrays of \<^verbatim>\<open>test_upload_target_info\<close>; it writes the boxes at multiples of three.\<close>

definition test_boxes :: "i32 list" where
  "test_boxes = fold (\<lambda>i bx. bx[3 * i := int i * 10, 3 * i + 1 := int i * 10 + 1, 3 * i + 2 := int i * 10 + 2, 3 * i + 3 := int i * 10 + 3])
     [0..<3] (replicate 40 0)"

definition test_upload_target_info ::
  "('f, 'z) fp_scheme \<Rightarrow> ('s, 'w) run_send \<Rightarrow> bytes \<Rightarrow> (pack_fn, 's) alink_uploads \<Rightarrow> 'w \<Rightarrow> ((pack_fn, 's) alink_uploads \<times> 'w) option" where
  "test_upload_target_info F send junk u w =
     upload_target_info F send 3 ([1, 2, 3] @ replicate 7 0) test_boxes
       ([f_single F (f_lit F 4 1), f_single F (f_lit F 8 1), f_single F (f_lit F 9 1)] @ replicate 7 (f_int F 0)) 0 junk u w"

subsection \<open>What a loop changes\<close>

lemma on_ai_eq_Some: "on_ai f r = Some r' \<longleftrightarrow> (\<exists>a. f (rs_ai r) = Some a \<and> r' = r\<lparr>rs_ai := a\<rparr>)"
  by (auto simp: on_ai_def)

text \<open>The parts of the state only the loops themselves change.\<close>

definition loop_state :: "run_state \<Rightarrow> i32 \<times> i32 \<times> bool \<times> bool \<times> i32" where
  "loop_state r = (img_count r, no_obj_count r, g_bInit r, g_bFirst r, g_count r)"

lemma on_ai_state: "on_ai f r = Some r' \<Longrightarrow> loop_state r' = loop_state r \<and> isGuide r' = isGuide r"
  by (auto simp: on_ai_eq_Some loop_state_def)

lemma guide_opt_state: "guide_opt F srt clk t r = Some r' \<Longrightarrow> loop_state r' = loop_state r"
  by (auto simp: guide_opt_def split: option.splits dest: on_ai_state)

lemma guide_or_user_state: "guide_or_user_opt F srt clk t r = Some (r', b) \<Longrightarrow> loop_state r' = loop_state r"
  by (auto simp: guide_or_user_opt_def guide_or_user_def split: option.splits bind_splits if_splits dest: on_ai_state)

lemma run2_user_state: "run2_user clk t r = Some r' \<Longrightarrow> loop_state r' = loop_state r"
  by (auto simp: run2_user_def split: option.splits bind_splits if_splits dest: on_ai_state)

lemma track_step_state: "track_step F clk im i t r = Some r' \<Longrightarrow> loop_state r' = loop_state r"
  by (auto simp: track_step_def Let_def loop_state_def on_ai_eq_Some split: if_splits bind_splits)

lemma track_loop_state: "track_loop F clk im i ts r = Some r' \<Longrightarrow> loop_state r' = loop_state r"
  by (induction ts arbitrary: i r) (auto split: bind_splits dest!: track_step_state)

subsection \<open>The images without a track\<close>

fun run2_images ::
  "i32 \<Rightarrow> ('f, 'z) fp_scheme \<Rightarrow> ('f radar_obj list \<Rightarrow> 'f radar_obj list) \<Rightarrow> clock \<Rightarrow> ('f image_in \<times> bytes option) list \<Rightarrow> run_state \<Rightarrow>
   run_state option" where
  "run2_images most F srt clk [] r = Some r"
| "run2_images most F srt clk ((im, t) # ims) r = do { (r1, _) \<leftarrow> run2_lim most F srt clk im t r; run2_images most F srt clk ims r1 }"

definition lost_within :: "i32 \<Rightarrow> run_state \<Rightarrow> bool" where
  "lost_within most r \<longleftrightarrow> 0 \<le> no_obj_count r \<and> no_obj_count r \<le> most"

lemma lost_state: "loop_state r' = loop_state r \<Longrightarrow> lost_within most r' = lost_within most r"
  by (simp add: lost_within_def loop_state_def)

lemma count_lost_within: "count_lost im r = Some r' \<Longrightarrow> lost_within most r \<Longrightarrow> 0 \<le> no_obj_count r' \<and> no_obj_count r' \<le> most + 1"
  by (auto simp: count_lost_def int_inc_Some lost_within_def split: if_splits)

lemma count_image_state: "count_image r = Some r' \<Longrightarrow> no_obj_count r' = no_obj_count r"
  by (auto simp: count_image_def)

lemma run2_lim_lost:
  assumes "run2_lim most F srt clk im t r = Some (r', ret)" "lost_within most r"
  shows "lost_within most r'"
proof -
  from assms(1) obtain r1 b1 where 1: "(if \<not> g_bInit r then guide_or_user_opt F srt clk t (r\<lparr>g_bInit := True\<rparr>)
       else map_option (\<lambda>r1. (r1, False)) (run2_user clk t r)) = Some (r1, b1)"
    "(if b1 then Some (r1, 1) else do {
       r2 \<leftarrow> count_lost im r1;
       (r3, back3) \<leftarrow> (if no_obj_count r2 > most then guide_or_user_opt F srt clk t (r2\<lparr>no_obj_count := 0, isGuide := True\<rparr>)
         else Some (r2, False));
       if back3 then Some (r3, 2) else do {
         r4 \<leftarrow> track_loop F clk im 0 (im_tracks im) r3;
         r5 \<leftarrow> count_image r4;
         Some (r5, 0) } }) = Some (r', ret)"
    unfolding run2_lim_def by (auto split: bind_split_asm)
  have "no_obj_count r1 = no_obj_count r"
    using 1(1) by (auto simp: loop_state_def split: if_splits dest!: guide_or_user_state run2_user_state)
  then have w1: "lost_within most r1" using assms(2) by (simp add: lost_within_def)
  show ?thesis
  proof (cases b1)
    case False
    with 1(2) obtain r2 where 2: "count_lost im r1 = Some r2" by (cases "count_lost im r1") auto
    with False 1(2) obtain r3 b3 where 3: "(if no_obj_count r2 > most
        then guide_or_user_opt F srt clk t (r2\<lparr>no_obj_count := 0, isGuide := True\<rparr>) else Some (r2, False)) = Some (r3, b3)"
      "(if b3 then Some (r3, 2) else do {
         r4 \<leftarrow> track_loop F clk im 0 (im_tracks im) r3;
         r5 \<leftarrow> count_image r4;
         Some (r5, 0) }) = Some (r', ret)"
      by (auto split: bind_split_asm)
    have "0 \<le> most" using assms(2) by (simp add: lost_within_def)
    with 3(1) count_lost_within [OF 2 w1] have "lost_within most r3"
      by (auto simp: lost_within_def loop_state_def split: if_splits dest!: guide_or_user_state)
    with 3(2) show ?thesis
      by (auto simp: lost_within_def loop_state_def split: if_splits bind_splits dest!: track_loop_state count_image_state)
  qed (use 1(2) w1 in simp)
qed

lemma run2_images_lost:
  "run2_images most F srt clk ims r = Some r' \<Longrightarrow> lost_within most r \<Longrightarrow> lost_within most r'"
  by (induction ims arbitrary: r) (auto split: bind_splits dest!: run2_lim_lost)

lemma run2_blind:
  assumes "im_tracks im = []" "lost_within most r" "most < 2147483647" "img_count r < 2147483647"
  shows "run2_lim most F srt clk im None r = Some (r\<lparr>g_bInit := True, no_obj_count := (no_obj_count r + 1) mod (most + 1),
    isGuide := (isGuide r \<or> no_obj_count r = most), img_count := img_count r + 1\<rparr>, 0)"
proof (cases "no_obj_count r = most")
  case True
  then show ?thesis using assms
    by (simp add: run2_lim_def guide_or_user_opt_def run2_user_def count_lost_def count_image_def int_inc_def)
next
  case False
  then have "(no_obj_count r + 1) mod (most + 1) = no_obj_count r + 1" using assms(2) by (simp add: lost_within_def)
  with False assms show ?thesis
    by (simp add: run2_lim_def guide_or_user_opt_def run2_user_def count_lost_def count_image_def int_inc_def lost_within_def)
qed

lemma run2_blind_images:
  assumes "list_all (\<lambda>(im, t). im_tracks im = [] \<and> t = None) ims" "lost_within most r" "no_obj_count r = k mod (most + 1)" "0 \<le> k"
    "most < 2147483647" "img_count r + int (length ims) \<le> 2147483647"
  shows "run2_images most F srt clk ims r = Some (r\<lparr>g_bInit := (g_bInit r \<or> ims \<noteq> []), no_obj_count := (k + int (length ims)) mod (most + 1),
    isGuide := (isGuide r \<or> (k + int (length ims)) div (most + 1) > k div (most + 1)), img_count := img_count r + int (length ims)\<rparr>)"
  using assms
proof (induction ims arbitrary: r k)
  case (Cons p ims)
  obtain im t where p: "p = (im, t)" by (cases p)
  let ?M = "most + 1"
  let ?r = "r\<lparr>g_bInit := True, no_obj_count := (no_obj_count r + 1) mod ?M,
    isGuide := (isGuide r \<or> no_obj_count r = most), img_count := img_count r + 1\<rparr>"
  have M: "0 < ?M" using Cons.prems(2) by (simp add: lost_within_def)
  have one: "run2_lim most F srt clk im t r = Some (?r, 0)" using run2_blind [of im most r F srt clk] Cons.prems(1,2,5,6) p by auto
  have c: "no_obj_count ?r = (k + 1) mod ?M" using Cons.prems(3) by (simp add: mod_add_left_eq)
  then have w: "lost_within most ?r" using M by (simp add: lost_within_def) (metis M pos_mod_bound zle_add1_eq_le)
  have wrap: "no_obj_count r = most \<longleftrightarrow> (k + 1) div ?M > k div ?M"
  proof -
    have k: "k = ?M * (k div ?M) + no_obj_count r" using Cons.prems(3) by simp
    show ?thesis
    proof (cases "no_obj_count r = most")
      case True
      then have "k + 1 = ?M * (k div ?M + 1)" using k by (simp add: algebra_simps)
      then have "(k + 1) div ?M = k div ?M + 1" using M by (metis nonzero_mult_div_cancel_left less_irrefl)
      with True show ?thesis by simp
    next
      case False
      then have "0 \<le> no_obj_count r + 1" "no_obj_count r + 1 < ?M" using Cons.prems(2) by (auto simp: lost_within_def)
      then have "(no_obj_count r + 1 + ?M * (k div ?M)) div ?M = k div ?M" by simp
      moreover have "no_obj_count r + 1 + ?M * (k div ?M) = k + 1" using k by linarith
      ultimately show ?thesis using False by simp
    qed
  qed
  have mono: "k div ?M \<le> (k + 1) div ?M" "(k + 1) div ?M \<le> (k + 1 + int (length ims)) div ?M"
    using M by (simp_all add: zdiv_mono1)
  have tl: "list_all (\<lambda>(im, t). im_tracks im = [] \<and> t = None) ims" using Cons.prems(1) by simp
  have "run2_images most F srt clk ims ?r = Some (?r\<lparr>g_bInit := True, no_obj_count := (k + 1 + int (length ims)) mod ?M,
     isGuide := (isGuide ?r \<or> (k + 1 + int (length ims)) div ?M > (k + 1) div ?M), img_count := img_count ?r + int (length ims)\<rparr>)"
    using Cons.IH [OF tl w c _ Cons.prems(5)] Cons.prems(4,6) by simp
  moreover have "(isGuide ?r \<or> (k + 1 + int (length ims)) div ?M > (k + 1) div ?M) =
      (isGuide r \<or> (k + int (length (p # ims))) div ?M > k div ?M)"
    using wrap mono by (auto simp: add.assoc)
  ultimately show ?case using one p by (simp add: add.assoc)
qed (simp add: lost_within_def)

subsection \<open>Which tracks are followed\<close>

text \<open>
  The j-th track shows a drone in a regular picture, one of sixteen. A track is followed when it is big enough and either that is
  so, or a lost target is to be taken up and no earlier big track did so.
\<close>

definition drone_in_frame :: "'f image_in \<Rightarrow> run_state \<Rightarrow> nat \<Rightarrow> bool" where
  "drone_in_frame im r j \<longleftrightarrow> img_count r mod 16 = 0 \<and> ob_label (im_objs im ! j) = 0"

definition takes_up :: "('f, 'z) fp_scheme \<Rightarrow> 'f image_in \<Rightarrow> run_state \<Rightarrow> 'f tlwh list \<Rightarrow> nat \<Rightarrow> bool" where
  "takes_up F im r ts j \<longleftrightarrow> big_box F (ts ! j) \<and> \<not> drone_in_frame im r j"

definition track_followed :: "('f, 'z) fp_scheme \<Rightarrow> 'f image_in \<Rightarrow> run_state \<Rightarrow> 'f tlwh list \<Rightarrow> nat \<Rightarrow> bool" where
  "track_followed F im r ts j \<longleftrightarrow> big_box F (ts ! j) \<and>
     (drone_in_frame im r j \<or> isGuide r \<and> (\<forall>k<j. \<not> takes_up F im r ts k))"

definition followed_tracks :: "('f, 'z) fp_scheme \<Rightarrow> 'f image_in \<Rightarrow> run_state \<Rightarrow> 'f tlwh list \<Rightarrow> 'f tlwh list" where
  "followed_tracks F im r ts = map ((!) ts) (filter (track_followed F im r ts) [0..<length ts])"

lemma followed_tracks_snoc:
  "followed_tracks F im r (ts @ [t]) = followed_tracks F im r ts @ (if track_followed F im r (ts @ [t]) (length ts) then [t] else [])"
proof -
  have "track_followed F im r (ts @ [t]) j = track_followed F im r ts j" if "j < length ts" for j
    using that by (auto simp: track_followed_def takes_up_def nth_append)
  then have "filter (track_followed F im r (ts @ [t])) [0..<length ts] = filter (track_followed F im r ts) [0..<length ts]"
    by (intro filter_cong) simp_all
  then show ?thesis by (simp add: followed_tracks_def nth_append)
qed

lemma track_loop_snoc:
  "track_loop F clk im i (ts @ [t]) r = Option.bind (track_loop F clk im i ts r) (track_step F clk im (i + length ts) t)"
proof (induction ts arbitrary: i r)
  case (Cons u us)
  then show ?case by (cases "track_step F clk im i u r") simp_all
next
  case Nil
  then show ?case by (cases "track_step F clk im i t r") simp_all
qed

text \<open>The objects of the detector are looked up under the number of the track: a big box without an object is an access outside.\<close>

lemma track_loop_overread:
  assumes "j < length ts" "big_box F (ts ! j)" "length (im_objs im) \<le> i + j"
  shows "track_loop F clk im i ts r = None"
  using assms
proof (induction ts arbitrary: i j r)
  case (Cons t ts)
  show ?case
  proof (cases j)
    case 0
    with Cons.prems show ?thesis by (simp add: track_step_def nth_obj_def)
  next
    case (Suc k)
    with Cons.prems Cons.IH [of k "Suc i"] show ?thesis by (cases "track_step F clk im i t r") auto
  qed
qed simp

text \<open>In \<^verbatim>\<open>ai_alg_run3\<close> only the first track since the program started can be followed.\<close>

lemma track3_loop_later:
  assumes "0 < img_count r" "i + length ts \<le> length (im_objs im)" "img_count r + int (length ts) \<le> 2147483647"
  shows "track3_loop F clk im i ts r = Some (r\<lparr>img_count := img_count r + int (length ts)\<rparr>)"
  using assms by (induction ts arbitrary: i r) (auto simp: nth_obj_def int_inc_def Let_def)

text \<open>Following a box takes two datagrams: the order to stop, and the middle of the box in the picture of the head.\<close>

definition head_coord :: "('f, 'z) fp_scheme \<Rightarrow> int \<Rightarrow> int \<Rightarrow> i32 \<Rightarrow> i32 \<Rightarrow> u32" where
  "head_coord F out inp p q = f_u32 F (f_single F (f_mul F (f_single F (f_int F ((p + q) sdiv 2))) (f_single F (f_div F (f_int F out) (f_int F inp)))))"

abbreviation lock_sent :: "bytes \<Rightarrow> ai_state \<Rightarrow> ai_state \<Rightarrow> bool" where
  "lock_sent \<equiv> sends_one PTZ_COMMAND_LOCK_TARGET_MANUAL ptz_msg_manual_lock_target {''photoelectricity_no'', ''sys_timesmap''}"

lemma sends_one_counts:
  "sends_one cmd l stamped m a a' \<Longrightarrow> ai_n a' = ai_n a + 1"
  "sends_one cmd l stamped m a a' \<Longrightarrow> g_nID a' = g_nID a"
  by (auto simp: sends_one_def)

lemma PTZTracking_sends:
  assumes "ai_connected a"
  shows "\<exists>m a'. PTZTracking F clk l r u d a = Some a' \<and> lock_sent m a a' \<and>
    get_field ptz_msg_manual_lock_target ''target_cor_x'' m = Some (le_bytes 4 (head_coord F 704 640 l r)) \<and>
    get_field ptz_msg_manual_lock_target ''targegt_cor_y'' m = Some (le_bytes 4 (head_coord F 576 480 u d))"
proof -
  have s: "ptz_sender (send_ptz_control_manual_lock_target :: (ptz_fn, ptz_realtime) ptz_op) PTZ_COMMAND_LOCK_TARGET_MANUAL
      ptz_msg_manual_lock_target {''photoelectricity_no'', ''sys_timesmap''}" by unfold_locales
  let ?fs = "[(''track_vedio_source'', le_bytes 4 (0 :: u32)), (''targegt_cor_y'', le_bytes 4 (head_coord F 576 480 u d)),
    (''target_cor_x'', le_bytes 4 (head_coord F 704 640 l r))]"
  have fs: "\<forall>(f, v) \<in> set ?fs. map_of ptz_msg_manual_lock_target f = Some (length v)" "distinct (map fst ?fs)"
    by (simp_all add: ptz_msg_manual_lock_target_def)
  from build_send [OF s assms fs, of clk] show ?thesis
    unfolding PTZTracking_def Let_def head_coord_def by auto
qed

lemma retrack_sends:
  assumes "ai_connected a" "box_corners F im t = (x1, x2, y1, y2)"
  shows "\<exists>m1 a1 m2 a2. retrack_box F clk im t a = Some a2 \<and> track_sent m1 a a1 \<and> lock_sent m2 a1 a2 \<and>
    get_field ptz_msg_track ''ctrl_cmd'' m1 = Some (le_bytes 4 (3 :: u32)) \<and>
    get_field ptz_msg_manual_lock_target ''target_cor_x'' m2 = Some (le_bytes 4 (head_coord F 704 640 x1 x2)) \<and>
    get_field ptz_msg_manual_lock_target ''targegt_cor_y'' m2 = Some (le_bytes 4 (head_coord F 576 480 y1 y2))"
proof -
  from StoppingTracking_sends [OF assms(1), of clk] obtain m1 a1 where
    s: "StoppingTracking clk a = Some a1" "track_sent m1 a a1" "get_field ptz_msg_track ''ctrl_cmd'' m1 = Some (le_bytes 4 (3 :: u32))"
    by auto
  then have "ai_connected a1" using assms(1) sends_one_connected by fastforce
  from PTZTracking_sends [OF this, of F clk x1 x2 y1 y2] s show ?thesis
    by (auto simp: retrack_box_def track_box_def assms(2))
qed

text \<open>A box that is followed: the head gets the order to stop and the middle of the box, and nothing else.\<close>

definition box_sent :: "('f, 'z) fp_scheme \<Rightarrow> 'f image_in \<Rightarrow> 'f tlwh \<Rightarrow> ai_state \<Rightarrow> ai_state \<Rightarrow> bool" where
  "box_sent F im t a a' \<longleftrightarrow> (case box_corners F im t of (x1, x2, y1, y2) \<Rightarrow> \<exists>m1 a1 m2. track_sent m1 a a1 \<and> lock_sent m2 a1 a' \<and>
     get_field ptz_msg_track ''ctrl_cmd'' m1 = Some (le_bytes 4 (3 :: u32)) \<and>
     get_field ptz_msg_manual_lock_target ''target_cor_x'' m2 = Some (le_bytes 4 (head_coord F 704 640 x1 x2)) \<and>
     get_field ptz_msg_manual_lock_target ''targegt_cor_y'' m2 = Some (le_bytes 4 (head_coord F 576 480 y1 y2)))"

fun boxes_sent :: "('f, 'z) fp_scheme \<Rightarrow> 'f image_in \<Rightarrow> 'f tlwh list \<Rightarrow> ai_state \<Rightarrow> ai_state \<Rightarrow> bool" where
  "boxes_sent F im [] a a' \<longleftrightarrow> a' = a"
| "boxes_sent F im (t # ts) a a' \<longleftrightarrow> (\<exists>b. box_sent F im t a b \<and> boxes_sent F im ts b a')"

lemma box_sent_link: "box_sent F im t a a' \<Longrightarrow> ai_connected a' = ai_connected a \<and> ai_n a' = ai_n a + 2"
  by (auto simp: box_sent_def sends_one_counts(1) split: prod.splits dest: sends_one_connected)

lemma boxes_sent_append: "boxes_sent F im (ts @ us) a a' \<longleftrightarrow> (\<exists>b. boxes_sent F im ts a b \<and> boxes_sent F im us b a')"
  by (induction ts arbitrary: a) auto

lemma boxes_sent_connected: "boxes_sent F im ts a a' \<Longrightarrow> ai_connected a \<Longrightarrow> ai_connected a'"
  by (induction ts arbitrary: a) (auto dest!: box_sent_link)

lemma boxes_sent_count: "boxes_sent F im ts a a' \<Longrightarrow> ai_n a' = ai_n a + 2 * length ts"
  by (induction ts arbitrary: a) (auto dest!: box_sent_link)

lemma retrack_boxes:
  assumes "ai_connected a"
  shows "\<exists>a'. retrack_box F clk im t a = Some a' \<and> boxes_sent F im [t] a a'"
proof -
  obtain x1 x2 y1 y2 where b: "box_corners F im t = (x1, x2, y1, y2)" by (metis prod_cases4)
  from retrack_sends [OF assms b, of clk] show ?thesis by (auto simp: box_sent_def b)
qed

text \<open>One turn of the loop on a track that has an object: it is followed or left alone, and the flag goes down with the first one taken up.\<close>

lemma track_step_follows:
  assumes "ai_connected (rs_ai r)" "big_box F t \<Longrightarrow> j < length (im_objs im)"
  shows "\<exists>a. track_step F clk im j t r = Some (r\<lparr>rs_ai := a, isGuide := (isGuide r \<and> (big_box F t \<longrightarrow> drone_in_frame im r j))\<rparr>) \<and>
    boxes_sent F im (if big_box F t \<and> (drone_in_frame im r j \<or> isGuide r) then [t] else []) (rs_ai r) a"
proof -
  from retrack_boxes [OF assms(1), of F clk im t] obtain a where
    a: "retrack_box F clk im t (rs_ai r) = Some a" "boxes_sent F im [t] (rs_ai r) a" by blast
  have on: "on_ai (retrack_box F clk im t) r = Some (r\<lparr>rs_ai := a\<rparr>)" by (simp add: on_ai_def a(1))
  show ?thesis
  proof (cases "big_box F t \<and> (drone_in_frame im r j \<or> isGuide r)")
    case True
    with assms(2) on have "track_step F clk im j t r =
        Some (r\<lparr>rs_ai := a, isGuide := (isGuide r \<and> (big_box F t \<longrightarrow> drone_in_frame im r j))\<rparr>)"
      by (auto simp: track_step_def nth_obj_def Let_def drone_in_frame_def)
    with True a(2) show ?thesis by (intro exI [of _ a]) simp
  next
    case False
    with assms(2) have "track_step F clk im j t r = Some r" by (auto simp: track_step_def nth_obj_def Let_def drone_in_frame_def)
    with False show ?thesis by (intro exI [of _ "rs_ai r"]) auto
  qed
qed

lemma track_loop_follows:
  assumes "ai_connected (rs_ai r)" "\<forall>j<length ts. big_box F (ts ! j) \<longrightarrow> j < length (im_objs im)"
  shows "\<exists>a. track_loop F clk im 0 ts r = Some (r\<lparr>rs_ai := a, isGuide := (isGuide r \<and> (\<forall>j<length ts. \<not> takes_up F im r ts j))\<rparr>) \<and>
    boxes_sent F im (followed_tracks F im r ts) (rs_ai r) a"
  using assms(2)
proof (induction ts rule: rev_induct)
  case Nil
  then show ?case by (intro exI [of _ "rs_ai r"]) (simp add: followed_tracks_def)
next
  case (snoc t ts)
  let ?n = "length ts" and ?no = "\<forall>j<length ts. \<not> takes_up F im r ts j"
  have "\<forall>j<?n. big_box F (ts ! j) \<longrightarrow> j < length (im_objs im)" using snoc.prems by (auto simp: nth_append)
  from snoc.IH [OF this] obtain a where a: "track_loop F clk im 0 ts r = Some (r\<lparr>rs_ai := a, isGuide := (isGuide r \<and> ?no)\<rparr>)"
    "boxes_sent F im (followed_tracks F im r ts) (rs_ai r) a" by blast
  let ?r = "r\<lparr>rs_ai := a, isGuide := (isGuide r \<and> ?no)\<rparr>"
  have c: "ai_connected (rs_ai ?r)" using boxes_sent_connected [OF a(2) assms(1)] by simp
  have big: "big_box F t \<Longrightarrow> ?n < length (im_objs im)" using snoc.prems [rule_format, of ?n] by simp
  have same: "drone_in_frame im ?r ?n = drone_in_frame im r ?n" by (simp add: drone_in_frame_def)
  from track_step_follows [OF c, of F t ?n im clk, OF big] obtain a' where
    s: "track_step F clk im ?n t ?r = Some (?r\<lparr>rs_ai := a', isGuide := (isGuide ?r \<and> (big_box F t \<longrightarrow> drone_in_frame im r ?n))\<rparr>)"
      "boxes_sent F im (if big_box F t \<and> (drone_in_frame im r ?n \<or> isGuide ?r) then [t] else []) a a'"
    unfolding same by auto
  have no: "(\<forall>j<length (ts @ [t]). \<not> takes_up F im r (ts @ [t]) j) \<longleftrightarrow> ?no \<and> (big_box F t \<longrightarrow> drone_in_frame im r ?n)"
    by (auto simp: takes_up_def nth_append less_Suc_eq)
  have fol: "track_followed F im r (ts @ [t]) ?n \<longleftrightarrow> big_box F t \<and> (drone_in_frame im r ?n \<or> isGuide ?r)"
    by (auto simp: track_followed_def takes_up_def nth_append)
  have "boxes_sent F im (followed_tracks F im r (ts @ [t])) (rs_ai r) a'"
    unfolding followed_tracks_snoc boxes_sent_append fol using a(2) s(2) by blast
  moreover have "track_loop F clk im 0 (ts @ [t]) r =
      Some (r\<lparr>rs_ai := a', isGuide := (isGuide r \<and> (\<forall>j<length (ts @ [t]). \<not> takes_up F im r (ts @ [t]) j))\<rparr>)"
    unfolding track_loop_snoc a(1) no using s(1) by (simp add: conj_assoc)
  ultimately show ?case by blast
qed

subsection \<open>Scanning\<close>

lemma length_concat_pairs: "(\<And>i. length (f i) = 2) \<Longrightarrow> length (concat (map f [0..<n])) = 2 * n"
  by (induction n) auto

lemma nth_concat_pairs:
  assumes "\<And>i. length (f i) = 2" "i < n" "k < 2"
  shows "concat (map f [0..<n]) ! (2 * i + k) = f i ! k"
  using assms(2)
proof (induction n)
  case (Suc n)
  note l = length_concat_pairs [of f n, OF assms(1)]
  show ?case
  proof (cases "i < n")
    case True
    then have "2 * i + k < 2 * n" using assms(3) by linarith
    then show ?thesis using Suc.IH True l by (simp add: nth_append)
  next
    case False
    then have "i = n" using Suc.prems by simp
    then show ?thesis using l by (simp add: nth_append)
  qed
qed simp

text \<open>The points make a zigzag: in turn two neighbours share the first coordinate and the second.\<close>

lemma scan_points_zigzag:
  assumes "ScanRegionPoints F region_size step_gap sp = Some ps"
  shows "length ps = 2 * nat (region_size sdiv step_gap + 1) \<and>
    (\<forall>k. Suc k < length ps \<longrightarrow> (if even k then fst (ps ! k) = fst (ps ! Suc k) else snd (ps ! k) = snd (ps ! Suc k)))"
proof -
  let ?f = "scan_pair F region_size step_gap sp" and ?n = "nat (region_size sdiv step_gap + 1)"
  have two: "length (?f i) = 2" for i by (simp add: scan_pair_def Let_def)
  have ps: "ps = concat (map ?f [0..<?n])" using assms by (simp add: ScanRegionPoints_def split: if_splits)
  note len = length_concat_pairs [of ?f ?n, OF two, folded ps]
  note nth = nth_concat_pairs [of ?f, OF two, of _ ?n, folded ps]
  have "if even k then fst (ps ! k) = fst (ps ! Suc k) else snd (ps ! k) = snd (ps ! Suc k)" if k: "Suc k < length ps" for k
  proof (cases "even k")
    case True
    then obtain i where i: "k = 2 * i" by blast
    then have "i < ?n" using k len by simp
    from nth [OF this, of 0] nth [OF this, of 1] i have "ps ! k = ?f i ! 0" "ps ! Suc k = ?f i ! 1" by simp_all
    then show ?thesis using True by (simp add: scan_pair_def Let_def)
  next
    case False
    then obtain i where i: "k = 2 * i + 1" by (metis oddE)
    then have "i < ?n" "Suc i < ?n" using k len by simp_all
    from nth [OF this(1), of 1] nth [OF this(2), of 0] i have "ps ! k = ?f i ! 1" "ps ! Suc k = ?f (Suc i) ! 0" by simp_all
    then show ?thesis using False by (auto simp: scan_pair_def Let_def mod_Suc)
  qed
  with len show ?thesis by blast
qed

subsection \<open>The struct of an upload\<close>

abbreviation upload_base :: "nat \<Rightarrow> nat" where
  "upload_base i \<equiv> 5 + i * packed_size alink_targets_item"

text \<open>The fields of the i-th target.\<close>

definition item_is :: "('f, 'z) fp_scheme \<Rightarrow> i32 list \<Rightarrow> i32 list \<Rightarrow> 'f list \<Rightarrow> nat \<Rightarrow> bytes \<Rightarrow> bool" where
  "item_is F cl bx cf i info \<longleftrightarrow> (\<exists>item. loadn info (upload_base i) 24 = Some item \<and>
     get_field alink_targets_item ''classification'' item = Some (le_bytes 1 (of_int (cl ! i) :: u8)) \<and>
     get_field alink_targets_item ''rectX'' item = Some (le_bytes 2 (of_int (bx ! (4 * i)) :: u16)) \<and>
     get_field alink_targets_item ''rectY'' item = Some (le_bytes 2 (of_int (bx ! (4 * i + 1)) :: u16)) \<and>
     get_field alink_targets_item ''rectW'' item = Some (le_bytes 2 (of_int (bx ! (4 * i + 2)) :: u16)) \<and>
     get_field alink_targets_item ''rectH'' item = Some (le_bytes 2 (of_int (bx ! (4 * i + 3)) :: u16)) \<and>
     get_field alink_targets_item ''classfyProb'' item =
       Some (le_bytes 1 (of_int (f_i32 F (f_single F (f_mul F (cf ! i) (f_int F 100)))) :: u8)))"

lemma upload_item_writes:
  assumes "i < length cl" "4 * i + 3 < length bx" "i < length cf" "i < ALINK_TARGET_MAX" "length info = packed_size alink_taget_info"
  shows "\<exists>info'. upload_item F cl bx cf i info = Some info' \<and> length info' = length info \<and> item_is F cl bx cf i info' \<and>
    (\<forall>j n. j + n \<le> upload_base i \<longrightarrow> loadn info' j n = loadn info j n)"
proof -
  let ?fs = "[(''id'', le_bytes 2 (1 :: u16)), (''classification'', le_bytes 1 (of_int (cl ! i) :: u8)),
    (''rectX'', le_bytes 2 (of_int (bx ! (4 * i)) :: u16)), (''rectY'', le_bytes 2 (of_int (bx ! (4 * i + 1)) :: u16)),
    (''rectW'', le_bytes 2 (of_int (bx ! (4 * i + 2)) :: u16)), (''rectH'', le_bytes 2 (of_int (bx ! (4 * i + 3)) :: u16)),
    (''rectXV'', le_bytes 2 (0x77 :: u16)), (''rectYV'', le_bytes 2 (0x88 :: u16)),
    (''classfyProb'', le_bytes 1 (of_int (f_i32 F (f_single F (f_mul F (cf ! i) (f_int F 100)))) :: u8))]"
  have room: "upload_base i + 24 \<le> length info" using assms(4,5) by (simp add: ALINK_TARGET_MAX_def)
  then obtain item where item: "loadn info (upload_base i) 24 = Some item" "length item = 24"
    by (simp add: loadn_def)
  have fs: "\<forall>(f, v) \<in> set ?fs. map_of alink_targets_item f = Some (length v)" "distinct (map fst ?fs)"
    by (simp_all add: alink_targets_item_def)
  from set_fields_total [of alink_targets_item item ?fs] fs(1) item(2) obtain item' where
    item': "set_fields alink_targets_item ?fs item = Some item'" "length item' = 24" by auto
  obtain info' where info': "storen info (upload_base i) item' = Some info'" using room item'(2) by (simp add: storen_def)
  note get = set_fields_get [OF item'(1) fs(2)]
  have "upload_item F cl bx cf i info = Some info'"
    using assms(1,2,3) item(1) item'(1) info' by (simp add: upload_item_def nth_int_def Let_def del: set_fields.simps le_bytes.simps)
  moreover have "length info' = length info" using storen_length [OF info'] .
  moreover have "item_is F cl bx cf i info'"
    unfolding item_is_def using storen_loadn [OF info'] item'(2)
    by (intro exI [of _ item'] conjI) (simp_all add: get)
  moreover have "loadn info' j n = loadn info j n" if "j + n \<le> upload_base i" for j n
    by (rule storen_loadn_other [OF info']) (use that in simp)
  ultimately show ?thesis by blast
qed

lemma upload_items_write:
  assumes "i + n \<le> length cl" "4 * (i + n) \<le> length bx" "i + n \<le> length cf" "i + n \<le> ALINK_TARGET_MAX"
    "length info = packed_size alink_taget_info"
  shows "\<exists>info'. upload_items F cl bx cf i n info = Some info' \<and> length info' = length info \<and>
    (\<forall>j. i \<le> j \<longrightarrow> j < i + n \<longrightarrow> item_is F cl bx cf j info') \<and> (\<forall>j m. j + m \<le> upload_base i \<longrightarrow> loadn info' j m = loadn info j m)"
  using assms
proof (induction n arbitrary: i info)
  case (Suc n)
  from upload_item_writes [of i cl bx cf info F] Suc.prems obtain info1 where
    1: "upload_item F cl bx cf i info = Some info1" "length info1 = length info" "item_is F cl bx cf i info1"
      "\<forall>j m. j + m \<le> upload_base i \<longrightarrow> loadn info1 j m = loadn info j m" by auto
  from Suc.IH [of "Suc i" info1] Suc.prems 1(2) obtain info2 where
    2: "upload_items F cl bx cf (Suc i) n info1 = Some info2" "length info2 = length info1"
      "\<forall>j. Suc i \<le> j \<longrightarrow> j < Suc i + n \<longrightarrow> item_is F cl bx cf j info2"
      "\<forall>j m. j + m \<le> upload_base (Suc i) \<longrightarrow> loadn info2 j m = loadn info1 j m" by auto
  have "item_is F cl bx cf i info2" using 1(3) 2(4) by (simp add: item_is_def)
  then have "item_is F cl bx cf j info2" if "i \<le> j" "j < i + Suc n" for j
    using 2(3) that by (cases "j = i") auto
  with 1 2 show ?case by (intro exI [of _ info2]) auto
qed simp

lemma upload_items_overflow:
  assumes "ALINK_TARGET_MAX < i + n" "i \<le> ALINK_TARGET_MAX" "length info = packed_size alink_taget_info"
  shows "upload_items F cl bx cf i n info = None"
  using assms
proof (induction n arbitrary: i info)
  case (Suc n)
  show ?case
  proof (cases "i = ALINK_TARGET_MAX")
    case True
    then have "upload_item F cl bx cf i info = None"
      using Suc.prems(3) by (auto simp: upload_item_def Let_def loadn_def ALINK_TARGET_MAX_def bind_eq_None_conv split: bind_splits)
    then show ?thesis by simp
  next
    case False
    have "length info' = length info" if "upload_item F cl bx cf i info = Some info'" for info'
      using that by (auto simp: upload_item_def Let_def split: bind_splits dest: storen_length)
    then show ?thesis using Suc.IH [of "Suc i"] Suc.prems False
      by (cases "upload_item F cl bx cf i info") auto
  qed
qed simp

subsection \<open>Properties\<close>

definition ex_run :: run_state where
  "ex_run = \<lparr>rs_ai = ex_ai, img_count = 1, no_obj_count = 0, g_bInit = True, isGuide = True, g_bFirst = True, g_count = 0\<rparr>"

text \<open>Two tracks, of which only the second is big enough, in a picture of 1280 by 960.\<close>

definition ex_object :: "64 word ai_object" where
  "ex_object = \<lparr>ob_rect = (0, 0, 0, 0), ob_label = 0, ob_prob = 0\<rparr>"

definition ex_image :: "64 word tlwh list \<Rightarrow> 64 word image_in" where
  "ex_image ts = \<lparr>im_cols = 1280, im_rows = 960, im_objs = [ex_object, ex_object], im_tracks = ts\<rparr>"

definition ex_tlwh :: "int \<Rightarrow> int \<Rightarrow> 64 word tlwh" where
  "ex_tlwh p w = (f_int fixed_fp p, f_int fixed_fp p, f_int fixed_fp w, f_int fixed_fp w)"

lemma ex_tlwh_big: "\<not> big_box fixed_fp (ex_tlwh 10 1)" "big_box fixed_fp (ex_tlwh 100 20)"
  by code_simp+

text \<open>
  C30. Which tracks the head follows. In one picture of sixteen these are all big tracks whose object is a drone; in any picture,
  when a lost target is to be taken up, also the first big track that is not such a drone, and with it the order to take a target up
  is done. For each of them, in order, the head gets the order to stop and the middle of the box, scaled from the picture to the
  704 by 576 of the head, and nothing else is sent. The object is looked up under the number of the track: with a big track that has no
  object the loop reads outside the vector.
\<close>
theorem regained_track_followed:
  assumes "ai_connected (rs_ai r)"
  shows "if \<exists>j<length ts. big_box F (ts ! j) \<and> length (im_objs im) \<le> j then track_loop F clk im 0 ts r = None
    else \<exists>a. track_loop F clk im 0 ts r = Some (r\<lparr>rs_ai := a, isGuide := (isGuide r \<and> (\<forall>j<length ts. \<not> takes_up F im r ts j))\<rparr>) \<and>
      boxes_sent F im (followed_tracks F im r ts) (rs_ai r) a"
proof (cases "\<exists>j<length ts. big_box F (ts ! j) \<and> length (im_objs im) \<le> j")
  case True
  with track_loop_overread [of _ ts F im 0] show ?thesis by auto
next
  case False
  then have "\<forall>j<length ts. big_box F (ts ! j) \<longrightarrow> j < length (im_objs im)" by (meson not_le)
  from track_loop_follows [OF assms this] show ?thesis unfolding if_not_P [OF False] .
qed

theorem regained_track_followed_witness:
  "\<exists>r'. track_loop fixed_fp ex_clock (ex_image [ex_tlwh 10 1, ex_tlwh 100 20]) 0 [ex_tlwh 10 1, ex_tlwh 100 20] ex_run = Some r' \<and>
     ai_n (rs_ai r') = 2 \<and> \<not> isGuide r'"
proof -
  let ?ts = "[ex_tlwh 10 1, ex_tlwh 100 20]"
  let ?im = "ex_image ?ts"
  have c: "ai_connected (rs_ai ex_run)" by (simp add: ptz_connected_def ex_run_def ex_ai_def)
  have o: "\<not> (\<exists>j<length ?ts. big_box fixed_fp (?ts ! j) \<and> length (im_objs ?im) \<le> j)" by (auto simp: ex_image_def)
  have up: "takes_up fixed_fp ?im ex_run ?ts 1" "isGuide ex_run"
    using ex_tlwh_big by (simp_all add: takes_up_def drone_in_frame_def ex_run_def)
  have fol: "followed_tracks fixed_fp ?im ex_run ?ts = [ex_tlwh 100 20]"
    using ex_tlwh_big by (simp add: followed_tracks_def track_followed_def takes_up_def drone_in_frame_def ex_run_def)
  from regained_track_followed [OF c, of ?ts fixed_fp ?im ex_clock, unfolded if_not_P [OF o] fol] obtain a where
    r: "track_loop fixed_fp ex_clock ?im 0 ?ts ex_run =
      Some (ex_run\<lparr>rs_ai := a, isGuide := (isGuide ex_run \<and> (\<forall>j<length ?ts. \<not> takes_up fixed_fp ?im ex_run ?ts j))\<rparr>)"
    "boxes_sent fixed_fp ?im [ex_tlwh 100 20] (rs_ai ex_run) a" by blast
  have f: "\<not> (\<forall>j<length ?ts. \<not> takes_up fixed_fp ?im ex_run ?ts j)" using up(1) by auto
  have "ai_n a = 2" using boxes_sent_count [OF r(2)] by (simp add: ex_run_def ex_ai_def)
  then show ?thesis using r(1) f by simp
qed

text \<open>
  Pictures without any track are counted modulo the limit plus one: 17 for \<^verbatim>\<open>ai_alg_run2\<close>, 3 for \<^verbatim>\<open>ai_alg_run2_id\<close>. The
  flag that lets the next track be followed is set exactly when the limit is passed, and nothing is sent.
\<close>
theorem blind_images_counted:
  assumes "list_all (\<lambda>(im, t). im_tracks im = [] \<and> t = None) ims" "no_obj_count r = 0" "0 \<le> most" "most < 2147483647"
    "img_count r + int (length ims) \<le> 2147483647"
  shows "run2_images most F srt clk ims r = Some (r\<lparr>g_bInit := (g_bInit r \<or> ims \<noteq> []),
    no_obj_count := int (length ims) mod (most + 1), isGuide := (isGuide r \<or> int (length ims) > most),
    img_count := img_count r + int (length ims)\<rparr>)"
proof -
  have "lost_within most r" using assms(2,3) by (simp add: lost_within_def)
  moreover have "0 < int (length ims) div (most + 1) \<longleftrightarrow> most < int (length ims)"
    using pos_imp_zdiv_pos_iff [of "most + 1" "int (length ims)"] assms(3) by linarith
  ultimately show ?thesis using run2_blind_images [OF assms(1), of most r 0 F srt clk] assms(2,4,5) by simp
qed

theorem blind_images_counted_witness:
  "\<exists>r'. run2_images 2 fixed_fp insertion_sort ex_clock (replicate 4 (ex_image [], None)) (ex_run\<lparr>isGuide := False\<rparr>) = Some r' \<and>
     isGuide r' \<and> no_obj_count r' = 1"
  using blind_images_counted [of "replicate 4 (ex_image [], None)" "ex_run\<lparr>isGuide := False\<rparr>" 2 fixed_fp insertion_sort ex_clock]
  by (simp add: ex_image_def ex_run_def list_all_iff)

text \<open>
  The objects of the detector are looked up under the number of the track, but a tracker may keep more tracks than there are
  objects in the picture: a track without an object that is big enough is read outside the vector.
\<close>
theorem track_without_object_overreads:
  assumes "j < length ts" "big_box F (ts ! j)" "length (im_objs im) \<le> j"
  shows "track_loop F clk im 0 ts r = None"
  using assms by (intro track_loop_overread [of j]) simp_all

theorem track_without_object_overreads_witness:
  "track_loop fixed_fp ex_clock (ex_image []) 0 [ex_tlwh 10 1, ex_tlwh 10 1, ex_tlwh 100 20] ex_run = None"
  by (rule track_without_object_overreads [of 2]) (simp_all add: ex_tlwh_big, simp add: ex_image_def)

text \<open>
  The upload of detected targets: up to 128 of them the struct holds the box, the class and the probability of each; with more
  the loop writes past the array, which nothing prevents.
\<close>
theorem upload_target_info_bound:
  assumes "0 < boxNum" "nat boxNum \<le> length cl" "4 * nat boxNum \<le> length bx" "nat boxNum \<le> length cf"
    "length junk = packed_size alink_taget_info"
  shows "if boxNum \<le> 128
    then \<exists>info. target_info_struct F boxNum cl bx cf ts junk = Some info \<and> length info = packed_size alink_taget_info \<and>
      loadn info 0 5 = Some (le_bytes 4 ts @ [of_int boxNum]) \<and> (\<forall>j. j < nat boxNum \<longrightarrow> item_is F cl bx cf j info)
    else target_info_struct F boxNum cl bx cf ts junk = None"
proof -
  let ?fs = "[(''timestamp'', le_bytes 4 ts), (''objNum'', le_bytes 1 (of_int boxNum :: u8))]"
  let ?i = "le_bytes 4 ts @ [of_int boxNum] @ drop 5 junk"
  have s: "set_fields alink_taget_info ?fs junk = Some ?i"
  proof -
    have j: "length junk = 3077" using assms(5) by simp
    have b: "le_bytes (Suc 0) (w :: u8) = [w]" for w by simp
    show ?thesis by (simp add: set_field_def alink_taget_info_def storen_def j b del: le_bytes.simps)
  qed
  have l: "length ?i = packed_size alink_taget_info" using assms(5) by simp
  show ?thesis
  proof (cases "boxNum \<le> 128")
    case True
    then have n: "0 + nat boxNum \<le> ALINK_TARGET_MAX" by (simp add: ALINK_TARGET_MAX_def)
    from upload_items_write [OF _ _ _ n l, of cl bx cf F] assms obtain info where
      i: "upload_items F cl bx cf 0 (nat boxNum) ?i = Some info" "length info = packed_size alink_taget_info"
        "\<forall>j. 0 \<le> j \<longrightarrow> j < 0 + nat boxNum \<longrightarrow> item_is F cl bx cf j info" "\<forall>j m. j + m \<le> upload_base 0 \<longrightarrow> loadn info j m = loadn ?i j m"
      using l by auto
    have "loadn info 0 5 = Some (le_bytes 4 ts @ [of_int boxNum])" using i(4) [rule_format, of 0 5] by (simp add: loadn_def)
    with i s True show ?thesis by (simp add: target_info_struct_def)
  next
    case False
    then have "ALINK_TARGET_MAX < 0 + nat boxNum" by (simp add: ALINK_TARGET_MAX_def)
    from upload_items_overflow [OF this _ l, of F cl bx cf] s False show ?thesis by (simp add: target_info_struct_def)
  qed
qed

theorem upload_target_info_bound_witness:
  "\<exists>info. target_info_struct fixed_fp 1 [1] [10, 20, 30, 40] [0] 7 (replicate 3077 0) = Some info \<and> item_is fixed_fp [1] [10, 20, 30, 40] [0] 0 info"
  using upload_target_info_bound [of 1 "[1]" "[10, 20, 30, 40]" "[0]" "replicate 3077 0" fixed_fp 7] by auto

text \<open>The boxes of the test overlap, because they are written at multiples of three and read at multiples of four.\<close>

lemma test_boxes_overlap:
  "map (\<lambda>i. map ((!) test_boxes) [4 * i, 4 * i + 1, 4 * i + 2, 4 * i + 3]) [0, 1, 2] = [[0, 1, 2, 10], [11, 12, 20, 21], [22, 23, 0, 0]]"
  by code_simp

text \<open>
  In \<^verbatim>\<open>ai_alg_run3\<close> the first Drone ID is taken for a target of the user as well: the number of the selected target becomes
  the second byte after the kind of the pack, a character of the tracer's serial number, and the picture is not looked at.
\<close>
theorem run3_drone_id_selects_target:
  assumes "ai_alg_run3 F srt clk im (Some t) r = Some (r', ret)" "load32 t 0 = Some (track_type_word TRACK_INFO_TRACER_P_DRONE_ID)"
    "g_bFirst r"
  shows "ret = 1 \<and> pack_u 4 user_track_target ''objid'' t = Some (g_nID (rs_ai r')) \<and> img_count r' = img_count r"
  using assms
  by (auto simp: ai_alg_run3_def run3_guide_def on_ai_eq_Some select_user_target_def split: bind_splits if_splits)

text \<open>The guidance of \<^verbatim>\<open>ai_alg_run1\<close> and \<^verbatim>\<open>ai_alg_run7\<close> ignores the targets of users.\<close>

lemma guide_by_ignores_user: "load32 t 0 = Some (track_type_word TRACK_INFO_FROM_USER) \<Longrightarrow> guide_by F srt clk t a = Some a"
  by (simp add: guide_by_def)

text \<open>\<^verbatim>\<open>ai_alg_run2\<close> takes a user's target up at any time: it selects it and lets the head stop.\<close>

lemma run2_takes_user_target:
  assumes "ai_connected (rs_ai r)" "load32 t 0 = Some (track_type_word TRACK_INFO_FROM_USER)"
    "pack_u 4 user_track_target ''objid'' t = Some i" "\<not> g_bInit r"
  shows "\<exists>r'. run2_lim most F srt clk im (Some t) r = Some (r', 1) \<and> g_nID (rs_ai r') = i \<and> g_bInit r'"
proof -
  have "ai_connected ((rs_ai r)\<lparr>g_nID := i\<rparr>)" using assms(1) by simp
  from StoppingTracking_sends [OF this, of clk] obtain m a where
    s: "StoppingTracking clk ((rs_ai r)\<lparr>g_nID := i\<rparr>) = Some a" "track_sent m ((rs_ai r)\<lparr>g_nID := i\<rparr>) a" by blast
  note a = s(1) sends_one_counts(2) [OF s(2)]
  have "stop_for_user clk t (rs_ai r) = Some a" by (simp add: stop_for_user_def select_user_target_def assms(3) a(1))
  then have "guide_or_user_opt F srt clk (Some t) (r\<lparr>g_bInit := True\<rparr>) = Some (r\<lparr>g_bInit := True, rs_ai := a\<rparr>, True)"
    by (simp add: guide_or_user_opt_def guide_or_user_def assms(2) on_ai_def)
  with a(2) assms(4) show ?thesis by (simp add: run2_lim_def)
qed

end
