(* ===== verification/App_Networks.thy ===== *)
theory App_Networks
  imports Alink_Commands
begin

text \<open>
  The two users of the protocol stack: \<^verbatim>\<open>app/radars_network/radar_network.c\<close>, which reads one package from
  a TCP stream in as many reads as it takes, and \<^verbatim>\<open>app/c2_network/c2_network.c\<close>, which hands every read to
  the receive machine as it comes and connects the uploads of a C2 station.

  \<^verbatim>\<open>pi_recv\<close> is an argument: from the state of the connection and the size of the buffer it gives the
  result of the read, the bytes written to the buffer, and the new state.
\<close>

type_synonym 'n run_recv = "'n \<Rightarrow> nat \<Rightarrow> i32 \<times> bytes \<times> 'n"

subsection \<open>Radar\<close>

definition ALINK_HEADER_CHECKSUM_LEN :: nat where "ALINK_HEADER_CHECKSUM_LEN = 8"

text \<open>
  The reads after the first: \<open>acc\<close> is what has been written to the allocated block so far, \<open>need\<close> the
  package size. \<open>Some (None, _)\<close> is the exit on a failed read.
\<close>

partial_function (option) radar_recv_rest ::
  "'n run_recv \<Rightarrow> nat \<Rightarrow> bytes \<Rightarrow> 'n \<Rightarrow> (bytes option \<times> 'n) option" where
  "radar_recv_rest recv need acc n =
     (if need \<le> length acc then Some (Some acc, n)
      else case recv n (need - length acc) of
             (iLength, bs, n') \<Rightarrow>
               if iLength \<le> 0 then Some (None, n')
               else radar_recv_rest recv need (acc @ take (nat iLength) bs) n')"

text \<open>
  The first read goes to the zeroed eight-byte buffer on the stack; the package size is taken from there.
  The result is the assembled package, if one was read.
\<close>

definition radar_recv_package ::
  "'n run_recv \<Rightarrow> bool \<Rightarrow> 'n \<Rightarrow> (bytes option \<times> 'n) option" where
  "radar_recv_package recv avail n =
     (case recv n ALINK_HEADER_CHECKSUM_LEN of
        (iLength, bs, n') \<Rightarrow>
          if iLength \<le> 0 then Some (None, n')
          else do {
            abyBuffer \<leftarrow> storen (replicate ALINK_HEADER_CHECKSUM_LEN 0) 0 (take (nat iLength) bs);
            integrity \<leftarrow> alink_package_integrity_check abyBuffer (of_int iLength);
            if 0 < sint integrity then
              (if avail then do {
                 i \<leftarrow> alink_get_header_index abyBuffer (of_int iLength);
                 start \<leftarrow> loadn abyBuffer (unat i) (nat iLength - unat i);
                 radar_recv_rest recv (unat integrity) start n' }
               else Some (None, n'))
            else Some (None, n') })"

text \<open>
  The callback: the assembled package is a fresh heap object \<open>ob\<close> while the receive machine runs, and is
  freed afterwards. \<open>port\<close> holds the user's socket handle and send function.
\<close>

definition radar_network_cbk_data ::
  "(nat, recv_cbk_fn, 's, 'w) run_cbk \<Rightarrow> 'n run_recv \<Rightarrow> bool \<Rightarrow> nat \<Rightarrow> heap \<Rightarrow> 's alink_port \<Rightarrow>
   's alink_socket \<Rightarrow> 'n \<times> 'w \<Rightarrow> ('s alink_socket \<times> 'n \<times> 'w) option" where
  "radar_network_cbk_data run recv avail ob h port sk nw = do {
     (p, n') \<leftarrow> radar_recv_package recv avail (fst nw);
     (case p of
        None \<Rightarrow> Some (sk, n', snd nw)
      | Some bs \<Rightarrow> do {
          (sk', w') \<leftarrow> alink_socket_task run (h(ob \<mapsto> bs)) sk
             \<lparr>ri_ePortId = 1, ri_pbyData = \<lparr>obj = ob, off = 0\<rparr>, ri_uLength = of_nat (length bs),
              ri_handle = pt_handle port, ri_pe_send = pt_pe_send port\<rparr> (snd nw);
          Some (sk', n', w') }) }"

text \<open>Creation for a user: the block is zeroed and its socket connected to the device commands.\<close>

record 's radar_network =
  rn_sAlinkSocket :: "'s alink_socket"
  rn_psUser :: nat

definition radar_network_create :: "bool \<Rightarrow> 's alink_socket \<Rightarrow> nat \<Rightarrow> 's radar_network option" where
  "radar_network_create avail zsk usr =
     (if avail then Some \<lparr>rn_sAlinkSocket = fst (alink_connect_port zsk ALINK_USER_TYPE_DEVICE), rn_psUser = usr\<rparr>
      else None)"

subsection \<open>C2\<close>

definition C2_BUFFER_SIZE :: nat where "C2_BUFFER_SIZE = 1024 * 1024"

text \<open>
  The stack buffer holds \<open>stale\<close> before the read. The length handed on is the \<^verbatim>\<open>int32_t\<close> result of the
  read, stored in a \<^verbatim>\<open>uint32_t\<close> without a test.
\<close>

definition c2_network_cbk_data ::
  "(nat, recv_cbk_fn, 's, 'w) run_cbk \<Rightarrow> 'n run_recv \<Rightarrow> bytes \<Rightarrow> nat \<Rightarrow> heap \<Rightarrow> 's alink_port \<Rightarrow>
   's alink_socket \<Rightarrow> 'n \<times> 'w \<Rightarrow> ('s alink_socket \<times> 'n \<times> 'w) option" where
  "c2_network_cbk_data run recv stale ob h port sk nw =
     (case recv (fst nw) C2_BUFFER_SIZE of
        (iLength, bs, n') \<Rightarrow> do {
          buf \<leftarrow> storen stale 0 (take (nat iLength) bs);
          (sk', w') \<leftarrow> alink_socket_task run (h(ob \<mapsto> buf)) sk
             \<lparr>ri_ePortId = 1, ri_pbyData = \<lparr>obj = ob, off = 0\<rparr>, ri_uLength = of_int iLength,
              ri_handle = pt_handle port, ri_pe_send = pt_pe_send port\<rparr> (snd nw);
          Some (sk', n', w') })"

record 's c2_network =
  sSendAlinkHeartBeat :: nat
  sSendAlinkTargetInfo :: nat
  sAlinkSocket :: "'s alink_socket"
  c2_psUser :: nat

text \<open>
  Creation for a user: two zeroed receiver nodes of the new block are connected to the heartbeat and the
  target uploads, and its socket to the C2 commands. \<open>c2send\<close> is \<^verbatim>\<open>c2_network_send\<close>.
\<close>

definition zero_send :: "'s alink_send_list" where
  "zero_send = \<lparr>byRemoteId = 0, sd_handle = 0, sd_pe_send = None, sd_psNext = None\<rparr>"

definition c2_network_create ::
  "bool \<Rightarrow> 's \<Rightarrow> 's alink_socket \<Rightarrow> nat \<Rightarrow> nat \<Rightarrow> nat \<Rightarrow> ('p, 's) alink_uploads \<Rightarrow>
   (('p, 's) alink_uploads \<times> 's c2_network option) option" where
  "c2_network_create avail c2send zsk hb ti usr u =
     (if avail then do {
        let u0 = u\<lparr>sends := (sends u)(hb := zero_send, ti := zero_send)\<rparr>;
        (u1, _) \<leftarrow> alink_connect_send u0 hb 0xD0 ALINK_DEV_ID_C2 usr (Some c2send);
        (u2, _) \<leftarrow> alink_connect_send u1 ti 0x80 ALINK_DEV_ID_C2 usr (Some c2send);
        let (sk, _) = alink_connect_port zsk ALINK_USER_TYPE_C2;
        Some (u2, Some \<lparr>sSendAlinkHeartBeat = hb, sSendAlinkTargetInfo = ti, sAlinkSocket = sk, c2_psUser = usr\<rparr>) }
      else Some (u, None))"

definition c2_network_cbk_delete ::
  "'s c2_network \<Rightarrow> ('p, 's) alink_uploads \<Rightarrow> ('p, 's) alink_uploads option" where
  "c2_network_cbk_delete net u = do {
     (u1, _) \<leftarrow> alink_disconnect_send u (sSendAlinkHeartBeat net) 0xD0;
     (u2, _) \<leftarrow> alink_disconnect_send u1 (sSendAlinkTargetInfo net) 0x80;
     Some u2 }"

subsection \<open>Reading from a stream\<close>

text \<open>
  A connected TCP socket: as long as bytes are pending a read returns some of them, in order, at most as
  many as asked for.
\<close>

definition stream_recv :: "'n run_recv \<Rightarrow> ('n \<Rightarrow> bytes) \<Rightarrow> bool" where
  "stream_recv recv pending \<longleftrightarrow>
     (\<forall>n k. 0 < k \<longrightarrow> pending n \<noteq> [] \<longrightarrow>
        (case recv n k of (l, bs, n') \<Rightarrow>
           0 < l \<and> nat l \<le> k \<and> length bs = nat l \<and> pending n = bs @ pending n'))"

lemma stream_recvD:
  assumes "stream_recv recv pending" "0 < k" "pending n \<noteq> []"
  obtains l bs n' where "recv n k = (l, bs, n')" "0 < l" "nat l \<le> k" "length bs = nat l" "pending n = bs @ pending n'"
proof -
  obtain l bs n' where r: "recv n k = (l, bs, n')" by (cases "recv n k")
  have "case recv n k of (l, bs, n') \<Rightarrow> 0 < l \<and> nat l \<le> k \<and> length bs = nat l \<and> pending n = bs @ pending n'"
    by (rule assms(1) [unfolded stream_recv_def, rule_format, OF assms(2,3)])
  with r that show ?thesis by simp
qed

lemma radar_recv_rest_stream:
  assumes "stream_recv recv pending" "length acc \<le> need" "need \<le> length acc + length (pending n)"
  shows "\<exists>n'. radar_recv_rest recv need acc n = Some (Some (acc @ take (need - length acc) (pending n)), n') \<and>
    pending n' = drop (need - length acc) (pending n)"
  using assms(2,3)
proof (induction "need - length acc" arbitrary: acc n rule: less_induct)
  case less
  show ?case
  proof (cases "need \<le> length acc")
    case True
    with less.prems show ?thesis by (auto simp: radar_recv_rest.simps)
  next
    case False
    then have "0 < need - length acc" "pending n \<noteq> []" using less.prems by auto
    from stream_recvD [OF assms(1) this] obtain l bs n1 where r: "recv n (need - length acc) = (l, bs, n1)"
      "0 < l" "nat l \<le> need - length acc" "length bs = nat l" "pending n = bs @ pending n1" .
    let ?acc = "acc @ bs"
    have "\<exists>n'. radar_recv_rest recv need ?acc n1 = Some (Some (?acc @ take (need - length ?acc) (pending n1)), n') \<and>
        pending n' = drop (need - length ?acc) (pending n1)"
      using less.prems r False by (intro less.hyps) auto
    moreover have "radar_recv_rest recv need acc n = radar_recv_rest recv need ?acc n1"
      using False r by (simp add: radar_recv_rest.simps [of recv need acc n])
    moreover have "need - length acc = length bs + (need - length ?acc)" using r(3,4) by simp
    ultimately show ?thesis using r(5) by (simp add: take_add)
  qed
qed

text \<open>What the first read decides: with the magic byte in front, the length field as far as it was read.\<close>

lemma radar_first_read:
  assumes "stream_recv recv pending" "pending n \<noteq> []" "pending n ! 0 = ALINK_MSG_MAGIC_VALUE"
    "recv n 8 = (l, bs, n1)" "abuf = take (nat l) (pending n) @ replicate (8 - nat l) 0"
    "payload_len abuf + 11 \<le> length (pending n)"
  shows "\<exists>n'. radar_recv_package recv True n = Some (Some (take (payload_len abuf + 11) (pending n)), n') \<and>
    pending n' = drop (payload_len abuf + 11) (pending n)"
proof -
  from stream_recvD [OF assms(1) _ assms(2), of 8] assms(4)
  have r: "0 < l" "nat l \<le> 8" "length bs = nat l" "pending n = bs @ pending n1" by auto
  have la: "length abuf = 8" and bsl: "take (nat l) (pending n) = bs" using assms(5) r by auto
  obtain b t where ab: "abuf = b # t" using la by (cases abuf) auto
  have "b = pending n ! 0"
  proof -
    have "b = abuf ! 0" using ab by simp
    also have "\<dots> = bs ! 0" using assms(5) bsl r by (simp add: nth_append)
    also have "\<dots> = pending n ! 0" using r by (simp add: nth_append)
    finally show ?thesis .
  qed
  then have m: "alink_check_magic b" using assms(3) by (simp add: alink_check_magic_def)
  have ul: "unat (of_int l :: u32) = nat l"
    using of_nat_nat [of l, where 'a = u32] unat_of_nat_small [of "nat l", where 'a = 32] r(1,2) by simp
  have loop: "magic_loop abuf (unat (of_int l :: u32)) 0 = Some (0, True)"
    using m ab ul r(1) by (cases "nat l") auto
  have st: "storen (replicate 8 0) 0 (take (nat l) bs) = Some abuf"
    using r assms(5) bsl by (simp add: storen_def)
  have chk: "alink_package_integrity_check abuf (of_int l) = Some (of_nat (payload_len abuf + 11))"
    using loop la by (simp add: alink_package_integrity_check_def alink_package_valid_length_def mem_simps)
  have ix: "alink_get_header_index abuf (of_int l) = Some 0"
    using loop by (simp add: alink_get_header_index_def alink_get_package_head_index_def)
  have u: "unat (of_nat (payload_len abuf + 11) :: u32) = payload_len abuf + 11" by (rule unat_package_size)
  have sn: "0 < sint (of_nat (payload_len abuf + 11) :: u32)"
    using payload_len_less [of abuf] u by (subst sint_small) simp_all
  have ld: "loadn abuf 0 (nat l) = Some bs" using la r assms(5) bsl by (simp add: loadn_def)
  have "radar_recv_package recv True n = radar_recv_rest recv (payload_len abuf + 11) bs n1"
    using assms(4) r(1) st chk ix u sn ld
    by (simp add: radar_recv_package_def ALINK_HEADER_CHECKSUM_LEN_def del: of_nat_add of_nat_numeral)
  moreover have "length bs \<le> payload_len abuf + 11" using r by simp
  moreover have "payload_len abuf + 11 \<le> length bs + length (pending n1)" using assms(6) r(4) by simp
  ultimately show ?thesis
    using radar_recv_rest_stream [OF assms(1), of bs "payload_len abuf + 11" n1] r(4) by simp
qed

lemma payload_len_prefix:
  assumes "valid_package p" "3 \<le> k" "k \<le> 8"
  shows "payload_len (take k (p @ rest) @ xs) = payload_len p"
  using assms by (simp add: payload_len_def valid_package_def nth_append)

lemma alink_socket_task_world:
  "map_option snd (alink_socket_task run h sk imp w) = map_option snd (alink_recv_task run h (sRecv sk) imp w)"
  by (cases "alink_recv_task run h (sRecv sk) imp w") (auto simp: alink_socket_task_def Let_def split_def)

lemma recv_one_package:
  assumes "valid_package p" "pu_state r = Check_magic" "sRecvCbk r = \<lparr>psHandle = hdl, pe_cbk = Some c\<rparr>"
    "h ob = Some p" "ri_pbyData imp = \<lparr>obj = ob, off = 0\<rparr>" "ri_uLength imp = of_nat (length p)"
  shows "map_option snd (alink_recv_task run h r imp w) =
    run c hdl h (order_import_of imp \<lparr>obj = ob, off = 0\<rparr>) w"
proof -
  have "length p + 65546 < 2 ^ 32"
    using assms(1) payload_len_less [of p] by (simp add: valid_package_def)
  moreover have "imp\<lparr>ri_pbyData := \<lparr>obj = ob, off = 0\<rparr>, ri_uLength := of_nat (length p)\<rparr> = imp"
    using assms(5,6) by (cases imp) simp
  moreover have "frames 0 p = [(0, p)]" using frames_valid [OF assms(1), of 0 "[]"] by simp
  ultimately show ?thesis
    using alink_recv_task_buffer [of r hdl c h ob p run imp w] assms(2-4)
    by (cases "run c hdl h (order_import_of imp \<lparr>obj = ob, off = 0\<rparr>) w") simp_all
qed

text \<open>A stream that hands out at most \<open>c\<close> bytes per read.\<close>

definition chunk_recv :: "nat \<Rightarrow> bytes run_recv" where
  "chunk_recv c n k = (int (min (min c k) (length n)), take (min c k) n, drop (min c k) n)"

lemma stream_chunk_recv: "0 < c \<Longrightarrow> stream_recv (chunk_recv c) id"
  by (auto simp: stream_recv_def chunk_recv_def)

definition log_run :: "(nat, recv_cbk_fn, unit, bytes list) run_cbk" where
  "log_run c hdl h x w = map_option (\<lambda>b. w @ [b]) (h (obj (oi_pbyMsg x)))"

definition ex_port :: "unit alink_port" where
  "ex_port = \<lparr>byPortId = 1, pt_handle = 0, pt_pe_send = None, pv_register_cbk = False\<rparr>"

lemma ex_socket_state:
  "pu_state (sRecv ex_socket) = Check_magic"
  "sRecvCbk (sRecv ex_socket) = \<lparr>psHandle = Some 0, pe_cbk = Some Cbk_alink_order_task\<rparr>"
  by (rule alink_connect_port_C2 [OF ex_socket_connected])+

subsection \<open>Properties\<close>

text \<open>
  C4. Reassembly: whatever way TCP cuts the stream, as long as the first read brings three bytes, a valid
  package at the front of the stream is read completely and nothing beyond it, and its handler is called
  exactly once, with the whole package in one live block.
\<close>
theorem radar_network_reassembles:
  assumes "stream_recv recv pending" "pending n = p @ rest" "valid_package p" "recv n 8 = (l, bs, n1)" "3 \<le> l"
    "pu_state (sRecv sk) = Check_magic" "sRecvCbk (sRecv sk) = \<lparr>psHandle = hdl, pe_cbk = Some c\<rparr>"
  shows "\<exists>n'. pending n' = rest \<and>
    map_option snd (radar_network_cbk_data run recv True ob h port sk (n, w)) =
    map_option (Pair n') (run c hdl (h(ob \<mapsto> p))
      \<lparr>oi_ePortId = 1, oi_pbyMsg = \<lparr>obj = ob, off = 0\<rparr>, oi_handle = pt_handle port, oi_pe_send = pt_pe_send port\<rparr> w)"
proof -
  have v: "11 \<le> length p" "p ! 0 = ALINK_MSG_MAGIC_VALUE" "length p = payload_len p + 11"
    using assms(3) by (auto simp: valid_package_def)
  have ne: "pending n \<noteq> []" using assms(2) v(1) by auto
  have l8: "nat l \<le> 8" using stream_recvD [OF assms(1) _ ne, of 8] assms(4) by auto
  have pl: "payload_len (take (nat l) (pending n) @ replicate (8 - nat l) 0) = payload_len p"
    unfolding assms(2) by (rule payload_len_prefix) (use assms(3,5) l8 in simp_all)
  have m0: "pending n ! 0 = ALINK_MSG_MAGIC_VALUE" unfolding assms(2) using v by (simp add: nth_append)
  obtain n' where n': "radar_recv_package recv True n = Some (Some p, n')" "pending n' = rest"
    using radar_first_read [OF assms(1) ne m0 assms(4) refl] pl v(3) assms(2) by auto
  let ?imp = "\<lparr>ri_ePortId = 1, ri_pbyData = \<lparr>obj = ob, off = 0\<rparr>, ri_uLength = of_nat (length p),
      ri_handle = pt_handle port, ri_pe_send = pt_pe_send port\<rparr>"
  have "map_option snd (alink_socket_task run (h(ob \<mapsto> p)) sk ?imp w) =
      run c hdl (h(ob \<mapsto> p)) (order_import_of ?imp \<lparr>obj = ob, off = 0\<rparr>) w"
    unfolding alink_socket_task_world using assms(3,6,7) by (intro recv_one_package) simp_all
  moreover have "map_option snd (radar_network_cbk_data run recv True ob h port sk (n, w)) =
      map_option (Pair n') (map_option snd (alink_socket_task run (h(ob \<mapsto> p)) sk ?imp w))"
    using n'(1) by (cases "alink_socket_task run (h(ob \<mapsto> p)) sk ?imp w")
      (auto simp: radar_network_cbk_data_def split_def)
  ultimately have "map_option snd (radar_network_cbk_data run recv True ob h port sk (n, w)) =
      map_option (Pair n') (run c hdl (h(ob \<mapsto> p)) (order_import_of ?imp \<lparr>obj = ob, off = 0\<rparr>) w)"
    by (simp only:)
  with n'(2) show ?thesis by (auto simp: order_import_of_def)
qed

theorem radar_network_reassembles_witness:
  "\<exists>n'. n' = [1, 2] \<and> map_option snd (radar_network_cbk_data log_run (chunk_recv 4) True 3 Map.empty ex_port ex_socket
      (ex_package @ [1, 2], [])) = Some (n', [ex_package])"
  using radar_network_reassembles [OF stream_chunk_recv [of 4] _ valid_ex_package _ _ ex_socket_state, of
      "ex_package @ [1, 2]" "[1, 2]" 4 "take 4 ex_package" "drop 4 (ex_package @ [1, 2])" log_run 3 Map.empty ex_port "[]"]
  by (simp add: chunk_recv_def log_run_def)

text \<open>
  A first read of a single byte loses the package: the length field is taken from the zeroed buffer
  instead of from the stream, so eleven bytes are taken for a package whatever its real length is.
\<close>
theorem radar_short_first_read:
  assumes "stream_recv recv pending" "pending n ! 0 = ALINK_MSG_MAGIC_VALUE" "11 \<le> length (pending n)"
    "recv n 8 = (1, bs, n1)"
  shows "\<exists>n'. radar_recv_package recv True n = Some (Some (take 11 (pending n)), n') \<and>
    pending n' = drop 11 (pending n)"
proof -
  have ne: "pending n \<noteq> []" using assms(3) by auto
  have pl: "payload_len (take (nat 1) (pending n) @ replicate (8 - nat 1) 0) = 0"
    using ne by (simp add: payload_len_def nth_append)
  show ?thesis
    using radar_first_read [OF assms(1) ne assms(2,4) refl] unfolding pl using assms(3) by simp
qed

theorem radar_short_first_read_witness:
  "\<exists>n'. radar_recv_package (chunk_recv 1) True ex_package = Some (Some (take 11 ex_package), n') \<and>
    n' = drop 11 ex_package"
  using radar_short_first_read [OF stream_chunk_recv [of 1], of ex_package "take 1 ex_package" "drop 1 ex_package"]
    valid_ex_package by (simp add: chunk_recv_def valid_package_def)

text \<open>
  C36. A read of the C2 connection that comes while no package is pending, with the receive machine waiting
  for the magic byte, is interpreted completely and alone: for every result of the read
  between 0 and the size of the buffer, the handler runs exactly on the packages that the bytes just read
  contain, in order; what an earlier call left behind them on the stack is never taken for a package, and
  a closed connection (result 0) runs nothing. (A read that ends inside a package leaves the machine in another
  state; what the next read does then is the subject of \<^verbatim>\<open>fragmented_package_dangles\<close>.)
\<close>
theorem c2_network_cbk_data_handles:
  assumes "recv n C2_BUFFER_SIZE = (l, bs, n1)" "0 \<le> l" "length bs = nat l" "nat l \<le> C2_BUFFER_SIZE"
    "length stale = C2_BUFFER_SIZE" "pu_state (sRecv sk) = Check_magic"
    "sRecvCbk (sRecv sk) = \<lparr>psHandle = hdl, pe_cbk = Some c\<rparr>"
  shows "map_option snd (c2_network_cbk_data run recv stale ob h port sk (n, w)) =
    map_option (Pair n1) (deliver run c hdl (h(ob \<mapsto> bs @ drop (nat l) stale))
      \<lparr>ri_ePortId = 1, ri_pbyData = \<lparr>obj = ob, off = 0\<rparr>, ri_uLength = of_int l,
       ri_handle = pt_handle port, ri_pe_send = pt_pe_send port\<rparr> ob (frames 0 bs) w)"
proof -
  let ?imp = "\<lparr>ri_ePortId = 1, ri_pbyData = \<lparr>obj = ob, off = 0\<rparr>, ri_uLength = of_int l,
      ri_handle = pt_handle port, ri_pe_send = pt_pe_send port\<rparr>"
  let ?h = "h(ob \<mapsto> bs @ drop (nat l) stale)"
  have u: "(of_nat (length bs) :: u32) = of_int l" using assms(2,3) by (simp add: of_nat_nat)
  have s: "storen stale 0 (take (nat l) bs) = Some (bs @ drop (nat l) stale)"
    using assms(3-5) by (simp add: storen_def)
  have "length bs + 65546 < 2 ^ 32" using assms(3,4) by (simp add: C2_BUFFER_SIZE_def)
  from alink_recv_task_part [OF assms(6,7) _ this, of ?h ob "drop (nat l) stale" run ?imp w]
  have r: "map_option snd (alink_recv_task run ?h (sRecv sk) ?imp w) = deliver run c hdl ?h ?imp ob (frames 0 bs) w"
    by (simp add: u)
  have "map_option snd (c2_network_cbk_data run recv stale ob h port sk (n, w)) =
      map_option (Pair n1) (map_option snd (alink_socket_task run ?h sk ?imp w))"
    using assms(1) s by (cases "alink_socket_task run ?h sk ?imp w") (auto simp: c2_network_cbk_data_def split_def)
  then show ?thesis by (simp only: alink_socket_task_world r)
qed

theorem c2_network_cbk_data_handles_witness:
  "map_option snd (c2_network_cbk_data log_run (chunk_recv C2_BUFFER_SIZE) (replicate C2_BUFFER_SIZE 0xFD) 3 Map.empty ex_port
      ex_socket (ex_package, [])) = Some ([], [ex_package @ replicate (C2_BUFFER_SIZE - 14) 0xFD])"
proof -
  have r: "chunk_recv C2_BUFFER_SIZE ex_package C2_BUFFER_SIZE = (14, ex_package, [])" by (simp add: chunk_recv_def C2_BUFFER_SIZE_def)
  have f: "frames 0 ex_package = [(0, ex_package)]" using frames_valid [OF valid_ex_package, of 0 "[]"] by simp
  have l: "(0 :: int) \<le> 14" "length ex_package = nat 14" "nat 14 \<le> C2_BUFFER_SIZE" "length (replicate C2_BUFFER_SIZE (0xFD :: u8)) = C2_BUFFER_SIZE"
    by (simp_all add: C2_BUFFER_SIZE_def)
  show ?thesis
    using c2_network_cbk_data_handles [of "chunk_recv C2_BUFFER_SIZE" ex_package 14 ex_package "[]" "replicate C2_BUFFER_SIZE 0xFD" ex_socket
        "Some 0" Cbk_alink_order_task log_run 3 Map.empty ex_port "[]", OF r l ex_socket_state]
    by (simp add: f log_run_def order_import_of_def)
qed

lemma c2_create_abs:
  assumes "uploads_abs u [(k, 0x80, xs), (k', 0xD0, ys)]" "hb \<noteq> ti" "hb \<notin> set (xs @ ys)" "ti \<notin> set (xs @ ys)"
  shows "\<exists>u' net. c2_network_create True c2send zsk hb ti usr u = Some (u', Some net) \<and>
    uploads_abs u' [(k, 0x80, xs @ [ti]), (k', 0xD0, ys @ [hb])] \<and>
    (\<forall>x \<in> {hb, ti}. byRemoteId (sends u' x) = ALINK_DEV_ID_C2 \<and> sd_handle (sends u' x) = usr \<and>
      sd_pe_send (sends u' x) = Some c2send) \<and>
    sSendAlinkHeartBeat net = hb \<and> sSendAlinkTargetInfo net = ti \<and> c2_psUser net = usr"
proof -
  let ?u = "u\<lparr>sends := (sends u)(hb := zero_send, ti := zero_send)\<rparr>"
  have "uploads_abs ?u ([(k, 0x80, xs)] @ (k', 0xD0, ys) # [])"
    using assms by (auto simp: uploads_abs_def elim!: hlist_cong)
  from connect_send_abs [OF this, of hb ALINK_DEV_ID_C2 usr "Some c2send"] assms(2-4)
  obtain u1 where u1: "alink_connect_send ?u hb 0xD0 ALINK_DEV_ID_C2 usr (Some c2send) = Some (u1, 0)"
    "uploads_abs u1 [(k, 0x80, xs), (k', 0xD0, ys @ [hb])]" "byRemoteId (sends u1 hb) = ALINK_DEV_ID_C2"
    "sd_handle (sends u1 hb) = usr" "sd_pe_send (sends u1 hb) = Some c2send" "sends u1 ti = zero_send"
    by (auto simp: zero_send_def)
  have "uploads_abs u1 ([] @ (k, 0x80, xs) # [(k', 0xD0, ys @ [hb])])" using u1(2) by simp
  from connect_send_abs [OF this, of ti ALINK_DEV_ID_C2 usr "Some c2send"] assms(2-4) u1(6)
  obtain u2 where u2: "alink_connect_send u1 ti 0x80 ALINK_DEV_ID_C2 usr (Some c2send) = Some (u2, 0)"
    "uploads_abs u2 [(k, 0x80, xs @ [ti]), (k', 0xD0, ys @ [hb])]" "byRemoteId (sends u2 ti) = ALINK_DEV_ID_C2"
    "sd_handle (sends u2 ti) = usr" "sd_pe_send (sends u2 ti) = Some c2send" "sends u2 hb = sends u1 hb"
    by (auto simp: zero_send_def)
  show ?thesis
    using u1 u2 by (auto simp: c2_network_create_def Let_def split_def)
qed

text \<open>
  A C2 station that is created is connected to both uploads: its two receivers become the last receivers
  of the target package and of the heartbeat, with the station's device id and send function; every receiver
  that was connected before stays where it was.
\<close>
theorem c2_network_create_connects:
  assumes "uploads_abs u [(k, 0x80, xs), (k', 0xD0, ys)]" "hb \<noteq> ti" "hb \<notin> set (xs @ ys)" "ti \<notin> set (xs @ ys)"
  shows "\<exists>u' net. c2_network_create True c2send zsk hb ti usr u = Some (u', Some net) \<and>
    uploads_abs u' [(k, 0x80, xs @ [ti]), (k', 0xD0, ys @ [hb])] \<and>
    (\<forall>x \<in> {hb, ti}. byRemoteId (sends u' x) = ALINK_DEV_ID_C2 \<and> sd_handle (sends u' x) = usr \<and>
      sd_pe_send (sends u' x) = Some c2send) \<and>
    sSendAlinkHeartBeat net = hb \<and> sSendAlinkTargetInfo net = ti \<and> c2_psUser net = usr"
  by (rule c2_create_abs [OF assms])

definition two_packages :: "(unit, unit) alink_uploads" where
  "two_packages = \<lparr>
     packages = (\<lambda>k. \<lparr>byMsgId = (if k = 1 then 0x80 else 0xD0), byAns = 0, pw_package_task = None, psSendList = None,
       pk_psNext = (if k = 1 then Some 2 else None)\<rparr>),
     sends = (\<lambda>_. zero_send),
     sUpload = \<lparr>byDevId = ALINK_DEV_ID_AGX, byReq = 0, up_wBufferSize = 0, up_pbyBuffer = [], psPackageList = Some 1\<rparr>\<rparr>"

lemma two_packages_abs: "uploads_abs two_packages [(1, 0x80, []), (2, 0xD0, [])]"
  by (simp add: uploads_abs_def two_packages_def)

theorem c2_network_create_connects_witness:
  "\<exists>u' net. c2_network_create True () (undefined :: unit alink_socket) 10 11 3 two_packages = Some (u', Some net) \<and>
    uploads_abs u' [(1, 0x80, [11]), (2, 0xD0, [10])] \<and> sd_handle (sends u' 10) = 3"
  using c2_network_create_connects [OF two_packages_abs, of 10 11 "()" "undefined :: unit alink_socket" 3] by auto

text \<open>
  When the C2 station that connected first goes away, every other station stops receiving: deleting it empties
  the receivers of both uploads.
\<close>
theorem c2_network_delete_silences_all:
  assumes "uploads_abs u [(k, 0x80, ti # xs), (k', 0xD0, hb # ys)]"
    "sSendAlinkHeartBeat net = hb" "sSendAlinkTargetInfo net = ti"
  shows "\<exists>u'. c2_network_cbk_delete net u = Some u' \<and> uploads_abs u' [(k, 0x80, []), (k', 0xD0, [])]"
proof -
  have "uploads_abs u ([(k, 0x80, ti # xs)] @ (k', 0xD0, hb # ys) # [])" using assms(1) by simp
  from disconnect_head_abs [OF this] obtain u1 where
    u1: "alink_disconnect_send u hb 0xD0 = Some (u1, 0)" "uploads_abs u1 [(k, 0x80, ti # xs), (k', 0xD0, [])]" by auto
  have "uploads_abs u1 ([] @ (k, 0x80, ti # xs) # [(k', 0xD0, [])])" using u1(2) by simp
  from disconnect_head_abs [OF this] obtain u2 where
    "alink_disconnect_send u1 ti 0x80 = Some (u2, 0)" "uploads_abs u2 [(k, 0x80, []), (k', 0xD0, [])]" by auto
  with u1 assms(2,3) show ?thesis by (simp add: c2_network_cbk_delete_def)
qed

text \<open>Two stations: the one created first, with the nodes 10 and 11, goes away.\<close>

definition two_stations :: "(unit, unit) alink_uploads" where
  "two_stations = two_packages\<lparr>
     packages := (\<lambda>k. (packages two_packages k)\<lparr>psSendList := Some (if k = 1 then 11 else 10)\<rparr>),
     sends := (\<lambda>x. zero_send\<lparr>sd_psNext := (if x = 11 then Some 13 else if x = 10 then Some 12 else None)\<rparr>)\<rparr>"

theorem c2_network_delete_silences_all_witness:
  "\<exists>u'. c2_network_cbk_delete \<lparr>sSendAlinkHeartBeat = 10, sSendAlinkTargetInfo = 11, sAlinkSocket = undefined :: unit alink_socket,
      c2_psUser = 3\<rparr> two_stations = Some u' \<and> uploads_abs u' [(1, 0x80, []), (2, 0xD0, [])]"
proof -
  have "uploads_abs two_stations [(1, 0x80, [11, 13]), (2, 0xD0, [10, 12])]"
    by (simp add: uploads_abs_def two_stations_def two_packages_def zero_send_def)
  from c2_network_delete_silences_all [OF this] show ?thesis by simp
qed

end
