(* ===== verification/Storage.thy ===== *)
theory Storage
  imports Ptz_Prelude
begin

text \<open>
  The file store of \<^verbatim>\<open>common/storage/storage.c\<close> and \<^verbatim>\<open>common/storage/file/storage_file.c\<close>: named blobs in one
  folder. The file system is a map from paths to contents; whether \<^verbatim>\<open>open\<close>, \<^verbatim>\<open>write\<close>, \<^verbatim>\<open>read\<close> and \<^verbatim>\<open>unlink\<close>
  succeed is an argument. The abstract store is a map from names, without the slashes in front, to blobs;
  the theorems say that the operations implement it and where they do not.
\<close>

type_synonym files = "string \<rightharpoonup> bytes"

definition STORAGE_FILE_NAME_LEN_MAX :: nat where "STORAGE_FILE_NAME_LEN_MAX = 256"
definition strFileFolder :: string where "strFileFolder = ''./log/''"
definition strFolder :: string where "strFolder = ''./storage''"

subsection \<open>Operations\<close>

text \<open>The name is built in a buffer of 256 characters, with its terminating zero; beyond that is \<open>None\<close>.\<close>

definition storage_file_calculate_name :: "string \<Rightarrow> string option" where
  "storage_file_calculate_name strName =
     (let n = dropWhile (\<lambda>c. c = CHR ''/'') strName
      in if length strFileFolder + length n + 1 \<le> STORAGE_FILE_NAME_LEN_MAX then Some (strFileFolder @ n) else None)"

text \<open>Folders: \<open>acc\<close> is \<^verbatim>\<open>access(path, F_OK) == 0\<close> and \<open>mk\<close> is \<^verbatim>\<open>mkdir\<close> on a state \<open>'d\<close>.\<close>

definition storage_folder_create ::
  "('d \<Rightarrow> string \<Rightarrow> bool) \<Rightarrow> ('d \<Rightarrow> string \<Rightarrow> 'd \<times> i32) \<Rightarrow> string \<Rightarrow> 'd \<Rightarrow> 'd \<times> i32" where
  "storage_folder_create acc mk folder d =
     (if acc d folder then (d, 0)
      else case mk d folder of (d', r) \<Rightarrow> (d', if 0 = r then 0 else -1))"

definition storage_file_folder_create ::
  "('d \<Rightarrow> string \<Rightarrow> bool) \<Rightarrow> ('d \<Rightarrow> string \<Rightarrow> 'd \<times> i32) \<Rightarrow> 'd \<Rightarrow> 'd \<times> i32" where
  "storage_file_folder_create acc mk d = storage_folder_create acc mk strFileFolder d"

text \<open>\<open>mutex\<close> is the answer of \<^verbatim>\<open>pthread_mutex_init\<close>: zero or a positive error number.\<close>

definition storage_file_init ::
  "('d \<Rightarrow> string \<Rightarrow> bool) \<Rightarrow> ('d \<Rightarrow> string \<Rightarrow> 'd \<times> i32) \<Rightarrow> i32 \<Rightarrow> 'd \<Rightarrow> 'd \<times> i32" where
  "storage_file_init acc mk mutex d =
     (case storage_file_folder_create acc mk d of
        (d', eRet) \<Rightarrow> if 0 \<le> eRet then (d', mutex) else (d', eRet))"

definition storage_init ::
  "('d \<Rightarrow> string \<Rightarrow> bool) \<Rightarrow> ('d \<Rightarrow> string \<Rightarrow> 'd \<times> i32) \<Rightarrow> i32 \<Rightarrow> 'd \<Rightarrow> 'd \<times> i32" where
  "storage_init acc mk mutex d =
     (case storage_folder_create acc mk strFolder d of
        (d', eRet) \<Rightarrow> (if 0 \<le> eRet then fst (storage_file_init acc mk mutex d') else d', eRet))"

text \<open>
  \<open>written\<close> is the answer of \<^verbatim>\<open>write\<close>: \<open>None\<close> for an error, otherwise how many bytes were written. The file
  is truncated when it is opened.
\<close>

definition storage_file_write ::
  "bool \<Rightarrow> nat option \<Rightarrow> string option \<Rightarrow> bytes option \<Rightarrow> u32 \<Rightarrow> files \<Rightarrow> (files \<times> i32) option" where
  "storage_file_write opened written strName pvData uLen fs =
     (case (strName, pvData) of
        (Some name, Some d) \<Rightarrow> do {
          fn \<leftarrow> storage_file_calculate_name name;
          if \<not> opened then Some (fs, -1)
          else do {
            bs \<leftarrow> loadn d 0 (unat uLen);
            (case written of
               None \<Rightarrow> Some (fs(fn \<mapsto> []), -1)
             | Some k \<Rightarrow> Some (fs(fn \<mapsto> take k bs), 0)) } }
      | _ \<Rightarrow> Some (fs, 0))"

text \<open>The result is the buffer and the length read, zero on every failure.\<close>

definition storage_file_read ::
  "bool \<Rightarrow> string option \<Rightarrow> bytes option \<Rightarrow> u32 \<Rightarrow> files \<Rightarrow> (bytes option \<times> i32) option" where
  "storage_file_read read_ok strName pvBuffer uSize fs =
     (case (strName, pvBuffer) of
        (Some name, Some b) \<Rightarrow> do {
          fn \<leftarrow> storage_file_calculate_name name;
          (case fs fn of
             None \<Rightarrow> Some (pvBuffer, 0)
           | Some f \<Rightarrow>
               if \<not> read_ok then Some (pvBuffer, 0)
               else do {
                 let bs = take (unat uSize) f;
                 b' \<leftarrow> storen b 0 bs;
                 Some (Some b', int (length bs)) }) }
      | _ \<Rightarrow> Some (pvBuffer, 0))"

definition storage_file_del :: "bool \<Rightarrow> string option \<Rightarrow> files \<Rightarrow> (files \<times> i32) option" where
  "storage_file_del unlink_ok strName fs =
     (case strName of
        None \<Rightarrow> Some (fs, -1)
      | Some name \<Rightarrow> do {
          fn \<leftarrow> storage_file_calculate_name name;
          if unlink_ok \<and> fs fn \<noteq> None then Some (fs(fn := None), 0) else Some (fs, -1) })"

subsection \<open>The abstract store\<close>

definition store_key :: "string \<Rightarrow> string" where
  "store_key name = dropWhile (\<lambda>c. c = CHR ''/'') name"

definition store_of :: "files \<Rightarrow> string \<rightharpoonup> bytes" where
  "store_of fs k = fs (strFileFolder @ k)"

definition short_name :: "string \<Rightarrow> bool" where
  "short_name name \<longleftrightarrow> length (store_key name) < 250"

lemma calculate_name: "short_name name \<Longrightarrow> storage_file_calculate_name name = Some (strFileFolder @ store_key name)"
  by (simp add: storage_file_calculate_name_def Let_def short_name_def store_key_def strFileFolder_def
      STORAGE_FILE_NAME_LEN_MAX_def)

lemma store_of_upd: "store_of (fs(strFileFolder @ k := v)) = (store_of fs)(k := v)"
  by (auto simp: store_of_def fun_eq_iff)

lemma store_key_idem: "store_key (store_key name) = store_key name"
  by (simp add: store_key_def)

subsection \<open>Properties\<close>

text \<open>
  C34. The folder is a key-value store: with a working disk, writing, reading and deleting do to it what
  update, lookup and removal do to a map, and report an absent name.
\<close>
theorem storage_refines_map:
  assumes "short_name name" "unat n \<le> length d" "unat sz \<le> length b"
  shows "(\<exists>fs'. storage_file_write True (Some (unat n)) (Some name) (Some d) n fs = Some (fs', 0) \<and>
      store_of fs' = (store_of fs)(store_key name \<mapsto> take (unat n) d)) \<and>
    storage_file_read True (Some name) (Some b) sz fs =
      (case store_of fs (store_key name) of
         None \<Rightarrow> Some (Some b, 0)
       | Some f \<Rightarrow> Some (Some (take (unat sz) f @ drop (length (take (unat sz) f)) b), int (length (take (unat sz) f)))) \<and>
    (\<exists>fs'. storage_file_del True (Some name) fs =
        Some (fs', if store_of fs (store_key name) = None then -1 else 0) \<and>
      store_of fs' = (store_of fs)(store_key name := None))"
proof (intro conjI)
  show "\<exists>fs'. storage_file_write True (Some (unat n)) (Some name) (Some d) n fs = Some (fs', 0) \<and>
      store_of fs' = (store_of fs)(store_key name \<mapsto> take (unat n) d)"
    using assms by (simp add: storage_file_write_def calculate_name mem_simps store_of_upd)
  show "storage_file_read True (Some name) (Some b) sz fs =
      (case store_of fs (store_key name) of
         None \<Rightarrow> Some (Some b, 0)
       | Some f \<Rightarrow> Some (Some (take (unat sz) f @ drop (length (take (unat sz) f)) b), int (length (take (unat sz) f))))"
    using assms by (simp add: storage_file_read_def calculate_name Let_def storen_def min_def store_of_def split: option.split)
  show "\<exists>fs'. storage_file_del True (Some name) fs =
        Some (fs', if store_of fs (store_key name) = None then -1 else 0) \<and>
      store_of fs' = (store_of fs)(store_key name := None)"
    using assms by (auto simp: storage_file_del_def calculate_name store_of_upd store_of_def fun_upd_idem_iff)
qed

theorem storage_refines_map_witness:
  "storage_file_read True (Some ''/cfg'') (Some [0, 0, 0]) 3 [''./log/cfg'' \<mapsto> [7, 8]] = Some (Some [7, 8, 0], 2)"
  using storage_refines_map [of "''/cfg''" 0 "[]" 3 "[0, 0, 0]" "[''./log/cfg'' \<mapsto> [7, 8]]"]
  by (simp add: short_name_def store_key_def store_of_def strFileFolder_def)

text \<open>
  A disk that takes only part of the data is not noticed: the write is reported as done and what was
  stored before is gone; a name of 250 characters overruns the buffer of the path.
\<close>
theorem storage_short_write_lies:
  assumes "short_name name" "unat n \<le> length d" "k < unat n" "250 \<le> length (store_key long)"
  shows "(\<exists>fs'. storage_file_write True (Some k) (Some name) (Some d) n fs = Some (fs', 0) \<and>
      store_of fs' (store_key name) = Some (take k d)) \<and>
    storage_file_write True (Some k) (Some long) (Some d) n fs = None"
  using assms
  by (simp add: storage_file_write_def calculate_name mem_simps store_of_upd min_def storage_file_calculate_name_def [of long]
      store_key_def [of long, symmetric] strFileFolder_def [THEN arg_cong, of length] STORAGE_FILE_NAME_LEN_MAX_def)

theorem storage_short_write_lies_witness:
  "storage_file_write True (Some 1) (Some (replicate 250 CHR ''x'')) (Some [1, 2]) 2 Map.empty = None"
proof -
  have "store_key (replicate 250 CHR ''x'') = replicate 250 CHR ''x''"
    by (simp add: store_key_def dropWhile_eq_self_iff)
  then show ?thesis
    using storage_short_write_lies [of "''a''" 2 "[1, 2]" 1 "replicate 250 CHR ''x''" Map.empty]
    by (simp add: short_name_def store_key_def [of "''a''"])
qed

end
