(* ===== verification/App_Main.thy ===== *)
theory App_Main
  imports Alg_Targets App_Networks Eth_Link Ptz_App Storage
begin

text \<open>
  The program as a whole: \<^verbatim>\<open>main.c\<close>, which starts the parts in order, waits for a signal and shuts them down, over the states of
  all parts; with the start-up of the networks (\<^verbatim>\<open>c2_network.c\<close>, \<^verbatim>\<open>radar_network.c\<close>), \<^verbatim>\<open>common/common.c\<close>, the clock, the address of the
  network card and the front end of the log.

  Each part counts its allocations in its own state, whereas the program has one counter. What the system answers during
  start-up is a record.
\<close>

subsection \<open>Log, clock and network card\<close>

text \<open>A category of zlog is a number. The log goes to zlog once it is initialised and to the standard output before.\<close>

record log_state =
  cur_category :: "nat option"
  init_flg :: i32

datatype log_out = To_zlog nat | To_null_category | To_stdout bool

definition change_cur_log_category :: "string option \<Rightarrow> (string \<Rightarrow> nat option) \<Rightarrow> log_state \<Rightarrow> log_state \<times> i32" where
  "change_cur_log_category cname zlog_get_category s =
     (case cname of
        None \<Rightarrow> (s, -1)
      | Some n \<Rightarrow>
          (case zlog_get_category n of
             None \<Rightarrow> (s, -1)
           | Some cat \<Rightarrow> (s\<lparr>cur_category := Some cat\<rparr>, 0)))"

definition skyfend_log_init :: "string option \<Rightarrow> string option \<Rightarrow> i32 \<Rightarrow> (string \<Rightarrow> nat option) \<Rightarrow> log_state \<Rightarrow> log_state \<times> i32" where
  "skyfend_log_init conf_path cname zlog_ret zlog_get_category s =
     (if conf_path = None \<or> cname = None then (s, -1)
      else if 0 \<noteq> zlog_ret then (s, zlog_ret)
      else case change_cur_log_category cname zlog_get_category s of
        (s1, ret) \<Rightarrow> if 0 \<noteq> ret then (s1, ret) else (s1\<lparr>init_flg := 1\<rparr>, ret))"

definition skyfend_log_deinit :: "log_state \<Rightarrow> log_state" where
  "skyfend_log_deinit s = s\<lparr>init_flg := 0\<rparr>"

text \<open>\<open>None\<close>: nothing is printed. On the standard output a line end is added above the level of debugging.\<close>

definition ZLOG_LEVEL_DEBUG :: i32 where "ZLOG_LEVEL_DEBUG = 20"

definition skyfend_log :: "i32 \<Rightarrow> string option \<Rightarrow> log_state \<Rightarrow> log_out option" where
  "skyfend_log level format s =
     (case format of
        None \<Rightarrow> None
      | Some _ \<Rightarrow>
          Some (if 0 \<noteq> init_flg s then case cur_category s of None \<Rightarrow> To_null_category | Some c \<Rightarrow> To_zlog c
                else To_stdout (ZLOG_LEVEL_DEBUG < level)))"

text \<open>Milliseconds of the monotonic clock; \<open>sec\<close> and \<open>nsec\<close> are the two members of the time the system gives.\<close>

definition sysport_time_count :: "int \<Rightarrow> int \<Rightarrow> (int \<times> int) \<times> u64" where
  "sysport_time_count sec nsec = ((sec, nsec), of_int (1000 * sec + nsec div 1000000))"

text \<open>
  The address of a network card as text: \<open>ret\<close> and \<open>family\<close> are answers of the \<^verbatim>\<open>ioctl\<close>, \<open>addr\<close> what \<^verbatim>\<open>inet_ntoa\<close> makes of the address
  (\<open>None\<close>: null). The text is copied without a terminating zero.
\<close>

definition AF_INET :: i32 where "AF_INET = 2"

definition net_eth_get_ipv4_addr :: "i32 \<Rightarrow> i32 \<Rightarrow> bytes option \<Rightarrow> bytes \<Rightarrow> (bytes \<times> i32) option" where
  "net_eth_get_ipv4_addr ret family addr ip =
     (if ret < 0 then Some (ip, ret)
      else if family \<noteq> AF_INET then Some (ip, -1)
      else case addr of
        None \<Rightarrow> Some (ip, 0)
      | Some cip \<Rightarrow> do { ip' \<leftarrow> storen ip 0 cip; Some (ip', 0) })"

definition agx_get_eht0_ip :: "i32 \<Rightarrow> i32 \<Rightarrow> bytes option \<Rightarrow> bytes \<Rightarrow> (bytes \<times> i32) option" where
  "agx_get_eht0_ip ret family addr ip = net_eth_get_ipv4_addr ret family addr ip"

subsection \<open>Start-up and shutdown of the networks\<close>

definition c2_network_init ::
  "nat option \<Rightarrow> nat option \<Rightarrow> bool \<Rightarrow> nat option \<Rightarrow> eth_links \<Rightarrow> (eth_links \<times> i32) option" where
  "c2_network_init newl new created cbk s = eth_link_add_type newl new created cbk 1 RTH_LINK_NET_TCP_CLIENT 10 s"

definition radar_network_init ::
  "bool \<Rightarrow> u32 option \<Rightarrow> bytes \<Rightarrow> nat option \<Rightarrow> bool \<Rightarrow> nat option \<Rightarrow> eth_link_list option \<Rightarrow> servers \<Rightarrow> int \<Rightarrow>
   (eth_link_list option \<times> servers \<times> int \<times> i32) option" where
  "radar_network_init avail eth0 after new created cbk psEthList st cnt =
     eth_server_register avail eth0 after new created cbk RTH_LINK_NET_TCP_CLIENT psEthList st cnt"

definition radar_network_release ::
  "(nat option \<times> bool \<times> nat option \<times> (i32 \<times> bytes \<times> u32)) option \<Rightarrow> udp_socket \<times> detect_task_res \<Rightarrow> eth_link_list option \<Rightarrow>
   servers \<Rightarrow> int \<Rightarrow> ((udp_socket \<times> detect_task_res) \<times> eth_link_list option \<times> servers \<times> int) option" where
  "radar_network_release last_turn sd psEthList st cnt = eth_link_server_uninit last_turn sd psEthList st cnt"

definition radar_network_cbk_delete :: "nat option \<Rightarrow> int \<Rightarrow> int" where
  "radar_network_cbk_delete psNetwork cnt = snd (skyfend_safefree psNetwork cnt)"

subsection \<open>The program\<close>

text \<open>\<open>ag_threads\<close> are the threads created for the task list of \<^verbatim>\<open>alg_app.cpp\<close> and not joined, \<open>ag_link_task\<close> whether the tick task of the links runs.\<close>

record ('h, 's, 'i, 'd) agx =
  ag_disk :: 'd
  ag_log :: log_state
  ag_alg :: "'h alg_ctr"
  ag_res :: alg_app_res
  ag_threads :: "nat list"
  ag_udp :: udp_socket
  ag_link_task :: bool
  ag_ptz :: "(ptz_fn, ptz_realtime) ptz_link"
  ag_cam :: "'i ptz_ctrl"
  ag_alink :: "'s alink_state"
  ag_links :: eth_links
  ag_eth :: "eth_link_list option"
  ag_servers :: servers
  ag_srv_udp :: udp_socket
  ag_detect :: detect_task_res
  ag_cnt :: int

text \<open>
  What the system and the allocator answer during start-up: for the storage, the log, \<^verbatim>\<open>alg_init\<close>, the socket of the
  device side, \<^verbatim>\<open>load_ptz\<close>, \<^verbatim>\<open>alink_init\<close>, the C2 link, the radar servers and the search task.
\<close>

record ('h, 'd) boot =
  bo_acc :: "'d \<Rightarrow> string \<Rightarrow> bool"
  bo_mk :: "'d \<Rightarrow> string \<Rightarrow> 'd \<times> i32"
  bo_mutex :: i32
  bo_zlog :: i32
  bo_category :: "string \<Rightarrow> nat option"
  bo_task :: "bool \<times> i32 \<times> i32"
  bo_alg :: "i32 \<times> bool \<times> nat \<times> i32"
  bo_handle :: 'h
  bo_udp :: "i32 \<times> udp_os"
  bo_ptz :: "udp_os \<times> bool list \<times> i32"
  bo_alink :: "bool \<times> bool \<times> bool"
  bo_c2 :: "nat option \<times> nat option \<times> bool \<times> nat option"
  bo_radar :: "bool \<times> u32 option \<times> bytes \<times> nat option \<times> bool \<times> nat option"
  bo_srv_udp :: "i32 \<times> udp_os"

text \<open>\<^verbatim>\<open>common_init\<close>; the init functions of tasks, timers and clock do nothing, and neither does \<^verbatim>\<open>common_uninit\<close>.\<close>

definition common_init :: "('h, 'd) boot \<Rightarrow> 'd \<Rightarrow> 'd" where
  "common_init b d = fst (storage_init (bo_acc b) (bo_mk b) (bo_mutex b) d)"

definition common_uninit :: "'d \<Rightarrow> 'd" where
  "common_uninit d = d"

text \<open>
  \<^verbatim>\<open>main\<close> up to its loop. The second component is what \<^verbatim>\<open>main\<close> has returned, if it has; \<open>None\<close> is an access outside memory. The results
  of the log, of both discovery sockets, of \<^verbatim>\<open>alink_init\<close> and of the networks are ignored.
\<close>

definition start_networks :: "('h, 'd) boot \<Rightarrow> ('h, 's, 'i, 'd) agx \<Rightarrow> (('h, 's, 'i, 'd) agx) option" where
  "start_networks b g =
     (case (bo_alink b, bo_c2 b, bo_radar b) of
        ((ok1, ok2, ok3), (newl, new, created, cbk), (avail, eth0, after, new', created', cbk')) \<Rightarrow> do {
          (al, _) \<leftarrow> alink_init ok1 ok2 ok3 (ag_alink g);
          (ls, _) \<leftarrow> c2_network_init newl new created cbk (ag_links g);
          (e, st, cnt, _) \<leftarrow> radar_network_init avail eth0 after new' created' cbk' (ag_eth g) (ag_servers g) (ag_cnt g);
          let ((sk, dt), _) = eth_link_server_init (fst (bo_srv_udp b)) (snd (bo_srv_udp b)) (ag_srv_udp g, ag_detect g);
          Some (g\<lparr>ag_alink := al, ag_links := ls, ag_eth := e, ag_servers := st, ag_cnt := cnt, ag_srv_udp := sk, ag_detect := dt\<rparr>) })"

definition agx_start :: "('h, 'd) boot \<Rightarrow> ('h, 's, 'i, 'd) agx \<Rightarrow> (('h, 's, 'i, 'd) agx \<times> i32 option) option" where
  "agx_start b g =
     (case (bo_task b, bo_alg b) of
        ((avail, mq_ret, pthread_ret), (mutex_ret, avail2, tid, answer)) \<Rightarrow>
          let g1 = g\<lparr>ag_disk := common_init b (ag_disk g),
                ag_log := fst (skyfend_log_init (Some ''/home/skyfend/config/zlog.conf'') (Some ''agx_ptz'') (bo_zlog b) (bo_category b) (ag_log g))\<rparr>
          in case alg_init avail mq_ret pthread_ret mutex_ret avail2 tid answer (bo_handle b) (ag_alg g1) (ag_res g1) of
            (o1, a, started, ret) \<Rightarrow>
              let g2 = g1\<lparr>ag_alg := o1, ag_res := a, ag_threads := ag_threads g1 @ started\<rparr> in
              if 0 \<noteq> ret then Some (g2, Some ret)
              else
                let g3 = g2\<lparr>ag_udp := fst (eth_link_init (fst (bo_udp b)) (snd (bo_udp b)) (ag_udp g2)), ag_link_task := (0 = fst (bo_udp b))\<rparr> in
                case bo_ptz b of (os, avails, thread) \<Rightarrow>
                  case load_ptz_stream os avails thread (ag_ptz g3, ag_cam g3) of
                    ((l, c), ret2) \<Rightarrow>
                      let g4 = g3\<lparr>ag_ptz := l, ag_cam := c\<rparr> in
                      if 0 \<noteq> ret2 then Some (g4, Some ret2)
                      else do { g5 \<leftarrow> start_networks b g4; Some (g5, None) })"

text \<open>\<^verbatim>\<open>SIGINT\<close>, \<^verbatim>\<open>SIGQUIT\<close> and \<^verbatim>\<open>SIGKILL\<close>; the handler is installed for the first two.\<close>

definition sig_handler :: "i32 \<Rightarrow> bool \<Rightarrow> bool" where
  "sig_handler signum exit_app = (if signum = 2 \<or> signum = 3 \<or> signum = 9 then True else exit_app)"

text \<open>
  What happens while \<^verbatim>\<open>main\<close> shuts down: the answers of the camera stream, the last datagrams of the head and of the device side, the last turn of the
  inference thread, and the answers to \<^verbatim>\<open>sysport_task_delete\<close>.
\<close>

record 'i halt =
  ha_replies :: "nat \<Rightarrow> 'i stream_ans"
  ha_ptz_turn :: "(bool \<times> i32 \<times> bytes \<times> u32) option"
  ha_alg_turn :: "alg_app_res \<Rightarrow> alg_app_res"
  ha_task :: "bool \<times> i32"
  ha_srv_turn :: "(nat option \<times> bool \<times> nat option \<times> (i32 \<times> bytes \<times> u32)) option"

text \<open>The end of \<^verbatim>\<open>main\<close>; the result says that it returns. \<open>None\<close> is a join that waits for ever or is undefined.\<close>

definition agx_stop :: "'i halt \<Rightarrow> ('h, 's, 'i, 'd) agx \<Rightarrow> (('h, 's, 'i, 'd) agx \<times> i32) option" where
  "agx_stop h g = do {
     ((l, c), _) \<leftarrow> relase_ptz_resource call_ptz (ha_ptz_turn h) (ha_replies h) (ag_ptz g, ag_cam g);
     (o1, a, threads, _) \<leftarrow> alg_uninit (fst (ha_task h)) (snd (ha_task h)) (ha_alg_turn h) (ag_threads g) (ag_alg g) (ag_res g);
     ((sk, dt), e, st, cnt) \<leftarrow> radar_network_release (ha_srv_turn h) (ag_srv_udp g, ag_detect g) (ag_eth g) (ag_servers g) (ag_cnt g);
     Some (g\<lparr>ag_ptz := l, ag_cam := c, ag_alg := o1, ag_res := a, ag_threads := threads, ag_srv_udp := sk, ag_detect := dt, ag_eth := e,
       ag_servers := st, ag_cnt := cnt, ag_disk := common_uninit (ag_disk g), ag_log := skyfend_log_deinit (ag_log g)\<rparr>, 0) }"

text \<open>
  \<open>sigs\<close> are the signals that arrive while \<^verbatim>\<open>main\<close> sleeps, and \<open>meanwhile\<close> what the threads do to the state until then; without a signal that ends
  it, it goes on sleeping, which is \<open>None\<close> as the returned code.
\<close>

definition agx_main ::
  "('h, 'd) boot \<Rightarrow> i32 list \<Rightarrow> (('h, 's, 'i, 'd) agx \<Rightarrow> ('h, 's, 'i, 'd) agx) \<Rightarrow> 'i halt \<Rightarrow>
   ('h, 's, 'i, 'd) agx \<Rightarrow> (('h, 's, 'i, 'd) agx \<times> i32 option) option" where
  "agx_main b sigs meanwhile h g = do {
     (g1, code) \<leftarrow> agx_start b g;
     if code \<noteq> None then Some (g1, code)
     else if fold sig_handler sigs False then do { (g2, r) \<leftarrow> agx_stop h (meanwhile g1); Some (g2, Some r) }
     else Some (meanwhile g1, None) }"

subsection \<open>Lemmas\<close>

text \<open>The statics as the linker leaves them, as far as start-up depends on it, and a system that grants everything.\<close>

definition udp_off :: "udp_socket \<Rightarrow> bool" where
  "udp_off sk \<longleftrightarrow> \<not> us_bFlagInit sk \<and> \<not> us_bFlagClose sk \<and> \<not> us_pid sk"

definition cold :: "('h, 's, 'i, 'd) agx \<Rightarrow> bool" where
  "cold g \<longleftrightarrow> ag_alink g = alink_zero \<and> ptz_list_obj (ag_ptz g) = [] \<and> ls_head (ag_links g) = None \<and> ag_eth g = None \<and> ag_threads g = [] \<and>
     udp_off (ag_udp g) \<and> udp_off (ag_srv_udp g) \<and> udp_off (sUdpSocket (ag_ptz g)) \<and> sUdpCfg (ag_ptz g) = ptz_cfg"

definition udp_granted :: "udp_os \<Rightarrow> bool" where
  "udp_granted os \<longleftrightarrow> 0 \<le> ret_socket os \<and> 0 \<le> ret_bind os \<and> ret_setsockopt os = 0 \<and> ret_mutex_init os = 0 \<and> ret_pthread_create os = 0"

text \<open>\<^verbatim>\<open>mkdir\<close> makes the folder it is asked for and removes none.\<close>

definition folders_granted :: "('d \<Rightarrow> string \<Rightarrow> bool) \<Rightarrow> ('d \<Rightarrow> string \<Rightarrow> 'd \<times> i32) \<Rightarrow> bool" where
  "folders_granted acc mk \<longleftrightarrow> (\<forall>d f. snd (mk d f) = 0 \<and> acc (fst (mk d f)) f \<and> (\<forall>f'. acc d f' \<longrightarrow> acc (fst (mk d f)) f'))"

definition boot_granted :: "('h, 'd) boot \<Rightarrow> nat \<Rightarrow> nat \<Rightarrow> nat \<Rightarrow> bool" where
  "boot_granted b r a p \<longleftrightarrow>
     folders_granted (bo_acc b) (bo_mk b) \<and> bo_mutex b = 0 \<and> bo_zlog b = 0 \<and> bo_category b ''agx_ptz'' \<noteq> None \<and>
     (\<exists>mqd. 0 \<le> mqd \<and> bo_task b = (True, mqd, 0)) \<and> (\<exists>tid. bo_alg b = (0, True, tid, 0)) \<and>
     (\<exists>os. udp_granted os \<and> bo_udp b = (0, os)) \<and> (\<exists>os. udp_granted os \<and> bo_srv_udp b = (0, os)) \<and>
     (\<exists>os. udp_granted os \<and> bo_ptz b = (os, replicate 6 True, 0)) \<and> bo_alink b = (True, True, True) \<and>
     (\<exists>cbk. bo_c2 b = (Some r, Some a, True, cbk)) \<and>
     (\<exists>eth0 after cbk. 24 \<le> length after \<and> bo_radar b = (True, eth0, after, Some p, True, cbk))"

text \<open>A discovery socket that is open and whose thread runs.\<close>

definition udp_open :: "udp_os \<Rightarrow> udp_socket \<Rightarrow> bool" where
  "udp_open os sk \<longleftrightarrow> us_bFlagInit sk \<and> \<not> us_bFlagClose sk \<and> us_iSocket sk = ret_socket os \<and> us_pid sk"

lemma udp_crate_up:
  assumes "udp_granted os" "udp_off sk" "bFlagRecv (cfgs 0)"
  shows "\<exists>sk' calls. udp_socket_crate os cfgs sk (Some 0) (Some 0) = (sk', calls, 0) \<and> udp_open os sk'"
  using assms by (auto simp: udp_socket_crate_def udp_socket_open_def udp_granted_def udp_off_def udp_open_def Let_def)

lemma common_init_folders:
  assumes "folders_granted (bo_acc b) (bo_mk b)"
  shows "bo_acc b (common_init b d) strFolder \<and> bo_acc b (common_init b d) strFileFolder"
proof -
  note f = assms [unfolded folders_granted_def, rule_format]
  have c: "\<exists>d'. storage_folder_create (bo_acc b) (bo_mk b) f d = (d', 0) \<and> bo_acc b d' f \<and> (\<forall>f'. bo_acc b d f' \<longrightarrow> bo_acc b d' f')" for f d
    using f [of d f] by (cases "bo_mk b d f") (auto simp: storage_folder_create_def)
  from c [of strFolder d] obtain d1 where d1: "storage_folder_create (bo_acc b) (bo_mk b) strFolder d = (d1, 0)" "bo_acc b d1 strFolder" by blast
  from c [of strFileFolder d1] obtain d2 where d2: "storage_folder_create (bo_acc b) (bo_mk b) strFileFolder d1 = (d2, 0)"
    "bo_acc b d2 strFileFolder" "\<forall>f'. bo_acc b d1 f' \<longrightarrow> bo_acc b d2 f'" by blast
  with d1 show ?thesis by (simp add: common_init_def storage_init_def storage_file_init_def storage_file_folder_create_def)
qed

lemma alg_init_up:
  assumes "0 \<le> mqd"
  shows "\<exists>o' a'. alg_init True mqd 0 0 True tid 0 h o1 a = (o', a', [tid], 0) \<and> mtargets_handle o' = Some h \<and> pvalgtask o' \<noteq> None \<and>
    ar_task_list a' = Some [0] \<and> \<not> ar_release a'"
  using assms create_one [of 0]
  by (simp add: alg_init_def load_multiple_targets_algs_def load_alg_task_def sysport_task_create_def skyfend_malloc_def Let_def)

lemma load_ptz_up:
  assumes "udp_granted os" "ptz_list_obj l = []" "udp_off (sUdpSocket l)" "sUdpCfg l = ptz_cfg"
  shows "\<exists>l' c'. load_ptz_stream os (replicate 6 True) 0 (l, c) = ((l', c'), 0) \<and> (\<forall>cmd. ptz_handler l' cmd = ptz_table cmd) \<and>
    udp_open os (sUdpSocket l') \<and> ptz_tid c' \<and> st_phase c' = St_created"
proof -
  obtain sk calls where sk: "udp_socket_crate os (\<lambda>_. sUdpCfg l) (sUdpSocket l) (Some 0) (Some 0) = (sk, calls, 0)" "udp_open os sk"
    using udp_crate_up [OF assms(1,3), of "\<lambda>_. sUdpCfg l"] assms(4) by (auto simp: ptz_cfg_def)
  then obtain l1 where l1: "eth_link_ptz_init os l = (l1, 0)" "sUdpSocket l1 = sk" by (simp add: eth_link_ptz_init_def)
  obtain l2 where l2: "register_control_ptz_comands (replicate 6 True) l1 = (l2, 0)" "sUdpSocket l2 = sk"
    using l1(2) by (simp add: register_control_ptz_comands_def eth_ptz_command_register_def skyfend_malloc_def numeral_eq_Suc)
  have r: "load_ptz_stream os (replicate 6 True) 0 (l, c) =
      ((l2, c\<lparr>rtsp_stream_addr := DEFAULT_RTSP_PTZ, stop_capture := False, ptz_tid := True, st_phase := St_created\<rparr>), 0)"
    using l1(1) l2(1) by (simp add: load_ptz_stream_def ptz_thread_load_def)
  with load_ptz_table [OF conjunct1 [OF load_ptz_stream_link [OF r]] assms(2)] l2(2) sk(2) show ?thesis by simp
qed

lemma c2_network_init_links:
  assumes "ls_head s = None"
  shows "\<exists>s'. c2_network_init (Some r) (Some a) True cbk s = Some (s', 0) \<and> ls_head s' = Some r \<and> link_abs s' r [a] \<and>
    ls_clients s' a = linked_client DEFAULT_AGX_ACCESS_IP DEFAULT_AGX_ACCESS_PORT 0 cbk r"
  using assms
  by (simp add: c2_network_init_def eth_link_add_type_def default_client_def eth_link_add_tcp_client_list_def
      eth_link_create_tcp_client_list_def link_node_def link_abs_def linked_client_def Let_def)

lemma radar_network_up:
  assumes "24 \<le> length after"
  shows "\<exists>e st' cnt'. radar_network_init True eth0 after (Some p) True cbk None st cnt = Some (Some e, st', cnt', 0) \<and> server_abs e st' [p]"
proof -
  let ?e = "\<lparr>el_net = RTH_LINK_NET_TCP_CLIENT, el_max = AGX_MAX_DEFAULT_NUM, cur_con = 0, el_type = 1, server_basical_port = AGX_DEFAULT_PORT_HEAD,
    server_ip = (case eth0 of Some ip \<Rightarrow> ip | None \<Rightarrow> INADDR_NONE), el_list = None\<rparr>"
  have "32 \<le> length (NETPOTOCAL_INITILA_SN @ after)" using assms by (simp add: NETPOTOCAL_INITILA_SN_def)
  from add_first [of ?e, OF _ this, of p cbk SERVER_TCP_TIMEOUT st "cnt + 1"] show ?thesis
    by (auto simp: radar_network_init_def eth_server_register_def AGX_MAX_DEFAULT_NUM_def)
qed

lemma networks_up:
  assumes "ag_alink g = alink_zero" "ls_head (ag_links g) = None" "ag_eth g = None" "udp_off (ag_srv_udp g)" "boot_granted b r a p"
  shows "\<exists>g' e. start_networks b g = Some g' \<and> cmds_abs (al_cmds (ag_alink g')) c2_cmds device_cmds \<and>
    uploads_abs (al_ups (ag_alink g')) [(sAlinkPackage_TargetInfo, 0x80, []), (sAlinkPackage_HeartBeat, 0xD0, [])] \<and>
    ls_head (ag_links g') = Some r \<and> link_abs (ag_links g') r [a] \<and> ag_eth g' = Some e \<and> server_abs e (ag_servers g') [p] \<and>
    udp_open (snd (bo_srv_udp b)) (ag_srv_udp g') \<and> detect_task_pid (ag_detect g') \<and>
    ag_disk g' = ag_disk g \<and> ag_log g' = ag_log g \<and> ag_alg g' = ag_alg g \<and> ag_res g' = ag_res g \<and> ag_threads g' = ag_threads g \<and>
    ag_udp g' = ag_udp g \<and> ag_link_task g' = ag_link_task g \<and> ag_ptz g' = ag_ptz g \<and> ag_cam g' = ag_cam g"
proof -
  obtain al where al: "alink_init True True True (ag_alink g) = Some (al, 0)" "cmds_abs (al_cmds al) c2_cmds device_cmds"
    "uploads_abs (al_ups al) [(sAlinkPackage_TargetInfo, 0x80, []), (sAlinkPackage_HeartBeat, 0xD0, [])]"
    using alink_init_state assms(1) by auto
  obtain cbk where c2: "bo_c2 b = (Some r, Some a, True, cbk)" using assms(5) by (auto simp: boot_granted_def)
  obtain eth0 after cbk' where rd: "24 \<le> length after" "bo_radar b = (True, eth0, after, Some p, True, cbk')"
    using assms(5) by (auto simp: boot_granted_def)
  obtain ls where ls: "c2_network_init (Some r) (Some a) True cbk (ag_links g) = Some (ls, 0)" "ls_head ls = Some r" "link_abs ls r [a]"
    using c2_network_init_links [of "ag_links g" r a cbk] assms(2) by auto
  obtain e st cnt where e: "radar_network_init True eth0 after (Some p) True cbk' (ag_eth g) (ag_servers g) (ag_cnt g) = Some (Some e, st, cnt, 0)"
    "server_abs e st [p]"
    using radar_network_up [OF rd(1), of eth0 p cbk' "ag_servers g" "ag_cnt g"] assms(3) by auto
  obtain os where os: "udp_granted os" "bo_srv_udp b = (0, os)" using assms(5) by (auto simp: boot_granted_def)
  obtain sk calls where sk: "udp_socket_crate os (\<lambda>_. server_cfg) (ag_srv_udp g) (Some 0) (Some 0) = (sk, calls, 0)" "udp_open os sk"
    using udp_crate_up [OF os(1) assms(4), of "\<lambda>_. server_cfg"] by (auto simp: server_cfg_def)
  then have sv: "fst (eth_link_server_init 0 os (ag_srv_udp g, ag_detect g)) = (sk, (ag_detect g)\<lparr>detect_task_pid := True, dt_begun := False\<rparr>)"
    by (simp add: eth_link_server_init_def)
  have "bo_alink b = (True, True, True)" using assms(5) by (simp add: boot_granted_def)
  with al ls e sk(2) show ?thesis
    by (intro exI [of _ "g\<lparr>ag_alink := al, ag_links := ls, ag_eth := Some e, ag_servers := st, ag_cnt := cnt, ag_srv_udp := sk,
        ag_detect := (ag_detect g)\<lparr>detect_task_pid := True, dt_begun := False\<rparr>\<rparr>"] exI [of _ e])
      (auto simp: start_networks_def c2 rd(2) os(2) sv Let_def split_def)
qed

text \<open>Only start-up and shutdown touch the state of the parts named here; what \<^verbatim>\<open>main\<close> does when a part fails:\<close>

lemma agx_start_cases:
  assumes "agx_start b g = Some (g', res)"
  obtains (alg) code where "res = Some code" "code \<noteq> 0" "ag_alink g' = ag_alink g" "ag_links g' = ag_links g" "ag_eth g' = ag_eth g"
      "ag_servers g' = ag_servers g" "ag_srv_udp g' = ag_srv_udp g" "ag_udp g' = ag_udp g" "ag_ptz g' = ag_ptz g" "ag_cam g' = ag_cam g"
    | (ptz) code where "res = Some code" "code \<noteq> 0" "ag_alink g' = ag_alink g" "ag_links g' = ag_links g" "ag_eth g' = ag_eth g"
      "ag_servers g' = ag_servers g" "ag_srv_udp g' = ag_srv_udp g" "ar_task_list (ag_res g') = Some [0]" "st_phase (ag_cam g') = st_phase (ag_cam g)"
    | (up) "res = None"
proof -
  obtain avail mqd pt mx avail2 tid x where t: "bo_task b = (avail, mqd, pt)" "bo_alg b = (mx, avail2, tid, x)"
    by (cases "bo_task b"; cases "bo_alg b")
  obtain o1 a started ret where al: "alg_init avail mqd pt mx avail2 tid x (bo_handle b) (ag_alg g) (ag_res g) = (o1, a, started, ret)"
    by (cases "alg_init avail mqd pt mx avail2 tid x (bo_handle b) (ag_alg g) (ag_res g)")
  obtain os avails th where pz: "bo_ptz b = (os, avails, th)" by (cases "bo_ptz b")
  obtain l c ret2 where ld: "load_ptz_stream os avails th (ag_ptz g, ag_cam g) = ((l, c), ret2)"
    by (cases "load_ptz_stream os avails th (ag_ptz g, ag_cam g)") auto
  show ?thesis
  proof (cases "ret = 0")
    case False
    with assms t al show ?thesis by (intro alg [of ret]) (auto simp: agx_start_def Let_def)
  next
    case True
    from alg_init_started [OF al [unfolded True]] have tl: "ar_task_list a = Some [0]" by simp
    show ?thesis
    proof (cases "ret2 = 0")
      case False
      then have "st_phase c = st_phase (ag_cam g)"
        using ld by (auto simp: load_ptz_stream_def ptz_thread_load_def split: prod.splits if_splits)
      with assms t al pz ld True False tl show ?thesis by (intro ptz [of ret2]) (auto simp: agx_start_def Let_def)
    next
      case 0: True
      with assms t al pz ld True show ?thesis by (intro up) (auto simp: agx_start_def Let_def split: bind_splits)
    qed
  qed
qed

text \<open>Everything \<^verbatim>\<open>main\<close> sets up before its loop, part by part.\<close>

definition in_place :: "('h, 'd) boot \<Rightarrow> nat \<Rightarrow> nat \<Rightarrow> nat \<Rightarrow> ('h, 's, 'i, 'd) agx \<Rightarrow> bool" where
  "in_place b r a p g \<longleftrightarrow>
     bo_acc b (ag_disk g) strFolder \<and> bo_acc b (ag_disk g) strFileFolder \<and>
     init_flg (ag_log g) = 1 \<and> cur_category (ag_log g) = bo_category b ''agx_ptz'' \<and> cur_category (ag_log g) \<noteq> None \<and>
     mtargets_handle (ag_alg g) = Some (bo_handle b) \<and> pvalgtask (ag_alg g) \<noteq> None \<and> \<not> ar_release (ag_res g) \<and>
     ag_threads g = [fst (snd (snd (bo_alg b)))] \<and> ar_task_list (ag_res g) = Some [0] \<and>
     ag_link_task g \<and> udp_open (snd (bo_udp b)) (ag_udp g) \<and>
     udp_open (fst (bo_ptz b)) (sUdpSocket (ag_ptz g)) \<and> (\<forall>cmd. ptz_handler (ag_ptz g) cmd = ptz_table cmd) \<and>
     ptz_tid (ag_cam g) \<and> st_phase (ag_cam g) = St_created \<and>
     cmds_abs (al_cmds (ag_alink g)) c2_cmds device_cmds \<and>
     uploads_abs (al_ups (ag_alink g)) [(sAlinkPackage_TargetInfo, 0x80, []), (sAlinkPackage_HeartBeat, 0xD0, [])] \<and>
     ls_head (ag_links g) = Some r \<and> link_abs (ag_links g) r [a] \<and>
     (\<exists>e. ag_eth g = Some e \<and> server_abs e (ag_servers g) [p]) \<and>
     udp_open (snd (bo_srv_udp b)) (ag_srv_udp g) \<and> detect_task_pid (ag_detect g)"

lemma agx_starts_state:
  assumes "cold g" "boot_granted b r a p"
  shows "\<exists>g'. agx_start b g = Some (g', None) \<and> in_place b r a p g'"
proof -
  obtain mqd tid where t: "0 \<le> mqd" "bo_task b = (True, mqd, 0)" "bo_alg b = (0, True, tid, 0)"
    using assms(2) by (auto simp: boot_granted_def)
  obtain o' a' where al: "alg_init True mqd 0 0 True tid 0 (bo_handle b) (ag_alg g) (ag_res g) = (o', a', [tid], 0)"
    "mtargets_handle o' = Some (bo_handle b)" "pvalgtask o' \<noteq> None" "ar_task_list a' = Some [0]" "\<not> ar_release a'"
    using alg_init_up [OF t(1), of tid "bo_handle b" "ag_alg g" "ag_res g"] by blast
  obtain os where os: "udp_granted os" "bo_ptz b = (os, replicate 6 True, 0)" using assms(2) by (auto simp: boot_granted_def)
  obtain l c where l: "load_ptz_stream os (replicate 6 True) 0 (ag_ptz g, ag_cam g) = ((l, c), 0)" "\<forall>cmd. ptz_handler l cmd = ptz_table cmd"
    "udp_open os (sUdpSocket l)" "ptz_tid c" "st_phase c = St_created"
    using load_ptz_up [OF os(1), of "ag_ptz g" "ag_cam g"] assms(1) by (auto simp: cold_def)
  obtain us where us: "udp_granted us" "bo_udp b = (0, us)" using assms(2) by (auto simp: boot_granted_def)
  have off: "udp_off (ag_udp g)" using assms(1) by (simp add: cold_def)
  have sk: "udp_open us (fst (eth_link_init 0 us (ag_udp g)))"
    unfolding eth_link_init_def using udp_crate_up [OF us(1) off, of "\<lambda>_. \<lparr>bFlagRecv = True, bBroadcast = True, wRecvPort = 1800,
      wSendPort = 1810, uRecvIp = 0, uSendIp = 0xFFFFFFFF\<rparr>"] by auto
  have grant: "bo_zlog b = 0" "bo_category b ''agx_ptz'' \<noteq> None" "folders_granted (bo_acc b) (bo_mk b)"
    using assms(2) by (auto simp: boot_granted_def)
  let ?log = "fst (skyfend_log_init (Some ''/home/skyfend/config/zlog.conf'') (Some ''agx_ptz'') (bo_zlog b) (bo_category b) (ag_log g))"
  have log: "init_flg ?log = 1" "cur_category ?log = bo_category b ''agx_ptz''"
    using grant(1,2) by (auto simp: skyfend_log_init_def change_cur_log_category_def)
  define g4 where "g4 = g\<lparr>ag_disk := common_init b (ag_disk g), ag_log := ?log, ag_alg := o', ag_res := a', ag_threads := [tid],
    ag_udp := fst (eth_link_init 0 us (ag_udp g)), ag_link_task := True, ag_ptz := l, ag_cam := c\<rparr>"
  have "ag_alink g4 = alink_zero" "ls_head (ag_links g4) = None" "ag_eth g4 = None" "udp_off (ag_srv_udp g4)"
    using assms(1) by (simp_all add: cold_def g4_def)
  from networks_up [OF this assms(2)] obtain g' e where g': "start_networks b g4 = Some g'"
    "cmds_abs (al_cmds (ag_alink g')) c2_cmds device_cmds"
    "uploads_abs (al_ups (ag_alink g')) [(sAlinkPackage_TargetInfo, 0x80, []), (sAlinkPackage_HeartBeat, 0xD0, [])]"
    "ls_head (ag_links g') = Some r" "link_abs (ag_links g') r [a]" "ag_eth g' = Some e" "server_abs e (ag_servers g') [p]"
    "udp_open (snd (bo_srv_udp b)) (ag_srv_udp g')" "detect_task_pid (ag_detect g')"
    and same: "ag_disk g' = common_init b (ag_disk g)" "ag_log g' = ?log" "ag_alg g' = o'" "ag_res g' = a'" "ag_threads g' = [tid]"
    "ag_udp g' = fst (eth_link_init 0 us (ag_udp g))" "ag_link_task g' = True" "ag_ptz g' = l" "ag_cam g' = c"
    unfolding g4_def by auto
  have "ag_threads g = []" using assms(1) by (simp add: cold_def)
  then have "agx_start b g = Some (g', None)"
    using t(2,3) al(1) os(2) us(2) l(1) g'(1) by (simp add: agx_start_def Let_def g4_def)
  moreover have "in_place b r a p g'"
    unfolding in_place_def same using al(2-5) l(2-5) g'(2-9) sk log grant(2) common_init_folders [OF grant(3)] t(3) os(2) us(2) by simp
  ultimately show ?thesis by blast
qed

text \<open>The shutdown: what start-up leaves in the task list, and when each of the joins returns.\<close>

lemma agx_start_threads:
  assumes "agx_start b g = Some (g1, None)" "ag_threads g = []"
  shows "set (ag_threads g1) \<subseteq> {fst (snd (snd (bo_alg b)))} \<and> length (ag_threads g1) \<le> 1 \<and> ar_task_list (ag_res g1) = Some [0]"
proof -
  obtain avail mqd pt mx avail2 tid x where t: "bo_task b = (avail, mqd, pt)" "bo_alg b = (mx, avail2, tid, x)"
    by (cases "bo_task b"; cases "bo_alg b")
  obtain o1 a started ret where al: "alg_init avail mqd pt mx avail2 tid x (bo_handle b) (ag_alg g) (ag_res g) = (o1, a, started, ret)"
    by (cases "alg_init avail mqd pt mx avail2 tid x (bo_handle b) (ag_alg g) (ag_res g)")
  have ret: "ret = 0" using assms(1) t al by (auto simp: agx_start_def Let_def split: if_splits)
  have net: "ag_threads g' = ag_threads g0 \<and> ag_res g' = ag_res g0" if "start_networks b g0 = Some g'" for g0 g'
    using that by (auto simp: start_networks_def Let_def split: prod.splits bind_splits)
  have "ag_threads g1 = started \<and> ag_res g1 = a"
    using assms t al ret by (auto simp: agx_start_def Let_def split: prod.splits if_splits bind_splits dest!: net)
  with alg_init_started [OF al [unfolded ret]] t(2) show ?thesis by simp
qed

lemma agx_stop_wrong:
  assumes "ar_task_list (ag_res g) = Some [0]" "0 \<notin> set (ag_threads g)"
  shows "agx_stop h g = None"
  using alg_uninit_wrong [OF assms, of "fst (ha_task h)" "snd (ha_task h)" "ha_alg_turn h" "ag_alg g"]
  by (cases "relase_ptz_resource call_ptz (ha_ptz_turn h) (ha_replies h) (ag_ptz g, ag_cam g)") (auto simp: agx_stop_def)

lemma alg_uninit_right:
  assumes "ts = [] \<or> (\<exists>t. ts = [t])"
  shows "\<exists>r. alg_uninit avail mq_ret last_turn ts o1 (a\<lparr>ar_task_list := Some ts\<rparr>) = Some r"
  using assms by (auto simp: alg_uninit_def Let_def split: prod.split)

lemma server_uninit_iff:
  assumes "server_abs e st xs"
  shows "(\<exists>r. eth_link_server_uninit None (sk, dt) (Some e) st cnt = Some r) \<longleftrightarrow> us_pid sk \<and> detect_task_pid dt \<and> dt_begun dt"
proof -
  have "hlist ts_psNext st (el_list e) xs" using assms by (simp add: server_abs_def)
  from close_walk_all [OF this] obtain st' where "close_walk st (el_list e) = Some st'" by blast
  then show ?thesis
    by (cases "us_bFlagInit sk") (auto simp: eth_link_server_uninit_def udp_socket_join_def udp_socket_close_def udp_task_end_def
        detect_join_def detect_begin_def Let_def)
qed

lemma agx_stop_returns:
  assumes "ag_eth g = Some e" "server_abs e (ag_servers g) xs" "ha_ptz_turn h = None" "ha_srv_turn h = None"
    "ag_threads g = [] \<or> (\<exists>t. ag_threads g = [t])"
  shows "(\<exists>g3. agx_stop h (g\<lparr>ag_res := (ag_res g)\<lparr>ar_task_list := Some (ag_threads g)\<rparr>\<rparr>) = Some (g3, 0)) \<longleftrightarrow>
    ptz_tid (ag_cam g) \<and> st_phase (ag_cam g) \<noteq> St_created \<and> us_pid (sUdpSocket (ag_ptz g)) \<and> us_pid (ag_srv_udp g) \<and>
    detect_task_pid (ag_detect g) \<and> dt_begun (ag_detect g)"
proof -
  have p: "(\<exists>r. relase_ptz_resource call_ptz None (ha_replies h) (ag_ptz g, ag_cam g) = Some r) \<longleftrightarrow>
      ptz_tid (ag_cam g) \<and> st_phase (ag_cam g) \<noteq> St_created \<and> us_pid (sUdpSocket (ag_ptz g))"
    unfolding relase_iff_started using eth_link_ptz_uninit_once [of "ag_ptz g" call_ptz None] by (cases "us_pid (sUdpSocket (ag_ptz g))") auto
  obtain ar where a: "alg_uninit (fst (ha_task h)) (snd (ha_task h)) (ha_alg_turn h) (ag_threads g) (ag_alg g)
      ((ag_res g)\<lparr>ar_task_list := Some (ag_threads g)\<rparr>) = Some ar" using alg_uninit_right [OF assms(5)] by blast
  note s = server_uninit_iff [OF assms(2), of "ag_srv_udp g" "ag_detect g" "ag_cnt g"]
  have "(\<exists>g3. agx_stop h (g\<lparr>ag_res := (ag_res g)\<lparr>ar_task_list := Some (ag_threads g)\<rparr>\<rparr>) = Some (g3, 0)) \<longleftrightarrow>
      (\<exists>r. relase_ptz_resource call_ptz None (ha_replies h) (ag_ptz g, ag_cam g) = Some r) \<and>
      (\<exists>r. eth_link_server_uninit None (ag_srv_udp g, ag_detect g) (Some e) (ag_servers g) (ag_cnt g) = Some r)"
    using a assms(1,3,4)
    by (cases "relase_ptz_resource call_ptz None (ha_replies h) (ag_ptz g, ag_cam g)"; cases ar;
        cases "eth_link_server_uninit None (ag_srv_udp g, ag_detect g) (Some e) (ag_servers g) (ag_cnt g)")
      (auto simp: agx_stop_def radar_network_release_def split: prod.splits)
  with p s show ?thesis by blast
qed

subsection \<open>Properties\<close>

text \<open>
  C23. Start-up of the whole program. From the cold statics, when the system grants what it is asked for, \<^verbatim>\<open>main\<close> reaches its loop
  with everything in place: both storage folders; the log, with its category; the algorithm task with its handler and the inference thread; the
  tick task of the links and the three discovery sockets, open and with their threads; for every command of the head its
  handler; the camera thread, created; the nine alink commands, each on its side, and the two uploads; the C2 link with its one client; the
  list of radar servers with the initial server; and the search task.
\<close>
theorem agx_starts:
  assumes "cold g" "boot_granted b r a p"
  shows "\<exists>g'. agx_start b g = Some (g', None) \<and> in_place b r a p g'"
  by (rule agx_starts_state [OF assms])

definition ex_boot :: "(unit, unit) boot" where
  "ex_boot = \<lparr>bo_acc = (\<lambda>_ _. True), bo_mk = (\<lambda>d _. (d, 0)), bo_mutex = 0, bo_zlog = 0, bo_category = (\<lambda>_. Some 1), bo_task = (True, 3, 0),
     bo_alg = (0, True, 77, 0), bo_handle = (), bo_udp = (0, ex_os), bo_ptz = (ex_os, replicate 6 True, 0), bo_alink = (True, True, True),
     bo_c2 = (Some 1, Some 2, True, None), bo_radar = (True, Some 0xC801A8C0, replicate 24 0, Some 5, True, None), bo_srv_udp = (0, ex_os)\<rparr>"

definition ex_udp_off :: udp_socket where
  "ex_udp_off = \<lparr>us_bFlagInit = False, us_bFlagClose = False, us_iSocket = 0, us_pid = False, us_psCfg = None, us_psCbk = None\<rparr>"

definition ex_agx :: "(unit, unit, nat, unit) agx" where
  "ex_agx = \<lparr>ag_disk = (), ag_log = \<lparr>cur_category = None, init_flg = 0\<rparr>, ag_alg = \<lparr>mtargets_handle = None, pvalgtask = None\<rparr>,
     ag_res = ex_targets, ag_threads = [], ag_udp = ex_udp_off, ag_link_task = False, ag_ptz = ex_ptz_start, ag_cam = ex_ctrl St_end, ag_alink = alink_zero,
     ag_links = ex_links\<lparr>ls_head := None\<rparr>, ag_eth = None, ag_servers = (\<lambda>_. undefined), ag_srv_udp = ex_udp_off,
     ag_detect = \<lparr>detect_task_pid = False, exit_relase = False, dt_begun = False\<rparr>, ag_cnt = 0\<rparr>"

lemma ex_agx_cold: "cold ex_agx"
  by (simp add: cold_def ex_agx_def ex_ptz_start_def udp_off_def ex_udp_off_def)

lemma ex_boot_granted: "boot_granted ex_boot 1 2 5"
  by (simp add: boot_granted_def ex_boot_def ex_os_def udp_granted_def folders_granted_def)

theorem agx_starts_witness:
  "\<exists>g'. agx_start ex_boot ex_agx = Some (g', None) \<and> link_abs (ag_links g') 1 [2] \<and> mtargets_handle (ag_alg g') = Some () \<and>
    ag_threads g' = [77] \<and> us_iSocket (ag_udp g') = 5 \<and> cur_category (ag_log g') = Some 1 \<and> st_phase (ag_cam g') = St_created"
  using agx_starts [OF ex_agx_cold ex_boot_granted] by (auto simp: in_place_def udp_open_def ex_boot_def ex_os_def)

text \<open>
  When \<^verbatim>\<open>main\<close> gives up during start-up, it is because \<^verbatim>\<open>alg_init\<close> or \<^verbatim>\<open>load_ptz\<close> failed, and it returns that code, not zero; neither alink nor
  the networks have been touched. In the second case the inference thread that was started is still in the task list: nothing of
  what was started is released.
\<close>
theorem agx_start_gives_up:
  assumes "agx_start b g = Some (g', Some code)"
  shows "code \<noteq> 0 \<and> ag_alink g' = ag_alink g \<and> ag_links g' = ag_links g \<and> ag_eth g' = ag_eth g \<and> ag_servers g' = ag_servers g \<and>
    ag_srv_udp g' = ag_srv_udp g \<and>
    (ag_udp g' = ag_udp g \<and> ag_ptz g' = ag_ptz g \<or> ar_task_list (ag_res g') = Some [0] \<and> st_phase (ag_cam g') = st_phase (ag_cam g))"
  using assms by (cases rule: agx_start_cases) auto

theorem agx_start_gives_up_witness:
  "\<exists>g'. agx_start (ex_boot\<lparr>bo_task := (False, 3, 0)\<rparr>) ex_agx = Some (g', Some (-1)) \<and> ag_links g' = ag_links ex_agx"
proof -
  have "\<exists>g'. agx_start (ex_boot\<lparr>bo_task := (False, 3, 0)\<rparr>) ex_agx = Some (g', Some (-1))"
    by (simp add: agx_start_def ex_boot_def alg_init_def load_multiple_targets_algs_def load_alg_task_def sysport_task_create_def
        skyfend_malloc_def Let_def)
  with agx_start_gives_up show ?thesis by blast
qed

text \<open>
  C25. The end of the program. After a start-up that succeeded \<^verbatim>\<open>main\<close> never returns: told to stop, it waits for ever for a camera thread that has
  not begun to run, or it reaches \<^verbatim>\<open>alg_uninit\<close>, which joins the thread 0 instead of the inference thread, and that is undefined. Were the list that
  is joined the list of the threads that were started, then \<^verbatim>\<open>main\<close> would return 0 exactly if every thread it waits for was created
  and the camera thread and the search task have begun to run. (No thread has the identifier 0, the list of servers is well formed, no
  datagram comes in during the shutdown, and what the threads do until then leaves the task list alone.)
\<close>
theorem agx_main_joins_wrong_thread:
  assumes "agx_start b g = Some (g1, None)" "fold sig_handler sigs False" "ag_threads g = []" "fst (snd (snd (bo_alg b))) \<noteq> 0"
    "g2 = meanwhile g1" "ag_threads g2 = ag_threads g1" "ar_task_list (ag_res g2) = ar_task_list (ag_res g1)"
    "ag_eth g2 = Some e" "server_abs e (ag_servers g2) xs" "ha_ptz_turn h = None" "ha_srv_turn h = None"
  shows "agx_main b sigs meanwhile h g = None \<and>
    ((\<exists>g3. agx_stop h (g2\<lparr>ag_res := (ag_res g2)\<lparr>ar_task_list := Some (ag_threads g2)\<rparr>\<rparr>) = Some (g3, 0)) \<longleftrightarrow>
      ptz_tid (ag_cam g2) \<and> st_phase (ag_cam g2) \<noteq> St_created \<and> us_pid (sUdpSocket (ag_ptz g2)) \<and> us_pid (ag_srv_udp g2) \<and>
      detect_task_pid (ag_detect g2) \<and> dt_begun (ag_detect g2))"
proof -
  from agx_start_threads [OF assms(1,3)] have th: "set (ag_threads g2) \<subseteq> {fst (snd (snd (bo_alg b)))}" "length (ag_threads g2) \<le> 1"
    "ar_task_list (ag_res g2) = Some [0]" using assms(6,7) by simp_all
  then have "agx_stop h g2 = None" using agx_stop_wrong assms(4) by (metis empty_iff insertE subsetD)
  moreover have "ag_threads g2 = [] \<or> (\<exists>t. ag_threads g2 = [t])" using th(2) by (cases "ag_threads g2") auto
  ultimately show ?thesis
    using assms(1,2,5) agx_stop_returns [of g2 e xs h] assms(8-11) by (auto simp: agx_main_def)
qed

text \<open>A program that is told to stop after its camera thread and its search task have begun.\<close>

definition ex_halt :: "nat halt" where
  "ex_halt = \<lparr>ha_replies = (\<lambda>_. ex_ans False 0), ha_ptz_turn = None, ha_alg_turn = id, ha_task = (True, 0), ha_srv_turn = None\<rparr>"

definition ex_meanwhile :: "(unit, unit, nat, unit) agx \<Rightarrow> (unit, unit, nat, unit) agx" where
  "ex_meanwhile g = g\<lparr>ag_cam := stream_start (ag_cam g), ag_detect := detect_begin (ag_detect g)\<rparr>"

theorem agx_main_joins_wrong_thread_witness:
  "agx_main ex_boot [15, 2] ex_meanwhile ex_halt ex_agx = None \<and>
   (\<exists>g1 g2. agx_start ex_boot ex_agx = Some (g1, None) \<and> ag_threads g1 = [77] \<and>
     agx_stop ex_halt (ex_meanwhile g1\<lparr>ag_res := (ag_res (ex_meanwhile g1))\<lparr>ar_task_list := Some [77]\<rparr>\<rparr>) = Some (g2, 0))"
proof -
  from agx_starts_state [OF ex_agx_cold ex_boot_granted] obtain g1 where g1: "agx_start ex_boot ex_agx = Some (g1, None)"
    "in_place ex_boot 1 2 5 g1" by blast
  then obtain e where e: "ag_eth g1 = Some e" "server_abs e (ag_servers g1) [5]" by (auto simp: in_place_def)
  have s: "fold sig_handler [15, 2] False" "ag_threads ex_agx = []" "fst (snd (snd (bo_alg ex_boot))) \<noteq> 0"
    by (simp_all add: sig_handler_def ex_agx_def ex_boot_def)
  have m: "ag_threads (ex_meanwhile g1) = ag_threads g1" "ar_task_list (ag_res (ex_meanwhile g1)) = ar_task_list (ag_res g1)"
    "ag_eth (ex_meanwhile g1) = Some e" "server_abs e (ag_servers (ex_meanwhile g1)) [5]"
    "ha_ptz_turn ex_halt = None" "ha_srv_turn ex_halt = None" using e by (simp_all add: ex_meanwhile_def ex_halt_def)
  have "ag_threads g1 = [77]" "ptz_tid (ag_cam g1)" "us_pid (sUdpSocket (ag_ptz g1))" "us_pid (ag_srv_udp g1)" "detect_task_pid (ag_detect g1)"
    using g1(2) by (simp_all add: in_place_def udp_open_def ex_boot_def)
  with agx_main_joins_wrong_thread [of ex_boot ex_agx g1 "[15, 2]" "ex_meanwhile g1" ex_meanwhile e "[5]" ex_halt, OF g1(1) s refl m] g1(1) m(1) show ?thesis
    by (auto simp: ex_meanwhile_def stream_start_def detect_begin_def)
qed

text \<open>Once it has been initialised, the log never hands zlog a category that is missing, whatever the order of the calls.\<close>

datatype log_op = Log_init "string option" "string option" i32 | Log_change "string option" | Log_deinit

fun log_do :: "(string \<Rightarrow> nat option) \<Rightarrow> log_op \<Rightarrow> log_state \<Rightarrow> log_state" where
  "log_do cats (Log_init p n r) s = fst (skyfend_log_init p n r cats s)"
| "log_do cats (Log_change n) s = fst (change_cur_log_category n cats s)"
| "log_do cats Log_deinit s = skyfend_log_deinit s"

theorem log_category_present:
  "skyfend_log level format (fold (log_do cats) ops \<lparr>cur_category = None, init_flg = 0\<rparr>) \<noteq> Some To_null_category"
proof -
  have "init_flg (fold (log_do cats) ops s) = 0 \<or> cur_category (fold (log_do cats) ops s) \<noteq> None"
    if "init_flg s = 0 \<or> cur_category s \<noteq> None" for s
    using that
  proof (induction ops arbitrary: s)
    case (Cons op ops)
    have "init_flg (log_do cats op s) = 0 \<or> cur_category (log_do cats op s) \<noteq> None"
      using Cons.prems by (cases op)
        (auto simp: skyfend_log_init_def change_cur_log_category_def skyfend_log_deinit_def split: option.splits prod.splits if_splits)
    from Cons.IH [OF this] show ?case by simp
  qed simp
  from this [of "\<lparr>cur_category = None, init_flg = 0\<rparr>"] show ?thesis
    by (auto simp: skyfend_log_def split: option.splits)
qed

text \<open>The clock in milliseconds does not go back when the system's does not, within the range of 64 bits.\<close>
theorem sysport_time_count_mono:
  assumes "0 \<le> sec" "0 \<le> nsec" "nsec < 1000000000" "0 \<le> nsec'" "nsec' < 1000000000" "sec < sec' \<or> sec = sec' \<and> nsec \<le> nsec'" "sec' < 2 ^ 53"
  shows "snd (sysport_time_count sec nsec) \<le> snd (sysport_time_count sec' nsec')"
proof -
  have "sec \<le> sec'" "sec = sec' \<Longrightarrow> nsec \<le> nsec'" using assms(6) by auto
  moreover have d: "0 \<le> nsec div 1000000" "nsec div 1000000 < 1000" "0 \<le> nsec' div 1000000" "nsec' div 1000000 < 1000"
    using assms(2-5) by (simp_all add: pos_imp_zdiv_nonneg_iff div_less_iff_less_mult)
  moreover have "nsec \<le> nsec' \<Longrightarrow> nsec div 1000000 \<le> nsec' div 1000000" by (simp add: zdiv_mono1)
  ultimately have le: "1000 * sec + nsec div 1000000 \<le> 1000 * sec' + nsec' div 1000000" by (cases "sec = sec'") auto
  have r: "0 \<le> 1000 * sec + nsec div 1000000" "1000 * sec' + nsec' div 1000000 < 2 ^ 64" using assms(1,7) d by simp_all
  have "uint (of_int x :: u64) = x" if "0 \<le> x" "x < 2 ^ 64" for x using that by (simp add: uint_word_of_int)
  note u = this [OF r(1) order.strict_trans1 [OF le r(2)]] this [OF order.trans [OF r(1) le] r(2)]
  show ?thesis unfolding sysport_time_count_def snd_conv word_le_def u by (rule le)
qed

theorem sysport_time_count_mono_witness:
  "snd (sysport_time_count 3 999999999) \<le> snd (sysport_time_count 4 0)"
  by (rule sysport_time_count_mono) simp_all

end
