(* ===== verification/Spec2Isabelle.thy ===== *)
theory Spec2Isabelle
  imports Alink_Upload Sysport_Timer Link_Callbacks Radar_To_Head Ai_Runs Skyfend_Tools App_Main
begin

text \<open>
  Verification of the AGX controller of the PTZ counter-drone system (\<^verbatim>\<open>src/src\<close>, C with C++ parts).

  \<^bold>\<open>The program.\<close> The controller sits between radars, a C2 station and a pan-tilt camera head. Radars and the
  AGX find each other by UDP broadcast (\<^verbatim>\<open>srv/eth_link\<close>); then TCP connections carry packages of the alink protocol
  (\<^verbatim>\<open>srv/alink\<close>), whose handlers pass tracks to the algorithm task (\<^verbatim>\<open>common/sysport/task\<close>) and whose uploads send
  heartbeats and targets to the C2 station. The head speaks a datagram protocol of its own
  (\<^verbatim>\<open>srv/eth_link/ptz_protocol\<close>, \<^verbatim>\<open>eth_link_ptz.c\<close>).

  \<^bold>\<open>Conventions.\<close> Bytes are \<^typ>\<open>u8\<close>, integers words of their width, or \<^typ>\<open>int\<close> for \<^verbatim>\<open>int32_t\<close> results, coordinates
  and counters. Incrementing the largest \<^verbatim>\<open>int\<close> is undefined (\<open>int_inc\<close>); sums of coordinates are taken to stay in range.
  An operation that reads or writes outside the memory it may use, dereferences null, joins a thread that does not exist or
  does not return is \<open>None\<close>; so \<open>f x = Some y\<close> says that the code returns \<open>y\<close> and stays inside its memory.
  Linked lists that share nodes with their users are stores of nodes by address; \<open>hlist\<close> relates them to lists.
  Function pointers are names of type \<open>'c\<close> or \<open>'s\<close> with an interpreter argument. The operating system (sockets,
  threads, files, the allocator, the clock) is an argument: what its calls return. Loops that need not end are
  \<^theory_text>\<open>partial_function (option)\<close>; no fuel is used. The port search tries a hundred candidates, as in the source.

  \<^bold>\<open>Theories\<close>, in the order of their dependencies.

  \<^item> \<^verbatim>\<open>Ptz_Prelude\<close>: machine types, memory (\<open>load8\<close>, \<open>loadn\<close>, \<open>storen\<close>), little-endian bytes, stores of linked nodes with
    the locale \<open>linked_nodes\<close>.
  \<^item> \<^verbatim>\<open>Crc_X25\<close> (\<^verbatim>\<open>check/checksum.c\<close>): the CRC routines; the nibble arithmetic is the bitwise CRC-16/X.25 register, and
    it detects bursts of two bytes.
  \<^item> \<^verbatim>\<open>Alink_Check\<close> (\<^verbatim>\<open>check/alink_check.c\<close>): package sizes and checks; \<open>valid_package\<close> is the package contract and the check
    decides it, apart from a length of zero, where it reads one byte too many; it refuses every package of which one byte was damaged.
  \<^item> \<^verbatim>\<open>Alink_Recv\<close> (\<^verbatim>\<open>analysis/alink_recv.c\<close>): the receive machine over pointers into live memory; it refines a machine that takes one byte
    at a time, returns on every input and delivers each package once.
  \<^item> \<^verbatim>\<open>Alink_Frame\<close>, \<^verbatim>\<open>Alink_Order\<close> (\<^verbatim>\<open>alink_socket.c\<close>, \<^verbatim>\<open>alink_order.c\<close>, \<^verbatim>\<open>alink.c\<close>): sealing packages, dispatch, the command registries.
  \<^item> \<^verbatim>\<open>Alink_Upload\<close> (\<^verbatim>\<open>upload/*.c\<close>): packages, their receivers and the send loop.
  \<^item> \<^verbatim>\<open>C_Struct\<close>: layouts of packed structs, with the laws of reading and writing members.
  \<^item> \<^verbatim>\<open>Alink_Commands\<close> (\<^verbatim>\<open>command/*/*.c\<close>, \<^verbatim>\<open>alg_interface.c\<close>): every command handler and packer, and \<^verbatim>\<open>alink_init\<close>.
  \<^item> \<^verbatim>\<open>Sysport_Task\<close> (\<^verbatim>\<open>common/sysport/task\<close>): the task queue as a step relation of posters and worker, its failed reads, and what two
    threads do to the allocation counter, which no lock protects.
  \<^item> \<^verbatim>\<open>App_Networks\<close> (\<^verbatim>\<open>app/radars_network\<close>, \<^verbatim>\<open>app/c2_network\<close>): reassembly from a stream, C2 stations and their uploads.
  \<^item> \<^verbatim>\<open>Udp_Socket\<close>, \<^verbatim>\<open>Tcp_Sockets\<close> (\<^verbatim>\<open>eth_link/socket/*.c\<close>): creation, threads, sending, closing; the locale \<open>socket_thread\<close> is the
    contract between a socket and its user, interpreted for the client and the server. Whoever ends a UDP socket joins its thread
    (\<open>udp_socket_join\<close>).
  \<^item> \<^verbatim>\<open>Netcon_Protocol\<close>, \<^verbatim>\<open>Eth_Link_Server\<close>, \<^verbatim>\<open>Eth_Link\<close> (\<^verbatim>\<open>eth_protocol/netcon_protocol.c\<close>, \<^verbatim>\<open>eth_link_server.c\<close>, \<^verbatim>\<open>eth_link.c\<close>): the discovery
    protocol and its two ends, with the invariants of the server and the client lists.
  \<^item> \<^verbatim>\<open>Link_Callbacks\<close> (the forwarding callbacks of both ends): what the user of a link sees of its sockets, locale \<open>link_side\<close>,
    with the events of several servers interleaved.
  \<^item> \<^verbatim>\<open>Ptz_Protocol\<close>, \<^verbatim>\<open>Eth_Link_Ptz\<close>, \<^verbatim>\<open>Ptz_Control\<close>, \<^verbatim>\<open>Ptz_Handlers\<close> (\<^verbatim>\<open>ptz_protocol/*.c\<close>, \<^verbatim>\<open>eth_link_ptz.c\<close>, the handlers of \<^verbatim>\<open>ai_main.cpp\<close>
    and \<^verbatim>\<open>ptz_app.cpp\<close>): the datagrams of the head, the commands sent to it (locale \<open>ptz_sender\<close>) and the messages received.
  \<^item> \<^verbatim>\<open>Alg_Targets\<close> (\<^verbatim>\<open>alg_interface.c\<close>, \<^verbatim>\<open>app/alg_app\<close>): the target list between the algorithm task and the fusion thread; it refines a
    bounded queue with a slot for the user target (locale \<open>target_store\<close>). Shutting down joins the threads of the task list.
  \<^item> \<^verbatim>\<open>Machine_Float\<close>: floating-point arithmetic as a record of operations, an argument of what computes with it; a fixed-point and a
    real instance.
  \<^item> \<^verbatim>\<open>Guide_Targets\<close>, \<^verbatim>\<open>Ai_Main\<close> (\<^verbatim>\<open>ai_alg/guide.cpp\<close>, \<^verbatim>\<open>tf.cpp\<close>, \<^verbatim>\<open>ai_main.cpp\<close>): reading and choosing targets, the geometry (in exact arithmetic that of
    the sphere), the commands sent to the head and the guidance on each image.
  \<^item> \<^verbatim>\<open>Ai_Runs\<close> (\<^verbatim>\<open>ai_main.cpp\<close>): the guidance loops before the present one, over the results of detector and tracker, the scans
    of a region and the upload of detected targets.
  \<^item> \<^verbatim>\<open>Skyfend_Tools\<close>, \<^verbatim>\<open>Storage\<close> (\<^verbatim>\<open>common/tools\<close>, \<^verbatim>\<open>common/storage\<close>): helpers, directories, files; the storage refines a map.
  \<^item> \<^verbatim>\<open>Ptz_App\<close> (\<^verbatim>\<open>ptz_app.cpp\<close>): the camera thread and its queue of images (locale \<open>frame_source\<close>), start and end of the link to the head.
  \<^item> \<^verbatim>\<open>Radar_To_Head\<close>: the way of a radar track through handler, task, target list and inference thread to the datagrams for the head.
  \<^item> \<^verbatim>\<open>Sysport_Timer\<close> (\<^verbatim>\<open>common/sysport/timer\<close>): timers that run a number of times; an expiration is cut at its accesses to the module, and
    expirations, each on a thread of its own, interleave.
  \<^item> \<^verbatim>\<open>App_Main\<close> (\<^verbatim>\<open>main.c\<close>, \<^verbatim>\<open>common.c\<close>, \<^verbatim>\<open>sysport_time.c\<close>, \<^verbatim>\<open>device_network_manager.c\<close>, \<^verbatim>\<open>skyfend_log.c\<close>): start-up of the whole program, and
    its shutdown, which never comes to its end.
  \<^item> This theory: the first radar and the handshake that spans both ends of the discovery protocol.

  \<^bold>\<open>What is shown.\<close> For each component its functional behaviour on all branches, the invariants its operations
  keep, refinement of an abstract machine or map where it has such a contract, and round trips of every protocol. Where
  the code does not do what it means to, a theorem states what it does: pointers into dead buffers, lists that lose nodes, lengths
  taken from the wire, a loop that never ends.

  \<^bold>\<open>Threads.\<close> Operations under a mutex are one step. The task queue, the TCP threads and closing threads, the camera thread and its users and the
  expirations of a timer are interleaved explicitly; other races inside
  one step (for instance of \<^verbatim>\<open>psRoot\<close> being set after the server thread has been started) are outside the model. The allocation counter is one
  \<^verbatim>\<open>int\<close> that all threads increment without a lock: each part counts its own allocations, so that the statements about it hold
  as long as no other thread counts at the same time, and \<open>counter_loses_update\<close> shows what happens otherwise. Joining a thread
  lets it take its last turn, whose input is an argument, and is \<open>None\<close> for a thread that was not created or does not end.

  \<^bold>\<open>Not modelled\<close>: inference and object tracking (\<^verbatim>\<open>srv/algs/yolov8_infer\<close>), third-party code on TensorRT, OpenCV and Eigen, whose results are arguments;
  the code of \<^verbatim>\<open>alink_track.c\<close> under \<^verbatim>\<open>SUPPORT_RADAR_LEAD_PTZ_DIRECTLY\<close>, which is never defined; the vendor SDK under \<^verbatim>\<open>doc\<close>, a
  program of its own.
\<close>

subsection \<open>The first radar\<close>

text \<open>
  The first radar: once the servers are registered (with a serial number that is not yet a radar's), a radar that answers is
  given the server that already listens on the first port, and that port is announced to it.
\<close>

lemma first_radar_takes_initial_server:
  assumes "radar_network_init True (Some ip) after (Some p) True cbk None st cnt = Some (Some e, st', cnt', 0)"
    "c_prefix 32 sn \<noteq> node_sn st' p" "32 \<le> length sn"
  shows "\<exists>st''. eth_link_create_server new created cbk' sn (Some e) st' cnt' = Some (Some e, st'', cnt', 0) \<and>
    radar_sn (st'' p) = take 32 sn \<and> cur_con e = AGX_DEFAULT_PORT_HEAD \<and> ts_wlocalPort (st'' p) = AGX_DEFAULT_PORT_HEAD"
proof -
  let ?bs = "take 32 (NETPOTOCAL_INITILA_SN @ after)"
  have l: "24 \<le> length after"
    using assms(1) by (auto simp: radar_network_init_def eth_server_register_def eth_link_add_tcp_server_list_def
        eth_link_create_tcp_server_list_def loadn_def NETPOTOCAL_INITILA_SN_def Let_def split: if_splits)
  have e: "el_list e = Some p" "el_net e = RTH_LINK_NET_TCP_CLIENT" "cur_con e = AGX_DEFAULT_PORT_HEAD"
    "radar_sn (st' p) = ?bs" "ts_wlocalPort (st' p) = AGX_DEFAULT_PORT_HEAD" "ts_psNext (st' p) = None"
    using assms(1) by (auto simp: radar_network_init_def eth_server_register_def eth_link_add_tcp_server_list_def
        eth_link_create_tcp_server_list_def loadn_def Let_def split: if_splits)
  have i: "is_init (radar_sn (st' p))"
    unfolding e(4) by (simp add: strncmp_eq_def c_prefix_def NETPOTOCAL_INITILA_SN_def)
  have w: "sn_walk st' sn p 1 = Some (False, p, 1)"
    using assms(2) e(6) by (simp add: sn_walk.simps strncmp_eq_def)
  show ?thesis
    using e i w assms(3) by (simp add: eth_link_create_server_def eth_link_add_tcp_server_list_def loadn_def)
qed

subsection \<open>The discovery handshake\<close>

lemma dev_info_sn:
  assumes "length sn < 32" "0 \<notin> set sn"
  shows "sn_field (dev_info sn @ m) = Some sn" "take 32 (drop 4 (dev_info sn @ m)) = strncpy_c 32 sn"
    "c_prefix 32 (drop 4 (dev_info sn @ m)) = sn" "36 \<le> length (dev_info sn @ m)"
proof -
  let ?r = "le_bytes 2 (3 :: u16) @ le_bytes 2 (1 :: u16) @ strncpy_c 64 DEV_VERSION @ m"
  have d: "drop 4 (dev_info sn @ m) = strncpy_c 64 sn @ ?r"
    by (simp add: dev_info_def del: le_bytes.simps)
  have s64: "strncpy_c 64 sn = sn @ replicate (64 - length sn) 0" and s32: "strncpy_c 32 sn = sn @ replicate (32 - length sn) 0"
    using assms(1) by (simp_all add: strncpy_c_def)
  obtain k where k: "64 - length sn = Suc k" using assms(1) by (cases "64 - length sn") auto
  obtain j where j: "32 - length sn = Suc j" using assms(1) by (cases "32 - length sn") auto
  have t: "takeWhile (\<lambda>c. c \<noteq> 0) (sn @ 0 # ys) = sn" for ys using assms(2) by (induction sn) auto
  show "sn_field (dev_info sn @ m) = Some sn"
    unfolding sn_field_def d s64 by (simp add: k t)
  show t32: "take 32 (drop 4 (dev_info sn @ m)) = strncpy_c 32 sn"
    unfolding d s64 s32 using assms(1) by (simp add: min_def)
  show "c_prefix 32 (drop 4 (dev_info sn @ m)) = sn"
    unfolding c_prefix_def t32 s32 by (simp add: j t)
  show "36 \<le> length (dev_info sn @ m)" by simp
qed

lemma get_sn_again: "eth_protocol_get_sn snf b = (sn, b') \<Longrightarrow> eth_protocol_get_sn snf b' = (sn, b')"
  by (auto simp: eth_protocol_get_sn_def Let_def split: option.splits if_splits)

text \<open>The device's part of the handshake: a search is answered when the device has no client yet.\<close>

lemma device_answers:
  assumes "eth_protocol_get_detect_package (replicate 47 0) = Some (m0, 47)" "eth_protocol_get_sn snf (ls_sn s) = (sn, buf)"
    "hlist lk_next (ls_lists s) (ls_head s) rs" "\<And>r. r \<in> set rs \<Longrightarrow> lk_list (ls_lists s r) = None"
    "ls_bFlagTick s" "length stale = 64" "length junk = 147" "htonl_u32 addr \<noteq> local_ip"
  shows "link_udp_cbk_data new created cbk snf junk stale local_ip sk (47, m0, addr) s =
    Some (sk, s\<lparr>ls_sn := buf, ls_bFlagTick := False, ls_uSendIp := 0xFFFFFFFF\<rparr>,
      replicate 3 (addr OR 0xFF, frame 0 0xFF DEV_ID_AGX 0xBB 0 (dev_info sn)))"
proof -
  define q where "q = le_bytes 4 PROTOCOL_ID @ replicate 32 (0 :: u8)"
  have m0: "m0 = frame 0 0xFF DEV_ID_AGX NETPROTOCAL_MSG_ID_LOOKUP 0 q" "length m0 = 47" "length q = 36"
    using assms(1) detect_package [of "replicate 47 0"] by (auto simp: q_def)
  let ?buf = "m0 @ drop 47 stale" and ?s = "s\<lparr>ls_uSendIp := addr OR 0xFF\<rparr>"
  have st: "storen stale 0 (take (nat 47) m0) = Some ?buf" using m0(2) assms(6) by (simp add: storen_def)
  have "valid_package m0" unfolding m0(1) by (rule valid_frame) (simp add: m0(3))
  then have a: "eth_protocol_analysis ?buf 47 = Some (Some 9)"
    using eth_protocol_analysis_valid [of ?buf 47] m0(2) by simp
  have i: "load8 ?buf 6 = Some 0xBA"
    using m0(2) by (simp add: load8_def nth_append) (simp add: m0(1) nth_frame_head NETPROTOCAL_MSG_ID_LOOKUP_def)
  have "take 36 (drop 9 m0) = q"
    using payload_frame [of q 0 "0xFF" DEV_ID_AGX NETPROTOCAL_MSG_ID_LOOKUP 0] m0(1,3) by simp
  then have "take 36 (drop 9 m0) ! 4 = q ! 4" by (simp only:)
  then have "drop 9 m0 ! 4 = 0" by (simp add: q_def nth_append del: le_bytes.simps)
  then have c: "load8 (drop 9 ?buf) 4 = Some 0" using m0(2) by (simp add: load8_def nth_append)
  have "sender_walk ?s addr (ls_head ?s) = Some (List.find (\<lambda>r. lk_net (ls_lists ?s r) = RTH_LINK_NET_TCP_CLIENT \<and>
      (\<exists>x \<in> set []. htonl_u32 (ec_uRemoteIp (ls_clients ?s x)) = addr)) rs)"
    by (rule sender_walk_find) (use assms(3,4) in simp_all)
  then have w: "sender_walk ?s addr (ls_head ?s) = Some None" by (simp add: find_None_iff)
  have "link_search_handler snf junk (drop 9 ?buf) addr ?s =
      Some (eth_link_broadcast (frame 0 0xFF DEV_ID_AGX 0xBB 0 (dev_info sn)) (?s\<lparr>ls_sn := buf\<rparr>))"
    using c w devinfo_sends [of junk snf ?s sn buf] assms(2,7) by (simp add: link_search_handler_def)
  then have "link_protocol_handler new created cbk snf junk ?buf 47 addr ?s =
      Some (eth_link_broadcast (frame 0 0xFF DEV_ID_AGX 0xBB 0 (dev_info sn)) (?s\<lparr>ls_sn := buf\<rparr>))"
    using a i by (simp add: link_protocol_handler_def)
  then show ?thesis
    using st assms(5,8) by (simp add: link_udp_cbk_data_def udp_socket_recv_def eth_link_broadcast_def)
qed

text \<open>The server's part: the answer of a new device gets it a server of its own, and the request to connect there.\<close>

lemma server_requests:
  assumes "length sn < 32" "0 \<notin> set sn" "server_abs e st ys" "0 < unat (el_max e)" "unat (el_max e) \<le> 100" "b \<notin> set ys"
    "\<not> is_init (strncpy_c 32 sn)" "sn \<notin> node_sn st ` set ys" "length ys < unat (el_max e)"
    "el_net e = RTH_LINK_NET_TCP_CLIENT" "htonl_u32 uIp \<noteq> server_ip e" "m1 = frame 0 0xFF DEV_ID_AGX 0xBB 0 (dev_info sn)"
  shows "\<exists>e' st' cnt' ys' y. server_udp_cbk_data (Some b) True cbk sk (147, m1, uIp) (Some e) st cnt = Some (sk, Some e', st', cnt',
      Some (uIp OR 0xFF, frame 0 0xFF DEV_ID_AGX NETPROTOCAL_MSG_ID_REQUEST_CONNECT 0 (request_info sn (server_ip e) (ts_wlocalPort (st' y))))) \<and>
    server_abs e' st' ys' \<and> y \<in> set ys' \<and> radar_sn (st' y) = strncpy_c 32 sn"
proof -
  have l: "length m1 = 147" using assms(12) by simp
  let ?buf = "m1 @ replicate 365 0"
  have st: "storen (replicate 512 0) 0 (take (nat 147) m1) = Some ?buf" using l by (simp add: storen_def)
  have "valid_package m1" unfolding assms(12) by (rule valid_frame) simp
  then have a: "eth_protocol_analysis ?buf 147 = Some (Some 9)"
    using eth_protocol_analysis_valid [of ?buf 147] l by simp
  have i: "load8 ?buf 6 = Some NETPROTOCAL_MSG_ID_LOOKUP_RESP"
    using l by (simp add: load8_def nth_append) (simp add: assms(12) nth_frame_head NETPROTOCAL_MSG_ID_LOOKUP_RESP_def)
  have "take 136 (drop 9 m1) = dev_info sn"
    using payload_frame [of "dev_info sn" 0 "0xFF" DEV_ID_AGX "0xBB" 0] assms(12) by simp
  then have "drop 9 m1 = dev_info sn @ drop 136 (drop 9 m1)" using append_take_drop_id [of 136 "drop 9 m1"] by simp
  then obtain m where d: "drop 9 ?buf = dev_info sn @ m" using l by auto
  note f = dev_info_sn [OF assms(1,2), of m]
  have "\<exists>e' st' cnt' ys' y. server_search_handler (Some b) True cbk (dev_info sn @ m) uIp (Some e) st cnt = Some (Some e', st', cnt',
      Some (frame 0 0xFF DEV_ID_AGX NETPROTOCAL_MSG_ID_REQUEST_CONNECT 0 (request_info sn (server_ip e) (ts_wlocalPort (st' y))))) \<and>
    server_abs e' st' ys' \<and> y \<in> set ys' \<and> radar_sn (st' y) = take 32 (drop 4 (dev_info sn @ m))"
    by (rule search_offer [OF assms(3-6) f(4) _ _ assms(9-11) f(1)]) (use f(2,3) assms(1,7,8) in simp_all)
  then obtain e' st' cnt' ys' y where r: "server_search_handler (Some b) True cbk (dev_info sn @ m) uIp (Some e) st cnt = Some (Some e', st', cnt',
      Some (frame 0 0xFF DEV_ID_AGX NETPROTOCAL_MSG_ID_REQUEST_CONNECT 0 (request_info sn (server_ip e) (ts_wlocalPort (st' y)))))"
    "server_abs e' st' ys'" "y \<in> set ys'" "radar_sn (st' y) = strncpy_c 32 sn" unfolding f(2) by blast
  have "server_udp_cbk_data (Some b) True cbk sk (147, m1, uIp) (Some e) st cnt = Some (sk, Some e', st', cnt',
      Some (uIp OR 0xFF, frame 0 0xFF DEV_ID_AGX NETPROTOCAL_MSG_ID_REQUEST_CONNECT 0 (request_info sn (server_ip e) (ts_wlocalPort (st' y)))))"
    using st a i d r(1) by (simp add: server_udp_cbk_data_def udp_socket_recv_def server_protocol_handler_def)
  with r(2-4) show ?thesis by blast
qed

text \<open>
  C5. The handshake of the two halves of the discovery code. A device with a link of type 1 and no client hears the search of
  the server: it answers with its serial number, three times. The server, which does not know that number and has room, sets up a TCP server for
  the device and sends one request. The device obeys: afterwards it has exactly one client, to the server's address
  and to the port of the very server that was set up under its serial number.
\<close>
theorem discovery_handshake:
  assumes "length sn < 32" "0 \<notin> set sn" "sn \<noteq> []" "eth_protocol_get_sn snf (ls_sn s) = (sn, buf)"
    "hlist lk_next (ls_lists s) (ls_head s) [rootl]" "lk_type (ls_lists s rootl) = 1"
    "lk_net (ls_lists s rootl) = RTH_LINK_NET_TCP_CLIENT" "lk_list (ls_lists s rootl) = None" "0 < lk_max (ls_lists s rootl)"
    "ls_bFlagTick s" "length stale = 64" "length junk = 147" "htonl_u32 addr \<noteq> local_ip"
    "server_abs e st ys" "0 < unat (el_max e)" "unat (el_max e) \<le> 100" "b \<notin> set ys"
    "\<not> is_init (strncpy_c 32 sn)" "sn \<notin> node_sn st ` set ys" "length ys < unat (el_max e)"
    "el_net e = RTH_LINK_NET_TCP_CLIENT" "htonl_u32 uIp \<noteq> server_ip e"
    "eth_protocol_get_detect_package (replicate 47 0) = Some (m0, 47)"
  shows "\<exists>s1 m1 e' st' cnt' ys' y m2 s2.
    link_udp_cbk_data None True None snf junk stale local_ip sk (47, m0, addr) s = Some (sk, s1, replicate 3 (addr OR 0xFF, m1)) \<and>
    server_udp_cbk_data (Some b) True cbk ssk (147, m1, uIp) (Some e) st cnt = Some (ssk, Some e', st', cnt', Some (uIp OR 0xFF, m2)) \<and>
    server_abs e' st' ys' \<and> y \<in> set ys' \<and> radar_sn (st' y) = strncpy_c 32 sn \<and>
    link_udp_cbk_data (Some a) True cbk' snf junk stale local_ip sk (51, m2, addr) s1 = Some (sk, s2, []) \<and>
    link_abs s2 rootl [a] \<and> ls_clients s2 a = linked_client (htonl_u32 (server_ip e)) (ts_wlocalPort (st' y)) 5 cbk' rootl"
proof -
  let ?m1 = "frame 0 0xFF DEV_ID_AGX 0xBB 0 (dev_info sn)"
  let ?s1 = "s\<lparr>ls_sn := buf, ls_bFlagTick := False, ls_uSendIp := 0xFFFFFFFF\<rparr>"
  have 1: "link_udp_cbk_data None True None snf junk stale local_ip sk (47, m0, addr) s =
      Some (sk, ?s1, replicate 3 (addr OR 0xFF, ?m1))"
    by (rule device_answers [OF assms(23,4,5) _ assms(10-13)]) (use assms(8) in simp)
  from server_requests [OF assms(1,2,14-22) refl, of cbk ssk cnt] obtain e' st' cnt' ys' y where
    2: "server_udp_cbk_data (Some b) True cbk ssk (147, ?m1, uIp) (Some e) st cnt = Some (ssk, Some e', st', cnt',
      Some (uIp OR 0xFF, frame 0 0xFF DEV_ID_AGX NETPROTOCAL_MSG_ID_REQUEST_CONNECT 0 (request_info sn (server_ip e) (ts_wlocalPort (st' y)))))"
    "server_abs e' st' ys'" "y \<in> set ys'" "radar_sn (st' y) = strncpy_c 32 sn" by metis
  have "unat (lk_max (ls_lists ?s1 rootl)) > 0" using assms(9) by (simp add: word_less_nat_alt)
  then have "\<exists>s'. link_udp_cbk_data (Some a) True cbk' snf junk stale local_ip sk (51,
      frame 0 0xFF DEV_ID_AGX NETPROTOCAL_MSG_ID_REQUEST_CONNECT 0 (request_info sn (server_ip e) (ts_wlocalPort (st' y))), addr) ?s1 =
      Some (sk, s', []) \<and> link_abs s' rootl ([] @ [a]) \<and>
      ls_clients s' a = linked_client (htonl_u32 (server_ip e)) (ts_wlocalPort (st' y)) 5 cbk' rootl"
    by (intro udp_request_connects [OF assms(1-3), where rs = "[rootl]"])
      (use assms(5-8,11,13) get_sn_again [OF assms(4)] in \<open>simp_all add: link_abs_def\<close>)
  then obtain s2 where 3: "link_udp_cbk_data (Some a) True cbk' snf junk stale local_ip sk (51,
      frame 0 0xFF DEV_ID_AGX NETPROTOCAL_MSG_ID_REQUEST_CONNECT 0 (request_info sn (server_ip e) (ts_wlocalPort (st' y))), addr) ?s1 =
      Some (sk, s2, [])" "link_abs s2 rootl [a]"
      "ls_clients s2 a = linked_client (htonl_u32 (server_ip e)) (ts_wlocalPort (st' y)) 5 cbk' rootl" by auto
  show ?thesis using 1 2 3 by blast
qed

definition fresh_links :: eth_links where
  "fresh_links = ex_links\<lparr>ls_lists := (\<lambda>_. link_node 1 RTH_LINK_NET_TCP_CLIENT 10)\<rparr>"

theorem discovery_handshake_witness:
  "\<exists>s1 m1 e' st' cnt' y m2 s2.
    link_udp_cbk_data None True None None (replicate 147 7) (replicate 64 7) 0 ex_udp
      (47, fst (the (eth_protocol_get_detect_package (replicate 47 0))), 0xC0A801C8) fresh_links =
      Some (ex_udp, s1, replicate 3 (0xC0A801C8 OR 0xFF, m1)) \<and>
    server_udp_cbk_data (Some 4096) True None ex_udp (147, m1, 0xC0A80105) (Some eth_list0) (\<lambda>_. undefined) 0 =
      Some (ex_udp, Some e', st', cnt', Some (0xC0A80105 OR 0xFF, m2)) \<and>
    link_udp_cbk_data (Some 3) True None None (replicate 147 7) (replicate 64 7) 0 ex_udp (51, m2, 0xC0A801C8) s1 = Some (ex_udp, s2, []) \<and>
    ls_clients s2 3 = linked_client 0xC0A801C8 (ts_wlocalPort (st' y)) 5 None 1"
proof -
  let ?m0 = "fst (the (eth_protocol_get_detect_package (replicate 47 0)))"
  have m0: "eth_protocol_get_detect_package (replicate 47 0) = Some (?m0, 47)"
    using detect_package [of "replicate 47 0"] by simp
  have sn: "length RADAR_DEFAULT_SN < 32" "0 \<notin> set RADAR_DEFAULT_SN" "RADAR_DEFAULT_SN \<noteq> []" by (simp_all add: RADAR_DEFAULT_SN_def)
  have g: "eth_protocol_get_sn None (ls_sn fresh_links) = (RADAR_DEFAULT_SN, ls_sn fresh_links)" by (simp add: eth_protocol_get_sn_def)
  have d: "hlist lk_next (ls_lists fresh_links) (ls_head fresh_links) [1]" "lk_type (ls_lists fresh_links 1) = 1"
    "lk_net (ls_lists fresh_links 1) = RTH_LINK_NET_TCP_CLIENT" "lk_list (ls_lists fresh_links 1) = None"
    "0 < lk_max (ls_lists fresh_links 1)" "ls_bFlagTick fresh_links"
    by (simp_all add: fresh_links_def ex_links_def link_node_def)
  have i: "\<not> is_init (strncpy_c 32 RADAR_DEFAULT_SN)" by code_simp
  have h: "htonl_u32 0xC0A801C8 \<noteq> 0" "htonl_u32 0xC0A80105 \<noteq> server_ip eth_list0" "htonl_u32 (server_ip eth_list0) = 0xC0A801C8"
    by code_simp+
  have e: "0 < unat (el_max eth_list0)" "unat (el_max eth_list0) \<le> 100" "length ([] :: nat list) < unat (el_max eth_list0)"
    "el_net eth_list0 = RTH_LINK_NET_TCP_CLIENT" by (simp_all add: eth_list0_def AGX_MAX_DEFAULT_NUM_def)
  have s: "length (replicate 64 (7 :: u8)) = 64" "length (replicate 147 (7 :: u8)) = 147" "4096 \<notin> set ([] :: nat list)"
    "RADAR_DEFAULT_SN \<notin> node_sn (\<lambda>_. undefined) ` set []" by simp_all
  from discovery_handshake [OF sn g d(1-6) s(1,2) h(1) eth_list0_abs e(1,2) s(3) i s(4) e(3,4) h(2) m0, of ex_udp None ex_udp 0 3 None]
  show ?thesis unfolding h(3) by blast
qed

end
